(* ===== verification/Prelude.thy ===== *)
theory Prelude
  imports Complex_Main "HOL-Library.List_Lexorder" "HOL-Library.Char_ord"
begin

text \<open>
  Shared vocabulary of the development: the types that stand for Python's strings, clock
  readings and exceptions, the SQL table operations every store of the engine is written
  in, and the contracts (locales) that several components share.

  \<^item> A SQLite table is the list of its rows in rowid order; \<open>SELECT ... fetchone\<close>,
    \<open>UPDATE ... WHERE\<close>, \<open>DELETE ... WHERE\<close> and \<open>cursor.rowcount\<close> are
    \<open>fetchone\<close>, \<open>upd_where\<close>, \<open>del_where\<close> and \<open>rowcount\<close>. A violated
    constraint (PRIMARY KEY, UNIQUE, REFERENCES) raises \<open>sqlite3.IntegrityError\<close>
    and rolls the transaction back: the operation returns \<open>Inl IntegrityError\<close>.
  \<^item> \<open>ORDER BY\<close> is a stable sort: rows with equal keys keep rowid order. Text is
    compared character by character (SQLite's BINARY collation).
  \<^item> Python floats (clock readings, compute units, costs) are \<open>real\<close>: exact
    arithmetic, with no rounding of the last bit.
  \<^item> Clock readings, \<open>uuid4().hex\<close> and random tokens are arguments of the operations
    that draw them.
\<close>

section \<open>Names of the model's types\<close>

type_synonym time = real
type_synonym iso_time = string
type_synonym ('e, 'a) result = "'e + 'a"

text \<open>
  The exceptions a store operation raises: a violated constraint, a value SQLite cannot bind,
  an integer beyond 64 bits; and what Python raises on a value of the wrong type.
\<close>

datatype db_error = IntegrityError | ProgrammingError | OverflowError | AttributeError | TypeError

named_theorems table_simps \<open>rewriting SQL table operations\<close>
named_theorems unique_intros \<open>operations that keep a UNIQUE constraint\<close>

section \<open>SQL table operations\<close>

definition fetchone :: "('r \<Rightarrow> bool) \<Rightarrow> 'r list \<Rightarrow> 'r option" where
  "fetchone p t = List.find p t"

definition upd_where :: "('r \<Rightarrow> bool) \<Rightarrow> ('r \<Rightarrow> 'r) \<Rightarrow> 'r list \<Rightarrow> 'r list" where
  "upd_where p f t = map (\<lambda>r. if p r then f r else r) t"

definition del_where :: "('r \<Rightarrow> bool) \<Rightarrow> 'r list \<Rightarrow> 'r list" where
  "del_where p t = filter (\<lambda>r. \<not> p r) t"

definition rowcount :: "('r \<Rightarrow> bool) \<Rightarrow> 'r list \<Rightarrow> nat" where
  "rowcount p t = length (filter p t)"

definition order_by :: "('r \<Rightarrow> 'k::linorder) \<Rightarrow> 'r list \<Rightarrow> 'r list" where
  "order_by k t = sort_key k t"

definition order_by_desc :: "('r \<Rightarrow> 'k::linorder) \<Rightarrow> 'r list \<Rightarrow> 'r list" where
  "order_by_desc k t = rev (sort_key k (rev t))"

text \<open>\<open>LIMIT n\<close>: a negative bound means no bound.\<close>

definition sql_limit :: "int \<Rightarrow> 'r list \<Rightarrow> 'r list" where
  "sql_limit n t = (if n < 0 then t else take (nat n) t)"

definition unique_on :: "('r \<Rightarrow> 'k) \<Rightarrow> 'r list \<Rightarrow> bool" where
  "unique_on key t \<longleftrightarrow> distinct (map key t)"

text \<open>A nullable UNIQUE column: SQL's NULLs are all distinct.\<close>

definition unique_opt :: "('r \<Rightarrow> 'k option) \<Rightarrow> 'r list \<Rightarrow> bool" where
  "unique_opt key t \<longleftrightarrow> distinct (filter (\<lambda>k. k \<noteq> None) (map key t))"

lemma fetchone_Some [table_simps]: "fetchone p t = Some r \<Longrightarrow> r \<in> set t \<and> p r"
  by (auto simp: fetchone_def find_Some_iff)

lemma fetchone_None [table_simps]: "fetchone p t = None \<longleftrightarrow> (\<forall>r\<in>set t. \<not> p r)"
  by (auto simp: fetchone_def find_None_iff)

lemma fetchone_Nil [simp]: "fetchone p [] = None"
  by (simp add: fetchone_def)

lemma fetchone_Cons [simp]: "fetchone p (r # t) = (if p r then Some r else fetchone p t)"
  by (simp add: fetchone_def)

lemma fetchone_append:
  "fetchone p (s @ t) = (case fetchone p s of Some r \<Rightarrow> Some r | None \<Rightarrow> fetchone p t)"
  by (induction s) auto

lemma fetchone_snoc_new: "p r \<Longrightarrow> \<forall>x\<in>set t. \<not> p x \<Longrightarrow> fetchone p (t @ [r]) = Some r"
  by (induction t) auto

lemma fetchone_snoc_key:
  assumes "key r \<notin> key ` set t"
  shows "fetchone (\<lambda>x. key x = key r) (t @ [r]) = Some r"
  by (rule fetchone_snoc_new) (use assms in \<open>auto, metis image_eqI\<close>)

lemma upd_where_Nil [simp]: "upd_where p f [] = []"
  by (simp add: upd_where_def)

lemma upd_where_Cons [simp]:
  "upd_where p f (r # t) = (if p r then f r else r) # upd_where p f t"
  by (simp add: upd_where_def)

lemma upd_where_append [simp]: "upd_where p f (s @ t) = upd_where p f s @ upd_where p f t"
  by (simp add: upd_where_def)

lemma length_upd_where [simp]: "length (upd_where p f t) = length t"
  by (simp add: upd_where_def)

lemma set_upd_where: "set (upd_where p f t) = (\<lambda>r. if p r then f r else r) ` set t"
  by (simp add: upd_where_def)

lemma map_upd_where_same:
  "(\<And>r. r \<in> set t \<Longrightarrow> p r \<Longrightarrow> key (f r) = key r) \<Longrightarrow> map key (upd_where p f t) = map key t"
  by (auto simp: upd_where_def)

text \<open>Updating rows that keep the key the lookup tests: the lookup finds the same row, updated.\<close>

lemma fetchone_upd_where:
  assumes "\<And>r. r \<in> set t \<Longrightarrow> q (if p r then f r else r) = q r"
  shows "fetchone q (upd_where p f t) = map_option (\<lambda>r. if p r then f r else r) (fetchone q t)"
  using assms
proof (induction t)
  case (Cons r t)
  have "q (if p r then f r else r) = q r" using Cons.prems[of r] by simp
  moreover have "fetchone q (upd_where p f t) = map_option (\<lambda>r. if p r then f r else r) (fetchone q t)"
    using Cons by (meson list.set_intros(2))
  ultimately show ?case by auto
qed simp

lemma set_del_where: "set (del_where p t) = {r \<in> set t. \<not> p r}"
  by (auto simp: del_where_def)

lemma del_where_Nil [simp]: "del_where p [] = []"
  by (simp add: del_where_def)

lemma del_where_Cons [simp]: "del_where p (r # t) = (if p r then del_where p t else r # del_where p t)"
  by (simp add: del_where_def)

lemma del_where_append [simp]: "del_where p (s @ t) = del_where p s @ del_where p t"
  by (simp add: del_where_def)

lemma rowcount_zero: "rowcount p t = 0 \<longleftrightarrow> (\<forall>r\<in>set t. \<not> p r)"
  by (auto simp: rowcount_def filter_empty_conv)

lemma rowcount_pos: "rowcount p t > 0 \<longleftrightarrow> (\<exists>r\<in>set t. p r)"
  by (metis gr0I rowcount_zero not_gr_zero)

lemma set_order_by [simp]: "set (order_by k t) = set t"
  by (simp add: order_by_def)

lemma set_order_by_desc [simp]: "set (order_by_desc k t) = set t"
  by (simp add: order_by_desc_def)

lemma length_order_by [simp]: "length (order_by k t) = length t"
  by (simp add: order_by_def)

lemma sorted_order_by: "sorted (map k (order_by k t))"
  by (simp add: order_by_def)

lemma sorted_order_by_desc: "sorted (rev (map k (order_by_desc k t)))"
  by (simp add: order_by_desc_def rev_map[symmetric])

lemma set_sql_limit: "set (sql_limit n t) \<subseteq> set t"
  by (auto simp: sql_limit_def dest: in_set_takeD)

lemma length_sql_limit: "0 \<le> n \<Longrightarrow> length (sql_limit n t) \<le> nat n"
  by (simp add: sql_limit_def)

lemma sql_limit_all: "int (length t) \<le> n \<Longrightarrow> sql_limit n t = t"
  by (auto simp: sql_limit_def)

text \<open>The head of a descending order is a maximal row.\<close>

lemma order_by_desc_hd:
  assumes "order_by_desc k t = r # rest" and "x \<in> set t"
  shows "k x \<le> k r" and "r \<in> set t"
proof -
  have r: "sort_key k (rev t) = rev rest @ [r]"
    using assms(1) unfolding order_by_desc_def by (metis rev.simps(2) rev_rev_ident)
  have "sorted (map k (rev rest @ [r]))" by (metis r sorted_sort_key)
  moreover have "x \<in> set (rev rest @ [r])" by (metis assms(2) r set_rev set_sort)
  ultimately show "k x \<le> k r" by (auto simp: sorted_append)
  show "r \<in> set t" by (metis assms(1) list.set_intros(1) set_order_by_desc)
qed

section \<open>UNIQUE constraints\<close>

lemma unique_on_Nil [simp]: "unique_on key []"
  by (simp add: unique_on_def)

lemma unique_on_snoc [unique_intros]:
  "unique_on key t \<Longrightarrow> key r \<notin> key ` set t \<Longrightarrow> unique_on key (t @ [r])"
  by (auto simp: unique_on_def)

lemma unique_on_del [unique_intros]: "unique_on key t \<Longrightarrow> unique_on key (del_where p t)"
  by (induction t) (auto simp: unique_on_def set_del_where)

lemma unique_on_upd [unique_intros]:
  "unique_on key t \<Longrightarrow> (\<And>r. r \<in> set t \<Longrightarrow> p r \<Longrightarrow> key (f r) = key r)
    \<Longrightarrow> unique_on key (upd_where p f t)"
  by (simp add: unique_on_def map_upd_where_same)

lemma unique_on_eq:
  "unique_on key t \<Longrightarrow> r \<in> set t \<Longrightarrow> r' \<in> set t \<Longrightarrow> key r = key r' \<Longrightarrow> r = r'"
  by (induction t) (auto simp: unique_on_def rev_image_eqI)

lemma fetchone_unique:
  assumes "unique_on key t" and "r \<in> set t" and "key r = k"
  shows "fetchone (\<lambda>x. key x = k) t = Some r"
proof (cases "fetchone (\<lambda>x. key x = k) t")
  case None
  then show ?thesis using assms by (auto simp: fetchone_None)
next
  case (Some x)
  then have "x \<in> set t" "key x = k" by (auto dest: fetchone_Some)
  then have "x = r" using unique_on_eq[OF assms(1)] assms(2,3) by blast
  with Some show ?thesis by simp
qed

lemma rowcount_unique:
  "unique_on key t \<Longrightarrow> rowcount (\<lambda>x. key x = k) t \<le> 1"
  by (induction t) (auto simp: unique_on_def rowcount_def filter_empty_conv image_iff Bex_def)

section \<open>The contract of a keyed table\<close>

text \<open>
  What every client of a table with a PRIMARY KEY or UNIQUE column relies on: an insert
  that succeeds appends the row and its key was free, and a lookup returns the first row
  with the key. The lemmas are what the stores use of it. A table with several unique
  columns is an instance once per column.
\<close>

locale keyed_table =
  fixes key :: "'r \<Rightarrow> 'k"
    and insert_row :: "'r \<Rightarrow> 'r list \<Rightarrow> (db_error, 'r list) result"
    and lookup :: "'k \<Rightarrow> 'r list \<Rightarrow> 'r option"
  assumes insert_fresh: "insert_row r t = Inr t' \<Longrightarrow> key r \<notin> key ` set t \<and> t' = t @ [r]"
    and lookup_find: "lookup k t = fetchone (\<lambda>r. key r = k) t"
begin

lemma unique_insert: "unique_on key t \<Longrightarrow> insert_row r t = Inr t' \<Longrightarrow> unique_on key t'"
  by (auto dest!: insert_fresh intro: unique_on_snoc)

lemma lookup_insert: "insert_row r t = Inr t' \<Longrightarrow> lookup (key r) t' = Some r"
  by (auto dest!: insert_fresh simp: lookup_find fetchone_snoc_key)

lemma lookup_insert_other:
  "insert_row r t = Inr t' \<Longrightarrow> k \<noteq> key r \<Longrightarrow> lookup k t' = lookup k t"
  by (auto dest!: insert_fresh simp: lookup_find fetchone_append split: option.splits)

lemma lookup_member: "unique_on key t \<Longrightarrow> r \<in> set t \<Longrightarrow> lookup (key r) t = Some r"
  by (simp add: lookup_find fetchone_unique)

lemma lookup_Some: "lookup k t = Some r \<Longrightarrow> r \<in> set t \<and> key r = k"
  by (auto simp: lookup_find dest: fetchone_Some)

lemma lookup_None: "lookup k t = None \<longleftrightarrow> k \<notin> key ` set t"
  by (auto simp: lookup_find fetchone_None)

lemma lookup_upd_same:
  assumes "\<And>r. r \<in> set t \<Longrightarrow> p r \<Longrightarrow> key (f r) = key r"
  shows "lookup k (upd_where p f t) = map_option (\<lambda>r. if p r then f r else r) (lookup k t)"
  unfolding lookup_find by (rule fetchone_upd_where) (use assms in auto)

lemma lookup_deleted: "lookup k (del_where (\<lambda>r. key r = k) t) = None"
  by (auto simp: lookup_find fetchone_None set_del_where)

lemma lookup_delete_other:
  "k \<noteq> k' \<Longrightarrow> lookup k (del_where (\<lambda>r. key r = k') t) = lookup k t"
  unfolding lookup_find by (induction t) auto

end

text \<open>\<open>INSERT OR IGNORE\<close>: the row is added when its unique key is new; else nothing changes.\<close>

definition insert_or_ignore :: "('r \<Rightarrow> 'k) \<Rightarrow> 'r \<Rightarrow> 'r list \<Rightarrow> 'r list \<times> nat" where
  "insert_or_ignore key r t = (if key r \<in> key ` set t then (t, 0) else (t @ [r], 1))"

lemma insert_or_ignore_unique [unique_intros]:
  "unique_on key t \<Longrightarrow> unique_on key (fst (insert_or_ignore key r t))"
  by (auto simp: insert_or_ignore_def intro: unique_on_snoc)

lemma insert_or_ignore_present: "key r \<in> key ` set (fst (insert_or_ignore key r t))"
  by (auto simp: insert_or_ignore_def)

lemma insert_or_ignore_again:
  "key r' = key r \<Longrightarrow> insert_or_ignore key r' (fst (insert_or_ignore key r t))
     = (fst (insert_or_ignore key r t), 0)"
  by (auto simp: insert_or_ignore_def)

section \<open>The contract of a pool of slots\<close>

text \<open>
  The limiter (slots per API key) and the backend registry (slots per backend) hand out
  counted slots with a bound. A bound of \<open>None\<close> is no bound. The lemmas cover every
  sequence of acquisitions and releases.
\<close>

datatype 'k slot_event = Acquire 'k | Release 'k

locale slot_pool =
  fixes used :: "'s \<Rightarrow> 'k \<Rightarrow> nat"
    and bound :: "'s \<Rightarrow> 'k \<Rightarrow> nat option"
    and acquire :: "'k \<Rightarrow> 's \<Rightarrow> 's option"
    and release :: "'k \<Rightarrow> 's \<Rightarrow> 's"
  assumes acquire_guard:
      "acquire k s \<noteq> None \<longleftrightarrow> (case bound s k of None \<Rightarrow> True | Some c \<Rightarrow> used s k < c)"
    and acquire_used: "acquire k s = Some s' \<Longrightarrow> used s' = (used s)(k := Suc (used s k))"
    and acquire_bound: "acquire k s = Some s' \<Longrightarrow> bound s' = bound s"
    and release_used: "used (release k s) = (used s)(k := used s k - 1)"
    and release_bound: "bound (release k s) = bound s"
begin

definition in_bounds :: "'s \<Rightarrow> bool" where
  "in_bounds s \<longleftrightarrow> (\<forall>k c. bound s k = Some c \<longrightarrow> used s k \<le> c)"

primrec slot_step :: "'s \<Rightarrow> 'k slot_event \<Rightarrow> 's" where
  "slot_step s (Acquire k) = (case acquire k s of None \<Rightarrow> s | Some s' \<Rightarrow> s')"
| "slot_step s (Release k) = release k s"

lemma in_bounds_acquire: "in_bounds s \<Longrightarrow> acquire k s = Some s' \<Longrightarrow> in_bounds s'"
  using acquire_guard[of k s]
  by (fastforce simp: in_bounds_def acquire_used acquire_bound split: option.splits)

lemma in_bounds_release: "in_bounds s \<Longrightarrow> in_bounds (release k s)"
  by (auto simp: in_bounds_def release_used release_bound intro: le_trans[OF diff_le_self])

lemma in_bounds_step: "in_bounds s \<Longrightarrow> in_bounds (slot_step s e)"
  by (cases e) (auto intro: in_bounds_acquire in_bounds_release split: option.splits)

lemma in_bounds_run: "in_bounds s \<Longrightarrow> in_bounds (foldl slot_step s es)"
  by (induction es arbitrary: s) (auto intro: in_bounds_step)

lemma bound_step: "bound (slot_step s e) = bound s"
  by (cases e) (auto simp: acquire_bound release_bound split: option.splits)

lemma bound_run: "bound (foldl slot_step s es) = bound s"
  by (induction es arbitrary: s) (auto simp: bound_step)

lemma acquire_release_used: "acquire k s = Some s' \<Longrightarrow> used (release k s') = used s"
  by (auto simp: acquire_used release_used)

lemma other_key_unaffected:
  "k \<noteq> k' \<Longrightarrow> acquire k s = Some s' \<Longrightarrow> used s' k' = used s k'"
  "k \<noteq> k' \<Longrightarrow> used (release k s) k' = used s k'"
  by (auto simp: acquire_used release_used)

end

section \<open>Sums over rows\<close>

lemma sum_list_filter_nonneg:
  fixes f :: "'r \<Rightarrow> real"
  shows "(\<And>r. r \<in> set t \<Longrightarrow> 0 \<le> f r) \<Longrightarrow> 0 \<le> sum_list (map f (filter p t))"
  by (induction t) auto

lemma sum_list_filter_mono:
  fixes f :: "'r \<Rightarrow> real"
  assumes "\<And>r. r \<in> set t \<Longrightarrow> 0 \<le> f r" and "\<And>r. r \<in> set t \<Longrightarrow> p r \<Longrightarrow> q r"
  shows "sum_list (map f (filter p t)) \<le> sum_list (map f (filter q t))"
  using assms by (induction t) (auto intro: add_increasing)

end
