(* ===== verification/Quota.thy ===== *)
theory Quota
  imports Prelude "HOL-Library.Option_ord" "HOL-Library.Multiset"
begin

text \<open>
  The compute-unit quota (\<open>engine/quota\<close>): the cost model of \<open>compute.py\<close>, the
  rolling and weekly windows of \<open>windows.py\<close>, and the usage store of \<open>store.py\<close>,
  whose \<open>usage_events\<close> table is the list of \<open>usage_event\<close> rows.
\<close>

section \<open>The cost model\<close>

record compute_model =
  prompt_weight :: real
  completion_weight :: real

definition actual :: "compute_model \<Rightarrow> int \<Rightarrow> int \<Rightarrow> real \<Rightarrow> real" where
  "actual m prompt_tokens completion_tokens multiplier =
     (of_int prompt_tokens * prompt_weight m + of_int completion_tokens * completion_weight m)
       * multiplier"

definition estimate :: "compute_model \<Rightarrow> int \<Rightarrow> int \<Rightarrow> real \<Rightarrow> real" where
  "estimate m prompt_tokens max_tokens multiplier = actual m prompt_tokens max_tokens multiplier"

definition estimate_prompt_tokens :: "string \<Rightarrow> int" where
  "estimate_prompt_tokens text = max 1 \<lceil>real (length text) / 4\<rceil>"

section \<open>Windows\<close>

definition WINDOW_5H_SECONDS :: real where
  "WINDOW_5H_SECONDS = 5 * 60 * 60"

definition rolling_5h_start :: "time \<Rightarrow> time" where
  "rolling_5h_start now = now - WINDOW_5H_SECONDS"

text \<open>
  \<open>datetime.fromtimestamp(now, tz=UTC)\<close> rounds to the nearest microsecond, ties to
  even. A datetime is its count of microseconds since the epoch, which was a Thursday
  (\<open>weekday() = 3\<close>).
\<close>

definition fromtimestamp :: "time \<Rightarrow> int" where
  "fromtimestamp now =
     (let x = now * 1000000; f = \<lfloor>x\<rfloor>; d = x - of_int f
      in if d < 1 / 2 then f else if 1 / 2 < d then f + 1 else if even f then f else f + 1)"

definition DAY_US :: int where
  "DAY_US = 24 * 60 * 60 * 1000000"

definition weekday :: "int \<Rightarrow> int" where
  "weekday dt = (dt div DAY_US + 3) mod 7"

definition week_start :: "time \<Rightarrow> time" where
  "week_start now =
     (let dt = fromtimestamp now;
          midnight = dt div DAY_US * DAY_US;
          monday = midnight - weekday dt * DAY_US
      in of_int monday / 1000000)"

definition week_reset :: "time \<Rightarrow> time" where
  "week_reset now = week_start now + 7 * 24 * 60 * 60"

section \<open>Window usage\<close>

datatype pyfloat = Fin real | Infinity

record window_usage =
  w_used :: real
  w_limit :: real
  w_reset_at :: time

definition remaining :: "window_usage \<Rightarrow> pyfloat" where
  "remaining w = (if w_limit w \<le> 0 then Infinity else Fin (max 0 (w_limit w - w_used w)))"

definition would_exceed :: "window_usage \<Rightarrow> real \<Rightarrow> bool" where
  "would_exceed w additional = (if w_limit w \<le> 0 then False else w_used w + additional > w_limit w)"

section \<open>The usage store\<close>

record usage_event =
  u_ts :: time
  u_key_id :: "string option"
  u_request_id :: string
  u_endpoint :: string
  u_model :: "string option"
  u_prompt_tokens :: int
  u_completion_tokens :: int
  u_cu :: real
  u_status :: "int option"

definition record_usage :: "usage_event \<Rightarrow> usage_event list \<Rightarrow> usage_event list" where
  "record_usage e events = events @ [e]"

definition sum_cu :: "string \<Rightarrow> time \<Rightarrow> usage_event list \<Rightarrow> real" where
  "sum_cu key_id since events =
     sum_list (map u_cu (filter (\<lambda>e. u_key_id e = Some key_id \<and> u_ts e \<ge> since) events))"

definition usage_5h :: "string \<Rightarrow> real \<Rightarrow> time \<Rightarrow> usage_event list \<Rightarrow> window_usage" where
  "usage_5h key_id l now events =
     \<lparr>w_used = sum_cu key_id (rolling_5h_start now) events, w_limit = l, w_reset_at = now + 5 * 60 * 60\<rparr>"

definition usage_weekly :: "string \<Rightarrow> real \<Rightarrow> time \<Rightarrow> usage_event list \<Rightarrow> window_usage" where
  "usage_weekly key_id l now events =
     \<lparr>w_used = sum_cu key_id (week_start now) events, w_limit = l, w_reset_at = week_reset now\<rparr>"

text \<open>
  \<open>attribution\<close>: one row per distinct \<open>key_id\<close> (SQL's NULL group included, first in
  the order of groups), ordered by compute units, busiest first.
\<close>

record key_attribution =
  a_key_id :: "string option"
  a_requests :: nat
  a_prompt_tokens :: int
  a_completion_tokens :: int
  a_cu :: real
  a_last_ts :: "time option"
  a_errors :: nat

definition max_ts :: "usage_event list \<Rightarrow> time option" where
  "max_ts events = (if events = [] then None else Some (Max (u_ts ` set events)))"

definition is_error_event :: "usage_event \<Rightarrow> bool" where
  "is_error_event e = (case u_status e of None \<Rightarrow> False | Some s \<Rightarrow> 400 \<le> s)"

definition attribution_row :: "usage_event list \<Rightarrow> string option \<Rightarrow> key_attribution" where
  "attribution_row rows k =
     (let g = filter (\<lambda>e. u_key_id e = k) rows
      in \<lparr>a_key_id = k,
          a_requests = length g,
          a_prompt_tokens = sum_list (map u_prompt_tokens g),
          a_completion_tokens = sum_list (map u_completion_tokens g),
          a_cu = sum_list (map u_cu g),
          a_last_ts = max_ts g,
          a_errors = length (filter is_error_event g)\<rparr>)"

definition attribution :: "time \<Rightarrow> usage_event list \<Rightarrow> key_attribution list" where
  "attribution since events =
     (let rows = filter (\<lambda>e. u_ts e \<ge> since) events
      in order_by_desc a_cu (map (attribution_row rows) (sort (remdups (map u_key_id rows)))))"

section \<open>Lemmas on the cost model\<close>

lemma actual_nonneg:
  assumes "0 \<le> prompt_weight m" "0 \<le> completion_weight m" "0 \<le> p" "0 \<le> c" "0 \<le> mul"
  shows "0 \<le> actual m p c mul"
  using assms by (simp add: actual_def)

text \<open>
  The pre-request estimate is an upper bound of the recorded cost whenever the request
  stays within its output cap and its prompt was not underestimated.
\<close>

lemma estimate_bounds_actual:
  assumes "0 \<le> prompt_weight m" "0 \<le> completion_weight m" "0 \<le> mul"
    and "p \<le> est" and "c \<le> max_tokens"
  shows "actual m p c mul \<le> estimate m est max_tokens mul"
  using assms by (auto simp: actual_def estimate_def intro!: mult_right_mono add_mono)

lemma estimate_prompt_tokens_pos: "1 \<le> estimate_prompt_tokens text"
  by (simp add: estimate_prompt_tokens_def)

lemma estimate_prompt_tokens_cover: "int (length text) \<le> 4 * estimate_prompt_tokens text"
proof -
  have "real (length text) / 4 \<le> of_int \<lceil>real (length text) / 4\<rceil>" by (rule le_of_int_ceiling)
  then have "real (length text) \<le> of_int (4 * \<lceil>real (length text) / 4\<rceil>)" by linarith
  then have "int (length text) \<le> 4 * \<lceil>real (length text) / 4\<rceil>"
    by (metis of_int_le_iff of_int_of_nat_eq)
  then show ?thesis by (simp add: estimate_prompt_tokens_def)
qed

section \<open>Lemmas on the windows\<close>

lemma fromtimestamp_close: "\<bar>of_int (fromtimestamp now) - now * 1000000\<bar> \<le> 1 / 2"
  unfolding fromtimestamp_def Let_def by (auto simp: abs_if) linarith+

lemma fromtimestamp_exact: "now * 1000000 = of_int n \<Longrightarrow> fromtimestamp now = n"
  by (simp add: fromtimestamp_def)

lemma week_us:
  defines "W \<equiv> 7 * DAY_US"
  shows "dt div DAY_US * DAY_US - weekday dt * DAY_US = (dt + 3 * DAY_US) div W * W - 3 * DAY_US"
proof -
  define q where "q = dt div DAY_US"
  have "(dt + 3 * DAY_US) div DAY_US = q + 3" by (simp add: DAY_US_def q_def)
  moreover have "(dt + 3 * DAY_US) div (DAY_US * 7) = (dt + 3 * DAY_US) div DAY_US div 7"
    by (rule zdiv_zmult2_eq) simp
  ultimately have "(dt + 3 * DAY_US) div W = (q + 3) div 7" by (simp add: W_def mult.commute)
  then have "(dt + 3 * DAY_US) div W * W - 3 * DAY_US = ((q + 3) div 7 * 7 - 3) * DAY_US"
    by (simp add: W_def left_diff_distrib)
  moreover have "(q + 3) div 7 * 7 - 3 = q - (q + 3) mod 7"
    using div_mult_mod_eq[of "q + 3" 7] by linarith
  ultimately have "(q - (q + 3) mod 7) * DAY_US = (dt + 3 * DAY_US) div W * W - 3 * DAY_US"
    by simp
  then show ?thesis by (simp add: weekday_def q_def left_diff_distrib)
qed

lemma week_start_us:
  "week_start now * 1000000 =
     of_int ((fromtimestamp now + 3 * DAY_US) div (7 * DAY_US) * (7 * DAY_US) - 3 * DAY_US)"
  unfolding week_start_def Let_def using week_us[of "fromtimestamp now"] by simp

text \<open>The instant read as a datetime lies in the week that starts at \<open>week_start\<close>.\<close>

lemma week_start_bounds:
  "week_start now * 1000000 \<le> of_int (fromtimestamp now)"
  "of_int (fromtimestamp now) < (week_start now + 604800) * 1000000"
proof -
  let ?x = "fromtimestamp now + 3 * DAY_US" and ?W = "7 * DAY_US"
  have W: "0 < ?W" by (simp add: DAY_US_def)
  have "?x div ?W * ?W \<le> ?x" using div_mult_mod_eq[of ?x ?W] pos_mod_sign[OF W, of ?x] by linarith
  then have a: "?x div ?W * ?W - 3 * DAY_US \<le> fromtimestamp now" by linarith
  have "?x < ?x div ?W * ?W + ?W" using div_mult_mod_eq[of ?x ?W] pos_mod_bound[OF W, of ?x] by linarith
  then have b: "fromtimestamp now < ?x div ?W * ?W - 3 * DAY_US + ?W" by linarith
  show "week_start now * 1000000 \<le> of_int (fromtimestamp now)"
    using a unfolding week_start_us by linarith
  have "real_of_int (fromtimestamp now) < of_int (?x div ?W * ?W - 3 * DAY_US + ?W)"
    using b by linarith
  then show "of_int (fromtimestamp now) < (week_start now + 604800) * 1000000"
    using week_start_us[of now] by (simp add: DAY_US_def algebra_simps)
qed

text \<open>Two instants whose datetimes fall in one week have the same window.\<close>

lemma week_start_unique:
  assumes "week_start a * 1000000 \<le> of_int (fromtimestamp b)"
    and "of_int (fromtimestamp b) < (week_start a + 604800) * 1000000"
  shows "week_start b = week_start a"
proof -
  let ?W = "7 * DAY_US" and ?xa = "fromtimestamp a + 3 * DAY_US" and ?xb = "fromtimestamp b + 3 * DAY_US"
  let ?q = "?xa div ?W"
  have W: "0 < ?W" by (simp add: DAY_US_def)
  have "real_of_int (?q * ?W - 3 * DAY_US) \<le> of_int (fromtimestamp b)"
    using assms(1) unfolding week_start_us .
  then have lo: "?q * ?W \<le> ?xb" by linarith
  have "real_of_int (fromtimestamp b) < of_int (?q * ?W - 3 * DAY_US + ?W)"
    using assms(2) week_start_us[of a] by (simp add: DAY_US_def algebra_simps)
  then have "fromtimestamp b < ?q * ?W - 3 * DAY_US + ?W" by (simp only: of_int_less_iff)
  then have hi: "?xb < (?q + 1) * ?W" by (simp add: algebra_simps)
  have "?xb div ?W = ?q"
    by (rule int_div_pos_eq[where r = "?xb - ?q * ?W"]) (use lo hi in \<open>auto simp: algebra_simps\<close>)
  then have "week_start b * 1000000 = week_start a * 1000000" by (simp add: week_start_us)
  then show ?thesis by simp
qed

section \<open>Lemmas on the usage store\<close>

lemma sum_cu_record:
  "sum_cu k since (record_usage e events) =
     sum_cu k since events + (if u_key_id e = Some k \<and> u_ts e \<ge> since then u_cu e else 0)"
  by (simp add: sum_cu_def record_usage_def)

lemma sum_cu_antimono:
  assumes "\<And>e. e \<in> set events \<Longrightarrow> 0 \<le> u_cu e" and "s \<le> s'"
  shows "sum_cu k s' events \<le> sum_cu k s events"
  unfolding sum_cu_def using assms by (intro sum_list_filter_mono) auto

lemma would_exceed_iff:
  "0 < w_limit w \<Longrightarrow> would_exceed w a \<longleftrightarrow> w_limit w - w_used w < a"
  by (auto simp: would_exceed_def)

lemma a_cu_attribution_row:
  "a_cu (attribution_row (filter (\<lambda>e. u_ts e \<ge> since) events) (Some k)) = sum_cu k since events"
  by (simp add: attribution_row_def Let_def sum_cu_def conj_commute)

lemma a_key_id_attribution_row [simp]: "a_key_id (attribution_row rows k) = k"
  by (simp add: attribution_row_def Let_def)

lemma set_attribution:
  "set (attribution since events) =
     attribution_row (filter (\<lambda>e. u_ts e \<ge> since) events)
       ` (u_key_id ` {e \<in> set events. u_ts e \<ge> since})"
  by (simp add: attribution_def Let_def)

text \<open>Splitting a sum over rows by group.\<close>

lemma sum_list_by_group:
  fixes f :: "'r \<Rightarrow> real"
  assumes "distinct ks" and "g ` set rows \<subseteq> set ks"
  shows "sum_list (map (\<lambda>k. sum_list (map f (filter (\<lambda>r. g r = k) rows))) ks) = sum_list (map f rows)"
  using assms
proof (induction rows)
  case Nil
  show ?case by simp
next
  case (Cons r rows)
  have "sum_list (map (\<lambda>k. sum_list (map f (filter (\<lambda>x. g x = k) (r # rows)))) ks) =
        sum_list (map (\<lambda>k. (if g r = k then f r else 0) + sum_list (map f (filter (\<lambda>x. g x = k) rows))) ks)"
    by (rule arg_cong[where f = sum_list]) simp
  also have "\<dots> = sum_list (map (\<lambda>k. if g r = k then f r else 0) ks) + sum_list (map f rows)"
    using Cons by (simp add: sum_list_addf)
  also have "sum_list (map (\<lambda>k. if g r = k then f r else 0) ks) = f r"
    using Cons.prems by (simp add: sum_list_map_eq_sum_count2[of ks "set ks"] distinct_count_atmost_1
        sum_list_distinct_conv_sum_set sum.delta)
  finally show ?case by simp
qed

lemma sum_list_rev_sort_key:
  fixes f :: "'r \<Rightarrow> real"
  shows "sum_list (map f (order_by_desc k t)) = sum_list (map f t)"
proof -
  have "sum_list (map f (sort_key k t)) = sum_list (map f t)" for t
    by (metis mset_map mset_sort sum_mset_sum_list)
  then have "sum_list (map f (rev (sort_key k (rev t)))) = sum_list (map f (rev t))"
    by (metis rev_map sum_list_rev)
  then show ?thesis by (simp add: order_by_desc_def rev_map[symmetric])
qed

section \<open>Properties\<close>

text \<open>
  Weekly window. The weekly window opens on a Monday 00:00 UTC, the instant read as a
  datetime lies in \<open>[week_start, week_reset)\<close>, and every other instant of that week
  gets the very same window, so the window does not move with usage.
\<close>

theorem week_window_fixed:
  "(\<exists>d::int. week_start now = of_int d * 86400 \<and> (d + 3) mod 7 = 0) \<and>
   week_start now * 1000000 \<le> of_int (fromtimestamp now) \<and>
   of_int (fromtimestamp now) < week_reset now * 1000000 \<and>
   (\<forall>b. week_start now * 1000000 \<le> of_int (fromtimestamp b) \<and>
        of_int (fromtimestamp b) < week_reset now * 1000000 \<longrightarrow>
        week_start b = week_start now \<and> week_reset b = week_reset now)"
proof -
  let ?q = "(fromtimestamp now + 3 * DAY_US) div (7 * DAY_US)"
  have "week_start now = of_int (7 * ?q - 3) * 86400"
    using week_start_us[of now] by (simp add: DAY_US_def)
  moreover have "((7 * ?q - 3) + 3) mod 7 = 0" by simp
  ultimately have monday: "\<exists>d::int. week_start now = of_int d * 86400 \<and> (d + 3) mod 7 = 0"
    by (intro exI[of _ "7 * ?q - 3"] conjI)
  have reset: "week_reset now = week_start now + 604800" for now by (simp add: week_reset_def)
  have "\<forall>b. week_start now * 1000000 \<le> of_int (fromtimestamp b) \<and>
        of_int (fromtimestamp b) < (week_start now + 604800) * 1000000 \<longrightarrow>
        week_start b = week_start now \<and> week_start b + 604800 = week_start now + 604800"
  proof (intro allI impI, elim conjE)
    fix b assume "week_start now * 1000000 \<le> of_int (fromtimestamp b)"
      and "of_int (fromtimestamp b) < (week_start now + 604800) * 1000000"
    then have "week_start b = week_start now" by (rule week_start_unique)
    then show "week_start b = week_start now \<and> week_start b + 604800 = week_start now + 604800"
      by simp
  qed
  then show ?thesis
    unfolding reset by (intro conjI week_start_bounds monday)
qed

theorem week_window_fixed_witness:
  "week_start (1700000000 + 3600) = week_start 1700000000"
proof -
  have f: "fromtimestamp 1700000000 = 1700000000000000"
      "fromtimestamp (1700000000 + 3600) = 1700003600000000"
    by (simp_all add: fromtimestamp_exact)
  have w: "week_start 1700000000 = 1699833600"
    by (simp add: week_start_def f weekday_def DAY_US_def)
  show ?thesis
    using week_window_fixed[of 1700000000] f w by (auto simp: week_reset_def)
qed

text \<open>
  Attribution reconciles with enforcement. The operator's attribution view since a time
  has exactly one row per key that used the engine, the row's compute units are the sum the
  quota windows enforce for that key, and the rows add up to all recorded usage.
\<close>

theorem attribution_reconciles:
  "distinct (map a_key_id (attribution since events)) \<and>
   (\<forall>r k. r \<in> set (attribution since events) \<and> a_key_id r = Some k \<longrightarrow> a_cu r = sum_cu k since events) \<and>
   sum_list (map a_cu (attribution since events)) =
     sum_list (map u_cu (filter (\<lambda>e. u_ts e \<ge> since) events)) \<and>
   sorted (rev (map a_cu (attribution since events)))"
proof -
  let ?rows = "filter (\<lambda>e. u_ts e \<ge> since) events"
  let ?ks = "sort (remdups (map u_key_id ?rows))"
  have keys: "map a_key_id (map (attribution_row ?rows) ?ks) = ?ks" by (simp add: comp_def)
  have "mset (map a_key_id (attribution since events)) = mset ?ks"
    by (simp add: attribution_def Let_def order_by_desc_def image_mset.compositionality comp_def)
  then have d: "distinct (map a_key_id (attribution since events))"
    by (metis distinct_remdups distinct_sort mset_eq_imp_distinct_iff)
  have "sum_list (map a_cu (attribution since events)) =
        sum_list (map (\<lambda>k. sum_list (map u_cu (filter (\<lambda>e. u_key_id e = k) ?rows))) ?ks)"
    by (simp add: attribution_def sum_list_rev_sort_key comp_def attribution_row_def Let_def)
  also have "\<dots> = sum_list (map u_cu ?rows)" by (rule sum_list_by_group) auto
  finally have s: "sum_list (map a_cu (attribution since events)) = sum_list (map u_cu ?rows)" .
  have r: "a_cu r = sum_cu k since events"
    if "r \<in> set (attribution since events)" "a_key_id r = Some k" for r k
    using that by (auto simp: set_attribution a_cu_attribution_row)
  show ?thesis using d s r sorted_order_by_desc[of a_cu] by (auto simp: attribution_def Let_def)
qed

definition sample_event :: usage_event where
  "sample_event = \<lparr>u_ts = 10, u_key_id = Some ''k'', u_request_id = ''r'', u_endpoint = ''e'',
     u_model = None, u_prompt_tokens = 3, u_completion_tokens = 4, u_cu = 7, u_status = Some 200\<rparr>"

theorem attribution_reconciles_witness:
  "a_cu (attribution_row [sample_event] (Some ''k'')) = sum_cu ''k'' 0 [sample_event]"
proof -
  have "attribution_row [sample_event] (Some ''k'') \<in> set (attribution 0 [sample_event])"
    by (simp add: attribution_def order_by_desc_def sample_event_def)
  then show ?thesis using attribution_reconciles[of 0 "[sample_event]"] by fastforce
qed

end
