(* ===== verification/Database.thy ===== *)
theory Database
  imports Quota
begin

text \<open>
  The tables that several stores share (\<open>engine/store/migrations/*.sql\<close>), as the
  dataclasses of the stores extended by the columns the dataclass leaves out. A row is read
  into its dataclass by dropping those columns (\<open>truncate\<close>), which is what
  \<open>_row_to_record\<close>, \<open>_plan_from_row\<close>, \<open>_client_from_row\<close>, \<open>_sub_from_row\<close>,
  \<open>_endpoint_from_row\<close> and \<open>_delivery_from_row\<close> do. The JSON arrays in
  \<open>plans.allowed_models\<close> and \<open>webhook_endpoints.event_types\<close> are kept decoded.
\<close>

record key_record =
  k_id :: string
  k_prefix :: string
  k_label :: "string option"
  k_created_at :: iso_time
  k_last_used_at :: "iso_time option"
  k_revoked_at :: "iso_time option"
  k_client_id :: "string option"

record api_key_row = key_record +
  k_hash :: string
  k_status :: string

record plan =
  pl_id :: string
  pl_name :: string
  pl_quota_5h_cu :: real
  pl_quota_weekly_cu :: real
  pl_rate_limit_per_min :: "int option"
  pl_allowed_models :: "string list option"

record plan_row = plan +
  pl_created_at :: iso_time

record client =
  c_id :: string
  c_external_ref :: "string option"
  c_email :: "string option"
  c_status :: string

record client_row = client +
  c_created_at :: iso_time

record subscription =
  s_id :: string
  s_client_id :: string
  s_plan_id :: "string option"
  s_provider :: string
  s_provider_sub_id :: string
  s_status :: string
  s_current_period_end :: "string option"

record sub_row = subscription +
  s_updated_at :: iso_time

record webhook_event_row =
  we_provider :: string
  we_event_id :: string
  we_event_type :: "string option"
  we_received_at :: iso_time
  we_processed_at :: "iso_time option"
  we_result :: "string option"

record endpoint =
  ep_id :: string
  ep_client_id :: string
  ep_url :: string
  ep_description :: "string option"
  ep_disabled :: bool
  ep_event_types :: "string list option"

record endpoint_row = endpoint +
  ep_created_at :: iso_time

record secret_row =
  ws_id :: string
  ws_endpoint_id :: string
  ws_secret :: string
  ws_created_at :: iso_time
  ws_expires_at :: "time option"

record delivery =
  dl_id :: string
  dl_endpoint_id :: string
  dl_event_id :: string
  dl_event_type :: string
  dl_payload :: string
  dl_status :: string
  dl_attempts :: int
  dl_next_attempt_at :: time
  dl_last_status_code :: "int option"
  dl_last_error :: "string option"
  dl_created_at :: time
  dl_updated_at :: time

record client_event_row =
  ce_id :: nat
  ce_client_id :: string
  ce_event_id :: string
  ce_type :: string
  ce_payload :: string
  ce_ts :: time

record db =
  api_keys :: "api_key_row list"
  usage_events :: "usage_event list"
  plans :: "plan_row list"
  clients :: "client_row list"
  subscriptions :: "sub_row list"
  webhook_events :: "webhook_event_row list"
  webhook_endpoints :: "endpoint_row list"
  webhook_secrets :: "secret_row list"
  webhook_deliveries :: "delivery list"
  client_events :: "client_event_row list"
  client_events_seq :: nat

definition empty_db :: db where
  "empty_db = \<lparr>api_keys = [], usage_events = [], plans = [], clients = [], subscriptions = [],
     webhook_events = [], webhook_endpoints = [], webhook_secrets = [], webhook_deliveries = [],
     client_events = [], client_events_seq = 0\<rparr>"

text \<open>
  Operations that may fail half way: each statement is its own transaction, so an error
  keeps what earlier statements committed.
\<close>

type_synonym 'a action = "db \<Rightarrow> (db_error, 'a) result \<times> db"

definition bind_action :: "'a action \<Rightarrow> ('a \<Rightarrow> 'b action) \<Rightarrow> 'b action" where
  "bind_action m f s = (case m s of (Inl e, s') \<Rightarrow> (Inl e, s') | (Inr a, s') \<Rightarrow> f a s')"

definition return_action :: "'a \<Rightarrow> 'a action" where
  "return_action a s = (Inr a, s)"

lemma bind_action_Inr [simp]: "m s = (Inr a, s') \<Longrightarrow> bind_action m f s = f a s'"
  by (simp add: bind_action_def)

lemma bind_action_Inl [simp]: "m s = (Inl e, s') \<Longrightarrow> bind_action m f s = (Inl e, s')"
  by (simp add: bind_action_def)

text \<open>An invariant every step keeps is kept by the sequence, whether or not it fails.\<close>

lemma bind_action_inv:
  assumes "\<And>a. P (snd (f a (snd (m s))))" and "P (snd (m s))"
  shows "P (snd (bind_action m f s))"
  using assms by (auto simp: bind_action_def split: prod.splits sum.splits)

lemma return_action_snd [simp]: "snd (return_action a s) = s"
  by (simp add: return_action_def)

end
