(* ===== verification/PyString.thy ===== *)
theory PyString
  imports Prelude
begin

text \<open>
  The operations of Python's \<open>str\<close> that the engine uses, on strings whose characters
  are code points below 256 (HTTP header values reach the application decoded as Latin-1):
  \<open>split\<close>, \<open>partition\<close>, \<open>strip\<close>, \<open>lower\<close>, \<open>startswith\<close>,
  \<open>join\<close>, \<open>isascii\<close>, \<open>int(...)\<close> and \<open>str(...)\<close> on integers, with their
  round trips.
\<close>

definition code :: "char \<Rightarrow> nat" where
  "code c = of_char c"

definition is_space :: "char \<Rightarrow> bool" where
  "is_space c \<longleftrightarrow> (9 \<le> code c \<and> code c \<le> 13) \<or> (28 \<le> code c \<and> code c \<le> 32)
     \<or> code c = 133 \<or> code c = 160"

definition lstrip :: "string \<Rightarrow> string" where
  "lstrip s = dropWhile is_space s"

definition strip :: "string \<Rightarrow> string" where
  "strip s = rev (lstrip (rev (lstrip s)))"

definition lower_char :: "char \<Rightarrow> char" where
  "lower_char c =
     (if (65 \<le> code c \<and> code c \<le> 90) \<or> (192 \<le> code c \<and> code c \<le> 222 \<and> code c \<noteq> 215)
      then char_of (code c + 32) else c)"

definition lower :: "string \<Rightarrow> string" where
  "lower s = map lower_char s"

definition startswith :: "string \<Rightarrow> string \<Rightarrow> bool" where
  "startswith s p \<longleftrightarrow> take (length p) s = p"

definition endswith :: "string \<Rightarrow> string \<Rightarrow> bool" where
  "endswith s p \<longleftrightarrow> length p \<le> length s \<and> drop (length s - length p) s = p"

definition isascii :: "string \<Rightarrow> bool" where
  "isascii s \<longleftrightarrow> (\<forall>c\<in>set s. code c < 128)"

fun split_on :: "char \<Rightarrow> string \<Rightarrow> string list" where
  "split_on c [] = [[]]"
| "split_on c (x # xs) =
     (if x = c then [] # split_on c xs
      else case split_on c xs of [] \<Rightarrow> [[x]] | w # ws \<Rightarrow> (x # w) # ws)"

definition partition_on :: "char \<Rightarrow> string \<Rightarrow> string \<times> string" where
  "partition_on c s = (takeWhile (\<lambda>x. x \<noteq> c) s, tl (dropWhile (\<lambda>x. x \<noteq> c) s))"

text \<open>\<open>str.split()\<close> without an argument: the maximal runs of non-space characters.\<close>

fun split_ws_acc :: "string \<Rightarrow> string \<Rightarrow> string list" where
  "split_ws_acc w [] = (if w = [] then [] else [rev w])"
| "split_ws_acc w (x # xs) =
     (if is_space x then (if w = [] then split_ws_acc [] xs else rev w # split_ws_acc [] xs)
      else split_ws_acc (x # w) xs)"

definition split_ws :: "string \<Rightarrow> string list" where
  "split_ws s = split_ws_acc [] s"

fun join :: "string \<Rightarrow> string list \<Rightarrow> string" where
  "join sep [] = []"
| "join sep [w] = w"
| "join sep (w # v # ws) = w @ sep @ join sep (v # ws)"

section \<open>Integers\<close>

definition is_digit :: "char \<Rightarrow> bool" where
  "is_digit c \<longleftrightarrow> 48 \<le> code c \<and> code c \<le> 57"

text \<open>
  Digits with single underscores between them; \<open>need\<close> says that a digit must follow.
\<close>

fun int_digits :: "bool \<Rightarrow> nat \<Rightarrow> string \<Rightarrow> nat option" where
  "int_digits need acc [] = (if need then None else Some acc)"
| "int_digits need acc (c # cs) =
     (if is_digit c then int_digits False (10 * acc + (code c - 48)) cs
      else if c = CHR ''_'' \<and> \<not> need then int_digits True acc cs
      else None)"

text \<open>\<open>int(s)\<close>: \<open>None\<close> is \<open>ValueError\<close> (also raised beyond 4300 digits).\<close>

definition py_int :: "string \<Rightarrow> int option" where
  "py_int s =
     (let t = strip s
      in if 4300 < length (filter is_digit t) then None
         else case t of
             [] \<Rightarrow> None
           | c # cs \<Rightarrow>
               if c = CHR ''-'' then map_option (\<lambda>n. - int n) (int_digits True 0 cs)
               else if c = CHR ''+'' then map_option int (int_digits True 0 cs)
               else map_option int (int_digits True 0 t))"

fun str_of_nat :: "nat \<Rightarrow> string" where
  "str_of_nat n = (if n < 10 then [char_of (48 + n)] else str_of_nat (n div 10) @ [char_of (48 + n mod 10)])"

declare str_of_nat.simps [simp del]

definition str_of_int :: "int \<Rightarrow> string" where
  "str_of_int i = (if i < 0 then CHR ''-'' # str_of_nat (nat (- i)) else str_of_nat (nat i))"

section \<open>Lemmas\<close>

lemma code_char_of: "n < 256 \<Longrightarrow> code (char_of n) = n"
  by (simp add: code_def)

lemma digit_char: "n < 10 \<Longrightarrow> is_digit (char_of (48 + n)) \<and> code (char_of (48 + n)) - 48 = n"
  by (simp add: is_digit_def code_char_of)

lemma digit_not_space: "is_digit c \<Longrightarrow> \<not> is_space c"
  by (auto simp: is_digit_def is_space_def)

lemma str_of_nat_digits: "\<forall>c\<in>set (str_of_nat n). is_digit c"
proof (induction n rule: str_of_nat.induct)
  case (1 n)
  then show ?case
    by (subst str_of_nat.simps) (auto simp: digit_char)
qed

lemma str_of_nat_nonempty [simp]: "str_of_nat n \<noteq> []"
  by (subst str_of_nat.simps) simp

lemma int_digits_append:
  "\<forall>c\<in>set xs. is_digit c \<Longrightarrow> xs \<noteq> [] \<Longrightarrow> int_digits need acc (xs @ ys)
     = int_digits False (foldl (\<lambda>a c. 10 * a + (code c - 48)) acc xs) ys"
proof (induction xs arbitrary: need acc)
  case (Cons x xs)
  then show ?case by (cases "xs = []") auto
qed simp

lemma str_of_nat_value: "foldl (\<lambda>a c. 10 * a + (code c - 48)) 0 (str_of_nat n) = n"
proof (induction n rule: str_of_nat.induct)
  case (1 n)
  show ?case
  proof (cases "n < 10")
    case True
    then show ?thesis by (simp add: str_of_nat.simps[of n] digit_char)
  next
    case False
    with 1 show ?thesis by (simp add: str_of_nat.simps[of n] digit_char)
  qed
qed

lemma int_digits_str_of_nat: "int_digits True 0 (str_of_nat n) = Some n"
  using int_digits_append[OF str_of_nat_digits, of n True 0 "[]"] by (simp add: str_of_nat_value)

lemma strip_nospace:
  assumes "\<forall>c\<in>set s. \<not> is_space c"
  shows "strip s = s"
proof -
  have d: "dropWhile is_space t = t" if "\<forall>c\<in>set t. \<not> is_space c" for t
    using that by (cases t) auto
  show ?thesis using assms by (simp add: strip_def lstrip_def d)
qed

lemma strip_str_of_nat [simp]: "strip (str_of_nat n) = str_of_nat n"
  using str_of_nat_digits by (intro strip_nospace) (auto dest: digit_not_space)

text \<open>Reading back a printed natural number (within the interpreter's digit limit).\<close>

lemma py_int_str_of_nat:
  assumes "length (str_of_nat n) \<le> 4300"
  shows "py_int (str_of_nat n) = Some (int n)"
proof -
  obtain c cs where s: "str_of_nat n = c # cs" by (cases "str_of_nat n") auto
  have c: "is_digit c" using str_of_nat_digits[of n] s by auto
  then have "c \<noteq> CHR ''-''" "c \<noteq> CHR ''+''" by (auto simp: is_digit_def code_def)
  moreover have "length (filter is_digit (str_of_nat n)) \<le> 4300"
    using assms le_trans[OF length_filter_le] by blast
  ultimately show ?thesis
    using int_digits_str_of_nat[of n] by (simp add: py_int_def s Let_def flip: s) (simp add: s)
qed

lemma split_on_nonempty [simp]: "split_on c s \<noteq> []"
  by (induction s) (auto split: list.splits)

lemma split_on_none: "c \<notin> set s \<Longrightarrow> split_on c s = [s]"
  by (induction s) auto

lemma split_on_append: "c \<notin> set s \<Longrightarrow> split_on c (s @ c # t) = s # split_on c t"
  by (induction s) auto

lemma partition_on_found: "c \<notin> set p \<Longrightarrow> partition_on c (p @ c # v) = (p, v)"
  unfolding partition_on_def by (induction p) auto

lemma split_ws_acc_word:
  "\<forall>c\<in>set v. \<not> is_space c \<Longrightarrow> split_ws_acc w (v @ rest) = split_ws_acc (rev v @ w) rest"
  by (induction v arbitrary: w) auto

lemma space_is_space [simp]: "is_space CHR '' ''"
  by (simp add: is_space_def code_def)

text \<open>Joining non-empty space-free words by a blank and splitting gives the words back.\<close>

lemma split_ws_join:
  assumes "\<forall>w\<in>set ws. w \<noteq> [] \<and> (\<forall>c\<in>set w. \<not> is_space c)"
  shows "split_ws (join '' '' ws) = ws"
  using assms unfolding split_ws_def
proof (induction "'' ''" ws rule: join.induct)
  case (2 w)
  then show ?case using split_ws_acc_word[of w "[]" "[]"] by simp
next
  case (3 w v ws)
  then have "split_ws_acc [] (w @ CHR '' '' # join '' '' (v # ws)) = w # (v # ws)"
    by (subst split_ws_acc_word) auto
  then show ?case by simp
qed simp

lemma startswith_append [simp]: "startswith (p @ s) p"
  by (simp add: startswith_def)

lemma endswith_append [simp]: "endswith (s @ p) p"
  by (simp add: endswith_def)

section \<open>Rounding\<close>

text \<open>\<open>round\<close>: to the nearest integer, ties to the even one.\<close>

definition py_round :: "real \<Rightarrow> int" where
  "py_round x =
     (let f = \<lfloor>x\<rfloor>; d = x - of_int f
      in if d < 1 / 2 then f else if 1 / 2 < d then f + 1 else if even f then f else f + 1)"

text \<open>\<open>round(x, k)\<close>: to \<open>k\<close> decimal digits.\<close>

definition round_to :: "nat \<Rightarrow> real \<Rightarrow> real" where
  "round_to k x = of_int (py_round (x * 10 ^ k)) / 10 ^ k"

lemma py_round_bounds: "0 \<le> x \<Longrightarrow> x \<le> of_int n \<Longrightarrow> 0 \<le> py_round x \<and> py_round x \<le> n"
proof -
  assume a: "0 \<le> x" "x \<le> of_int n"
  have f: "0 \<le> \<lfloor>x\<rfloor>" "\<lfloor>x\<rfloor> \<le> n" using a by (auto simp: floor_le_iff)
  have "x - of_int \<lfloor>x\<rfloor> \<noteq> 0 \<Longrightarrow> \<lfloor>x\<rfloor> < n" using a by linarith
  then show ?thesis using f by (auto simp: py_round_def Let_def)
qed

lemma py_round_mono: "x \<le> y \<Longrightarrow> py_round x \<le> py_round y"
proof (cases "\<lfloor>x\<rfloor> = \<lfloor>y\<rfloor>")
  case True
  assume "x \<le> y"
  then show ?thesis using True by (auto simp: py_round_def Let_def)
next
  case False
  assume xy: "x \<le> y"
  then have "\<lfloor>x\<rfloor> + 1 \<le> \<lfloor>y\<rfloor>" using False floor_mono[OF xy] by linarith
  moreover have "py_round x \<le> \<lfloor>x\<rfloor> + 1" "\<lfloor>y\<rfloor> \<le> py_round y" by (auto simp: py_round_def Let_def)
  ultimately show ?thesis by linarith
qed

section \<open>JSON values\<close>

datatype jv = NullV | BoolV bool | NumV real | StrV string | ListV "jv list" | ObjV "(string \<times> jv) list"

text \<open>\<open>isinstance(v, (int, float))\<close> with \<open>float(v)\<close>; a bool is an int.\<close>

definition number :: "jv option \<Rightarrow> real option" where
  "number v = (case v of Some (NumV r) \<Rightarrow> Some r | Some (BoolV b) \<Rightarrow> Some (if b then 1 else 0) | _ \<Rightarrow> None)"

definition obj_fields :: "jv option \<Rightarrow> (string \<times> jv) list option" where
  "obj_fields v = (case v of Some (ObjV kvs) \<Rightarrow> Some kvs | _ \<Rightarrow> None)"

text \<open>\<open>bool(v)\<close>.\<close>

fun truthy_v :: "jv \<Rightarrow> bool" where
  "truthy_v NullV = False"
| "truthy_v (BoolV b) = b"
| "truthy_v (NumV r) = (r \<noteq> 0)"
| "truthy_v (StrV s) = (s \<noteq> [])"
| "truthy_v (ListV xs) = (xs \<noteq> [])"
| "truthy_v (ObjV kvs) = (kvs \<noteq> [])"

end
