(* ===== verification/Keys.thy ===== *)
theory Keys
  imports Database PyString
begin

text \<open>
  The API-key store (\<open>engine/auth/keys.py\<close>) over the \<open>api_keys\<close> table. The hash of a
  token (\<open>hashlib.sha256(...).hexdigest()\<close>) is the argument \<open>hash\<close>: every result
  holds for any function, or says which inputs must not collide. Random tokens, key ids and
  clock readings are arguments.
\<close>

definition KEY_PREFIX :: string where
  "KEY_PREFIX = ''sk-ie-''"

definition ROLE_OPERATOR :: string where
  "ROLE_OPERATOR = ''operator''"

definition ROLE_CLIENT :: string where
  "ROLE_CLIENT = ''client''"

definition PREFIX_DISPLAY_LEN :: nat where
  "PREFIX_DISPLAY_LEN = 12"

definition revoked :: "'a key_record_scheme \<Rightarrow> bool" where
  "revoked r \<longleftrightarrow> k_revoked_at r \<noteq> None"

definition role :: "'a key_record_scheme \<Rightarrow> string" where
  "role r = (if k_client_id r \<noteq> None then ROLE_CLIENT else ROLE_OPERATOR)"

text \<open>The \<open>INSERT\<close> of \<open>create\<close>: \<open>id\<close> is the primary key, \<open>key_hash\<close> is UNIQUE.\<close>

definition insert_api_key :: "api_key_row \<Rightarrow> api_key_row list \<Rightarrow> (db_error, api_key_row list) result" where
  "insert_api_key r t =
     (if k_id r \<in> k_id ` set t \<or> k_hash r \<in> k_hash ` set t then Inl IntegrityError else Inr (t @ [r]))"

definition new_key_row ::
  "(string \<Rightarrow> string) \<Rightarrow> string \<Rightarrow> string \<Rightarrow> string option \<Rightarrow> iso_time \<Rightarrow> api_key_row" where
  "new_key_row hash key_id token label now =
     \<lparr>k_id = key_id, k_prefix = take PREFIX_DISPLAY_LEN token, k_label = label, k_created_at = now,
      k_last_used_at = None, k_revoked_at = None, k_client_id = None,
      k_hash = hash token, k_status = ''active''\<rparr>"

definition key_create ::
  "(string \<Rightarrow> string) \<Rightarrow> string \<Rightarrow> string \<Rightarrow> string option \<Rightarrow> iso_time \<Rightarrow> (key_record \<times> string) action" where
  "key_create hash urlsafe key_id label now s =
     (let token = KEY_PREFIX @ urlsafe;
          row = new_key_row hash key_id token label now
      in case insert_api_key row (api_keys s) of
           Inl e \<Rightarrow> (Inl e, s)
         | Inr t \<Rightarrow> (Inr (key_record.truncate row, token), s\<lparr>api_keys := t\<rparr>))"

definition key_verify ::
  "(string \<Rightarrow> string) \<Rightarrow> string \<Rightarrow> iso_time \<Rightarrow> db \<Rightarrow> key_record option \<times> db" where
  "key_verify hash token now s =
     (if token = [] then (None, s)
      else case fetchone (\<lambda>r. k_hash r = hash token) (api_keys s) of
          None \<Rightarrow> (None, s)
        | Some row \<Rightarrow>
            if k_revoked_at row \<noteq> None then (None, s)
            else (Some (key_record.truncate row),
                  s\<lparr>api_keys := upd_where (\<lambda>r. k_id r = k_id row)
                       (\<lambda>r. r\<lparr>k_last_used_at := Some now\<rparr>) (api_keys s)\<rparr>))"

definition key_revoke :: "string \<Rightarrow> iso_time \<Rightarrow> db \<Rightarrow> bool \<times> db" where
  "key_revoke key_id now s =
     (let p = \<lambda>r. k_id r = key_id \<and> k_revoked_at r = None
      in (rowcount p (api_keys s) > 0,
          s\<lparr>api_keys := upd_where p (\<lambda>r. r\<lparr>k_revoked_at := Some now\<rparr>) (api_keys s)\<rparr>))"

definition key_delete :: "string \<Rightarrow> db \<Rightarrow> bool \<times> db" where
  "key_delete key_id s =
     (let p = \<lambda>r. k_id r = key_id
      in (rowcount p (api_keys s) > 0, s\<lparr>api_keys := del_where p (api_keys s)\<rparr>))"

definition key_row :: "string \<Rightarrow> api_key_row list \<Rightarrow> api_key_row option" where
  "key_row key_id t = fetchone (\<lambda>r. k_id r = key_id) t"

definition key_row_by_hash :: "string \<Rightarrow> api_key_row list \<Rightarrow> api_key_row option" where
  "key_row_by_hash h t = fetchone (\<lambda>r. k_hash r = h) t"

definition key_get :: "string \<Rightarrow> db \<Rightarrow> key_record option" where
  "key_get key_id s = map_option key_record.truncate (key_row key_id (api_keys s))"

definition key_list :: "db \<Rightarrow> key_record list" where
  "key_list s = map key_record.truncate (order_by k_created_at (api_keys s))"

section \<open>The table is keyed by id and by hash\<close>

interpretation keys_by_id: keyed_table k_id insert_api_key key_row
  by unfold_locales (auto simp: insert_api_key_def key_row_def split: if_splits)

interpretation keys_by_hash: keyed_table k_hash insert_api_key key_row_by_hash
  by unfold_locales (auto simp: insert_api_key_def key_row_by_hash_def split: if_splits)

definition keys_wf :: "api_key_row list \<Rightarrow> bool" where
  "keys_wf t \<longleftrightarrow> unique_on k_id t \<and> unique_on k_hash t"

lemma keys_wf_empty [simp]: "keys_wf []"
  by (simp add: keys_wf_def)

lemma keys_wf_upd:
  "keys_wf t \<Longrightarrow> (\<And>r. k_id (f r) = k_id r) \<Longrightarrow> (\<And>r. k_hash (f r) = k_hash r)
     \<Longrightarrow> keys_wf (upd_where p f t)"
  by (auto simp: keys_wf_def intro: unique_intros)

lemma key_create_Inr:
  "key_create hash u kid l now s = (Inr (r, token), s') \<Longrightarrow>
     token = KEY_PREFIX @ u \<and>
     insert_api_key (new_key_row hash kid token l now) (api_keys s) = Inr (api_keys s') \<and>
     s' = s\<lparr>api_keys := api_keys s @ [new_key_row hash kid token l now]\<rparr> \<and>
     r = key_record.truncate (new_key_row hash kid token l now)"
  by (auto simp: key_create_def Let_def insert_api_key_def split: sum.splits if_splits)

lemma key_create_keys_wf:
  "keys_wf (api_keys s) \<Longrightarrow> keys_wf (api_keys (snd (key_create hash u kid l now s)))"
  by (auto simp: key_create_def Let_def keys_wf_def split: sum.splits
      intro: keys_by_id.unique_insert keys_by_hash.unique_insert)

lemma key_verify_keys_wf:
  "keys_wf (api_keys s) \<Longrightarrow> keys_wf (api_keys (snd (key_verify hash tok now s)))"
  by (auto simp: key_verify_def intro: keys_wf_upd split: option.splits)

lemma key_revoke_keys_wf:
  "keys_wf (api_keys s) \<Longrightarrow> keys_wf (api_keys (snd (key_revoke kid now s)))"
  by (auto simp: key_revoke_def Let_def intro: keys_wf_upd)

lemma key_delete_keys_wf:
  "keys_wf (api_keys s) \<Longrightarrow> keys_wf (api_keys (snd (key_delete kid s)))"
  by (auto simp: key_delete_def Let_def keys_wf_def intro: unique_intros)

section \<open>What verification depends on\<close>

lemma key_verify_row:
  "tok \<noteq> [] \<Longrightarrow> fst (key_verify hash tok now s) =
     (case key_row_by_hash (hash tok) (api_keys s) of
        None \<Rightarrow> None
      | Some r \<Rightarrow> if k_revoked_at r \<noteq> None then None else Some (key_record.truncate r))"
  by (auto simp: key_verify_def key_row_by_hash_def split: option.splits)

text \<open>The rows that can still be verified: by hash, with no revocation mark.\<close>

definition live_hash :: "string \<Rightarrow> api_key_row list \<Rightarrow> bool" where
  "live_hash h t \<longleftrightarrow> (\<exists>r\<in>set t. k_hash r = h \<and> k_revoked_at r = None)"

lemma verify_live: "fst (key_verify hash tok now s) \<noteq> None \<Longrightarrow> live_hash (hash tok) (api_keys s)"
  by (auto simp: key_verify_def live_hash_def split: option.splits if_splits dest: fetchone_Some)

lemma live_hash_upd_mono:
  assumes "\<And>r. k_hash (f r) = k_hash r" and "\<And>r. k_revoked_at (f r) = None \<Longrightarrow> k_revoked_at r = None"
    and "live_hash h (upd_where p f t)"
  shows "live_hash h t"
  using assms by (fastforce simp: live_hash_def set_upd_where split: if_splits)

section \<open>The life of a key: sequences of operations\<close>

datatype key_op =
    OpCreate string string "string option" iso_time
  | OpVerify string iso_time
  | OpRevoke string iso_time
  | OpDelete string

primrec key_step :: "(string \<Rightarrow> string) \<Rightarrow> db \<Rightarrow> key_op \<Rightarrow> db" where
  "key_step hash s (OpCreate u kid l now) = snd (key_create hash u kid l now s)"
| "key_step hash s (OpVerify tok now) = snd (key_verify hash tok now s)"
| "key_step hash s (OpRevoke kid now) = snd (key_revoke kid now s)"
| "key_step hash s (OpDelete kid) = snd (key_delete kid s)"

definition mints :: "(string \<Rightarrow> string) \<Rightarrow> string \<Rightarrow> key_op \<Rightarrow> bool" where
  "mints hash h op = (case op of OpCreate u _ _ _ \<Rightarrow> hash (KEY_PREFIX @ u) = h | _ \<Rightarrow> False)"

lemma key_step_wf: "keys_wf (api_keys s) \<Longrightarrow> keys_wf (api_keys (key_step hash s op))"
  by (cases op) (auto intro: key_create_keys_wf key_verify_keys_wf key_revoke_keys_wf key_delete_keys_wf)

lemma key_step_live:
  assumes "\<not> mints hash h op" and "live_hash h (api_keys (key_step hash s op))"
  shows "live_hash h (api_keys s)"
proof (cases op)
  case (OpCreate u kid l now)
  with assms show ?thesis
    by (auto simp: key_create_def Let_def insert_api_key_def live_hash_def mints_def new_key_row_def
        split: if_splits)
next
  case (OpVerify tok now)
  with assms show ?thesis
    by (auto simp: key_verify_def split: option.splits if_splits elim!: live_hash_upd_mono[rotated 2])
next
  case (OpRevoke kid now)
  with assms show ?thesis
    by (auto simp: key_revoke_def Let_def elim!: live_hash_upd_mono[rotated 2])
next
  case (OpDelete kid)
  with assms show ?thesis by (auto simp: key_delete_def Let_def live_hash_def set_del_where)
qed

lemma key_run_dead:
  assumes "\<not> live_hash h (api_keys s)" and "\<forall>op\<in>set ops. \<not> mints hash h op"
  shows "\<not> live_hash h (api_keys (foldl (key_step hash) s ops))"
  using assms by (induction ops arbitrary: s) (auto dest: key_step_live)

lemma revoke_kills:
  assumes wf: "keys_wf (api_keys s)" and r: "r \<in> set (api_keys s)" "k_id r = kid"
  shows "\<not> live_hash (k_hash r) (api_keys (snd (key_revoke kid now s)))"
proof
  assume "live_hash (k_hash r) (api_keys (snd (key_revoke kid now s)))"
  then obtain x where x: "x \<in> set (api_keys s)" "k_hash x = k_hash r"
      and live: "\<not> (k_id x = kid \<and> k_revoked_at x = None)" "k_revoked_at x = None"
    by (auto simp: live_hash_def key_revoke_def Let_def set_upd_where split: if_splits)
  have "x = r" using wf x r unique_on_eq[of k_hash] by (auto simp: keys_wf_def)
  with live r show False by simp
qed

section \<open>Properties\<close>

text \<open>
  Creating and verifying. Whenever a key is created, the token handed out verifies
  straight away and identifies exactly the record that was returned; the stored row holds
  the hash of the token and never the token, the record is an operator key with no owner,
  and the table keeps its unique ids and hashes.
\<close>

theorem key_create_verify:
  assumes "keys_wf (api_keys s)"
    and "key_create hash u kid label now s = (Inr (r, token), s')"
  shows "fst (key_verify hash token now' s') = Some r \<and> role r = ROLE_OPERATOR \<and>
         k_id r = kid \<and> key_get kid s' = Some r \<and> keys_wf (api_keys s') \<and>
         (\<exists>row. api_keys s' = api_keys s @ [row] \<and> k_hash row = hash token)"
proof -
  let ?row = "new_key_row hash kid token label now"
  have c: "token = KEY_PREFIX @ u" "insert_api_key ?row (api_keys s) = Inr (api_keys s')"
      "api_keys s' = api_keys s @ [?row]" "r = key_record.truncate ?row"
    using key_create_Inr[OF assms(2)] by auto
  have "key_row_by_hash (hash token) (api_keys s') = Some ?row"
    using keys_by_hash.lookup_insert[OF c(2)] by (simp add: new_key_row_def)
  then have v: "fst (key_verify hash token now' s') = Some r"
    by (subst key_verify_row) (auto simp: c(1) KEY_PREFIX_def c(4) new_key_row_def)
  have g: "key_get kid s' = Some r"
    using keys_by_id.lookup_insert[OF c(2)] c(4) by (simp add: key_get_def new_key_row_def)
  have "keys_wf (api_keys s')"
    using key_create_keys_wf[OF assms(1), of hash u kid label now] assms(2) by simp
  then show ?thesis
    using v g c by (auto simp: role_def key_record.truncate_def new_key_row_def ROLE_OPERATOR_def)
qed

theorem key_create_verify_witness:
  "fst (key_verify rev ''sk-ie-abc'' ''t1'' (snd (key_create rev ''abc'' ''id1'' None ''t0'' empty_db)))
     = Some \<lparr>k_id = ''id1'', k_prefix = ''sk-ie-abc'', k_label = None, k_created_at = ''t0'',
             k_last_used_at = None, k_revoked_at = None, k_client_id = None\<rparr>"
proof -
  let ?r = "\<lparr>k_id = ''id1'', k_prefix = ''sk-ie-abc'', k_label = None, k_created_at = ''t0'',
             k_last_used_at = None, k_revoked_at = None, k_client_id = None\<rparr>"
  have "key_create rev ''abc'' ''id1'' None ''t0'' empty_db =
      (Inr (?r, ''sk-ie-abc''), snd (key_create rev ''abc'' ''id1'' None ''t0'' empty_db))"
    by (simp add: key_create_def insert_api_key_def empty_db_def Let_def new_key_row_def
        KEY_PREFIX_def PREFIX_DISPLAY_LEN_def key_record.truncate_def)
  from key_create_verify[OF _ this] show ?thesis by (simp add: empty_db_def)
qed

text \<open>
  C1. Revocation is final. Once the key of a token is revoked, no sequence of create,
  verify, revoke and delete operations makes the token verify again, as long as no later
  key is minted with a token of the same hash.
\<close>

theorem key_revoked_forever:
  assumes "keys_wf (api_keys s)" and "r \<in> set (api_keys s)" and "k_hash r = hash token"
    and "\<forall>op\<in>set ops. \<not> mints hash (hash token) op"
  shows "fst (key_verify hash token now'
           (foldl (key_step hash) (snd (key_revoke (k_id r) now s)) ops)) = None"
proof -
  have "\<not> live_hash (hash token) (api_keys (snd (key_revoke (k_id r) now s)))"
    using revoke_kills[OF assms(1,2) refl, of now] assms(3) by simp
  then have "\<not> live_hash (hash token) (api_keys (foldl (key_step hash) (snd (key_revoke (k_id r) now s)) ops))"
    using assms(4) by (rule key_run_dead)
  then show ?thesis using verify_live by metis
qed

theorem key_revoked_forever_witness:
  "let s = snd (key_create rev ''abc'' ''id1'' None ''t0'' empty_db)
   in fst (key_verify rev ''sk-ie-abc'' ''t1'' s) \<noteq> None \<and>
      fst (key_verify rev ''sk-ie-abc'' ''t9''
        (foldl (key_step rev) (snd (key_revoke ''id1'' ''t2'' s))
           [OpVerify ''sk-ie-abc'' ''t3'', OpCreate ''xyz'' ''id2'' None ''t4'', OpRevoke ''id1'' ''t5'']))
        = None"
proof -
  define s where "s = snd (key_create rev ''abc'' ''id1'' None ''t0'' empty_db)"
  define r where "r = new_key_row rev ''id1'' ''sk-ie-abc'' None ''t0''"
  have s: "api_keys s = [r]"
    by (simp add: s_def r_def key_create_def insert_api_key_def empty_db_def Let_def KEY_PREFIX_def)
  have "fst (key_verify rev ''sk-ie-abc'' ''t1'' s) \<noteq> None"
    by (simp add: key_verify_def s r_def new_key_row_def)
  moreover have "fst (key_verify rev ''sk-ie-abc'' ''t9''
        (foldl (key_step rev) (snd (key_revoke (k_id r) ''t2'' s))
           [OpVerify ''sk-ie-abc'' ''t3'', OpCreate ''xyz'' ''id2'' None ''t4'', OpRevoke ''id1'' ''t5'']))
        = None"
    by (rule key_revoked_forever)
       (simp_all add: s keys_wf_def unique_on_def r_def new_key_row_def mints_def KEY_PREFIX_def)
  ultimately show ?thesis by (simp add: s_def[symmetric] r_def new_key_row_def)
qed

end
