(* ===== verification/Billing.thy ===== *)
theory Billing
  imports Keys
begin

text \<open>
  The billing store (\<open>engine/billing/store.py\<close>): plans, clients, key ownership,
  subscriptions, entitlement resolution, the inbound-webhook ledger and the metering
  reconciliation, over the shared database. Foreign keys are enforced
  (\<open>PRAGMA foreign_keys=ON\<close>).
\<close>

definition STATUS_ACTIVE :: string where "STATUS_ACTIVE = ''active''"
definition STATUS_SUSPENDED :: string where "STATUS_SUSPENDED = ''suspended''"
definition STATUS_REVOKED :: string where "STATUS_REVOKED = ''revoked''"
definition STATUS_CANCELED :: string where "STATUS_CANCELED = ''canceled''"

lemmas status_defs = STATUS_ACTIVE_def STATUS_SUSPENDED_def STATUS_REVOKED_def STATUS_CANCELED_def

record entitlement =
  e_plan_id :: string
  e_quota_5h_cu :: real
  e_quota_weekly_cu :: real
  e_rate_limit_per_min :: "int option"
  e_allowed_models :: "string list option"

record key_access_info =
  ka_status :: string
  ka_entitlement :: "entitlement option"

section \<open>Plans\<close>

definition upsert_plan :: "plan \<Rightarrow> iso_time \<Rightarrow> db \<Rightarrow> plan \<times> db" where
  "upsert_plan p now s =
     (p, s\<lparr>plans :=
        (if pl_id p \<in> pl_id ` set (plans s)
         then upd_where (\<lambda>r. pl_id r = pl_id p)
                (\<lambda>r. r\<lparr>pl_name := pl_name p, pl_quota_5h_cu := pl_quota_5h_cu p,
                        pl_quota_weekly_cu := pl_quota_weekly_cu p,
                        pl_rate_limit_per_min := pl_rate_limit_per_min p,
                        pl_allowed_models := pl_allowed_models p\<rparr>) (plans s)
         else plans s @ [plan.extend p (plan_row.fields now)])\<rparr>)"

definition plan_row_of :: "string \<Rightarrow> plan_row list \<Rightarrow> plan_row option" where
  "plan_row_of plan_id t = fetchone (\<lambda>r. pl_id r = plan_id) t"

definition get_plan :: "string \<Rightarrow> db \<Rightarrow> plan option" where
  "get_plan plan_id s = map_option plan.truncate (plan_row_of plan_id (plans s))"

definition list_plans :: "db \<Rightarrow> plan list" where
  "list_plans s = map plan.truncate (order_by pl_id (plans s))"

section \<open>Clients\<close>

definition insert_client :: "client_row \<Rightarrow> client_row list \<Rightarrow> (db_error, client_row list) result" where
  "insert_client r t =
     (if c_id r \<in> c_id ` set t \<or> (c_external_ref r \<noteq> None \<and> c_external_ref r \<in> c_external_ref ` set t)
      then Inl IntegrityError else Inr (t @ [r]))"

definition create_client ::
  "string \<Rightarrow> string option \<Rightarrow> string option \<Rightarrow> iso_time \<Rightarrow> client action" where
  "create_client cid external_ref email now s =
     (let c = \<lparr>c_id = cid, c_external_ref = external_ref, c_email = email, c_status = STATUS_ACTIVE\<rparr>
      in case insert_client (client.extend c (client_row.fields now)) (clients s) of
           Inl e \<Rightarrow> (Inl e, s)
         | Inr t \<Rightarrow> (Inr c, s\<lparr>clients := t\<rparr>))"

definition client_row_of :: "string \<Rightarrow> client_row list \<Rightarrow> client_row option" where
  "client_row_of cid t = fetchone (\<lambda>r. c_id r = cid) t"

definition get_client :: "string \<Rightarrow> db \<Rightarrow> client option" where
  "get_client cid s = map_option client.truncate (client_row_of cid (clients s))"

definition get_client_by_external_ref :: "string \<Rightarrow> db \<Rightarrow> client option" where
  "get_client_by_external_ref ref s =
     map_option client.truncate (fetchone (\<lambda>r. c_external_ref r = Some ref) (clients s))"

definition list_clients :: "db \<Rightarrow> client list" where
  "list_clients s = map client.truncate (order_by c_created_at (clients s))"

definition set_client_status :: "string \<Rightarrow> string \<Rightarrow> db \<Rightarrow> bool \<times> db" where
  "set_client_status cid status s =
     (rowcount (\<lambda>r. c_id r = cid) (clients s) > 0,
      s\<lparr>clients := upd_where (\<lambda>r. c_id r = cid) (\<lambda>r. r\<lparr>c_status := status\<rparr>) (clients s)\<rparr>)"

section \<open>Keys and their owners\<close>

definition attach_key :: "string \<Rightarrow> string \<Rightarrow> bool action" where
  "attach_key key_id cid s =
     (let p = \<lambda>r. k_id r = key_id
      in if rowcount p (api_keys s) > 0 \<and> cid \<notin> c_id ` set (clients s) then (Inl IntegrityError, s)
         else (Inr (rowcount p (api_keys s) > 0),
               s\<lparr>api_keys := upd_where p (\<lambda>r. r\<lparr>k_client_id := Some cid\<rparr>) (api_keys s)\<rparr>))"

definition client_id_for_key :: "string \<Rightarrow> db \<Rightarrow> string option" where
  "client_id_for_key key_id s =
     (case key_row key_id (api_keys s) of None \<Rightarrow> None | Some r \<Rightarrow> k_client_id r)"

definition revoke_client_keys :: "string \<Rightarrow> iso_time \<Rightarrow> db \<Rightarrow> nat \<times> db" where
  "revoke_client_keys cid now s =
     (let p = \<lambda>r. k_client_id r = Some cid \<and> k_revoked_at r = None
      in (rowcount p (api_keys s),
          s\<lparr>api_keys := upd_where p (\<lambda>r. r\<lparr>k_status := STATUS_REVOKED, k_revoked_at := Some now\<rparr>)
               (api_keys s)\<rparr>))"

section \<open>Subscriptions\<close>

definition sub_key :: "'a subscription_scheme \<Rightarrow> string \<times> string" where
  "sub_key r = (s_provider r, s_provider_sub_id r)"

text \<open>
  The \<open>ON CONFLICT(provider, provider_sub_id) DO UPDATE\<close> target is checked before the
  primary key; the update leaves \<open>id\<close> and \<open>client_id\<close> alone. A new row needs a fresh
  id, an existing client and an existing plan (or none).
\<close>

definition plan_ref_ok :: "string option \<Rightarrow> plan_row list \<Rightarrow> bool" where
  "plan_ref_ok pid t = (case pid of None \<Rightarrow> True | Some p \<Rightarrow> p \<in> pl_id ` set t)"

definition upsert_subscription :: "subscription \<Rightarrow> iso_time \<Rightarrow> unit action" where
  "upsert_subscription sub now s =
     (if sub_key sub \<in> sub_key ` set (subscriptions s) then
        if \<not> plan_ref_ok (s_plan_id sub) (plans s) then (Inl IntegrityError, s)
        else (Inr (), s\<lparr>subscriptions :=
           upd_where (\<lambda>r. sub_key r = sub_key sub)
             (\<lambda>r. r\<lparr>s_plan_id := s_plan_id sub, s_status := s_status sub,
                     s_current_period_end := s_current_period_end sub, s_updated_at := now\<rparr>)
             (subscriptions s)\<rparr>)
      else if s_id sub \<in> s_id ` set (subscriptions s) \<or> s_client_id sub \<notin> c_id ` set (clients s)
              \<or> \<not> plan_ref_ok (s_plan_id sub) (plans s)
      then (Inl IntegrityError, s)
      else (Inr (), s\<lparr>subscriptions :=
             subscriptions s @ [subscription.extend sub (sub_row.fields now)]\<rparr>))"

definition get_subscription_by_provider :: "string \<Rightarrow> string \<Rightarrow> db \<Rightarrow> subscription option" where
  "get_subscription_by_provider provider psid s =
     map_option subscription.truncate
       (fetchone (\<lambda>r. sub_key r = (provider, psid)) (subscriptions s))"

section \<open>Entitlement resolution\<close>

definition entitlement_of_plan :: "'a plan_scheme \<Rightarrow> entitlement" where
  "entitlement_of_plan p =
     \<lparr>e_plan_id = pl_id p, e_quota_5h_cu = pl_quota_5h_cu p, e_quota_weekly_cu = pl_quota_weekly_cu p,
      e_rate_limit_per_min = pl_rate_limit_per_min p, e_allowed_models = pl_allowed_models p\<rparr>"

definition entitlement_for_client :: "string option \<Rightarrow> string \<Rightarrow> db \<Rightarrow> entitlement option" where
  "entitlement_for_client default_plan_id cid s =
     (let active = filter (\<lambda>r. s_client_id r = cid \<and> s_status r = ''active'') (subscriptions s);
          row = (case sql_limit 1 (order_by_desc s_updated_at active) of [] \<Rightarrow> None | r # _ \<Rightarrow> Some r);
          plan_id = (case row of None \<Rightarrow> None | Some r \<Rightarrow> s_plan_id r);
          plan_id' = (case plan_id of None \<Rightarrow> default_plan_id | Some p \<Rightarrow> Some p)
      in case plan_id' of
           None \<Rightarrow> None
         | Some p \<Rightarrow> map_option entitlement_of_plan (plan_row_of p (plans s)))"

definition key_access :: "string option \<Rightarrow> string \<Rightarrow> db \<Rightarrow> key_access_info" where
  "key_access default_plan_id key_id s =
     (case key_row key_id (api_keys s) of
        None \<Rightarrow> \<lparr>ka_status = STATUS_ACTIVE, ka_entitlement = None\<rparr>
      | Some row \<Rightarrow>
          if k_status row = STATUS_REVOKED then \<lparr>ka_status = STATUS_REVOKED, ka_entitlement = None\<rparr>
          else case k_client_id row of
              None \<Rightarrow> \<lparr>ka_status = (if k_status row = STATUS_SUSPENDED then STATUS_SUSPENDED
                                    else STATUS_ACTIVE), ka_entitlement = None\<rparr>
            | Some cid \<Rightarrow>
                (let client_status = map_option c_status (client_row_of cid (clients s))
                 in if client_status \<in> {Some STATUS_SUSPENDED, Some STATUS_CANCELED}
                    then \<lparr>ka_status = STATUS_SUSPENDED, ka_entitlement = None\<rparr>
                    else if k_status row = STATUS_SUSPENDED
                    then \<lparr>ka_status = STATUS_SUSPENDED, ka_entitlement = None\<rparr>
                    else \<lparr>ka_status = STATUS_ACTIVE,
                          ka_entitlement = entitlement_for_client default_plan_id cid s\<rparr>))"

section \<open>The inbound-webhook ledger\<close>

definition event_key :: "webhook_event_row \<Rightarrow> string \<times> string" where
  "event_key r = (we_provider r, we_event_id r)"

definition record_event_once :: "string \<Rightarrow> string \<Rightarrow> string option \<Rightarrow> iso_time \<Rightarrow> db \<Rightarrow> bool \<times> db" where
  "record_event_once provider event_id event_type now s =
     (let row = \<lparr>we_provider = provider, we_event_id = event_id, we_event_type = event_type,
                 we_received_at = now, we_processed_at = None, we_result = None\<rparr>;
          (t, n) = insert_or_ignore event_key row (webhook_events s)
      in (n > 0, s\<lparr>webhook_events := t\<rparr>))"

definition mark_event_processed :: "string \<Rightarrow> string \<Rightarrow> string \<Rightarrow> iso_time \<Rightarrow> db \<Rightarrow> db" where
  "mark_event_processed provider event_id result now s =
     s\<lparr>webhook_events := upd_where (\<lambda>r. event_key r = (provider, event_id))
          (\<lambda>r. r\<lparr>we_processed_at := Some now, we_result := Some result\<rparr>) (webhook_events s)\<rparr>"

definition forget_event :: "string \<Rightarrow> string \<Rightarrow> db \<Rightarrow> db" where
  "forget_event provider event_id s =
     s\<lparr>webhook_events := del_where (\<lambda>r. event_key r = (provider, event_id)) (webhook_events s)\<rparr>"

section \<open>Metering reconciliation\<close>

text \<open>The join of \<open>usage_events\<close> with \<open>api_keys\<close>: one term per matching pair of rows.\<close>

definition client_usage_cu :: "string \<Rightarrow> time \<Rightarrow> db \<Rightarrow> real" where
  "client_usage_cu cid since s =
     sum_list (map (\<lambda>(u, k). u_cu u)
       (filter (\<lambda>(u, k). u_key_id u = Some (k_id k) \<and> k_client_id k = Some cid \<and> u_ts u \<ge> since)
          (List.product (usage_events s) (api_keys s))))"

section \<open>Well-formedness: keys and references\<close>

definition billing_wf :: "db \<Rightarrow> bool" where
  "billing_wf s \<longleftrightarrow>
     keys_wf (api_keys s) \<and>
     unique_on pl_id (plans s) \<and>
     unique_on c_id (clients s) \<and>
     unique_on s_id (subscriptions s) \<and> unique_on sub_key (subscriptions s) \<and>
     unique_on event_key (webhook_events s) \<and>
     (\<forall>k\<in>set (api_keys s). \<forall>cid. k_client_id k = Some cid \<longrightarrow> cid \<in> c_id ` set (clients s)) \<and>
     (\<forall>r\<in>set (subscriptions s). s_client_id r \<in> c_id ` set (clients s) \<and> plan_ref_ok (s_plan_id r) (plans s))"

lemma billing_wf_empty [simp]: "billing_wf empty_db"
  by (simp add: billing_wf_def empty_db_def)

lemma extend_plan [simp]:
  "pl_id (plan.extend p m) = pl_id p" "pl_name (plan.extend p m) = pl_name p"
  "pl_quota_5h_cu (plan.extend p m) = pl_quota_5h_cu p"
  "pl_quota_weekly_cu (plan.extend p m) = pl_quota_weekly_cu p"
  "pl_rate_limit_per_min (plan.extend p m) = pl_rate_limit_per_min p"
  "pl_allowed_models (plan.extend p m) = pl_allowed_models p"
  by (simp_all add: plan.defs)

lemma extend_client [simp]:
  "c_id (client.extend c m) = c_id c" "c_external_ref (client.extend c m) = c_external_ref c"
  "c_status (client.extend c m) = c_status c"
  by (simp_all add: client.defs)

lemma extend_sub [simp]:
  "s_id (subscription.extend c m) = s_id c" "s_client_id (subscription.extend c m) = s_client_id c"
  "s_plan_id (subscription.extend c m) = s_plan_id c" "sub_key (subscription.extend c m) = sub_key c"
  "s_status (subscription.extend c m) = s_status c"
  by (simp_all add: subscription.defs sub_key_def)

lemma truncate_client [simp]:
  "c_id (client.truncate c) = c_id c" "c_status (client.truncate c) = c_status c"
  "c_external_ref (client.truncate c) = c_external_ref c"
  by (simp_all add: client.defs)

interpretation plans_tbl: keyed_table pl_id "\<lambda>r t. if pl_id r \<in> pl_id ` set t then Inl IntegrityError else Inr (t @ [r])" plan_row_of
  by unfold_locales (auto simp: plan_row_of_def split: if_splits)

interpretation clients_tbl: keyed_table c_id insert_client client_row_of
  by unfold_locales (auto simp: insert_client_def client_row_of_def split: if_splits)

text \<open>Changing rows without touching keys and references.\<close>

lemma ids_upd_where: "(\<And>r. p r \<Longrightarrow> key (f r) = key r) \<Longrightarrow> key ` set (upd_where p f t) = key ` set t"
  by (metis list.set_map map_upd_where_same)

lemma upsert_plan_wf: "billing_wf s \<Longrightarrow> billing_wf (snd (upsert_plan p now s))"
proof -
  assume wf: "billing_wf s"
  let ?s = "snd (upsert_plan p now s)"
  have "unique_on pl_id (plans ?s)"
    using wf by (auto simp: billing_wf_def upsert_plan_def intro: unique_intros)
  moreover have sub: "pl_id ` set (plans s) \<subseteq> pl_id ` set (plans ?s)"
    by (auto simp: upsert_plan_def ids_upd_where)
  then have "plan_ref_ok x (plans s) \<Longrightarrow> plan_ref_ok x (plans ?s)" for x
    by (auto simp: plan_ref_ok_def split: option.splits)
  ultimately show ?thesis using wf by (auto simp: billing_wf_def upsert_plan_def)
qed

lemma create_client_wf: "billing_wf s \<Longrightarrow> billing_wf (snd (create_client cid ref em now s))"
  by (auto simp: billing_wf_def create_client_def insert_client_def Let_def
      intro: unique_intros)

lemma set_client_status_wf: "billing_wf s \<Longrightarrow> billing_wf (snd (set_client_status cid st s))"
proof -
  assume wf: "billing_wf s"
  have "c_id ` set (clients (snd (set_client_status cid st s))) = c_id ` set (clients s)"
    by (simp add: set_client_status_def ids_upd_where)
  then show ?thesis using wf
    by (auto simp: billing_wf_def set_client_status_def intro: unique_intros)
qed

lemma api_keys_upd_wf:
  assumes "billing_wf s" and "\<And>r. k_id (f r) = k_id r" and "\<And>r. k_hash (f r) = k_hash r"
    and "\<And>r cid. r \<in> set (api_keys s) \<Longrightarrow> p r \<Longrightarrow> k_client_id (f r) = Some cid \<Longrightarrow> k_client_id r = Some cid \<or> cid \<in> c_id ` set (clients s)"
  shows "billing_wf (s\<lparr>api_keys := upd_where p f (api_keys s)\<rparr>)"
proof -
  have "keys_wf (upd_where p f (api_keys s))"
    using assms by (auto simp: billing_wf_def intro: keys_wf_upd)
  moreover have "\<forall>k\<in>set (upd_where p f (api_keys s)). \<forall>cid. k_client_id k = Some cid \<longrightarrow> cid \<in> c_id ` set (clients s)"
    using assms(1,4) by (fastforce simp: billing_wf_def set_upd_where split: if_splits)
  ultimately show ?thesis using assms(1) by (auto simp: billing_wf_def)
qed

lemma attach_key_wf: "billing_wf s \<Longrightarrow> billing_wf (snd (attach_key kid cid s))"
  unfolding attach_key_def Let_def
  by (auto simp: rowcount_pos intro!: api_keys_upd_wf)

lemma revoke_client_keys_wf: "billing_wf s \<Longrightarrow> billing_wf (snd (revoke_client_keys cid now s))"
  by (auto simp: revoke_client_keys_def Let_def intro!: api_keys_upd_wf)

lemma upsert_subscription_wf: "billing_wf s \<Longrightarrow> billing_wf (snd (upsert_subscription sub now s))"
  unfolding upsert_subscription_def
  by (auto simp: billing_wf_def set_upd_where intro!: unique_intros) (auto simp: sub_key_def)

lemma webhook_events_wf:
  "billing_wf s \<Longrightarrow> unique_on event_key t \<Longrightarrow> billing_wf (s\<lparr>webhook_events := t\<rparr>)"
  by (simp add: billing_wf_def)

lemma record_event_once_wf: "billing_wf s \<Longrightarrow> billing_wf (snd (record_event_once p e ty now s))"
proof -
  assume "billing_wf s"
  then show ?thesis
    by (auto simp: record_event_once_def Let_def insert_or_ignore_def split: prod.splits
        intro!: webhook_events_wf unique_intros) (auto simp: billing_wf_def)
qed

lemma mark_event_processed_wf: "billing_wf s \<Longrightarrow> billing_wf (mark_event_processed p e r now s)"
  unfolding mark_event_processed_def
  by (auto intro!: webhook_events_wf unique_intros) (auto simp: billing_wf_def event_key_def)

lemma forget_event_wf: "billing_wf s \<Longrightarrow> billing_wf (forget_event p e s)"
  unfolding forget_event_def
  by (auto intro!: webhook_events_wf unique_intros) (auto simp: billing_wf_def)

lemmas billing_wf_intros = upsert_plan_wf create_client_wf set_client_status_wf attach_key_wf
  revoke_client_keys_wf upsert_subscription_wf record_event_once_wf mark_event_processed_wf
  forget_event_wf

section \<open>Lemmas on entitlements and usage\<close>

lemma key_row_member: "keys_wf t \<Longrightarrow> r \<in> set t \<Longrightarrow> key_row (k_id r) t = Some r"
  by (simp add: keys_wf_def keys_by_id.lookup_member)

lemma entitlement_for_client_cong:
  "subscriptions s' = subscriptions s \<Longrightarrow> plans s' = plans s \<Longrightarrow>
     entitlement_for_client d cid s' = entitlement_for_client d cid s"
  by (simp add: entitlement_for_client_def split: option.split)

lemma entitlement_for_client_plan:
  assumes "entitlement_for_client d cid s = Some e"
  shows "\<exists>p\<in>set (plans s). e = entitlement_of_plan p \<and>
           (d = Some (pl_id p) \<or>
            (\<exists>r\<in>set (subscriptions s). s_client_id r = cid \<and> s_status r = ''active'' \<and> s_plan_id r = Some (pl_id p)))"
proof -
  let ?active = "filter (\<lambda>r. s_client_id r = cid \<and> s_status r = ''active'') (subscriptions s)"
  obtain pid where e: "map_option entitlement_of_plan (plan_row_of pid (plans s)) = Some e"
      and src: "d = Some pid \<or> (\<exists>r. r \<in> set (sql_limit 1 (order_by_desc s_updated_at ?active)) \<and> s_plan_id r = Some pid)"
    using assms by (auto simp: entitlement_for_client_def Let_def split: option.splits list.splits)
  then obtain p where p: "plan_row_of pid (plans s) = Some p" "e = entitlement_of_plan p" by auto
  then have pl: "p \<in> set (plans s)" "pl_id p = pid" using plans_tbl.lookup_Some by blast+
  have "set (sql_limit 1 (order_by_desc s_updated_at ?active)) \<subseteq> set ?active"
    using set_sql_limit[of 1 "order_by_desc s_updated_at ?active"] by simp
  then have "d = Some pid \<or> (\<exists>r\<in>set (subscriptions s). s_client_id r = cid \<and> s_status r = ''active'' \<and> s_plan_id r = Some pid)"
    using src by auto
  then show ?thesis using p(2) pl by blast
qed

lemma client_status_after:
  "map_option c_status (client_row_of cid (clients (snd (set_client_status cid' st s)))) =
     (if cid = cid' \<and> client_row_of cid (clients s) \<noteq> None then Some st
      else map_option c_status (client_row_of cid (clients s)))"
proof -
  have "client_row_of cid (upd_where (\<lambda>r. c_id r = cid') (\<lambda>r. r\<lparr>c_status := st\<rparr>) (clients s)) =
      map_option (\<lambda>r. if c_id r = cid' then r\<lparr>c_status := st\<rparr> else r) (client_row_of cid (clients s))"
    by (rule clients_tbl.lookup_upd_same) simp
  moreover have "client_row_of cid (clients s) = Some r \<Longrightarrow> c_id r = cid" for r
    using clients_tbl.lookup_Some by blast
  ultimately show ?thesis by (cases "client_row_of cid (clients s)") (auto simp: set_client_status_def)
qed

lemma set_client_status_frame [simp]:
  "api_keys (snd (set_client_status cid st s)) = api_keys s"
  "plans (snd (set_client_status cid st s)) = plans s"
  "subscriptions (snd (set_client_status cid st s)) = subscriptions s"
  "usage_events (snd (set_client_status cid st s)) = usage_events s"
  by (simp_all add: set_client_status_def)

lemma sum_list_product_filter:
  fixes f :: "'a \<Rightarrow> real"
  shows "sum_list (map (\<lambda>(u, k). f u) (filter (\<lambda>(u, k). P u k) (List.product us ks))) =
         sum_list (map (\<lambda>k. sum_list (map f (filter (\<lambda>u. P u k) us))) ks)"
proof (induction us)
  case (Cons u us)
  have "sum_list (map (\<lambda>(u, k). f u) (filter (\<lambda>(u, k). P u k) (map (Pair u) ks))) =
        sum_list (map (\<lambda>k. if P u k then f u else 0) ks)"
    by (induction ks) auto
  moreover have "sum_list (map (\<lambda>k. sum_list (map f (filter (\<lambda>x. P x k) (u # us)))) ks) =
        sum_list (map (\<lambda>k. (if P u k then f u else 0) + sum_list (map f (filter (\<lambda>x. P x k) us))) ks)"
    by (rule arg_cong[where f = sum_list]) simp
  ultimately show ?case using Cons by (simp add: sum_list_addf)
qed (simp add: sum_list_triv)

lemma client_usage_by_key:
  "client_usage_cu cid since s =
     sum_list (map (\<lambda>k. sum_cu (k_id k) since (usage_events s))
       (filter (\<lambda>k. k_client_id k = Some cid) (api_keys s)))"
proof -
  have "sum_list (map (\<lambda>k. sum_list (map u_cu (filter (\<lambda>u. u_key_id u = Some (k_id k) \<and>
            k_client_id k = Some cid \<and> u_ts u \<ge> since) (usage_events s)))) ks) =
        sum_list (map (\<lambda>k. sum_cu (k_id k) since (usage_events s)) (filter (\<lambda>k. k_client_id k = Some cid) ks))" for ks
    by (induction ks) (auto simp: sum_cu_def)
  then show ?thesis by (simp add: client_usage_cu_def sum_list_product_filter)
qed

section \<open>Properties\<close>



text \<open>
  Entitlements are operator-defined. The entitlement a key resolves to is the limits of
  a row of the \<open>plans\<close> table: the configured default plan, or the plan an active
  subscription of the key's owner names.
\<close>

theorem entitlement_operator_defined:
  assumes "ka_entitlement (key_access d kid s) = Some e"
  shows "\<exists>p\<in>set (plans s). \<exists>r cid. e = entitlement_of_plan p \<and>
           key_row kid (api_keys s) = Some r \<and> k_client_id r = Some cid \<and>
           (d = Some (pl_id p) \<or> (\<exists>b\<in>set (subscriptions s). s_client_id b = cid \<and>
              s_status b = ''active'' \<and> s_plan_id b = Some (pl_id p)))"
  using assms
  by (auto simp: key_access_def Let_def split: option.splits if_splits dest!: entitlement_for_client_plan)

theorem entitlement_operator_defined_witness:
  "\<exists>s e. ka_entitlement (key_access (Some ''free'') ''id1'' s) = Some e \<and>
     (\<exists>p\<in>set (plans s). e = entitlement_of_plan p)"
proof -
  define r where "r = (new_key_row rev ''id1'' ''tok'' None ''t0'')\<lparr>k_client_id := Some ''c1''\<rparr>"
  define p where "p = \<lparr>pl_id = ''free'', pl_name = ''Free'', pl_quota_5h_cu = 10, pl_quota_weekly_cu = 100,
    pl_rate_limit_per_min = None, pl_allowed_models = None, pl_created_at = ''t''\<rparr>"
  define s where "s = empty_db\<lparr>api_keys := [r], plans := [p]\<rparr>"
  have "ka_entitlement (key_access (Some ''free'') ''id1'' s) = Some (entitlement_of_plan p)"
    by (simp add: key_access_def key_row_def client_row_of_def s_def r_def p_def new_key_row_def empty_db_def
        status_defs entitlement_for_client_def order_by_desc_def sql_limit_def plan_row_of_def)
  from entitlement_operator_defined[OF this] this show ?thesis by blast
qed

text \<open>
  Metering and key deletion. A client's usage is the sum, over the keys it owns, of the
  very sums the quota windows enforce; deleting a key removes exactly that key's share from
  its owner's reconciled usage, although the usage rows remain.
\<close>

theorem client_usage_reconciles:
  assumes "keys_wf (api_keys s)" and "r \<in> set (api_keys s)"
  shows "client_usage_cu cid since s =
           sum_list (map (\<lambda>k. sum_cu (k_id k) since (usage_events s))
             (filter (\<lambda>k. k_client_id k = Some cid) (api_keys s))) \<and>
         client_usage_cu cid since (snd (key_delete (k_id r) s)) =
           client_usage_cu cid since s -
             (if k_client_id r = Some cid then sum_cu (k_id r) since (usage_events s) else 0) \<and>
         usage_events (snd (key_delete (k_id r) s)) = usage_events s"
proof -
  define g where "g = (\<lambda>k::api_key_row. sum_cu (k_id k) since (usage_events s))"
  define own where "own = (\<lambda>k::api_key_row. k_client_id k = Some cid)"
  have "sum_list (map g (filter own (del_where (\<lambda>x. k_id x = k_id r) t))) =
        sum_list (map g (filter own t)) - (if own r then g r else 0)"
    if "unique_on k_id t" "r \<in> set t" for t
    using that
  proof (induction t)
    case (Cons x t)
    show ?case
    proof (cases "x = r")
      case True
      then have "\<forall>y\<in>set t. k_id y \<noteq> k_id r" using Cons.prems by (auto simp: unique_on_def) (metis image_eqI)
      then have "del_where (\<lambda>x. k_id x = k_id r) t = t" by (simp add: del_where_def filter_id_conv)
      then show ?thesis using True by simp
    next
      case False
      then have "k_id x \<noteq> k_id r" "r \<in> set t" using Cons.prems unique_on_eq by fastforce+
      then show ?thesis using Cons by (simp add: unique_on_def)
    qed
  qed simp
  then have "sum_list (map g (filter own (del_where (\<lambda>x. k_id x = k_id r) (api_keys s)))) =
        sum_list (map g (filter own (api_keys s))) - (if own r then g r else 0)"
    using assms by (simp add: keys_wf_def)
  then show ?thesis by (simp add: client_usage_by_key key_delete_def g_def own_def Let_def)
qed

theorem client_usage_reconciles_witness:
  "\<exists>s. client_usage_cu ''c1'' 0 s = 7 \<and> client_usage_cu ''c1'' 0 (snd (key_delete ''k'' s)) = 0 \<and>
     usage_events (snd (key_delete ''k'' s)) = [sample_event]"
proof -
  define r where "r = (new_key_row rev ''k'' ''tok'' None ''t0'')\<lparr>k_client_id := Some ''c1''\<rparr>"
  define s where "s = empty_db\<lparr>api_keys := [r], usage_events := [sample_event]\<rparr>"
  have u: "client_usage_cu ''c1'' 0 s = 7"
    by (simp add: client_usage_cu_def s_def r_def new_key_row_def sample_event_def)
  have "sum_cu ''k'' 0 [sample_event] = 7" by (simp add: sum_cu_def sample_event_def)
  then show ?thesis
    using u client_usage_reconciles[of s r "''c1''" 0]
    by (intro exI[of _ s]) (simp add: s_def r_def keys_wf_def unique_on_def new_key_row_def)
qed

text \<open>
  The inbound ledger admits an event once. Recording an event succeeds exactly when its
  (provider, id) is new; a second recording of it fails and leaves the database unchanged;
  forgetting it makes it recordable again.
\<close>

theorem record_event_once_ledger:
  "fst (record_event_once p e ty now s) = ((p, e) \<notin> event_key ` set (webhook_events s)) \<and>
   (let s' = snd (record_event_once p e ty now s)
    in record_event_once p e ty' now' s' = (False, s') \<and>
       fst (record_event_once p e ty' now' (mark_event_processed p e res now' s')) = False \<and>
       fst (record_event_once p e ty' now' (forget_event p e s')) = True)"
proof -
  define row where "row ty now = \<lparr>we_provider = p, we_event_id = e, we_event_type = ty,
                 we_received_at = now, we_processed_at = None, we_result = None\<rparr>" for ty now
  have k: "event_key (row ty now) = (p, e)" for ty now by (simp add: event_key_def row_def)
  have r: "record_event_once p e ty now s =
      (snd (insert_or_ignore event_key (row ty now) (webhook_events s)) > 0,
       s\<lparr>webhook_events := fst (insert_or_ignore event_key (row ty now) (webhook_events s))\<rparr>)" for ty now s
    by (simp add: record_event_once_def Let_def row_def split: prod.splits)
  let ?s = "snd (record_event_once p e ty now s)"
  have "(p, e) \<in> event_key ` set (webhook_events ?s)"
    using insert_or_ignore_present[of event_key "row ty now"] k by (simp add: r)
  moreover have "event_key ` set (webhook_events (mark_event_processed p e res now' ?s)) =
      event_key ` set (webhook_events ?s)"
    unfolding mark_event_processed_def by (simp add: ids_upd_where event_key_def)
  moreover have "(p, e) \<notin> event_key ` set (webhook_events (forget_event p e ?s))"
    by (auto simp: forget_event_def set_del_where)
  ultimately show ?thesis by (simp add: r k insert_or_ignore_def Let_def)
qed

end
