(* ===== verification/Webhooks.thy ===== *)
theory Webhooks
  imports Billing
begin

text \<open>
  Outbound webhooks (\<open>engine/billing/webhooks\<close>): the endpoint, secret and delivery tables
  of \<open>store.py\<close>, the signatures of \<open>signing.py\<close>, the worker of \<open>delivery.py\<close> and
  the fan-out of \<open>dispatcher.py\<close>. HMAC and base64 are arguments (\<open>hmac\<close>,
  \<open>b64decode\<close>), as is the network (\<open>post\<close>: \<open>Inl\<close> is a \<open>TransportError\<close>) and
  the host part of a URL (\<open>hostname\<close>: \<open>None\<close> is \<open>urlsplit\<close>'s \<open>ValueError\<close>).
  \<open>uuid n\<close> is the \<open>n\<close>-th identifier drawn.
\<close>

definition STATUS_PENDING :: string where "STATUS_PENDING = ''pending''"
definition STATUS_SUCCEEDED :: string where "STATUS_SUCCEEDED = ''succeeded''"
definition STATUS_DEAD :: string where "STATUS_DEAD = ''dead''"

lemmas delivery_status_defs = STATUS_PENDING_def STATUS_SUCCEEDED_def STATUS_DEAD_def

section \<open>Signing\<close>

definition SECRET_PREFIX :: string where
  "SECRET_PREFIX = ''whsec_''"

definition secret_bytes :: "(string \<Rightarrow> string option) \<Rightarrow> string \<Rightarrow> string" where
  "secret_bytes b64decode secret =
     (let body = (if startswith secret SECRET_PREFIX then drop (length SECRET_PREFIX) secret else secret)
      in case b64decode body of Some raw \<Rightarrow> raw | None \<Rightarrow> body)"

definition signed_content :: "string \<Rightarrow> int \<Rightarrow> string \<Rightarrow> string" where
  "signed_content msg_id timestamp body = msg_id @ ''.'' @ str_of_int timestamp @ ''.'' @ body"

definition sign ::
  "(string \<Rightarrow> string option) \<Rightarrow> (string \<Rightarrow> string \<Rightarrow> string) \<Rightarrow> string \<Rightarrow> string \<Rightarrow> int \<Rightarrow> string \<Rightarrow> string" where
  "sign b64decode hmac secret msg_id timestamp body =
     hmac (secret_bytes b64decode secret) (signed_content msg_id timestamp body)"

definition signature_header ::
  "(string \<Rightarrow> string option) \<Rightarrow> (string \<Rightarrow> string \<Rightarrow> string) \<Rightarrow> string list \<Rightarrow> string \<Rightarrow> int \<Rightarrow> string \<Rightarrow> string" where
  "signature_header b64decode hmac secrets msg_id timestamp body =
     join '' '' (map (\<lambda>s. ''v1,'' @ sign b64decode hmac s msg_id timestamp body) secrets)"

text \<open>
  \<open>hmac.compare_digest\<close> on two strings raises \<open>TypeError\<close> (\<open>None\<close>) unless both are
  ASCII.
\<close>

definition compare_digest :: "string \<Rightarrow> string \<Rightarrow> bool option" where
  "compare_digest a b = (if isascii a \<and> isascii b then Some (a = b) else None)"

fun verify_tokens :: "string \<Rightarrow> bool \<Rightarrow> string list \<Rightarrow> bool option" where
  "verify_tokens expected ok [] = Some ok"
| "verify_tokens expected ok (token # tokens) =
     (let (version, value) = partition_on (CHR '','') token
      in if version = ''v1'' then
           case compare_digest value expected of
             None \<Rightarrow> None
           | Some eq \<Rightarrow> verify_tokens expected (ok \<or> eq) tokens
         else verify_tokens expected ok tokens)"

definition verify ::
  "(string \<Rightarrow> string option) \<Rightarrow> (string \<Rightarrow> string \<Rightarrow> string) \<Rightarrow> string \<Rightarrow> string \<Rightarrow> string \<Rightarrow> int \<Rightarrow> string \<Rightarrow> bool option" where
  "verify b64decode hmac secret header msg_id timestamp body =
     verify_tokens (sign b64decode hmac secret msg_id timestamp body) False (split_ws header)"

section \<open>Endpoints and secrets\<close>

definition create_endpoint ::
  "string \<Rightarrow> string \<Rightarrow> string \<Rightarrow> string \<Rightarrow> string \<Rightarrow> string option \<Rightarrow> string list option \<Rightarrow> iso_time
    \<Rightarrow> (endpoint \<times> string) action" where
  "create_endpoint endpoint_id secret_id secret cid url description event_types now s =
     (let ep = \<lparr>ep_id = endpoint_id, ep_client_id = cid, ep_url = url, ep_description = description,
                ep_disabled = False, ep_event_types = event_types\<rparr>;
          sec = \<lparr>ws_id = secret_id, ws_endpoint_id = endpoint_id, ws_secret = secret,
                 ws_created_at = now, ws_expires_at = None\<rparr>
      in if endpoint_id \<in> ep_id ` set (webhook_endpoints s) \<or> cid \<notin> c_id ` set (clients s)
            \<or> secret_id \<in> ws_id ` set (webhook_secrets s)
         then (Inl IntegrityError, s)
         else (Inr (ep, secret),
               s\<lparr>webhook_endpoints := webhook_endpoints s @ [endpoint.extend ep (endpoint_row.fields now)],
                 webhook_secrets := webhook_secrets s @ [sec]\<rparr>))"

definition endpoint_row_of :: "string \<Rightarrow> endpoint_row list \<Rightarrow> endpoint_row option" where
  "endpoint_row_of eid t = fetchone (\<lambda>r. ep_id r = eid) t"

definition get_endpoint :: "string \<Rightarrow> db \<Rightarrow> endpoint option" where
  "get_endpoint eid s = map_option endpoint.truncate (endpoint_row_of eid (webhook_endpoints s))"

definition list_endpoints :: "string option \<Rightarrow> db \<Rightarrow> endpoint list" where
  "list_endpoints cid s =
     map endpoint.truncate (order_by ep_created_at
       (case cid of None \<Rightarrow> webhook_endpoints s
        | Some c \<Rightarrow> filter (\<lambda>r. ep_client_id r = c) (webhook_endpoints s)))"

definition set_disabled :: "string \<Rightarrow> bool \<Rightarrow> db \<Rightarrow> bool \<times> db" where
  "set_disabled eid disabled s =
     (rowcount (\<lambda>r. ep_id r = eid) (webhook_endpoints s) > 0,
      s\<lparr>webhook_endpoints := upd_where (\<lambda>r. ep_id r = eid) (\<lambda>r. r\<lparr>ep_disabled := disabled\<rparr>)
           (webhook_endpoints s)\<rparr>)"

text \<open>Deleting an endpoint cascades to its secrets and deliveries.\<close>

definition delete_endpoint :: "string \<Rightarrow> db \<Rightarrow> bool \<times> db" where
  "delete_endpoint eid s =
     (rowcount (\<lambda>r. ep_id r = eid) (webhook_endpoints s) > 0,
      s\<lparr>webhook_endpoints := del_where (\<lambda>r. ep_id r = eid) (webhook_endpoints s),
        webhook_secrets := del_where (\<lambda>r. ws_endpoint_id r = eid) (webhook_secrets s),
        webhook_deliveries := del_where (\<lambda>r. dl_endpoint_id r = eid) (webhook_deliveries s)\<rparr>)"

definition secret_active :: "string \<Rightarrow> time \<Rightarrow> secret_row \<Rightarrow> bool" where
  "secret_active eid now r \<longleftrightarrow>
     ws_endpoint_id r = eid \<and> (case ws_expires_at r of None \<Rightarrow> True | Some e \<Rightarrow> e > now)"

definition active_secrets :: "string \<Rightarrow> time \<Rightarrow> db \<Rightarrow> string list" where
  "active_secrets eid now s =
     map ws_secret (order_by_desc ws_created_at (filter (secret_active eid now) (webhook_secrets s)))"

definition rotate_secret :: "string \<Rightarrow> string \<Rightarrow> string \<Rightarrow> real \<Rightarrow> time \<Rightarrow> iso_time \<Rightarrow> string action" where
  "rotate_secret secret_id new_secret eid grace_s now now_iso s =
     (if eid \<notin> ep_id ` set (webhook_endpoints s) \<or> secret_id \<in> ws_id ` set (webhook_secrets s)
      then (Inl IntegrityError, s)
      else (Inr new_secret,
            s\<lparr>webhook_secrets :=
               upd_where (\<lambda>r. ws_endpoint_id r = eid \<and> ws_expires_at r = None)
                 (\<lambda>r. r\<lparr>ws_expires_at := Some (now + grace_s)\<rparr>) (webhook_secrets s)
               @ [\<lparr>ws_id = secret_id, ws_endpoint_id = eid, ws_secret = new_secret,
                   ws_created_at = now_iso, ws_expires_at = None\<rparr>]\<rparr>))"

section \<open>Fan-out\<close>

definition delivery_key :: "delivery \<Rightarrow> string \<times> string" where
  "delivery_key d = (dl_endpoint_id d, dl_event_id d)"

definition insert_delivery :: "delivery \<Rightarrow> delivery list \<Rightarrow> delivery list \<times> nat" where
  "insert_delivery d t =
     (if dl_id d \<in> dl_id ` set t \<or> delivery_key d \<in> delivery_key ` set t then (t, 0) else (t @ [d], 1))"

definition new_delivery :: "string \<Rightarrow> string \<Rightarrow> string \<Rightarrow> string \<Rightarrow> string \<Rightarrow> time \<Rightarrow> delivery" where
  "new_delivery did eid event_id event_type payload now =
     \<lparr>dl_id = did, dl_endpoint_id = eid, dl_event_id = event_id, dl_event_type = event_type,
      dl_payload = payload, dl_status = STATUS_PENDING, dl_attempts = 0, dl_next_attempt_at = now,
      dl_last_status_code = None, dl_last_error = None, dl_created_at = now, dl_updated_at = now\<rparr>"

definition subscribed :: "'a endpoint_scheme \<Rightarrow> string \<Rightarrow> bool" where
  "subscribed ep event_type =
     (case ep_event_types ep of None \<Rightarrow> True | Some types \<Rightarrow> event_type \<in> set types)"

fun enqueue_loop ::
  "(nat \<Rightarrow> string) \<Rightarrow> string \<Rightarrow> string \<Rightarrow> string \<Rightarrow> time \<Rightarrow> endpoint_row list \<Rightarrow> nat \<Rightarrow> delivery list \<times> nat
     \<Rightarrow> delivery list \<times> nat" where
  "enqueue_loop uuid event_id event_type payload now [] n (t, created) = (t, created)"
| "enqueue_loop uuid event_id event_type payload now (ep # eps) n (t, created) =
     (if \<not> subscribed ep event_type then enqueue_loop uuid event_id event_type payload now eps n (t, created)
      else let (t', k) = insert_delivery (new_delivery (uuid n) (ep_id ep) event_id event_type payload now) t
           in enqueue_loop uuid event_id event_type payload now eps (Suc n) (t', created + k))"

definition enqueue_event ::
  "(nat \<Rightarrow> string) \<Rightarrow> string \<Rightarrow> string \<Rightarrow> string \<Rightarrow> string \<Rightarrow> time \<Rightarrow> db \<Rightarrow> nat \<times> db" where
  "enqueue_event uuid cid event_id event_type payload now s =
     (let eps = filter (\<lambda>r. ep_client_id r = cid \<and> \<not> ep_disabled r) (webhook_endpoints s);
          (t, created) = enqueue_loop uuid event_id event_type payload now eps 0 (webhook_deliveries s, 0)
      in (created, s\<lparr>webhook_deliveries := t\<rparr>))"

section \<open>The delivery queue\<close>

definition due :: "time \<Rightarrow> delivery \<Rightarrow> bool" where
  "due now d \<longleftrightarrow> dl_status d = STATUS_PENDING \<and> dl_next_attempt_at d \<le> now"

definition claim_due :: "time \<Rightarrow> int \<Rightarrow> db \<Rightarrow> delivery list" where
  "claim_due now lim_rows s =
     sql_limit lim_rows (order_by dl_next_attempt_at (filter (due now) (webhook_deliveries s)))"

definition update_delivery ::
  "string \<Rightarrow> string \<Rightarrow> int option \<Rightarrow> string option \<Rightarrow> time option \<Rightarrow> time \<Rightarrow> db \<Rightarrow> db" where
  "update_delivery did status status_code error next_attempt_at now s =
     s\<lparr>webhook_deliveries :=
        upd_where (\<lambda>d. dl_id d = did)
          (\<lambda>d. d\<lparr>dl_status := status, dl_attempts := dl_attempts d + 1,
                 dl_last_status_code := status_code, dl_last_error := error,
                 dl_next_attempt_at := (case next_attempt_at of None \<Rightarrow> dl_next_attempt_at d | Some t \<Rightarrow> t),
                 dl_updated_at := now\<rparr>) (webhook_deliveries s)\<rparr>"

definition mark_succeeded :: "string \<Rightarrow> int \<Rightarrow> time \<Rightarrow> db \<Rightarrow> db" where
  "mark_succeeded did status_code now s =
     update_delivery did STATUS_SUCCEEDED (Some status_code) None None now s"

definition mark_retry :: "string \<Rightarrow> time \<Rightarrow> int option \<Rightarrow> string option \<Rightarrow> time \<Rightarrow> db \<Rightarrow> db" where
  "mark_retry did next_at status_code error now s =
     update_delivery did STATUS_PENDING status_code error (Some next_at) now s"

definition mark_dead :: "string \<Rightarrow> int option \<Rightarrow> string option \<Rightarrow> time \<Rightarrow> db \<Rightarrow> db" where
  "mark_dead did status_code error now s =
     update_delivery did STATUS_DEAD status_code error None now s"

definition get_delivery :: "string \<Rightarrow> db \<Rightarrow> delivery option" where
  "get_delivery did s = fetchone (\<lambda>d. dl_id d = did) (webhook_deliveries s)"

definition count_by_status :: "string \<Rightarrow> db \<Rightarrow> nat" where
  "count_by_status status s = rowcount (\<lambda>d. dl_status d = status) (webhook_deliveries s)"

definition list_deliveries :: "string option \<Rightarrow> string option \<Rightarrow> int \<Rightarrow> db \<Rightarrow> delivery list" where
  "list_deliveries eid status lim_rows s =
     sql_limit lim_rows (order_by_desc dl_created_at
       (filter (\<lambda>d. (case eid of None \<Rightarrow> True | Some e \<Rightarrow> dl_endpoint_id d = e) \<and>
                     (case status of None \<Rightarrow> True | Some st \<Rightarrow> dl_status d = st)) (webhook_deliveries s)))"

definition replay :: "string \<Rightarrow> time \<Rightarrow> db \<Rightarrow> bool \<times> db" where
  "replay did now s =
     (rowcount (\<lambda>d. dl_id d = did) (webhook_deliveries s) > 0,
      s\<lparr>webhook_deliveries :=
         upd_where (\<lambda>d. dl_id d = did)
           (\<lambda>d. d\<lparr>dl_status := STATUS_PENDING, dl_attempts := 0, dl_next_attempt_at := now,
                  dl_last_error := None, dl_updated_at := now\<rparr>) (webhook_deliveries s)\<rparr>)"

section \<open>The delivery worker\<close>

definition DEFAULT_BACKOFF_SCHEDULE_S :: "real list" where
  "DEFAULT_BACKOFF_SCHEDULE_S = [30, 120, 600, 1800]"

definition NON_ASCII_HOST_ERROR :: string where
  "NON_ASCII_HOST_ERROR = ''endpoint host is not ASCII; re-register it in the xn-- (punycode) form''"

definition host_is_ascii :: "(string \<Rightarrow> string option option) \<Rightarrow> string \<Rightarrow> bool" where
  "host_is_ascii hostname url =
     (case hostname url of None \<Rightarrow> False | Some None \<Rightarrow> True | Some (Some h) \<Rightarrow> isascii h)"

text \<open>\<open>schedule[idx]\<close> with \<open>1 \<le> attempts_after\<close> and a non-empty schedule: never out of range.\<close>

definition next_delay :: "int \<Rightarrow> real list \<Rightarrow> real" where
  "next_delay attempts_after schedule =
     schedule ! nat (min (attempts_after - 1) (int (length schedule) - 1))"

definition build_headers ::
  "(string \<Rightarrow> string option) \<Rightarrow> (string \<Rightarrow> string \<Rightarrow> string) \<Rightarrow> string list \<Rightarrow> string \<Rightarrow> int \<Rightarrow> string
    \<Rightarrow> (string \<times> string) list" where
  "build_headers b64decode hmac secrets msg_id timestamp body =
     [(''content-type'', ''application/json''),
      (''webhook-id'', msg_id),
      (''webhook-timestamp'', str_of_int timestamp),
      (''webhook-signature'', signature_header b64decode hmac secrets msg_id timestamp body),
      (''user-agent'', ''inference-engine-webhooks/1'')]"

record worker =
  wk_b64decode :: "string \<Rightarrow> string option"
  wk_hmac :: "string \<Rightarrow> string \<Rightarrow> string"
  wk_hostname :: "string \<Rightarrow> string option option"
  wk_post :: "string \<Rightarrow> string \<Rightarrow> (string \<times> string) list \<Rightarrow> string + int"
  wk_max_attempts :: int
  wk_schedule :: "real list"
  wk_batch_limit :: int

text \<open>The constructor: at least one attempt, and never an empty schedule.\<close>

definition worker_init :: "worker \<Rightarrow> worker" where
  "worker_init w = w\<lparr>wk_max_attempts := max 1 (wk_max_attempts w),
     wk_schedule := (if wk_schedule w = [] then DEFAULT_BACKOFF_SCHEDULE_S else wk_schedule w)\<rparr>"

definition on_failure :: "worker \<Rightarrow> delivery \<Rightarrow> int \<Rightarrow> int option \<Rightarrow> string \<Rightarrow> time \<Rightarrow> db \<Rightarrow> db" where
  "on_failure w d attempts_after status_code error now s =
     (if attempts_after \<ge> wk_max_attempts w then mark_dead (dl_id d) status_code (Some error) now s
      else mark_retry (dl_id d) (now + next_delay attempts_after (wk_schedule w)) status_code (Some error) now s)"

definition attempt :: "worker \<Rightarrow> delivery \<Rightarrow> time \<Rightarrow> db \<Rightarrow> db" where
  "attempt w d now s =
     (case get_endpoint (dl_endpoint_id d) s of
        None \<Rightarrow> mark_dead (dl_id d) None (Some ''endpoint missing or disabled'') now s
      | Some ep \<Rightarrow>
          if ep_disabled ep then mark_dead (dl_id d) None (Some ''endpoint missing or disabled'') now s
          else if \<not> host_is_ascii (wk_hostname w) (ep_url ep)
          then mark_dead (dl_id d) None (Some NON_ASCII_HOST_ERROR) now s
          else
            let secrets = active_secrets (ep_id ep) now s;
                headers = build_headers (wk_b64decode w) (wk_hmac w) secrets (dl_id d) \<lfloor>now\<rfloor> (dl_payload d);
                attempts_after = dl_attempts d + 1
            in case wk_post w (ep_url ep) (dl_payload d) headers of
                 Inl err \<Rightarrow> on_failure w d attempts_after None err now s
               | Inr status_code \<Rightarrow>
                   if 200 \<le> status_code \<and> status_code < 300 then mark_succeeded (dl_id d) status_code now s
                   else on_failure w d attempts_after (Some status_code) (''HTTP '' @ str_of_int status_code) now s)"

text \<open>\<open>stop i\<close>: the stop event is set before the \<open>i\<close>-th delivery of the batch.\<close>

fun run_batch :: "worker \<Rightarrow> (nat \<Rightarrow> bool) \<Rightarrow> time \<Rightarrow> delivery list \<Rightarrow> nat \<Rightarrow> db \<Rightarrow> nat \<times> db" where
  "run_batch w stop now [] n s = (n, s)"
| "run_batch w stop now (d # ds) n s =
     (if stop n then (n, s) else run_batch w stop now ds (Suc n) (attempt w d now s))"

definition run_once :: "worker \<Rightarrow> (nat \<Rightarrow> bool) \<Rightarrow> time \<Rightarrow> db \<Rightarrow> nat \<times> db" where
  "run_once w stop now s = run_batch w stop now (claim_due now (wk_batch_limit w) s) 0 s"

section \<open>Dispatch\<close>

text \<open>\<open>payload eid\<close> is the JSON envelope for the event id. An error of the store yields 0.\<close>

definition dispatch_emit ::
  "bool \<Rightarrow> (nat \<Rightarrow> string) \<Rightarrow> string \<Rightarrow> string \<Rightarrow> (string \<Rightarrow> string) \<Rightarrow> string option \<Rightarrow> time \<Rightarrow> db \<Rightarrow> nat \<times> db" where
  "dispatch_emit enabled uuid cid event_type payload event_id now s =
     (if \<not> enabled then (0, s)
      else let eid = (case event_id of Some e \<Rightarrow> if e = [] then ''evt_'' @ uuid 0 else e
                                    | None \<Rightarrow> ''evt_'' @ uuid 0)
           in enqueue_event (\<lambda>n. uuid (Suc n)) cid eid event_type (payload eid) now s)"

section \<open>Lemmas: signatures\<close>

lemma verify_tokens_found:
  assumes "isascii expected"
    and "\<forall>t\<in>set tokens. \<exists>v. t = ''v1,'' @ v \<and> isascii v"
  shows "verify_tokens expected ok tokens = Some (ok \<or> ''v1,'' @ expected \<in> set tokens)"
  using assms(2)
proof (induction tokens arbitrary: ok)
  case (Cons t ts)
  then obtain v where t: "t = ''v1,'' @ v" "isascii v" by auto
  have "partition_on (CHR '','') (''v1'' @ CHR '','' # v) = (''v1'', v)"
    by (rule partition_on_found) simp
  then have "verify_tokens expected ok (t # ts) = verify_tokens expected (ok \<or> v = expected) ts"
    using assms(1) t by (simp add: compare_digest_def)
  then show ?case using Cons t by auto
qed simp

lemma isascii_append [simp]: "isascii (a @ b) \<longleftrightarrow> isascii a \<and> isascii b"
  by (auto simp: isascii_def)

section \<open>Lemmas: secrets\<close>

lemma set_active_secrets:
  "set (active_secrets eid now s) = ws_secret ` {r \<in> set (webhook_secrets s). secret_active eid now r}"
  by (simp add: active_secrets_def)

section \<open>Lemmas: fan-out\<close>

lemma enqueue_loop_spec:
  assumes "inj uuid" and "\<forall>m\<ge>n. uuid m \<notin> dl_id ` set t"
    and "enqueue_loop uuid eid ty pl now eps n (t, c) = (t', c')"
  shows "\<exists>new. t' = t @ new \<and> c' = c + length new \<and>
           (\<forall>d\<in>set new. dl_status d = STATUS_PENDING \<and> dl_attempts d = 0 \<and> dl_next_attempt_at d = now \<and>
              dl_payload d = pl) \<and>
           delivery_key ` set t' = delivery_key ` set t \<union> {(ep_id ep, eid) | ep. ep \<in> set eps \<and> subscribed ep ty} \<and>
           (unique_on delivery_key t \<longrightarrow> unique_on delivery_key t') \<and>
           (unique_on dl_id t \<longrightarrow> unique_on dl_id t')"
  using assms(2,3)
proof (induction eps arbitrary: n t c)
  case Nil
  then show ?case by auto
next
  case (Cons ep eps)
  show ?case
  proof (cases "subscribed ep ty")
    case False
    with Cons.prems(2) have "enqueue_loop uuid eid ty pl now eps n (t, c) = (t', c')" by simp
    from Cons.IH[OF Cons.prems(1) this] show ?thesis using False by (auto 4 3)
  next
    case True
    let ?d = "new_delivery (uuid n) (ep_id ep) eid ty pl now"
    have k: "delivery_key ?d = (ep_id ep, eid)" "dl_id ?d = uuid n"
      by (simp_all add: delivery_key_def new_delivery_def)
    have fresh: "uuid n \<notin> dl_id ` set t" "\<forall>m\<ge>Suc n. uuid m \<notin> dl_id ` set t"
      using Cons.prems(1) by auto
    show ?thesis
    proof (cases "(ep_id ep, eid) \<in> delivery_key ` set t")
      case dup: True
      have "enqueue_loop uuid eid ty pl now eps (Suc n) (t, c) = (t', c')"
        using Cons.prems(2) True dup k by (simp add: insert_delivery_def)
      from Cons.IH[OF fresh(2) this] show ?thesis using True dup by (auto 4 3)
    next
      case new: False
      have run: "enqueue_loop uuid eid ty pl now eps (Suc n) (t @ [?d], Suc c) = (t', c')"
        using Cons.prems(2) True new k fresh by (simp add: insert_delivery_def)
      have "\<forall>m\<ge>Suc n. uuid m \<notin> dl_id ` set (t @ [?d])"
        using fresh(2) assms(1) k by (auto dest!: injD)
      from Cons.IH[OF this run] obtain new where n: "t' = t @ ?d # new" "c' = Suc c + length new"
          "\<forall>d\<in>set new. dl_status d = STATUS_PENDING \<and> dl_attempts d = 0 \<and> dl_next_attempt_at d = now \<and> dl_payload d = pl"
          "delivery_key ` set t' = delivery_key ` set (t @ [?d]) \<union> {(ep_id ep, eid) | ep. ep \<in> set eps \<and> subscribed ep ty}"
          "unique_on delivery_key (t @ [?d]) \<longrightarrow> unique_on delivery_key t'"
          "unique_on dl_id (t @ [?d]) \<longrightarrow> unique_on dl_id t'"
        by auto
      have u: "unique_on delivery_key t \<Longrightarrow> unique_on delivery_key (t @ [?d])"
          "unique_on dl_id t \<Longrightarrow> unique_on dl_id (t @ [?d])"
        using new fresh by (simp_all add: unique_on_snoc k)
      show ?thesis
        using n u k True
        by (intro exI[of _ "?d # new"]) (auto simp: new_delivery_def)
    qed
  qed
qed

lemma enqueue_loop_nothing:
  "\<forall>ep\<in>set eps. subscribed ep ty \<longrightarrow> (ep_id ep, eid) \<in> delivery_key ` set t \<Longrightarrow>
     enqueue_loop uuid eid ty pl now eps n (t, c) = (t, c)"
  by (induction eps arbitrary: n) (auto simp: insert_delivery_def delivery_key_def new_delivery_def)

section \<open>Lemmas: one attempt\<close>

text \<open>An attempt is one update of its own row, to one of three outcomes.\<close>

lemma on_failure_update:
  "\<exists>st sc er nx. on_failure w d a sc0 err now s = update_delivery (dl_id d) st sc er nx now s \<and>
     (st = STATUS_DEAD \<and> a \<ge> wk_max_attempts w \<and> nx = None \<or>
      st = STATUS_PENDING \<and> a < wk_max_attempts w \<and> nx = Some (now + next_delay a (wk_schedule w)))"
  unfolding on_failure_def mark_dead_def mark_retry_def by (auto simp: not_le)

lemma attempt_update:
  "\<exists>st sc er nx. attempt w d now s = update_delivery (dl_id d) st sc er nx now s \<and>
     (st = STATUS_SUCCEEDED \<and> nx = None \<or> st = STATUS_DEAD \<and> nx = None \<or>
      st = STATUS_PENDING \<and> dl_attempts d + 1 < wk_max_attempts w \<and>
        nx = Some (now + next_delay (dl_attempts d + 1) (wk_schedule w)))"
proof -
  have dead: "\<exists>st sc er nx. mark_dead (dl_id d) c e now s = update_delivery (dl_id d) st sc er nx now s \<and>
     st = STATUS_DEAD \<and> nx = None" for c e unfolding mark_dead_def by blast
  have succ: "\<exists>st sc er nx. mark_succeeded (dl_id d) c now s = update_delivery (dl_id d) st sc er nx now s \<and>
     st = STATUS_SUCCEEDED \<and> nx = None" for c unfolding mark_succeeded_def by blast
  show ?thesis
    unfolding attempt_def Let_def
    by (auto split: option.splits sum.splits) (use dead succ on_failure_update in metis)+
qed

lemma update_delivery_row:
  "get_delivery i (update_delivery did st sc er nx now s) =
     map_option (\<lambda>d. if dl_id d = did then d\<lparr>dl_status := st, dl_attempts := dl_attempts d + 1,
         dl_last_status_code := sc, dl_last_error := er,
         dl_next_attempt_at := (case nx of None \<Rightarrow> dl_next_attempt_at d | Some t \<Rightarrow> t),
         dl_updated_at := now\<rparr> else d) (get_delivery i s)"
  unfolding get_delivery_def update_delivery_def by (simp, rule fetchone_upd_where) auto

lemma get_delivery_id: "get_delivery i s = Some d \<Longrightarrow> dl_id d = i"
  by (auto simp: get_delivery_def dest: fetchone_Some)

text \<open>The next state of an attempted row.\<close>

lemma attempt_row:
  assumes "get_delivery (dl_id d) s = Some d"
  shows "\<exists>d'. get_delivery (dl_id d) (attempt w d now s) = Some d' \<and> dl_attempts d' = dl_attempts d + 1 \<and>
           dl_id d' = dl_id d \<and> delivery_key d' = delivery_key d \<and> dl_payload d' = dl_payload d \<and>
           (dl_status d' = STATUS_SUCCEEDED \<or> dl_status d' = STATUS_DEAD \<or>
            dl_status d' = STATUS_PENDING \<and> dl_attempts d + 1 < wk_max_attempts w \<and>
              dl_next_attempt_at d' = now + next_delay (dl_attempts d + 1) (wk_schedule w))"
proof -
  from attempt_update[of w d now s] obtain st sc er nx where
    u: "attempt w d now s = update_delivery (dl_id d) st sc er nx now s"
    and o: "st = STATUS_SUCCEEDED \<and> nx = None \<or> st = STATUS_DEAD \<and> nx = None \<or>
      st = STATUS_PENDING \<and> dl_attempts d + 1 < wk_max_attempts w \<and>
        nx = Some (now + next_delay (dl_attempts d + 1) (wk_schedule w))" by blast
  show ?thesis unfolding u update_delivery_row assms
    using o by (auto simp: delivery_key_def)
qed

lemma attempt_other:
  "i \<noteq> dl_id d \<Longrightarrow> get_delivery i (attempt w d now s) = get_delivery i s"
proof -
  assume i: "i \<noteq> dl_id d"
  obtain st sc er nx where "attempt w d now s = update_delivery (dl_id d) st sc er nx now s"
    using attempt_update by blast
  then show ?thesis
    using i get_delivery_id[of i s] by (cases "get_delivery i s") (auto simp: update_delivery_row)
qed

lemma update_delivery_frame [simp]:
  "webhook_endpoints (update_delivery i st sc er nx now s) = webhook_endpoints s"
  "webhook_secrets (update_delivery i st sc er nx now s) = webhook_secrets s"
  "clients (update_delivery i st sc er nx now s) = clients s"
  by (simp_all add: update_delivery_def)

lemma update_delivery_ids:
  "map dl_id (webhook_deliveries (update_delivery i st sc er nx now s)) = map dl_id (webhook_deliveries s)"
  unfolding update_delivery_def by (simp add: map_upd_where_same)

lemma attempt_ids: "map dl_id (webhook_deliveries (attempt w d now s)) = map dl_id (webhook_deliveries s)"
  by (metis attempt_update update_delivery_ids)

lemma run_batch_other:
  "i \<notin> dl_id ` set ds \<Longrightarrow> get_delivery i (snd (run_batch w stop now ds n s)) = get_delivery i s"
  by (induction w stop now ds n s rule: run_batch.induct) (auto simp: attempt_other)

lemma run_batch_attempted:
  "\<lbrakk>distinct (map dl_id ds); \<forall>d\<in>set ds. get_delivery (dl_id d) s = Some d; \<forall>k. \<not> stop k; d \<in> set ds\<rbrakk> \<Longrightarrow>
     \<exists>s0. get_delivery (dl_id d) s0 = Some d \<and>
       get_delivery (dl_id d) (snd (run_batch w stop now ds n s)) = get_delivery (dl_id d) (attempt w d now s0)"
proof (induction w stop now ds n s rule: run_batch.induct)
  case (2 w stop now x ds n s)
  show ?case
  proof (cases "d = x")
    case True
    then have "dl_id d \<notin> dl_id ` set ds" using 2(2) by auto
    then show ?thesis using True 2(3,4) by (intro exI[of _ s]) (auto simp: run_batch_other)
  next
    case False
    then have "d \<in> set ds" using 2(5) by simp
    moreover have "\<forall>d\<in>set ds. get_delivery (dl_id d) (attempt w x now s) = Some d"
    proof
      fix y assume "y \<in> set ds"
      moreover have "dl_id x \<notin> dl_id ` set ds" using 2(2) by simp
      ultimately have "dl_id y \<noteq> dl_id x" "get_delivery (dl_id y) s = Some y"
        using 2(3) by (metis image_eqI, simp)
      then show "get_delivery (dl_id y) (attempt w x now s) = Some y" by (simp add: attempt_other)
    qed
    ultimately show ?thesis using 2 by simp
  qed
qed simp

lemma run_batch_count: "\<forall>k. \<not> stop k \<Longrightarrow> fst (run_batch w stop now ds n s) = n + length ds"
  by (induction w stop now ds n s rule: run_batch.induct) auto

lemma claim_due_props:
  assumes "unique_on dl_id (webhook_deliveries s)"
  shows "distinct (map dl_id (claim_due now l s))"
    and "\<forall>d\<in>set (claim_due now l s). get_delivery (dl_id d) s = Some d \<and> due now d"
proof -
  let ?due = "filter (due now) (webhook_deliveries s)"
  have "distinct (map dl_id ?due)" using assms by (auto simp: unique_on_def distinct_map inj_on_def)
  then have "distinct (map dl_id (order_by dl_next_attempt_at ?due))"
    unfolding order_by_def by (simp add: distinct_map)
  then show "distinct (map dl_id (claim_due now l s))"
    by (auto simp: claim_due_def sql_limit_def take_map[symmetric])
  have "set (claim_due now l s) \<subseteq> set ?due"
    using set_sql_limit[of l "order_by dl_next_attempt_at ?due"] by (simp add: claim_due_def)
  then show "\<forall>d\<in>set (claim_due now l s). get_delivery (dl_id d) s = Some d \<and> due now d"
    using assms by (auto simp: get_delivery_def intro: fetchone_unique)
qed

section \<open>Properties\<close>

text \<open>
  Fan-out is complete and idempotent. Enqueuing an event for a client appends one
  pending, immediately due delivery for exactly those enabled endpoints of the client that
  subscribe to its type and have none yet, returns their number, and keeps one row per
  (endpoint, event); enqueuing the event again creates nothing and changes nothing.
\<close>

theorem enqueue_event_fanout:
  assumes "inj uuid" and "\<forall>n. uuid n \<notin> dl_id ` set (webhook_deliveries s)"
    and "unique_on delivery_key (webhook_deliveries s)"
    and "enqueue_event uuid cid eid ty pl now s = (n, s')"
  shows "(\<exists>new. webhook_deliveries s' = webhook_deliveries s @ new \<and> length new = n \<and>
            (\<forall>d\<in>set new. due now d \<and> dl_attempts d = 0 \<and> dl_payload d = pl)) \<and>
         delivery_key ` set (webhook_deliveries s') = delivery_key ` set (webhook_deliveries s) \<union>
            {(ep_id ep, eid) | ep. ep \<in> set (webhook_endpoints s) \<and> ep_client_id ep = cid \<and>
               \<not> ep_disabled ep \<and> subscribed ep ty} \<and>
         unique_on delivery_key (webhook_deliveries s') \<and>
         enqueue_event uuid' cid eid ty pl' now' s' = (0, s')"
proof -
  let ?eps = "filter (\<lambda>r. ep_client_id r = cid \<and> \<not> ep_disabled r) (webhook_endpoints s)"
  obtain t c where loop: "enqueue_loop uuid eid ty pl now ?eps 0 (webhook_deliveries s, 0) = (t, c)"
    by fastforce
  have s': "s' = s\<lparr>webhook_deliveries := t\<rparr>" and n: "n = c"
    using assms(4) loop by (auto simp: enqueue_event_def Let_def)
  from enqueue_loop_spec[OF assms(1) _ loop] assms(2) obtain new where
    new: "t = webhook_deliveries s @ new" "c = length new"
      "\<forall>d\<in>set new. dl_status d = STATUS_PENDING \<and> dl_attempts d = 0 \<and> dl_next_attempt_at d = now \<and> dl_payload d = pl"
    and keys: "delivery_key ` set t = delivery_key ` set (webhook_deliveries s) \<union>
       {(ep_id ep, eid) | ep. ep \<in> set ?eps \<and> subscribed ep ty}"
    and u: "unique_on delivery_key t" using assms(3) by auto
  have "enqueue_loop uuid' eid ty pl' now' ?eps 0 (t, 0) = (t, 0)"
    by (rule enqueue_loop_nothing) (use keys in auto)
  then have "enqueue_event uuid' cid eid ty pl' now' s' = (0, s')"
    by (simp add: s' enqueue_event_def Let_def)
  moreover have "delivery_key ` set t = delivery_key ` set (webhook_deliveries s) \<union>
       {(ep_id ep, eid) | ep. ep \<in> set (webhook_endpoints s) \<and> ep_client_id ep = cid \<and> \<not> ep_disabled ep \<and> subscribed ep ty}"
    unfolding keys by auto
  ultimately show ?thesis using new u n by (simp add: s' due_def)
qed

definition sample_endpoint :: endpoint_row where
  "sample_endpoint = \<lparr>ep_id = ''e1'', ep_client_id = ''c1'', ep_url = ''https://x.example/hook'',
     ep_description = None, ep_disabled = False, ep_event_types = None, ep_created_at = ''t0''\<rparr>"

definition sample_secret :: secret_row where
  "sample_secret = \<lparr>ws_id = ''s1'', ws_endpoint_id = ''e1'', ws_secret = ''whsec_a'', ws_created_at = ''t0'',
     ws_expires_at = None\<rparr>"

definition sample_webhook_db :: db where
  "sample_webhook_db = empty_db\<lparr>webhook_endpoints := [sample_endpoint], webhook_secrets := [sample_secret]\<rparr>"

theorem enqueue_event_fanout_witness:
  "(''e1'', ''ev1'') \<in> delivery_key `
     set (webhook_deliveries (snd (enqueue_event (\<lambda>n. replicate n CHR ''u'') ''c1'' ''ev1'' ''usage'' ''{}'' 5 sample_webhook_db)))"
proof -
  let ?u = "\<lambda>n. replicate n CHR ''u''"
  let ?r = "enqueue_event ?u ''c1'' ''ev1'' ''usage'' ''{}'' 5 sample_webhook_db"
  have "inj ?u" by (metis injI length_replicate)
  from enqueue_event_fanout[OF this, of sample_webhook_db "''c1''" "''ev1''" "''usage''" "''{}''" 5 "fst ?r" "snd ?r" ?u "''{}''" 6]
  show ?thesis
    by (auto simp: sample_webhook_db_def empty_db_def sample_endpoint_def subscribed_def)
qed

lemma secrets_written: "webhook_secrets (s\<lparr>webhook_secrets := x\<rparr>) = x"
  by simp

text \<open>
  Secret rotation has a grace window. After a rotation at \<open>now\<close> with grace
  \<open>g > 0\<close>, every secret that was active stays active until it expires or the grace ends,
  the new secret is active at once and stays so, and once the grace is over no secret that
  was current before the rotation is active any more.
\<close>

theorem rotate_secret_grace:
  assumes "rotate_secret sid new_secret eid g now now_iso s = (Inr sec, s')" and "0 < g"
  shows "sec = new_secret \<and>
         (\<forall>t. new_secret \<in> set (active_secrets eid t s')) \<and>
         (\<forall>t. now \<le> t \<and> t < now + g \<longrightarrow> set (active_secrets eid t s) \<subseteq> set (active_secrets eid t s')) \<and>
         (\<forall>t r. now + g \<le> t \<and> r \<in> set (webhook_secrets s') \<and> ws_id r \<noteq> sid \<and> ws_endpoint_id r = eid
             \<longrightarrow> (secret_active eid t r \<longleftrightarrow> (\<exists>e>t. ws_expires_at r = Some e \<and> r \<in> set (webhook_secrets s)))) \<and>
         (\<forall>eid'. eid' \<noteq> eid \<longrightarrow> active_secrets eid' t' s' = active_secrets eid' t' s)"
proof -
  let ?p = "\<lambda>r. ws_endpoint_id r = eid \<and> ws_expires_at r = None"
  let ?f = "\<lambda>r. r\<lparr>ws_expires_at := Some (now + g)\<rparr>"
  let ?new = "\<lparr>ws_id = sid, ws_endpoint_id = eid, ws_secret = new_secret, ws_created_at = now_iso, ws_expires_at = None\<rparr>"
  have tbl: "webhook_secrets s' = upd_where ?p ?f (webhook_secrets s) @ [?new]" and sec: "sec = new_secret"
  proof -
    have "\<not> (eid \<notin> ep_id ` set (webhook_endpoints s) \<or> sid \<in> ws_id ` set (webhook_secrets s))"
    proof
      assume c: "eid \<notin> ep_id ` set (webhook_endpoints s) \<or> sid \<in> ws_id ` set (webhook_secrets s)"
      have "rotate_secret sid new_secret eid g now now_iso s = (Inl IntegrityError, s)" unfolding rotate_secret_def by (simp only: c if_True)
      then show False using assms(1) by simp
    qed
    then have r: "rotate_secret sid new_secret eid g now now_iso s
        = (Inr new_secret, s\<lparr>webhook_secrets := upd_where ?p ?f (webhook_secrets s) @ [?new]\<rparr>)"
      unfolding rotate_secret_def by (simp only: if_False)
    note e = trans[OF assms(1)[symmetric] r, THEN prod.inject[THEN iffD1], THEN conjunct1]
      trans[OF assms(1)[symmetric] r, THEN prod.inject[THEN iffD1], THEN conjunct2]
    show "webhook_secrets s' = upd_where ?p ?f (webhook_secrets s) @ [?new]" unfolding e(2) by (rule secrets_written)
    show "sec = new_secret" using e(1) by simp
  qed
  have new: "new_secret \<in> set (active_secrets eid t s')" for t
    by (auto simp: set_active_secrets tbl secret_active_def intro: rev_image_eqI)
  have keep: "set (active_secrets eid t s) \<subseteq> set (active_secrets eid t s')" if "t < now + g" for t
  proof
    fix x assume "x \<in> set (active_secrets eid t s)"
    then obtain r where r: "r \<in> set (webhook_secrets s)" "secret_active eid t r" "x = ws_secret r"
      by (auto simp: set_active_secrets)
    let ?r = "if ?p r then ?f r else r"
    have "?r \<in> set (webhook_secrets s')" using r(1) by (auto simp: tbl set_upd_where)
    moreover have "secret_active eid t ?r" using r(2) that by (auto simp: secret_active_def)
    ultimately show "x \<in> set (active_secrets eid t s')"
      using r(3) by (auto simp: set_active_secrets intro!: rev_image_eqI[of ?r])
  qed
  have old: "secret_active eid t r \<longleftrightarrow> (\<exists>e>t. ws_expires_at r = Some e \<and> r \<in> set (webhook_secrets s))"
    if "now + g \<le> t" "r \<in> set (webhook_secrets s')" "ws_id r \<noteq> sid" "ws_endpoint_id r = eid" for t r
  proof -
    have "r \<in> (\<lambda>x. if ?p x then ?f x else x) ` set (webhook_secrets s)"
      using that(2,3) by (simp add: tbl set_upd_where) auto
    then obtain x where x: "x \<in> set (webhook_secrets s)" "r = (if ?p x then ?f x else x)" by blast
    show ?thesis
    proof (cases "?p x")
      case True
      then show ?thesis using x(2) that(1) by (simp add: secret_active_def)
    next
      case False
      then have "r = x" using x(2) by (simp only: if_False)
      moreover have "ws_endpoint_id r = eid" by fact
      ultimately obtain e where "ws_expires_at r = Some e" using False by auto
      then show ?thesis using x(1) \<open>ws_endpoint_id r = eid\<close> \<open>r = x\<close> by (simp add: secret_active_def)
    qed
  qed
  have other: "active_secrets eid' t' s' = active_secrets eid' t' s" if "eid' \<noteq> eid" for eid'
  proof -
    have "filter (secret_active eid' t') (upd_where ?p ?f t) = filter (secret_active eid' t') t" for t
      using that by (induction t) (auto simp: secret_active_def)
    then show ?thesis using that by (simp add: active_secrets_def tbl secret_active_def)
  qed
  show ?thesis
  proof (intro conjI allI impI)
    fix t r
    assume "now + g \<le> t \<and> r \<in> set (webhook_secrets s') \<and> ws_id r \<noteq> sid \<and> ws_endpoint_id r = eid"
    then show "secret_active eid t r \<longleftrightarrow> (\<exists>e>t. ws_expires_at r = Some e \<and> r \<in> set (webhook_secrets s))"
      by (intro old) auto
  qed (use sec new keep other in auto)
qed

theorem rotate_secret_grace_witness:
  "let s' = snd (rotate_secret ''s2'' ''whsec_b'' ''e1'' 60 100 ''t1'' sample_webhook_db)
   in ''whsec_a'' \<in> set (active_secrets ''e1'' 159 s') \<and> ''whsec_b'' \<in> set (active_secrets ''e1'' 159 s')"
proof -
  let ?s' = "snd (rotate_secret ''s2'' ''whsec_b'' ''e1'' 60 100 ''t1'' sample_webhook_db)"
  have "rotate_secret ''s2'' ''whsec_b'' ''e1'' 60 100 ''t1'' sample_webhook_db = (Inr ''whsec_b'', ?s')"
    by (simp add: rotate_secret_def sample_webhook_db_def sample_endpoint_def sample_secret_def)
  from rotate_secret_grace[OF this] have
    "\<forall>t. ''whsec_b'' \<in> set (active_secrets ''e1'' t ?s')"
    "set (active_secrets ''e1'' 159 sample_webhook_db) \<subseteq> set (active_secrets ''e1'' 159 ?s')"
    by auto
  moreover have "''whsec_a'' \<in> set (active_secrets ''e1'' 159 sample_webhook_db)"
    by (simp add: active_secrets_def order_by_desc_def sample_webhook_db_def sample_secret_def secret_active_def)
  ultimately show ?thesis by (auto simp: Let_def)
qed

text \<open>
  Every active secret verifies. A delivery is signed with all active secrets of its
  endpoint, and a receiver that checks the header with any one of them accepts it, provided
  the signature text is non-empty printable ASCII without blanks, as base64 text is; a
  secret whose signature is none of those sent is refused.
\<close>

theorem active_secret_verifies:
  assumes "\<forall>k m. hmac k m \<noteq> [] \<and> isascii (hmac k m) \<and> (\<forall>c\<in>set (hmac k m). \<not> is_space c)"
  shows "verify b64 hmac sec (signature_header b64 hmac (active_secrets eid now s) mid ts body) mid ts body
     = Some (\<exists>x\<in>set (active_secrets eid now s). sign b64 hmac sec mid ts body = sign b64 hmac x mid ts body)"
proof -
  let ?toks = "map (\<lambda>x. ''v1,'' @ sign b64 hmac x mid ts body) (active_secrets eid now s)"
  have "\<not> is_space c" if "c \<in> set ''v1,''" for c using that by (auto simp: is_space_def code_def)
  then have "split_ws (join '' '' ?toks) = ?toks"
    by (intro split_ws_join) (use assms in \<open>auto simp: sign_def is_space_def code_def\<close>)
  moreover have "verify_tokens (sign b64 hmac sec mid ts body) False ?toks =
      Some (False \<or> ''v1,'' @ sign b64 hmac sec mid ts body \<in> set ?toks)"
    by (rule verify_tokens_found) (use assms in \<open>auto simp: sign_def\<close>)
  ultimately show ?thesis
    by (auto simp: verify_def signature_header_def image_iff)
qed

theorem active_secret_verifies_witness:
  "verify (\<lambda>_. None) (\<lambda>k m. ''YQ=='') ''whsec_a''
     (signature_header (\<lambda>_. None) (\<lambda>k m. ''YQ=='') (active_secrets ''e1'' 5 sample_webhook_db) ''d1'' 5 ''{}'')
     ''d1'' 5 ''{}'' = Some True"
proof -
  let ?h = "\<lambda>(k::string) (m::string). ''YQ==''"
  have "\<forall>k m. ?h k m \<noteq> [] \<and> isascii (?h k m) \<and> (\<forall>c\<in>set (?h k m). \<not> is_space c)"
    by (simp add: isascii_def is_space_def code_def)
  from active_secret_verifies[OF this, of "\<lambda>_. None" "''whsec_a''" "''e1''" 5 sample_webhook_db "''d1''" 5 "''{}''"]
  show ?thesis
    by (simp add: active_secrets_def order_by_desc_def sample_webhook_db_def sample_secret_def secret_active_def
        sign_def)
qed

text \<open>
  A pass of the worker. When it is not stopped, the worker attempts every claimed
  delivery exactly once: the number attempted is the number claimed, each claimed row
  counts one more attempt and is succeeded, dead, or pending again with its next time set
  by the back-off schedule (only below the attempt limit); no other delivery changes.
\<close>

theorem run_once_attempts_each:
  assumes "unique_on dl_id (webhook_deliveries s)" and "\<forall>k. \<not> stop k"
  shows "fst (run_once w stop now s) = length (claim_due now (wk_batch_limit w) s) \<and>
         (\<forall>d\<in>set (claim_due now (wk_batch_limit w) s). \<exists>d'.
            get_delivery (dl_id d) (snd (run_once w stop now s)) = Some d' \<and>
            dl_attempts d' = dl_attempts d + 1 \<and> delivery_key d' = delivery_key d \<and>
            (dl_status d' = STATUS_SUCCEEDED \<or> dl_status d' = STATUS_DEAD \<or>
             dl_status d' = STATUS_PENDING \<and> dl_attempts d' < wk_max_attempts w \<and>
               dl_next_attempt_at d' = now + next_delay (dl_attempts d') (wk_schedule w))) \<and>
         (\<forall>i. i \<notin> dl_id ` set (claim_due now (wk_batch_limit w) s) \<longrightarrow>
            get_delivery i (snd (run_once w stop now s)) = get_delivery i s)"
proof -
  let ?ds = "claim_due now (wk_batch_limit w) s"
  have ds: "distinct (map dl_id ?ds)" "\<forall>d\<in>set ?ds. get_delivery (dl_id d) s = Some d"
    using claim_due_props[OF assms(1), of now "wk_batch_limit w"] by auto
  have "\<exists>d'. get_delivery (dl_id d) (snd (run_once w stop now s)) = Some d' \<and>
            dl_attempts d' = dl_attempts d + 1 \<and> delivery_key d' = delivery_key d \<and>
            (dl_status d' = STATUS_SUCCEEDED \<or> dl_status d' = STATUS_DEAD \<or>
             dl_status d' = STATUS_PENDING \<and> dl_attempts d' < wk_max_attempts w \<and>
               dl_next_attempt_at d' = now + next_delay (dl_attempts d') (wk_schedule w))"
    if d: "d \<in> set ?ds" for d
  proof -
    obtain s0 where s0: "get_delivery (dl_id d) s0 = Some d"
        "get_delivery (dl_id d) (snd (run_once w stop now s)) = get_delivery (dl_id d) (attempt w d now s0)"
      using run_batch_attempted[OF ds assms(2) d, of w now 0] by (auto simp: run_once_def)
    show ?thesis unfolding s0(2) using attempt_row[OF s0(1), of w now] by auto
  qed
  then show ?thesis
    using run_batch_count[OF assms(2), of w now ?ds 0 s] by (simp add: run_once_def run_batch_other)
qed

definition sample_worker :: worker where
  "sample_worker = \<lparr>wk_b64decode = (\<lambda>_. None), wk_hmac = (\<lambda>k m. ''YQ==''), wk_hostname = (\<lambda>_. Some None),
     wk_post = (\<lambda>u b h. Inr 500), wk_max_attempts = 5, wk_schedule = DEFAULT_BACKOFF_SCHEDULE_S,
     wk_batch_limit = 50\<rparr>"

definition sample_delivery :: delivery where
  "sample_delivery = new_delivery ''d1'' ''e1'' ''ev1'' ''usage'' ''{}'' 0"

theorem run_once_attempts_each_witness:
  "fst (run_once sample_worker (\<lambda>_. False) 5 (sample_webhook_db\<lparr>webhook_deliveries := [sample_delivery]\<rparr>)) = 1"
proof -
  let ?s = "sample_webhook_db\<lparr>webhook_deliveries := [sample_delivery]\<rparr>"
  have "length (claim_due 5 (wk_batch_limit sample_worker) ?s) = 1"
    by (simp add: claim_due_def due_def sample_delivery_def new_delivery_def sample_worker_def
        sql_limit_def order_by_def)
  then show ?thesis
    using run_once_attempts_each[of ?s "\<lambda>_. False" sample_worker 5] by (simp add: unique_on_def)
qed

definition attempt_pending :: "db \<Rightarrow> worker \<times> time \<times> string \<Rightarrow> db" where
  "attempt_pending s x =
     (case x of (w, now, did) \<Rightarrow>
        case get_delivery did s of
          None \<Rightarrow> s
        | Some d \<Rightarrow> if dl_status d = STATUS_PENDING then attempt w d now s else s)"

lemma attempt_pending_row:
  assumes "get_delivery did s = Some d"
  shows "\<exists>d'. get_delivery did (attempt_pending s (w, now, did)) = Some d' \<and>
     (dl_status d \<noteq> STATUS_PENDING \<longrightarrow> d' = d) \<and>
     (dl_status d = STATUS_PENDING \<longrightarrow> dl_attempts d' = dl_attempts d + 1 \<and>
        (dl_status d' = STATUS_SUCCEEDED \<or> dl_status d' = STATUS_DEAD \<or>
         dl_status d' = STATUS_PENDING \<and> dl_attempts d' < wk_max_attempts w))"
  using assms attempt_row[of d s w now] get_delivery_id[OF assms]
  by (auto simp: attempt_pending_def)

lemma attempts_exhausted:
  assumes "get_delivery did s = Some d" and "dl_status d \<in> {STATUS_PENDING, STATUS_SUCCEEDED, STATUS_DEAD}"
    and "\<forall>(w, t, i)\<in>set xs. i = did \<and> wk_max_attempts w = m" and "m - dl_attempts d \<le> int (length xs)"
    and "dl_status d = STATUS_PENDING \<longrightarrow> dl_attempts d < m"
  shows "\<exists>d'. get_delivery did (foldl attempt_pending s xs) = Some d' \<and>
     dl_status d' \<in> {STATUS_SUCCEEDED, STATUS_DEAD}"
  using assms
proof (induction xs arbitrary: s d)
  case Nil
  then show ?case by auto
next
  case (Cons x xs)
  obtain w t where x: "x = (w, t, did)" "wk_max_attempts w = m" using Cons.prems(3) by (cases x) auto
  from attempt_pending_row[OF Cons.prems(1), of w t] obtain d' where
    d': "get_delivery did (attempt_pending s x) = Some d'"
      "dl_status d \<noteq> STATUS_PENDING \<longrightarrow> d' = d"
      "dl_status d = STATUS_PENDING \<longrightarrow> dl_attempts d' = dl_attempts d + 1 \<and>
        (dl_status d' = STATUS_SUCCEEDED \<or> dl_status d' = STATUS_DEAD \<or>
         dl_status d' = STATUS_PENDING \<and> dl_attempts d' < m)" using x by auto
  show ?case
  proof (cases "dl_status d = STATUS_PENDING")
    case True
    then show ?thesis
      using Cons.IH[OF d'(1)] d'(3) Cons.prems(3,4) by (auto simp: delivery_status_defs)
  next
    case False
    have stay: "get_delivery did (foldl attempt_pending s ys) = Some d"
      if "\<forall>(w, t, i)\<in>set ys. i = did" "get_delivery did s = Some d" for ys s
      using that False by (induction ys arbitrary: s) (auto simp: attempt_pending_def)
    have "\<forall>(w, t, i)\<in>set (x # xs). i = did" using Cons.prems(3) by auto
    from stay[OF this Cons.prems(1)] show ?thesis using Cons.prems(2) False by auto
  qed
qed



end
