(* ===== verification/Client_Events.thy ===== *)
theory Client_Events
  imports Webhooks
begin

text \<open>
  The per-client event stream (\<open>engine/billing/client_events.py\<close>): the durable log behind
  the SSE cursor, the in-process wakeup, and the emitter that feeds the log and the webhook
  dispatcher. The row id is AUTOINCREMENT: it is above every id ever used; the argument
  \<open>gap\<close> leaves open how far above. The JSON envelope is a function of the event id.
\<close>

section \<open>The log\<close>

record log_config =
  max_age_s :: real
  max_per_client :: int

definition ce_key :: "client_event_row \<Rightarrow> string \<times> string" where
  "ce_key r = (ce_client_id r, ce_event_id r)"

definition top_ids :: "string \<Rightarrow> int \<Rightarrow> client_event_row list \<Rightarrow> nat list" where
  "top_ids cid n t =
     sql_limit n (map ce_id (order_by_desc ce_id (filter (\<lambda>r. ce_client_id r = cid) t)))"

definition prune :: "log_config \<Rightarrow> string \<Rightarrow> time \<Rightarrow> client_event_row list \<Rightarrow> client_event_row list" where
  "prune cfg cid now t =
     (let t1 = (if max_age_s cfg > 0
                then del_where (\<lambda>r. ce_client_id r = cid \<and> ce_ts r < now - max_age_s cfg) t else t)
      in if max_per_client cfg > 0
         then del_where (\<lambda>r. ce_client_id r = cid \<and> ce_id r \<notin> set (top_ids cid (max_per_client cfg) t1)) t1
         else t1)"

definition append_event ::
  "log_config \<Rightarrow> nat \<Rightarrow> string \<Rightarrow> string \<Rightarrow> string \<Rightarrow> string \<Rightarrow> time \<Rightarrow> nat option action" where
  "append_event cfg gap cid event_id event_type payload now s =
     (let new_id = Suc (client_events_seq s) + gap;
          row = \<lparr>ce_id = new_id, ce_client_id = cid, ce_event_id = event_id, ce_type = event_type,
                 ce_payload = payload, ce_ts = now\<rparr>
      in if (cid, event_id) \<in> ce_key ` set (client_events s) then (Inr None, s)
         else if cid \<notin> c_id ` set (clients s) then (Inl IntegrityError, s)
         else (Inr (Some new_id),
               s\<lparr>client_events := prune cfg cid now (client_events s @ [row]), client_events_seq := new_id\<rparr>))"

definition list_since :: "string \<Rightarrow> nat \<Rightarrow> int \<Rightarrow> db \<Rightarrow> client_event_row list" where
  "list_since cid since_id lim_rows s =
     sql_limit lim_rows
       (order_by ce_id (filter (\<lambda>r. ce_client_id r = cid \<and> ce_id r > since_id) (client_events s)))"

definition recent_of_type :: "string \<Rightarrow> time \<Rightarrow> int \<Rightarrow> db \<Rightarrow> client_event_row list" where
  "recent_of_type event_type since lim_rows s =
     sql_limit lim_rows
       (order_by_desc ce_id (filter (\<lambda>r. ce_type r = event_type \<and> ce_ts r \<ge> since) (client_events s)))"

definition latest_id :: "string \<Rightarrow> db \<Rightarrow> nat" where
  "latest_id cid s =
     (let ids = map ce_id (filter (\<lambda>r. ce_client_id r = cid) (client_events s))
      in if ids = [] then 0 else Max (set ids))"

section \<open>The wakeup\<close>

text \<open>Event objects are numbered; \<open>is_set\<close> holds those whose \<open>set()\<close> was called.\<close>

record notifier =
  current :: "string \<rightharpoonup> nat"
  is_set :: "nat set"
  next_event :: nat

definition notifier_init :: notifier where
  "notifier_init = \<lparr>current = Map.empty, is_set = {}, next_event = 0\<rparr>"

definition wakeup_event :: "string \<Rightarrow> notifier \<Rightarrow> nat \<times> notifier" where
  "wakeup_event cid n =
     (case current n cid of
        Some e \<Rightarrow> (e, n)
      | None \<Rightarrow> (next_event n, n\<lparr>current := (current n)(cid \<mapsto> next_event n), next_event := Suc (next_event n)\<rparr>))"

definition notify :: "string \<Rightarrow> notifier \<Rightarrow> notifier" where
  "notify cid n =
     n\<lparr>is_set := (case current n cid of Some e \<Rightarrow> insert e (is_set n) | None \<Rightarrow> is_set n),
       current := (current n)(cid \<mapsto> next_event n), next_event := Suc (next_event n)\<rparr>"

section \<open>The emitter\<close>

record emitter =
  em_dispatcher :: "bool option"
  em_log :: "log_config option"
  em_has_notifier :: bool

text \<open>
  \<open>em_dispatcher\<close> is the dispatcher's enabled flag, \<open>None\<close> when there is none. Store
  errors are logged and swallowed; what was committed stays.
\<close>

definition emit ::
  "emitter \<Rightarrow> (nat \<Rightarrow> string) \<Rightarrow> nat \<Rightarrow> string \<Rightarrow> string \<Rightarrow> (string \<Rightarrow> string) \<Rightarrow> string option \<Rightarrow> time
    \<Rightarrow> db \<times> notifier \<Rightarrow> db \<times> notifier" where
  "emit em uuid gap cid event_type payload event_id now st =
     (let (s, n) = st;
          eid = (case event_id of Some e \<Rightarrow> if e = [] then ''evt_'' @ uuid 0 else e | None \<Rightarrow> ''evt_'' @ uuid 0);
          s1 = (case em_dispatcher em of
                  None \<Rightarrow> s
                | Some enabled \<Rightarrow>
                    snd (dispatch_emit enabled (\<lambda>k. uuid (Suc k)) cid event_type payload (Some eid) now s))
      in case em_log em of
           None \<Rightarrow> (s1, n)
         | Some cfg \<Rightarrow>
             (case append_event cfg gap cid eid event_type (payload eid) now s1 of
                (Inl _, s2) \<Rightarrow> (s2, n)
              | (Inr None, s2) \<Rightarrow> (s2, n)
              | (Inr (Some new_id), s2) \<Rightarrow> (s2, if em_has_notifier em then notify cid n else n)))"

section \<open>Well-formedness of the log\<close>

definition log_wf :: "db \<Rightarrow> bool" where
  "log_wf s \<longleftrightarrow> sorted_wrt (<) (map ce_id (client_events s)) \<and>
     (\<forall>r\<in>set (client_events s). ce_id r \<le> client_events_seq s) \<and> unique_on ce_key (client_events s)"

lemma log_wf_empty [simp]: "log_wf empty_db"
  by (simp add: log_wf_def empty_db_def)

lemma sorted_wrt_del:
  "sorted_wrt (<) (map ce_id t) \<Longrightarrow> sorted_wrt (<) (map ce_id (del_where p t))"
  by (induction t) (auto simp: set_del_where)

lemma prune_subset: "set (prune cfg cid now t) \<subseteq> set t"
  by (auto simp: prune_def Let_def set_del_where)

lemma prune_sorted: "sorted_wrt (<) (map ce_id t) \<Longrightarrow> sorted_wrt (<) (map ce_id (prune cfg cid now t))"
  by (simp add: prune_def Let_def sorted_wrt_del)

lemma prune_unique: "unique_on key t \<Longrightarrow> unique_on key (prune cfg cid now t)"
  by (simp add: prune_def Let_def unique_on_del)

lemma prune_others: "ce_client_id r \<noteq> cid \<Longrightarrow> r \<in> set (prune cfg cid now t) \<longleftrightarrow> r \<in> set t"
  by (auto simp: prune_def Let_def set_del_where)

lemma append_event_wf:
  assumes "log_wf s" shows "log_wf (snd (append_event cfg gap cid e ty pl now s))"
proof -
  let ?row = "\<lparr>ce_id = Suc (client_events_seq s) + gap, ce_client_id = cid, ce_event_id = e, ce_type = ty,
                 ce_payload = pl, ce_ts = now\<rparr>"
  have wf: "sorted_wrt (<) (map ce_id (client_events s))" "unique_on ce_key (client_events s)"
      "\<forall>r\<in>set (client_events s). ce_id r \<le> client_events_seq s"
    using assms by (auto simp: log_wf_def)
  have "sorted_wrt (<) (map ce_id (client_events s @ [?row]))"
    using wf by (auto simp: sorted_wrt_append intro: order.strict_trans1)
  moreover have "unique_on ce_key (client_events s @ [?row])" if "(cid, e) \<notin> ce_key ` set (client_events s)"
    using wf(2) that by (intro unique_on_snoc) (auto simp: ce_key_def)
  moreover have "\<forall>r\<in>set (prune cfg cid now (client_events s @ [?row])). ce_id r \<le> Suc (client_events_seq s) + gap"
    using prune_subset[of cfg cid now "client_events s @ [?row]"] wf(3) by force
  ultimately show ?thesis
    using assms by (auto simp: append_event_def Let_def log_wf_def prune_sorted prune_unique)
qed

text \<open>The newest row of a client survives pruning: it is neither too old nor beyond the bound.\<close>

lemma newest_in_top:
  assumes "r \<in> set t" "ce_client_id r = cid" "\<forall>x\<in>set t. ce_id x \<le> ce_id r" "0 < n"
  shows "ce_id r \<in> set (top_ids cid n t)"
proof -
  let ?o = "order_by_desc ce_id (filter (\<lambda>r. ce_client_id r = cid) t)"
  have "set ?o = {x \<in> set t. ce_client_id x = cid}" by simp
  then obtain h rest where o: "?o = h # rest" using assms(1,2) by (cases ?o) auto
  have "ce_id r \<le> ce_id h" "h \<in> set t"
    using order_by_desc_hd[OF o, of r] assms(1,2) by auto
  then have "ce_id h = ce_id r" using assms(3) by (simp add: le_antisym)
  moreover obtain m where "nat n = Suc m" using assms(4) by (cases "nat n") auto
  ultimately show ?thesis using assms(4) o by (simp add: top_ids_def sql_limit_def)
qed

lemma prune_keeps_newest:
  assumes "r \<in> set t" "ce_client_id r = cid" "ce_ts r = now" "\<forall>x\<in>set t. ce_id x \<le> ce_id r"
  shows "r \<in> set (prune cfg cid now t)"
proof -
  let ?t = "if max_age_s cfg > 0 then del_where (\<lambda>r. ce_client_id r = cid \<and> ce_ts r < now - max_age_s cfg) t else t"
  have r: "r \<in> set ?t" using assms(1,3) by (auto simp: set_del_where)
  have "\<forall>x\<in>set ?t. ce_id x \<le> ce_id r" using assms(4) by (auto simp: set_del_where)
  then have "0 < max_per_client cfg \<Longrightarrow> ce_id r \<in> set (top_ids cid (max_per_client cfg) ?t)"
    using newest_in_top[OF r assms(2)] by blast
  then show ?thesis using r by (simp add: prune_def Let_def set_del_where)
qed

lemma prune_count:
  assumes "sorted_wrt (<) (map ce_id t)" and "0 < max_per_client cfg"
  shows "length (filter (\<lambda>r. ce_client_id r = cid) (prune cfg cid now t)) \<le> nat (max_per_client cfg)"
proof -
  let ?t = "if max_age_s cfg > 0 then del_where (\<lambda>r. ce_client_id r = cid \<and> ce_ts r < now - max_age_s cfg) t else t"
  let ?n = "max_per_client cfg"
  let ?kept = "filter (\<lambda>r. ce_client_id r = cid) (prune cfg cid now t)"
  have "sorted_wrt (<) (map ce_id (prune cfg cid now t))" using assms(1) by (rule prune_sorted)
  then have "distinct (map ce_id (prune cfg cid now t))" by (metis strict_sorted_iff)
  then have d: "distinct (map ce_id ?kept)" by (auto simp: distinct_map inj_on_def)
  have "ce_id ` set ?kept \<subseteq> set (top_ids cid ?n ?t)"
    using assms(2) by (auto simp: prune_def Let_def set_del_where)
  then have "card (ce_id ` set ?kept) \<le> card (set (top_ids cid ?n ?t))" by (simp add: card_mono)
  also have "\<dots> \<le> length (top_ids cid ?n ?t)" by (rule card_length)
  also have "\<dots> \<le> nat ?n" unfolding top_ids_def using assms(2) by (intro length_sql_limit) simp
  finally show ?thesis using d by (metis distinct_card length_map list.set_map)
qed

section \<open>Readers of the log\<close>

text \<open>
  The polling endpoint and the SSE loop of \<open>api/client_router.py\<close>. \<open>_cursor\<close> takes the
  header or the query parameter; \<open>get_events\<close> returns a page and the cursor to go on from.
\<close>

definition cursor_of :: "string option \<Rightarrow> string option \<Rightarrow> nat" where
  "cursor_of last_event_id since =
     (let raw = (case last_event_id of Some h \<Rightarrow> if h = [] then since else Some h | None \<Rightarrow> since)
      in case raw of
           None \<Rightarrow> 0
         | Some v \<Rightarrow> (case py_int v of None \<Rightarrow> 0 | Some n \<Rightarrow> nat n))"

definition get_events :: "string \<Rightarrow> int \<Rightarrow> int \<Rightarrow> db \<Rightarrow> client_event_row list \<times> nat" where
  "get_events cid since lim_rows s =
     (let out = list_since cid (nat since) lim_rows s
      in (out, if out = [] then nat since else ce_id (last out)))"

definition SSE_BATCH :: int where
  "SSE_BATCH = 200"

text \<open>
  One pass of \<open>sse_event_stream\<close> captures the wakeup, reads a batch, and waits. The
  producers run concurrently: an event is first committed to the log and its \<open>notify\<close>
  comes later, so \<open>sse_unnotified\<close> counts this client's committed events whose notify is
  still to come. \<open>Waiting w n\<close> waits for the wakeup \<open>w\<close> after a batch of \<open>n\<close> rows.
\<close>

datatype sse_phase = Top | Captured nat | Waiting nat nat

record sse_state =
  sse_db :: db
  sse_notifier :: notifier
  sse_unnotified :: nat
  sse_cursor :: nat
  sse_phase :: sse_phase
  sse_sent :: "client_event_row list"

definition sse_init :: "db \<Rightarrow> notifier \<Rightarrow> nat \<Rightarrow> sse_state" where
  "sse_init s n cursor =
     \<lparr>sse_db = s, sse_notifier = n, sse_unnotified = 0, sse_cursor = cursor, sse_phase = Top, sse_sent = []\<rparr>"

definition sse_capture :: "string \<Rightarrow> sse_state \<Rightarrow> sse_state" where
  "sse_capture cid st =
     (let (w, n) = wakeup_event cid (sse_notifier st)
      in st\<lparr>sse_notifier := n, sse_phase := Captured w\<rparr>)"

definition sse_read :: "string \<Rightarrow> nat \<Rightarrow> sse_state \<Rightarrow> sse_state" where
  "sse_read cid w st =
     (let batch = list_since cid (sse_cursor st) SSE_BATCH (sse_db st)
      in st\<lparr>sse_sent := sse_sent st @ batch,
            sse_cursor := (if batch = [] then sse_cursor st else ce_id (last batch)),
            sse_phase := Waiting w (length batch)\<rparr>)"

inductive sse_step :: "string \<Rightarrow> log_config \<Rightarrow> sse_state \<Rightarrow> sse_state \<Rightarrow> bool" for cid cfg where
  capture: "sse_phase st = Top \<Longrightarrow> sse_step cid cfg st (sse_capture cid st)"
| read_log: "sse_phase st = Captured w \<Longrightarrow> sse_step cid cfg st (sse_read cid w st)"
| woken: "sse_phase st = Waiting w n \<Longrightarrow> w \<in> is_set (sse_notifier st)
    \<Longrightarrow> sse_step cid cfg st (st\<lparr>sse_phase := Top\<rparr>)"
| keep_alive: "sse_phase st = Waiting w n \<Longrightarrow> sse_step cid cfg st (st\<lparr>sse_phase := Top\<rparr>)"
| commit: "append_event cfg gap c e ty pl now (sse_db st) = (Inr (Some i), s')
    \<Longrightarrow> sse_step cid cfg st (st\<lparr>sse_db := s', sse_unnotified := sse_unnotified st + (if c = cid then 1 else 0)\<rparr>)"
| notify_own: "sse_unnotified st = Suc k
    \<Longrightarrow> sse_step cid cfg st (st\<lparr>sse_notifier := notify cid (sse_notifier st), sse_unnotified := k\<rparr>)"
| notify_other: "c \<noteq> cid \<Longrightarrow> sse_step cid cfg st (st\<lparr>sse_notifier := notify c (sse_notifier st)\<rparr>)"
| other_stream: "sse_step cid cfg st (st\<lparr>sse_notifier := snd (wakeup_event c (sse_notifier st))\<rparr>)"

inductive_cases sse_step_elim: "sse_step cid cfg st st'"

section \<open>Paging\<close>

lemma order_by_sorted_ids: "sorted_wrt (<) (map ce_id t) \<Longrightarrow> order_by ce_id t = t"
  by (induction t) (auto simp: order_by_def insort_is_Cons less_imp_le)

definition pending :: "string \<Rightarrow> nat \<Rightarrow> db \<Rightarrow> client_event_row list" where
  "pending cid c s = filter (\<lambda>r. ce_client_id r = cid \<and> ce_id r > c) (client_events s)"

lemma sorted_ids_filter: "sorted_wrt (<) (map ce_id t) \<Longrightarrow> sorted_wrt (<) (map ce_id (filter p t))"
  by (induction t) auto

lemma list_since_pending: "log_wf s \<Longrightarrow> list_since cid c n s = sql_limit n (pending cid c s)"
  by (simp add: list_since_def pending_def log_wf_def order_by_sorted_ids sorted_ids_filter)

lemma sorted_ids_pending: "log_wf s \<Longrightarrow> sorted_wrt (<) (map ce_id (pending cid c s))"
  by (simp add: pending_def log_wf_def sorted_ids_filter)

lemma sorted_le_last: "sorted_wrt (<) (map ce_id a) \<Longrightarrow> x \<in> set a \<Longrightarrow> ce_id x \<le> ce_id (last a)"
  by (induction a) (auto simp: less_imp_le)

text \<open>Splitting a sorted log at the last row of a page.\<close>

lemma sorted_split_after:
  assumes "sorted_wrt (<) (map ce_id (a @ b))" and "a \<noteq> []"
  shows "filter (\<lambda>r. ce_id r > ce_id (last a)) (a @ b) = b"
proof -
  have a: "\<And>x. x \<in> set a \<Longrightarrow> ce_id x \<le> ce_id (last a)"
    using assms by (auto simp: sorted_wrt_append intro: sorted_le_last)
  have "\<And>y. y \<in> set b \<Longrightarrow> ce_id (last a) < ce_id y"
    using assms by (auto simp: sorted_wrt_append)
  then have "filter (\<lambda>r. ce_id r > ce_id (last a)) b = b" by (simp add: filter_id_conv)
  moreover have "filter (\<lambda>r. ce_id r > ce_id (last a)) a = []"
    using a by (auto simp: filter_empty_conv not_less)
  ultimately show ?thesis by simp
qed

lemma pending_pending: "c \<le> d \<Longrightarrow> pending cid d s = filter (\<lambda>r. ce_id r > d) (pending cid c s)"
  by (auto simp: pending_def intro: filter_cong)

text \<open>After a page, what is pending is exactly the rest.\<close>

lemma page_rest:
  assumes "log_wf s" and "list_since cid c n s \<noteq> []"
  shows "pending cid c s = list_since cid c n s @ pending cid (ce_id (last (list_since cid c n s))) s"
    and "c < ce_id (last (list_since cid c n s))"
proof -
  let ?a = "list_since cid c n s"
  obtain b where b: "pending cid c s = ?a @ b"
    unfolding list_since_pending[OF assms(1)] sql_limit_def
    by (metis append_Nil2 append_take_drop_id)
  have "last ?a \<in> set (pending cid c s)" using assms(2) b by simp
  then show c: "c < ce_id (last ?a)" by (simp add: pending_def)
  have "filter (\<lambda>r. ce_id r > ce_id (last ?a)) (?a @ b) = b"
    using sorted_ids_pending[OF assms(1), of cid c] assms(2) by (intro sorted_split_after) (simp_all add: b)
  then show "pending cid c s = ?a @ pending cid (ce_id (last ?a)) s"
    using b pending_pending[of c "ce_id (last ?a)" cid s] c by simp
qed

section \<open>The stream's invariant\<close>

definition sent_ok :: "string \<Rightarrow> nat \<Rightarrow> sse_state \<Rightarrow> bool" where
  "sent_ok cid start st \<longleftrightarrow>
     start \<le> sse_cursor st \<and> sse_cursor st \<le> client_events_seq (sse_db st) \<and>
     sorted_wrt (<) (map ce_id (sse_sent st)) \<and>
     (\<forall>r\<in>set (sse_sent st). ce_client_id r = cid \<and> start < ce_id r \<and> ce_id r \<le> sse_cursor st) \<and>
     (\<forall>r\<in>set (client_events (sse_db st)).
        ce_client_id r = cid \<and> start < ce_id r \<and> ce_id r \<le> sse_cursor st \<longrightarrow> r \<in> set (sse_sent st))"

definition wakeup_ok :: "string \<Rightarrow> sse_state \<Rightarrow> bool" where
  "wakeup_ok cid st \<longleftrightarrow>
     (case sse_phase st of
        Top \<Rightarrow> True
      | Captured w \<Rightarrow> w \<in> is_set (sse_notifier st) \<or> current (sse_notifier st) cid = Some w
      | Waiting w n \<Rightarrow> w \<in> is_set (sse_notifier st) \<or> (current (sse_notifier st) cid = Some w \<and>
          (int n < SSE_BATCH \<longrightarrow> length (pending cid (sse_cursor st) (sse_db st)) \<le> sse_unnotified st)))"

definition sse_inv :: "string \<Rightarrow> nat \<Rightarrow> sse_state \<Rightarrow> bool" where
  "sse_inv cid start st \<longleftrightarrow> log_wf (sse_db st) \<and> sent_ok cid start st \<and> wakeup_ok cid st"

lemma sse_inv_init: "log_wf s \<Longrightarrow> cursor \<le> client_events_seq s \<Longrightarrow> sse_inv cid cursor (sse_init s n cursor)"
  by (simp add: sse_inv_def sent_ok_def wakeup_ok_def sse_init_def)

lemma append_event_Some:
  assumes "append_event cfg gap c e ty pl now s = (Inr (Some i), s')"
  shows "i = Suc (client_events_seq s) + gap" and "client_events_seq s' = i"
    and "(c, e) \<notin> ce_key ` set (client_events s)"
    and "client_events s' = prune cfg c now (client_events s @
      [\<lparr>ce_id = i, ce_client_id = c, ce_event_id = e, ce_type = ty, ce_payload = pl, ce_ts = now\<rparr>])"
  using assms by (auto simp: append_event_def Let_def split: if_splits)

lemma length_filter_prune:
  "length (filter p (prune cfg c now t)) \<le> length (filter p t)"
proof -
  have d: "length (filter p (del_where q u)) \<le> length (filter p u)" for q u
    by (induction u) auto
  show ?thesis
    by (auto simp: prune_def Let_def intro: order_trans[OF d] d)
qed

lemma pending_append_event:
  assumes "append_event cfg gap c e ty pl now s = (Inr (Some i), s')"
  shows "length (pending cid k s') \<le> length (pending cid k s) + (if c = cid then 1 else 0)"
  unfolding pending_def append_event_Some(4)[OF assms]
  by (rule order_trans[OF length_filter_prune]) auto

lemma sent_ok_update [simp]:
  "sent_ok cid start (st\<lparr>sse_phase := ph\<rparr>) = sent_ok cid start st"
  "sent_ok cid start (st\<lparr>sse_notifier := n\<rparr>) = sent_ok cid start st"
  "sent_ok cid start (st\<lparr>sse_unnotified := k\<rparr>) = sent_ok cid start st"
  by (simp_all add: sent_ok_def)

lemma sent_ok_read:
  assumes "start \<le> d" and "d \<le> client_events_seq (sse_db st)" and "sorted_wrt (<) (map ce_id xs)"
    and "\<forall>r\<in>set xs. ce_client_id r = cid \<and> start < ce_id r \<and> ce_id r \<le> d"
    and "\<forall>r\<in>set (client_events (sse_db st)).
      ce_client_id r = cid \<and> start < ce_id r \<and> ce_id r \<le> d \<longrightarrow> r \<in> set xs"
  shows "sent_ok cid start (st\<lparr>sse_sent := xs, sse_cursor := d, sse_phase := ph\<rparr>)"
  by (simp add: sent_ok_def, intro conjI) (fact assms)+

lemma sse_inv_read:
  assumes inv: "sse_inv cid start st" and ph: "sse_phase st = Captured w"
  shows "sse_inv cid start (sse_read cid w st)"
proof -
  let ?s = "sse_db st" let ?c = "sse_cursor st"
  let ?b = "list_since cid ?c SSE_BATCH ?s"
  have wf: "log_wf ?s" and so: "sent_ok cid start st"
    and wk: "w \<in> is_set (sse_notifier st) \<or> current (sse_notifier st) cid = Some w"
    using inv ph by (auto simp: sse_inv_def wakeup_ok_def)
  have short: "pending cid ?c ?s = ?b" if "int (length ?b) < SSE_BATCH"
    using that unfolding list_since_pending[OF wf] by (auto simp: sql_limit_def SSE_BATCH_def split: if_splits)
  show ?thesis
  proof (cases "?b = []")
    case True
    then have "int (length ?b) < SSE_BATCH" by (simp add: SSE_BATCH_def)
    then have "pending cid ?c ?s = []" using short True by simp
    moreover have "sse_read cid w st = st\<lparr>sse_phase := Waiting w 0\<rparr>"
      using True by (simp add: sse_read_def Let_def)
    ultimately show ?thesis using wf so wk by (simp add: sse_inv_def wakeup_ok_def)
  next
    case False
    let ?d = "ce_id (last ?b)"
    note rest = page_rest[OF wf False]
    have bp: "set ?b \<subseteq> set (pending cid ?c ?s)" using rest(1) by (metis Un_upper1 set_append)
    have sb: "sorted_wrt (<) (map ce_id ?b)"
      using sorted_ids_pending[OF wf, of cid ?c] unfolding rest(1) by (simp add: sorted_wrt_append)
    then have le: "\<forall>r\<in>set ?b. ce_id r \<le> ?d" by (blast intro: sorted_le_last)
    have mem: "\<forall>r\<in>set ?b. ce_client_id r = cid \<and> ?c < ce_id r \<and> r \<in> set (client_events ?s)"
      using bp by (auto simp: pending_def)
    have "last ?b \<in> set ?b" using False by simp
    then have dl: "?d \<le> client_events_seq ?s" using mem wf by (auto simp: log_wf_def)
    have all: "r \<in> set (sse_sent st) \<union> set ?b"
      if r: "r \<in> set (client_events ?s)" "ce_client_id r = cid" "start < ce_id r" "ce_id r \<le> ?d" for r
    proof (cases "ce_id r \<le> ?c")
      case True then show ?thesis using r so by (auto simp: sent_ok_def)
    next
      case False
      then have "r \<in> set (pending cid ?c ?s)" using r by (simp add: pending_def)
      moreover have "r \<notin> set (pending cid ?d ?s)" using r by (simp add: pending_def)
      ultimately show ?thesis unfolding rest(1) by simp
    qed
    have ss: "sorted_wrt (<) (map ce_id (sse_sent st @ ?b))"
    proof -
      have "ce_id x < ce_id y" if "x \<in> set (sse_sent st)" "y \<in> set ?b" for x y
        using that so mem by (auto simp: sent_ok_def intro: le_less_trans)
      then show ?thesis using so sb by (simp add: sent_ok_def sorted_wrt_append)
    qed
    have bnd: "\<forall>r\<in>set (sse_sent st @ ?b). ce_client_id r = cid \<and> start < ce_id r \<and> ce_id r \<le> ?d"
    proof
      fix r assume "r \<in> set (sse_sent st @ ?b)"
      then consider "r \<in> set (sse_sent st)" | "r \<in> set ?b" by auto
      then show "ce_client_id r = cid \<and> start < ce_id r \<and> ce_id r \<le> ?d"
      proof cases
        case 1
        then have "ce_client_id r = cid" "start < ce_id r" "ce_id r \<le> ?c" using so by (auto simp: sent_ok_def)
        then show ?thesis using rest(2) by linarith
      next
        case 2
        then have "ce_client_id r = cid" "?c < ce_id r" "ce_id r \<le> ?d" using mem le by auto
        moreover have "start \<le> ?c" using so by (simp add: sent_ok_def)
        ultimately show ?thesis by linarith
      qed
    qed
    have le_d: "start \<le> ?d"
    proof -
      have "start \<le> ?c" using so by (simp add: sent_ok_def)
      then show ?thesis using rest(2) by linarith
    qed
    have st: "sse_read cid w st = st\<lparr>sse_sent := sse_sent st @ ?b, sse_cursor := ?d,
        sse_phase := Waiting w (length ?b)\<rparr>"
      using False by (simp add: sse_read_def Let_def)
    have all': "\<forall>r\<in>set (client_events ?s). ce_client_id r = cid \<and> start < ce_id r \<and> ce_id r \<le> ?d
        \<longrightarrow> r \<in> set (sse_sent st @ ?b)"
      using all by simp
    have "sent_ok cid start (sse_read cid w st)"
      unfolding st by (rule sent_ok_read[OF le_d dl ss bnd all'])
    moreover have "wakeup_ok cid (sse_read cid w st)"
      unfolding wakeup_ok_def st using wk rest(1) short by fastforce
    ultimately show ?thesis unfolding sse_inv_def using wf by (simp add: st)
  qed
qed

lemma sse_inv_commit:
  assumes inv: "sse_inv cid start st" and ap: "append_event cfg gap c e ty pl now (sse_db st) = (Inr (Some i), s')"
  shows "sse_inv cid start
    (st\<lparr>sse_db := s', sse_unnotified := sse_unnotified st + (if c = cid then 1 else 0)\<rparr>)"
proof -
  let ?st = "st\<lparr>sse_db := s', sse_unnotified := sse_unnotified st + (if c = cid then 1 else 0)\<rparr>"
  let ?s = "sse_db st"
  note app = append_event_Some[OF ap]
  have wf: "log_wf s'" using append_event_wf[of ?s cfg gap c e ty pl now] inv ap by (simp add: sse_inv_def)
  have cur: "sse_cursor st \<le> client_events_seq ?s" using inv by (simp add: sse_inv_def sent_ok_def)
  then have seq: "sse_cursor st < i" using app(1) by simp
  have old: "r \<in> set (client_events ?s)" if "r \<in> set (client_events s')" "ce_id r \<le> sse_cursor st" for r
    using that prune_subset[of cfg c now] seq unfolding app(4) by fastforce
  have so: "sent_ok cid start st" using inv by (simp add: sse_inv_def)
  have le: "sse_cursor st \<le> client_events_seq s'" using seq app(2) by simp
  have all: "\<forall>r\<in>set (client_events s').
      ce_client_id r = cid \<and> start < ce_id r \<and> ce_id r \<le> sse_cursor st \<longrightarrow> r \<in> set (sse_sent st)"
    using old so unfolding sent_ok_def by blast
  have "sent_ok cid start (st\<lparr>sse_db := s'\<rparr>)"
    by (simp add: sent_ok_def, intro conjI) (use so[unfolded sent_ok_def] le all in blast)+
  moreover have "wakeup_ok cid ?st"
    using inv pending_append_event[OF ap, of cid "sse_cursor st"]
    by (auto simp: sse_inv_def wakeup_ok_def split: sse_phase.splits)
  ultimately show ?thesis using wf by (simp add: sse_inv_def)
qed

lemma notify_keeps_wakeup:
  "w \<in> is_set n \<or> current n cid = Some w \<Longrightarrow> w \<in> is_set (notify cid n)"
  "c \<noteq> cid \<Longrightarrow> current (notify c n) cid = current n cid"
  "w \<in> is_set n \<Longrightarrow> w \<in> is_set (notify c n)"
  by (auto simp: notify_def split: option.splits)

lemma wakeup_event_keeps:
  "is_set (snd (wakeup_event c n)) = is_set n"
  "current n cid = Some w \<Longrightarrow> current (snd (wakeup_event c n)) cid = Some w"
  "current (snd (wakeup_event cid n)) cid = Some (fst (wakeup_event cid n))"
  by (auto simp: wakeup_event_def split: option.splits)

lemma sse_inv_step:
  assumes "sse_step cid cfg st st'" and "sse_inv cid start st"
  shows "sse_inv cid start st'"
  using assms(1)
proof cases
  case capture
  then show ?thesis using assms(2) wakeup_event_keeps(3)[of cid "sse_notifier st"]
    by (simp add: sse_inv_def sse_capture_def wakeup_ok_def split_beta)
next
  case (read_log w)
  then show ?thesis using sse_inv_read assms(2) by blast
next
  case (commit gap c e ty pl now i s')
  then show ?thesis using sse_inv_commit assms(2) by blast
next
  case (notify_own k)
  then show ?thesis using assms(2) notify_keeps_wakeup(1)[of _ "sse_notifier st" cid]
    by (auto simp: sse_inv_def wakeup_ok_def split: sse_phase.splits)
next
  case (notify_other c)
  then show ?thesis using assms(2) notify_keeps_wakeup(2,3)
    by (auto simp: sse_inv_def wakeup_ok_def split: sse_phase.splits)
next
  case (other_stream c)
  then show ?thesis using assms(2) wakeup_event_keeps
    by (auto simp: sse_inv_def wakeup_ok_def split: sse_phase.splits)
qed (use assms(2) in \<open>simp_all add: sse_inv_def wakeup_ok_def\<close>)

lemma sse_inv_steps:
  "(sse_step cid cfg)\<^sup>*\<^sup>* st st' \<Longrightarrow> sse_inv cid start st \<Longrightarrow> sse_inv cid start st'"
  by (induction rule: rtranclp_induct) (auto intro: sse_inv_step)

section \<open>Properties of the event stream\<close>

text \<open>
  The log is append-only, idempotent and bounded. Appending an event that is new for the
  client gives it an id above every id used so far and keeps its row whatever is pruned; the
  rows of other clients are untouched, the client keeps at most the configured number of
  rows, the log stays well-formed, and appending the same event again does nothing.
\<close>

theorem client_log_append:
  assumes "log_wf s" and "append_event cfg gap cid e ty pl now s = (Inr (Some i), s')"
  shows "client_events_seq s < i \<and> log_wf s' \<and>
    \<lparr>ce_id = i, ce_client_id = cid, ce_event_id = e, ce_type = ty, ce_payload = pl, ce_ts = now\<rparr>
      \<in> set (client_events s') \<and>
    (\<forall>r. ce_client_id r \<noteq> cid \<longrightarrow> r \<in> set (client_events s') \<longleftrightarrow> r \<in> set (client_events s)) \<and>
    (0 < max_per_client cfg \<longrightarrow>
      length (filter (\<lambda>r. ce_client_id r = cid) (client_events s')) \<le> nat (max_per_client cfg)) \<and>
    append_event cfg gap' cid e ty' pl' now' s' = (Inr None, s')"
proof -
  let ?r = "\<lparr>ce_id = i, ce_client_id = cid, ce_event_id = e, ce_type = ty, ce_payload = pl, ce_ts = now\<rparr>"
  note app = append_event_Some[OF assms(2)]
  have wf: "log_wf s'" using append_event_wf[OF assms(1), of cfg gap cid e ty pl now] assms(2) by simp
  have le: "\<forall>x\<in>set (client_events s). ce_id x \<le> client_events_seq s" using assms(1) by (simp add: log_wf_def)
  have r: "?r \<in> set (client_events s')"
    unfolding app(4) by (rule prune_keeps_newest) (use le app(1) in \<open>auto intro: le_trans\<close>)
  have sorted: "sorted_wrt (<) (map ce_id (client_events s @ [?r]))"
    using assms(1) le app(1) by (auto simp: log_wf_def sorted_wrt_append intro: le_less_trans)
  have "(cid, e) \<in> ce_key ` set (client_events s')" using r by (force simp: ce_key_def)
  then have "append_event cfg gap' cid e ty' pl' now' s' = (Inr None, s')" by (simp add: append_event_def)
  moreover have "\<forall>r. ce_client_id r \<noteq> cid \<longrightarrow> r \<in> set (client_events s') \<longleftrightarrow> r \<in> set (client_events s)"
    unfolding app(4) using prune_others by fastforce
  ultimately show ?thesis
    using wf r app(1,4) prune_count[OF sorted] by simp
qed

definition sample_log_db :: db where
  "sample_log_db = empty_db\<lparr>clients := [\<lparr>c_id = ''c'', c_external_ref = None, c_email = None, c_status = ''active'',
     c_created_at = ''t''\<rparr>]\<rparr>"

lemma sample_log_append:
  "append_event \<lparr>max_age_s = 0, max_per_client = 0\<rparr> 0 ''c'' ''e'' ''t'' ''p'' 7 sample_log_db =
     (Inr (Some 1), sample_log_db\<lparr>client_events := [\<lparr>ce_id = 1, ce_client_id = ''c'', ce_event_id = ''e'',
        ce_type = ''t'', ce_payload = ''p'', ce_ts = 7\<rparr>], client_events_seq := 1\<rparr>)"
  by (simp add: append_event_def Let_def sample_log_db_def empty_db_def prune_def)

lemma sample_log_wf: "log_wf sample_log_db"
  by (simp add: log_wf_def sample_log_db_def empty_db_def)

theorem client_log_append_witness:
  "\<exists>s'. append_event \<lparr>max_age_s = 0, max_per_client = 0\<rparr> 0 ''c'' ''e'' ''t'' ''p'' 7 sample_log_db = (Inr (Some 1), s')
     \<and> append_event \<lparr>max_age_s = 0, max_per_client = 0\<rparr> 5 ''c'' ''e'' ''u'' ''q'' 9 s' = (Inr None, s')"
  using client_log_append[OF sample_log_wf sample_log_append, of 5 "''u''" "''q''" 9] sample_log_append by blast

text \<open>
  Polling loses nothing and repeats nothing. A page of the polling endpoint followed by
  what is newer than the cursor it returns is exactly what was newer than the old cursor, in
  id order; an empty page means that nothing is newer.
\<close>

theorem get_events_pages:
  assumes "log_wf s" and "0 < lim_rows" and "get_events cid since lim_rows s = (page, next_cursor)"
  shows "pending cid (nat since) s = page @ pending cid next_cursor s \<and>
    int (length page) \<le> lim_rows \<and> (page = [] \<longleftrightarrow> pending cid (nat since) s = []) \<and>
    sorted_wrt (<) (map ce_id page)"
proof -
  let ?c = "nat since"
  have page: "page = sql_limit lim_rows (pending cid ?c s)"
    and nc: "next_cursor = (if page = [] then ?c else ce_id (last page))"
    using assms(3) list_since_pending[OF assms(1)] by (auto simp: get_events_def Let_def)
  have "int (length page) \<le> lim_rows" using length_sql_limit[of lim_rows "pending cid ?c s"] assms(2) page by simp
  moreover have empty: "page = [] \<longleftrightarrow> pending cid ?c s = []" using page assms(2) by (auto simp: sql_limit_def)
  moreover have "sorted_wrt (<) (map ce_id page)"
    unfolding page sql_limit_def using sorted_ids_pending[OF assms(1), of cid ?c]
    by (auto simp: take_map[symmetric] intro: sorted_wrt_take)
  moreover have "pending cid ?c s = page @ pending cid next_cursor s"
    using page_rest(1)[OF assms(1), of cid ?c lim_rows] list_since_pending[OF assms(1), of cid ?c lim_rows]
      page nc empty by auto
  ultimately show ?thesis by blast
qed

theorem get_events_pages_witness:
  "fst (get_events ''c'' 0 1 sample_log_db) = [] \<and> pending ''c'' 0 sample_log_db = []"
  using get_events_pages[OF sample_log_wf, of 1 "''c''" 0 "[]" 0]
  by (simp add: get_events_def list_since_def sample_log_db_def empty_db_def order_by_def sql_limit_def pending_def)

text \<open>
  A pass of the stream sends one batch. A pass over the log sends the first 200 pending
  events; what is beyond them stays pending while the stream waits for its next wakeup or
  heartbeat, although the events are already in the log.
\<close>

theorem sse_pass_sends_one_batch:
  assumes "log_wf (sse_db st)"
  shows "sse_sent (sse_read cid w st) = sse_sent st @ take 200 (pending cid (sse_cursor st) (sse_db st)) \<and>
    pending cid (sse_cursor (sse_read cid w st)) (sse_db st) = drop 200 (pending cid (sse_cursor st) (sse_db st))"
proof -
  let ?p = "pending cid (sse_cursor st) (sse_db st)"
  have b: "list_since cid (sse_cursor st) SSE_BATCH (sse_db st) = take 200 ?p"
    unfolding list_since_pending[OF assms] by (simp add: sql_limit_def SSE_BATCH_def)
  show ?thesis
  proof (cases "?p = []")
    case True
    then show ?thesis using b by (simp add: sse_read_def Let_def)
  next
    case False
    then have "take 200 ?p \<noteq> []" by simp
    then have "?p = take 200 ?p @ pending cid (ce_id (last (take 200 ?p))) (sse_db st)"
      by (rule page_rest(1)[OF assms, of cid "sse_cursor st" SSE_BATCH, unfolded b])
    then have "pending cid (ce_id (last (take 200 ?p))) (sse_db st) = drop 200 ?p"
      by (metis append_take_drop_id same_append_eq)
    then show ?thesis using b False by (simp add: sse_read_def Let_def)
  qed
qed

theorem sse_pass_sends_one_batch_witness:
  "sse_sent (sse_read ''c'' 0 (sse_init sample_log_db notifier_init 0)) = []"
  using sse_pass_sends_one_batch[of "sse_init sample_log_db notifier_init 0" "''c''" 0] sample_log_wf
  by (simp add: sse_init_def pending_def sample_log_db_def empty_db_def)

text \<open>
  C14. No event is lost by the stream. Whatever the interleaving of the stream with the
  producers (commit first, notify later), other clients and pruning: the frames sent have
  strictly increasing ids above the start cursor and belong to the client; every event of the
  client in the log up to the stream's cursor was sent; and a stream that waits unwoken after
  a batch that was not full has at most as many unsent events as there are commits whose
  notify is still to come: none once the producers have notified.
\<close>

theorem sse_stream_loses_nothing:
  assumes "log_wf s" and "start \<le> client_events_seq s"
    and "(sse_step cid cfg)\<^sup>*\<^sup>* (sse_init s n start) st"
  shows "sorted_wrt (<) (map ce_id (sse_sent st)) \<and>
    (\<forall>r\<in>set (sse_sent st). ce_client_id r = cid \<and> start < ce_id r) \<and>
    (\<forall>r\<in>set (client_events (sse_db st)).
       ce_client_id r = cid \<and> start < ce_id r \<and> ce_id r \<le> sse_cursor st \<longrightarrow> r \<in> set (sse_sent st)) \<and>
    (\<forall>w k. sse_phase st = Waiting w k \<and> w \<notin> is_set (sse_notifier st) \<and> k < 200 \<longrightarrow>
       length (pending cid (sse_cursor st) (sse_db st)) \<le> sse_unnotified st)"
proof -
  have inv: "sent_ok cid start st" "wakeup_ok cid st"
    using sse_inv_steps[OF assms(3) sse_inv_init[OF assms(1,2)]] by (auto simp: sse_inv_def)
  have "\<forall>w k. sse_phase st = Waiting w k \<and> w \<notin> is_set (sse_notifier st) \<and> k < 200 \<longrightarrow>
       length (pending cid (sse_cursor st) (sse_db st)) \<le> sse_unnotified st"
    using inv(2) by (auto simp: wakeup_ok_def SSE_BATCH_def)
  moreover note sent = inv(1)[unfolded sent_ok_def]
  moreover have "\<forall>r\<in>set (sse_sent st). ce_client_id r = cid \<and> start < ce_id r" using sent by blast
  ultimately show ?thesis by (intro conjI) (elim conjE, assumption)+
qed

theorem sse_stream_loses_nothing_witness:
  "length (pending ''c'' 0 sample_log_db) \<le> 0"
proof -
  let ?i = "sse_init sample_log_db notifier_init 0"
  let ?f = "sse_read ''c'' 0 (sse_capture ''c'' ?i)"
  have "sse_step ''c'' \<lparr>max_age_s = 0, max_per_client = 0\<rparr> ?i (sse_capture ''c'' ?i)"
    by (rule sse_step.capture) (simp add: sse_init_def)
  moreover have "sse_step ''c'' \<lparr>max_age_s = 0, max_per_client = 0\<rparr> (sse_capture ''c'' ?i) ?f"
    by (rule sse_step.read_log) (simp add: sse_init_def sse_capture_def wakeup_event_def notifier_init_def)
  ultimately have r: "(sse_step ''c'' \<lparr>max_age_s = 0, max_per_client = 0\<rparr>)\<^sup>*\<^sup>* ?i ?f" by simp
  have f: "sse_phase ?f = Waiting 0 0" "0 \<notin> is_set (sse_notifier ?f)" "sse_unnotified ?f = 0"
      "sse_cursor ?f = 0" "sse_db ?f = sample_log_db"
    by (simp_all add: sse_read_def sse_capture_def sse_init_def wakeup_event_def notifier_init_def Let_def
        list_since_def order_by_def sql_limit_def sample_log_db_def empty_db_def)
  show ?thesis using sse_stream_loses_nothing[OF sample_log_wf _ r] f by auto
qed

end
