(* ===== verification/Stripe.thy ===== *)
theory Stripe
  imports Client_Events
begin

text \<open>
  The Stripe adapter (\<open>engine/billing/stripe.py\<close>) and the public webhook endpoint
  (\<open>stripe_webhook\<close> and \<open>_emit_lifecycle\<close> of \<open>engine/api/billing_router.py\<close>).

  A parsed body is a \<open>json\<close> value; \<open>json.loads\<close>, HMAC-SHA256 in hex and the Python
  rendering of containers are arguments. JSON numbers are integers here. A value bound to a
  TEXT column or compared with one is converted to text by SQLite's column affinity
  (\<open>sql_text\<close>); lists and objects cannot be bound. An exception leaves what earlier
  store calls committed.
\<close>

section \<open>JSON values\<close>

datatype json = JNull | JBool bool | JInt int | JStr string | JList "json list" | JObj "(string \<times> json) list"

fun truthy :: "json \<Rightarrow> bool" where
  "truthy JNull = False"
| "truthy (JBool b) = b"
| "truthy (JInt i) = (i \<noteq> 0)"
| "truthy (JStr s) = (s \<noteq> [])"
| "truthy (JList xs) = (xs \<noteq> [])"
| "truthy (JObj kvs) = (kvs \<noteq> [])"

text \<open>\<open>x.get(key, default)\<close>; on anything but a dict it raises \<open>AttributeError\<close>.\<close>

fun json_get :: "json \<Rightarrow> string \<Rightarrow> json \<Rightarrow> (db_error, json) result" where
  "json_get (JObj kvs) key dflt = Inr (case map_of kvs key of Some v \<Rightarrow> v | None \<Rightarrow> dflt)"
| "json_get _ key dflt = Inl AttributeError"

text \<open>\<open>x or {}\<close>\<close>

definition or_empty :: "json \<Rightarrow> json" where
  "or_empty j = (if truthy j then j else JObj [])"

fun sql_text :: "json \<Rightarrow> (db_error, string option) result" where
  "sql_text JNull = Inr None"
| "sql_text (JBool b) = Inr (Some (if b then ''1'' else ''0''))"
| "sql_text (JInt i) = (if - (2 ^ 63) \<le> i \<and> i < 2 ^ 63 then Inr (Some (str_of_int i)) else Inl OverflowError)"
| "sql_text (JStr s) = Inr (Some s)"
| "sql_text _ = Inl ProgrammingError"

definition bind_result :: "('e, 'a) result \<Rightarrow> ('a \<Rightarrow> ('s \<Rightarrow> ('e, 'b) result \<times> 's)) \<Rightarrow> 's \<Rightarrow> ('e, 'b) result \<times> 's" where
  "bind_result r f s = (case r of Inl e \<Rightarrow> (Inl e, s) | Inr a \<Rightarrow> f a s)"

section \<open>Signature verification\<close>

definition PROVIDER :: string where "PROVIDER = ''stripe''"

definition ACTIVE_SUB_STATES :: "string list" where "ACTIVE_SUB_STATES = [''active'', ''trialing'']"

fun parse_sig_parts :: "int \<Rightarrow> string list \<Rightarrow> string list \<Rightarrow> int \<times> string list" where
  "parse_sig_parts timestamp v1 [] = (timestamp, v1)"
| "parse_sig_parts timestamp v1 (part # parts) =
     (if CHR ''='' \<notin> set part then parse_sig_parts timestamp v1 parts
      else let (prefix, value) = partition_on (CHR ''='') part
           in if strip prefix = ''t'' then
                parse_sig_parts (case py_int value of Some n \<Rightarrow> n | None \<Rightarrow> -1) v1 parts
              else if strip prefix = ''v1'' then parse_sig_parts timestamp (v1 @ [strip value]) parts
              else parse_sig_parts timestamp v1 parts)"

definition parse_sig_header :: "string \<Rightarrow> int \<times> string list" where
  "parse_sig_header header = parse_sig_parts (-1) [] (split_on (CHR '','') header)"

datatype sig_outcome = SigOk | SignatureError string | SigRaise db_error

text \<open>\<open>any(...)\<close> stops at the first match; a non-ASCII candidate before it raises.\<close>

fun any_digest :: "string \<Rightarrow> string list \<Rightarrow> bool option" where
  "any_digest expected [] = Some False"
| "any_digest expected (c # cs) =
     (case compare_digest expected c of
        None \<Rightarrow> None
      | Some True \<Rightarrow> Some True
      | Some False \<Rightarrow> any_digest expected cs)"

text \<open>The smallest integers \<open>float\<close> cannot represent: they round to \<open>2 ^ 1024\<close>.\<close>

definition FLOAT_OVERFLOW :: int where "FLOAT_OVERFLOW = 2 ^ 1024 - 2 ^ 970"

definition verify_signature ::
  "(string \<Rightarrow> string \<Rightarrow> string) \<Rightarrow> string \<Rightarrow> string option \<Rightarrow> string \<Rightarrow> int \<Rightarrow> time \<Rightarrow> sig_outcome" where
  "verify_signature hmac_hex payload header secret tolerance_s now =
     (case header of
        None \<Rightarrow> SignatureError ''missing signature header''
      | Some h \<Rightarrow>
          if h = [] then SignatureError ''missing signature header''
          else if secret = [] then SignatureError ''no signing secret configured''
          else let (timestamp, signatures) = parse_sig_header h in
            if timestamp < 0 \<or> signatures = [] then SignatureError ''malformed signature header''
            else if tolerance_s > 0 \<and> timestamp \<ge> FLOAT_OVERFLOW then SigRaise OverflowError
            else if tolerance_s > 0 \<and> \<bar>now - of_int timestamp\<bar> > of_int tolerance_s
            then SignatureError ''timestamp outside tolerance''
            else let expected = hmac_hex secret (str_of_int timestamp @ ''.'' @ payload) in
              case any_digest expected signatures of
                None \<Rightarrow> SigRaise TypeError
              | Some False \<Rightarrow> SignatureError ''signature mismatch''
              | Some True \<Rightarrow> SigOk)"

section \<open>Lifecycle events\<close>

record lifecycle_result =
  lr_action :: string
  lr_client_id :: "string option"

definition ignored :: lifecycle_result where
  "ignored = \<lparr>lr_action = ''ignored'', lr_client_id = None\<rparr>"

definition ensure_client :: "string \<Rightarrow> iso_time \<Rightarrow> json \<Rightarrow> json \<Rightarrow> string action" where
  "ensure_client uuid now customer_ref email =
     bind_result (sql_text customer_ref) (\<lambda>ref s.
       case (case ref of None \<Rightarrow> None | Some r \<Rightarrow> get_client_by_external_ref r s) of
         Some c \<Rightarrow> (Inr (c_id c), s)
       | None \<Rightarrow>
           bind_result (sql_text email) (\<lambda>em. bind_action (create_client uuid ref em now)
             (\<lambda>c. return_action (c_id c))) s)"

definition resolve_plan_id :: "json \<Rightarrow> string option action" where
  "resolve_plan_id obj =
     bind_result (json_get obj ''metadata'' JNull) (\<lambda>m.
     bind_result (json_get (or_empty m) ''plan'' JNull) (\<lambda>candidate s.
       if \<not> truthy candidate then (Inr None, s)
       else bind_result (sql_text candidate) (\<lambda>c s.
              case c of
                None \<Rightarrow> (Inr None, s)
              | Some p \<Rightarrow> (Inr (if get_plan p s \<noteq> None then Some p else None), s)) s))"

definition period_end :: "(json \<Rightarrow> string) \<Rightarrow> json \<Rightarrow> (db_error, string option) result" where
  "period_end py_repr obj =
     (case json_get obj ''current_period_end'' JNull of
        Inl e \<Rightarrow> Inl e
      | Inr v \<Rightarrow> Inr (case v of
            JNull \<Rightarrow> None
          | JStr s \<Rightarrow> Some s
          | JInt i \<Rightarrow> Some (str_of_int i)
          | JBool b \<Rightarrow> Some (if b then ''True'' else ''False'')
          | _ \<Rightarrow> Some (py_repr v)))"

text \<open>\<open>sub_status in _ACTIVE_SUB_STATES\<close> hashes the value: lists and dicts raise.\<close>

fun in_active_states :: "json \<Rightarrow> (db_error, bool) result" where
  "in_active_states (JStr s) = Inr (s \<in> set ACTIVE_SUB_STATES)"
| "in_active_states (JList _) = Inl TypeError"
| "in_active_states (JObj _) = Inl TypeError"
| "in_active_states _ = Inr False"

text \<open>\<open>upsert_subscription\<close> with values as they come from the event (id and status unbound).\<close>

definition upsert_event_subscription ::
  "json \<Rightarrow> string \<Rightarrow> string option \<Rightarrow> json \<Rightarrow> string option \<Rightarrow> iso_time \<Rightarrow> unit action" where
  "upsert_event_subscription sub_id cid plan_id status pend now =
     bind_result (sql_text sub_id) (\<lambda>sid. bind_result (sql_text status) (\<lambda>st s.
       case (sid, st) of
         (Some i, Some t) \<Rightarrow>
           upsert_subscription \<lparr>s_id = i, s_client_id = cid, s_plan_id = plan_id, s_provider = PROVIDER,
             s_provider_sub_id = i, s_status = t, s_current_period_end = pend\<rparr> now s
       | _ \<Rightarrow> (Inl IntegrityError, s)))"

definition set_status :: "string \<Rightarrow> string \<Rightarrow> unit action" where
  "set_status cid status s = (Inr (), snd (set_client_status cid status s))"

definition revoke_keys :: "string \<Rightarrow> iso_time \<Rightarrow> unit action" where
  "revoke_keys cid now s = (Inr (), snd (revoke_client_keys cid now s))"

definition client_by_ref :: "json \<Rightarrow> client option action" where
  "client_by_ref customer_ref =
     bind_result (sql_text customer_ref)
       (\<lambda>ref s. (Inr (case ref of None \<Rightarrow> None | Some r \<Rightarrow> get_client_by_external_ref r s), s))"

definition on_subscription_change ::
  "string \<Rightarrow> (nat \<Rightarrow> iso_time) \<Rightarrow> (json \<Rightarrow> string) \<Rightarrow> json \<Rightarrow> json \<Rightarrow> json \<Rightarrow> lifecycle_result action" where
  "on_subscription_change uuid now py_repr obj customer_ref sub_id =
     bind_result (json_get obj ''email'' JNull) (\<lambda>email.
     bind_action (ensure_client uuid (now 0) customer_ref email) (\<lambda>cid.
     bind_result (json_get obj ''status'' (JStr [])) (\<lambda>sub_status.
     bind_action (resolve_plan_id obj) (\<lambda>plan_id.
     bind_result (in_active_states sub_status) (\<lambda>is_active.
     bind_result (period_end py_repr obj) (\<lambda>pend.
     bind_action (upsert_event_subscription sub_id cid plan_id
                    (if is_active then JStr ''active'' else sub_status) pend (now 1)) (\<lambda>_.
       if is_active then
         bind_action (set_status cid STATUS_ACTIVE)
           (\<lambda>_. return_action \<lparr>lr_action = ''activated'', lr_client_id = Some cid\<rparr>)
       else return_action \<lparr>lr_action = ''plan_changed'', lr_client_id = Some cid\<rparr>)))))))"

definition on_payment_failed :: "json \<Rightarrow> lifecycle_result action" where
  "on_payment_failed customer_ref =
     bind_action (client_by_ref customer_ref) (\<lambda>c.
       case c of
         None \<Rightarrow> return_action ignored
       | Some c \<Rightarrow> bind_action (set_status (c_id c) STATUS_SUSPENDED)
           (\<lambda>_. return_action \<lparr>lr_action = ''suspended'', lr_client_id = Some (c_id c)\<rparr>))"

definition cancel_subscription ::
  "(nat \<Rightarrow> iso_time) \<Rightarrow> (json \<Rightarrow> string) \<Rightarrow> json \<Rightarrow> json \<Rightarrow> string \<Rightarrow> unit action" where
  "cancel_subscription now py_repr obj sub_id cid =
     (if \<not> truthy sub_id then return_action ()
      else bind_result (sql_text sub_id) (\<lambda>sid s.
        bind_result (period_end py_repr obj) (\<lambda>pend.
          upsert_event_subscription sub_id cid
            (case sid of
               None \<Rightarrow> None
             | Some i \<Rightarrow> (case get_subscription_by_provider PROVIDER i s of
                             None \<Rightarrow> None | Some ex \<Rightarrow> s_plan_id ex))
            (JStr ''canceled'') pend (now 0)) s))"

definition on_subscription_deleted ::
  "(nat \<Rightarrow> iso_time) \<Rightarrow> (json \<Rightarrow> string) \<Rightarrow> json \<Rightarrow> json \<Rightarrow> json \<Rightarrow> lifecycle_result action" where
  "on_subscription_deleted now py_repr obj customer_ref sub_id =
     bind_action (client_by_ref customer_ref) (\<lambda>c.
       case c of
         None \<Rightarrow> return_action ignored
       | Some c \<Rightarrow>
           bind_action (cancel_subscription now py_repr obj sub_id (c_id c)) (\<lambda>_.
           bind_action (set_status (c_id c) STATUS_CANCELED) (\<lambda>_.
           bind_action (revoke_keys (c_id c) (now 1)) (\<lambda>_.
             return_action \<lparr>lr_action = ''canceled'', lr_client_id = Some (c_id c)\<rparr>))))"

definition handle_event ::
  "string \<Rightarrow> (nat \<Rightarrow> iso_time) \<Rightarrow> (json \<Rightarrow> string) \<Rightarrow> json \<Rightarrow> lifecycle_result action" where
  "handle_event uuid now py_repr event =
     bind_result (json_get event ''type'' (JStr [])) (\<lambda>event_type.
     bind_result (json_get event ''data'' JNull) (\<lambda>data.
     bind_result (json_get (or_empty data) ''object'' JNull) (\<lambda>object_value.
       let obj = or_empty object_value in
       if event_type = JStr ''customer.subscription.created'' \<or> event_type = JStr ''customer.subscription.updated'' then
         bind_result (json_get obj ''customer'' JNull) (\<lambda>customer_ref.
         bind_result (json_get obj ''id'' JNull) (\<lambda>sub_id.
           if \<not> truthy customer_ref \<or> \<not> truthy sub_id then return_action ignored
           else on_subscription_change uuid now py_repr obj customer_ref sub_id))
       else if event_type = JStr ''invoice.payment_failed'' then
         bind_result (json_get obj ''customer'' JNull) (\<lambda>customer_ref.
           if \<not> truthy customer_ref then return_action ignored else on_payment_failed customer_ref)
       else if event_type = JStr ''customer.subscription.deleted'' then
         bind_result (json_get obj ''customer'' JNull) (\<lambda>customer_ref.
         bind_result (json_get obj ''id'' JNull) (\<lambda>sub_id.
           if \<not> truthy customer_ref then return_action ignored
           else on_subscription_deleted now py_repr obj customer_ref sub_id))
       else return_action ignored)))"

section \<open>The webhook endpoint\<close>

record stripe_settings =
  has_billing :: bool
  billing_provider :: string
  stripe_webhook_secret :: "string option"
  stripe_signature_tolerance_s :: int

datatype stripe_response =
    ErrorResponse nat string
  | DuplicateEvent string
  | ProcessedEvent string
  | Unhandled db_error

fun lifecycle_event_type :: "string \<Rightarrow> string option" where
  "lifecycle_event_type action =
     map_of [(''activated'', ''subscription.activated''), (''plan_changed'', ''subscription.updated''),
             (''suspended'', ''subscription.suspended''), (''canceled'', ''subscription.canceled'')] action"

text \<open>
  What the handler draws from its surroundings: the HMAC, the JSON parser and printer, fresh
  ids, the clock for the store (\<open>_now_iso\<close>, one reading per call) and for the emitter, and
  the gap of the next log row.
\<close>

record surroundings =
  hmac_hex :: "string \<Rightarrow> string \<Rightarrow> string"
  json_loads :: "string \<Rightarrow> json option"
  json_repr :: "json \<Rightarrow> string"
  envelope :: "string \<Rightarrow> string \<Rightarrow> string \<Rightarrow> string \<Rightarrow> string"
  new_uuid :: "nat \<Rightarrow> string"
  iso_clock :: "nat \<Rightarrow> iso_time"
  unix_clock :: time
  row_gap :: nat

definition emit_lifecycle ::
  "surroundings \<Rightarrow> emitter option \<Rightarrow> lifecycle_result \<Rightarrow> string \<Rightarrow> db \<times> notifier \<Rightarrow> db \<times> notifier" where
  "emit_lifecycle env em res source_event_id st =
     (case (em, lr_client_id res) of
        (Some e, Some cid) \<Rightarrow>
          (case lifecycle_event_type (lr_action res) of
             None \<Rightarrow> st
           | Some ty \<Rightarrow>
               emit e (\<lambda>k. new_uuid env (Suc k)) (row_gap env) cid ty (envelope env cid (lr_action res) ty)
                 (Some (source_event_id @ ''.'' @ lr_action res)) (unix_clock env) st)
      | _ \<Rightarrow> st)"

definition process_event ::
  "surroundings \<Rightarrow> emitter option \<Rightarrow> json \<Rightarrow> string \<Rightarrow> string option \<Rightarrow> db \<times> notifier
    \<Rightarrow> stripe_response \<times> (db \<times> notifier)" where
  "process_event env em event event_id event_type st =
     (let (s, n) = st; (new, s1) = record_event_once PROVIDER event_id event_type (iso_clock env 0) s
      in if \<not> new then (DuplicateEvent event_id, (s1, n))
         else case handle_event (new_uuid env 0) (\<lambda>k. iso_clock env (k + 1)) (json_repr env) event s1 of
             (Inl e, s2) \<Rightarrow> (ErrorResponse 500 ''webhook_processing_error'', (forget_event PROVIDER event_id s2, n))
           | (Inr res, s2) \<Rightarrow>
               (ProcessedEvent (lr_action res),
                emit_lifecycle env em res event_id
                  (mark_event_processed PROVIDER event_id (lr_action res) (iso_clock env 9) s2, n)))"

definition stripe_webhook ::
  "surroundings \<Rightarrow> stripe_settings \<Rightarrow> emitter option \<Rightarrow> string \<Rightarrow> string option \<Rightarrow> db \<times> notifier
    \<Rightarrow> stripe_response \<times> (db \<times> notifier)" where
  "stripe_webhook env cfg em raw sig_header st =
     (case (if has_billing cfg \<and> billing_provider cfg = ''stripe'' then stripe_webhook_secret cfg else None) of
        None \<Rightarrow> (ErrorResponse 404 ''billing_disabled'', st)
      | Some secret \<Rightarrow>
          if secret = [] then (ErrorResponse 404 ''billing_disabled'', st)
          else case verify_signature (hmac_hex env) raw sig_header secret (stripe_signature_tolerance_s cfg) (unix_clock env) of
              SignatureError msg \<Rightarrow> (ErrorResponse 400 ''invalid_signature'', st)
            | SigRaise e \<Rightarrow> (Unhandled e, st)
            | SigOk \<Rightarrow>
                (case json_loads env raw of
                   None \<Rightarrow> (ErrorResponse 400 ''invalid_payload'', st)
                 | Some event \<Rightarrow>
                     (case (json_get event ''id'' JNull, json_get event ''type'' JNull) of
                        (Inr (JStr event_id), Inr ty) \<Rightarrow>
                          if event_id = [] then (ErrorResponse 400 ''invalid_payload'', st)
                          else (case sql_text ty of
                                  Inl e \<Rightarrow> (Unhandled e, st)
                                | Inr event_type \<Rightarrow> process_event env em event event_id event_type st)
                      | (Inl e, _) \<Rightarrow> (Unhandled e, st)
                      | _ \<Rightarrow> (ErrorResponse 400 ''invalid_payload'', st))))"

section \<open>Lemmas: signatures\<close>

lemma any_digest_True: "any_digest expected cs = Some True \<Longrightarrow> expected \<in> set cs"
  by (induction cs) (auto simp: compare_digest_def split: option.splits bool.splits if_splits)

lemma any_digest_first: "isascii expected \<Longrightarrow> any_digest expected (expected # cs) = Some True"
  by (simp add: compare_digest_def)

lemma any_digest_non_ascii:
  "\<not> isascii c \<Longrightarrow> any_digest expected (c # cs) = None"
  by (simp add: compare_digest_def)

text \<open>The header Stripe sends, \<open>t=<unix>,v1=<hex>\<close>, parses to its two parts.\<close>

lemma strip_id: "\<forall>c\<in>set s. \<not> is_space c \<Longrightarrow> strip s = s"
proof -
  have l: "\<forall>c\<in>set t. \<not> is_space c \<Longrightarrow> lstrip t = t" for t
    by (cases t) (auto simp: lstrip_def)
  assume "\<forall>c\<in>set s. \<not> is_space c"
  then show ?thesis using l[of s] l[of "rev s"] by (simp add: strip_def)
qed

definition stripe_header :: "nat \<Rightarrow> string \<Rightarrow> string" where
  "stripe_header t v = ''t='' @ str_of_nat t @ '','' @ ''v1='' @ v"

lemma parse_stripe_header:
  assumes "length (str_of_nat t) \<le> 4300" and "CHR '','' \<notin> set v" and "\<forall>c\<in>set v. \<not> is_space c"
  shows "parse_sig_header (stripe_header t v) = (int t, [v])"
proof -
  have nc: "CHR '','' \<notin> set (str_of_nat t)" "CHR ''='' \<notin> set (str_of_nat t)"
    using str_of_nat_digits[of t] by (auto simp: is_digit_def code_def)
  have "split_on (CHR '','') ((''t='' @ str_of_nat t) @ CHR '','' # (''v1='' @ v))
      = (''t='' @ str_of_nat t) # split_on (CHR '','') (''v1='' @ v)"
    by (rule split_on_append) (use nc in simp)
  moreover have "split_on (CHR '','') (''v1='' @ v) = [''v1='' @ v]"
    by (rule split_on_none) (use assms(2) in simp)
  ultimately have parts: "split_on (CHR '','') (stripe_header t v) = [''t='' @ str_of_nat t, ''v1='' @ v]"
    by (simp add: stripe_header_def)
  have p1: "partition_on (CHR ''='') (''t='' @ str_of_nat t) = (''t'', str_of_nat t)"
    using partition_on_found[of "CHR ''=''" "''t''" "str_of_nat t"] by simp
  have p2: "partition_on (CHR ''='') (''v1='' @ v) = (''v1'', v)"
    using partition_on_found[of "CHR ''=''" "''v1''" v] by simp
  have st: "strip ''t'' = ''t''" "strip ''v1'' = ''v1''"
    by (rule strip_id; simp add: is_space_def code_def)+
  have "py_int (str_of_nat t) = Some (int t)" using assms(1) by (rule py_int_str_of_nat)
  then show ?thesis
    unfolding parse_sig_header_def parts using p1 p2 st strip_id[OF assms(3)] by simp
qed

lemma verify_signature_SigOk:
  assumes "verify_signature hmac payload header secret tol now = SigOk"
  obtains h t sigs where "header = Some h" "parse_sig_header h = (t, sigs)" "0 \<le> t" "secret \<noteq> []"
    "hmac secret (str_of_int t @ ''.'' @ payload) \<in> set sigs"
    "tol > 0 \<longrightarrow> \<bar>now - of_int t\<bar> \<le> of_int tol"
  using assms
  by (auto simp: verify_signature_def Let_def not_less dest!: any_digest_True
      split: option.splits if_splits prod.splits bool.splits)

section \<open>Lemmas: what an event may change\<close>

text \<open>
  The keys before and after: same identity, secret, owner; a revoked key is left as it is.
\<close>

definition same_key :: "api_key_row \<Rightarrow> api_key_row \<Rightarrow> bool" where
  "same_key k k' \<longleftrightarrow> k_id k' = k_id k \<and> k_hash k' = k_hash k \<and> k_client_id k' = k_client_id k \<and>
     (k_revoked_at k \<noteq> None \<longrightarrow> k' = k)"

definition lifecycle_only :: "db \<Rightarrow> db \<Rightarrow> bool" where
  "lifecycle_only s s' \<longleftrightarrow> plans s' = plans s \<and> usage_events s' = usage_events s \<and>
     webhook_events s' = webhook_events s \<and> list_all2 same_key (api_keys s) (api_keys s')"

lemma same_key_refl [simp]: "same_key k k"
  by (simp add: same_key_def)

lemma same_key_trans: "same_key a b \<Longrightarrow> same_key b c \<Longrightarrow> same_key a c"
  by (auto simp: same_key_def)

lemma lifecycle_only_refl [simp]: "lifecycle_only s s"
  by (simp add: lifecycle_only_def list_all2_refl)

lemma lifecycle_only_trans: "lifecycle_only a b \<Longrightarrow> lifecycle_only b c \<Longrightarrow> lifecycle_only a c"
  using same_key_trans by (auto simp: lifecycle_only_def intro: list_all2_trans[rotated])

lemma lifecycle_bind [intro]:
  assumes "\<And>s. lifecycle_only s (snd (m s))" and "\<And>a s. lifecycle_only s (snd (f a s))"
  shows "lifecycle_only s (snd (bind_action m f s))"
  using assms(1)[of s] assms(2) lifecycle_only_trans
  by (fastforce simp: bind_action_def split: prod.splits sum.splits)

lemma lifecycle_result [intro]:
  "(\<And>a s. lifecycle_only s (snd (f a s))) \<Longrightarrow> lifecycle_only s (snd (bind_result r f s))"
  by (auto simp: bind_result_def split: sum.splits)

lemma list_all2_upd_where: "(\<And>x. p x \<Longrightarrow> P x (f x)) \<Longrightarrow> (\<And>x. P x x) \<Longrightarrow> list_all2 P t (upd_where p f t)"
  by (induction t) auto

lemma lifecycle_steps:
  "lifecycle_only s (snd (create_client cid ref em now s))"
  "lifecycle_only s (snd (set_status cid st s))"
  "lifecycle_only s (snd (revoke_keys cid now s))"
  "lifecycle_only s (snd (upsert_subscription sub now s))"
  "lifecycle_only s (snd (client_by_ref ref' s))"
  "lifecycle_only s (snd (return_action a s))"
  by (auto simp: lifecycle_only_def create_client_def Let_def set_status_def set_client_status_def
      revoke_keys_def revoke_client_keys_def upsert_subscription_def client_by_ref_def bind_result_def
      list_all2_refl same_key_def intro: list_all2_upd_where split: sum.splits)

lemma lifecycle_ensure_client: "lifecycle_only s (snd (ensure_client u now c e s))"
  unfolding ensure_client_def
  by (auto intro!: lifecycle_result lifecycle_bind lifecycle_steps split: option.splits)

lemma lifecycle_resolve: "lifecycle_only s (snd (resolve_plan_id obj s))"
  unfolding resolve_plan_id_def
  by (auto intro!: lifecycle_result split: option.splits)

lemma lifecycle_upsert: "lifecycle_only s (snd (upsert_event_subscription i c p st pe now s))"
  unfolding upsert_event_subscription_def
  by (auto intro!: lifecycle_result lifecycle_steps split: option.splits)

lemma lifecycle_cancel: "lifecycle_only s (snd (cancel_subscription now rp obj i c s))"
  unfolding cancel_subscription_def
  by (auto intro!: lifecycle_result lifecycle_upsert lifecycle_steps)

lemma lifecycle_branch:
  "lifecycle_only s (snd (f s)) \<Longrightarrow> lifecycle_only s (snd (g s)) \<Longrightarrow> lifecycle_only s (snd ((if b then f else g) s))"
  "lifecycle_only s (snd (f s)) \<Longrightarrow> (\<And>a. lifecycle_only s (snd (h a s)))
    \<Longrightarrow> lifecycle_only s (snd ((case x of None \<Rightarrow> f | Some a \<Rightarrow> h a) s))"
  by (auto split: option.split)

lemmas lifecycle_intros = lifecycle_result lifecycle_bind lifecycle_branch lifecycle_steps
  lifecycle_ensure_client lifecycle_resolve lifecycle_upsert lifecycle_cancel

lemma lifecycle_handlers:
  "lifecycle_only s (snd (on_subscription_change u now rp obj c i s))"
  "lifecycle_only s (snd (on_payment_failed c s))"
  "lifecycle_only s (snd (on_subscription_deleted now rp obj c i s))"
  unfolding on_subscription_change_def on_payment_failed_def on_subscription_deleted_def
  by (intro lifecycle_intros)+

lemma lifecycle_handle_event: "lifecycle_only s (snd (handle_event u now rp ev s))"
  unfolding handle_event_def Let_def by (intro lifecycle_intros lifecycle_handlers)

section \<open>Lemmas: the endpoint\<close>

text \<open>Emitting touches only the outbound tables.\<close>

definition outbound_only :: "db \<Rightarrow> db \<Rightarrow> bool" where
  "outbound_only s s' \<longleftrightarrow> plans s' = plans s \<and> usage_events s' = usage_events s \<and>
     webhook_events s' = webhook_events s \<and> api_keys s' = api_keys s \<and> clients s' = clients s \<and>
     subscriptions s' = subscriptions s"

lemma outbound_only_trans: "outbound_only a b \<Longrightarrow> outbound_only b c \<Longrightarrow> outbound_only a c"
  by (simp add: outbound_only_def)

lemma outbound_dispatch: "outbound_only s (snd (dispatch_emit en u cid ty pl eid now s))"
  by (simp add: outbound_only_def dispatch_emit_def Let_def enqueue_event_def split_beta)

lemma outbound_append: "outbound_only s (snd (append_event cfg gap cid e ty pl now s))"
  by (simp add: outbound_only_def append_event_def Let_def)

lemma outbound_emit: "outbound_only (fst st) (fst (emit em u gap cid ty pl eid now st))"
proof -
  obtain s n where st: "st = (s, n)" by force
  let ?eid = "case eid of Some e \<Rightarrow> if e = [] then ''evt_'' @ u 0 else e | None \<Rightarrow> ''evt_'' @ u 0"
  let ?s1 = "case em_dispatcher em of None \<Rightarrow> s
    | Some en \<Rightarrow> snd (dispatch_emit en (\<lambda>k. u (Suc k)) cid ty pl (Some ?eid) now s)"
  have s1: "outbound_only s ?s1"
    using outbound_dispatch by (cases "em_dispatcher em") (simp_all add: outbound_only_def)
  show ?thesis
  proof (cases "em_log em")
    case None
    then show ?thesis using s1 by (simp add: emit_def Let_def st)
  next
    case (Some cfg)
    have "fst (emit em u gap cid ty pl eid now st) = snd (append_event cfg gap cid ?eid ty (pl ?eid) now ?s1)"
      unfolding emit_def Let_def st Some
      by (simp only: split_beta prod.case fst_conv option.case)
        (simp split: sum.split option.split prod.split)
    then show ?thesis using s1 outbound_append outbound_only_trans by (simp add: st)
  qed
qed

lemma outbound_emit_lifecycle: "outbound_only (fst st) (fst (emit_lifecycle env em res eid st))"
  using outbound_emit by (auto simp: emit_lifecycle_def outbound_only_def split: option.splits)

lemma record_event_once_new:
  assumes "record_event_once p e ty now s = (new, s1)"
  shows "new \<longleftrightarrow> (p, e) \<notin> event_key ` set (webhook_events s)" and "(p, e) \<in> event_key ` set (webhook_events s1)"
    and "\<not> new \<Longrightarrow> s1 = s"
    and "plans s1 = plans s" "usage_events s1 = usage_events s" "api_keys s1 = api_keys s"
      "clients s1 = clients s" "subscriptions s1 = subscriptions s"
  using assms by (auto simp: record_event_once_def insert_or_ignore_def Let_def event_key_def split: if_splits)

lemma mark_event_processed_keys:
  "event_key ` set (webhook_events (mark_event_processed p e r now s)) = event_key ` set (webhook_events s)"
  unfolding mark_event_processed_def by (simp add: ids_upd_where event_key_def)

text \<open>The three ways an admitted event ends.\<close>

lemma process_event_cases:
  assumes "process_event env em ev eid ty (s, n) = (resp, (s', n'))"
  obtains (duplicate) "(PROVIDER, eid) \<in> event_key ` set (webhook_events s)" "resp = DuplicateEvent eid" "s' = s" "n' = n"
  | (failed) s1 e s2 where "(PROVIDER, eid) \<notin> event_key ` set (webhook_events s)"
      "record_event_once PROVIDER eid ty (iso_clock env 0) s = (True, s1)"
      "handle_event (new_uuid env 0) (\<lambda>k. iso_clock env (k + 1)) (json_repr env) ev s1 = (Inl e, s2)"
      "resp = ErrorResponse 500 ''webhook_processing_error''" "s' = forget_event PROVIDER eid s2" "n' = n"
  | (processed) s1 res s2 where "(PROVIDER, eid) \<notin> event_key ` set (webhook_events s)"
      "record_event_once PROVIDER eid ty (iso_clock env 0) s = (True, s1)"
      "handle_event (new_uuid env 0) (\<lambda>k. iso_clock env (k + 1)) (json_repr env) ev s1 = (Inr res, s2)"
      "resp = ProcessedEvent (lr_action res)"
      "emit_lifecycle env em res eid
         (mark_event_processed PROVIDER eid (lr_action res) (iso_clock env 9) s2, n) = (s', n')"
proof -
  obtain new s1 where r: "record_event_once PROVIDER eid ty (iso_clock env 0) s = (new, s1)" by force
  note rec = record_event_once_new[OF r]
  show ?thesis
  proof (cases new)
    case False
    then have "resp = DuplicateEvent eid" "s' = s" "n' = n" using assms r rec(3) by (simp_all add: process_event_def)
    then show ?thesis using duplicate rec(1) False by blast
  next
    case True
    obtain o_res s2 where h: "handle_event (new_uuid env 0) (\<lambda>k. iso_clock env (k + 1)) (json_repr env) ev s1 = (o_res, s2)"
      by force
    show ?thesis
    proof (cases o_res)
      case (Inl e)
      then show ?thesis using assms r h True rec(1) by (intro failed[of s1 e s2]) (simp_all add: process_event_def)
    next
      case (Inr res)
      then show ?thesis using assms r h True rec(1) by (intro processed[of s1 res s2]) (simp_all add: process_event_def)
    qed
  qed
qed

text \<open>A delivery reaches the store only with a valid signature, a parsed body and an event id.\<close>

definition admitted ::
  "surroundings \<Rightarrow> stripe_settings \<Rightarrow> string \<Rightarrow> string option \<Rightarrow> json \<Rightarrow> string \<Rightarrow> string option \<Rightarrow> bool" where
  "admitted env cfg raw hdr ev eid ty \<longleftrightarrow>
     has_billing cfg \<and> billing_provider cfg = ''stripe'' \<and>
     (\<exists>secret. stripe_webhook_secret cfg = Some secret \<and> secret \<noteq> [] \<and>
        verify_signature (hmac_hex env) raw hdr secret (stripe_signature_tolerance_s cfg) (unix_clock env) = SigOk) \<and>
     json_loads env raw = Some ev \<and> json_get ev ''id'' JNull = Inr (JStr eid) \<and> eid \<noteq> [] \<and>
     (\<exists>j. json_get ev ''type'' JNull = Inr j \<and> sql_text j = Inr ty)"

lemma stripe_webhook_admitted:
  "admitted env cfg raw hdr ev eid ty \<Longrightarrow> stripe_webhook env cfg em raw hdr st = process_event env em ev eid ty st"
  by (auto simp: admitted_def stripe_webhook_def)

lemma stripe_webhook_rejected:
  assumes "\<nexists>ev eid ty. admitted env cfg raw hdr ev eid ty"
  shows "snd (stripe_webhook env cfg em raw hdr st) = st \<and>
    (\<forall>x. fst (stripe_webhook env cfg em raw hdr st) \<notin> {DuplicateEvent x, ProcessedEvent x})"
proof -
  have "\<not> admitted env cfg raw hdr ev eid ty" for ev eid ty using assms by blast
  then show ?thesis
    by (auto simp: stripe_webhook_def admitted_def split: option.split sig_outcome.split sum.split json.split)
qed

lemma process_event_keeps:
  assumes "process_event env em ev eid ty (s, n) = (resp, (s', n'))"
  shows "plans s' = plans s \<and> usage_events s' = usage_events s \<and> list_all2 same_key (api_keys s) (api_keys s')"
  using assms
proof (cases rule: process_event_cases)
  case duplicate
  then show ?thesis by (simp add: list_all2_refl)
next
  case (failed s1 e s2)
  then show ?thesis using lifecycle_handle_event[of s1 "new_uuid env 0" _ "json_repr env" ev] record_event_once_new[OF failed(2)]
    by (auto simp: lifecycle_only_def forget_event_def) (metis (no_types, lifting) snd_conv)+
next
  case (processed s1 res s2)
  have "lifecycle_only s1 s2" by (metis lifecycle_handle_event processed(3) snd_conv)
  moreover have "outbound_only (mark_event_processed PROVIDER eid (lr_action res) (iso_clock env 9) s2) s'"
    using outbound_emit_lifecycle[of "(_, n)" env em res eid] processed(5) by (metis fst_conv)
  ultimately show ?thesis using record_event_once_new[OF processed(2)]
    by (simp add: lifecycle_only_def outbound_only_def mark_event_processed_def)
qed

section \<open>Properties of the Stripe integration\<close>

text \<open>
  C6. An unauthenticated delivery changes nothing. If a webhook call changes the database or
  wakes a stream, then Stripe billing is enabled and the header carries, among its v1 values,
  the HMAC under the configured secret of the header's own timestamp and the raw body, and
  the timestamp is within the tolerance of the clock.
\<close>

theorem stripe_webhook_authentic:
  assumes "snd (stripe_webhook env cfg em raw hdr st) \<noteq> st"
  shows "\<exists>secret h t sigs. stripe_webhook_secret cfg = Some secret \<and> secret \<noteq> [] \<and>
    billing_provider cfg = ''stripe'' \<and> hdr = Some h \<and> parse_sig_header h = (t, sigs) \<and> 0 \<le> t \<and>
    hmac_hex env secret (str_of_int t @ ''.'' @ raw) \<in> set sigs \<and>
    (stripe_signature_tolerance_s cfg > 0 \<longrightarrow> \<bar>unix_clock env - of_int t\<bar> \<le> of_int (stripe_signature_tolerance_s cfg))"
proof -
  obtain ev eid ty where "admitted env cfg raw hdr ev eid ty"
    using assms stripe_webhook_rejected[of env cfg raw hdr em st] by blast
  then obtain secret where "billing_provider cfg = ''stripe''" "stripe_webhook_secret cfg = Some secret" "secret \<noteq> []"
    and v: "verify_signature (hmac_hex env) raw hdr secret (stripe_signature_tolerance_s cfg) (unix_clock env) = SigOk"
    by (auto simp: admitted_def)
  moreover obtain h t sigs where "hdr = Some h" "parse_sig_header h = (t, sigs)" "0 \<le> t"
    "hmac_hex env secret (str_of_int t @ ''.'' @ raw) \<in> set sigs"
    "stripe_signature_tolerance_s cfg > 0 \<longrightarrow> \<bar>unix_clock env - of_int t\<bar> \<le> of_int (stripe_signature_tolerance_s cfg)"
    using verify_signature_SigOk[OF v] by metis
  ultimately show ?thesis by (intro exI[of _ secret] exI[of _ h] exI[of _ t] exI[of _ sigs] conjI) assumption+
qed

text \<open>
  A delivery signed by Stripe is accepted. With the header \<open>t=<unix>,v1=<hex>\<close> carrying
  the HMAC of the timestamp and body, and the timestamp within the tolerance, verification
  succeeds. The HMAC is rendered in hexadecimal: ASCII without blanks or commas.
\<close>

theorem stripe_signature_accepted:
  assumes "secret \<noteq> []" and "\<bar>now - of_int (int t)\<bar> \<le> of_int tol" and "int t < FLOAT_OVERFLOW"
    and "length (str_of_nat t) \<le> 4300"
    and "\<forall>c\<in>set (hmac secret (str_of_nat t @ ''.'' @ payload)). c \<noteq> CHR '','' \<and> \<not> is_space c \<and> code c < 128"
  shows "verify_signature hmac payload
    (Some (stripe_header t (hmac secret (str_of_nat t @ ''.'' @ payload)))) secret tol now = SigOk"
proof -
  let ?v = "hmac secret (str_of_nat t @ ''.'' @ payload)"
  have "parse_sig_header (stripe_header t ?v) = (int t, [?v])"
    using assms(4,5) by (intro parse_stripe_header) auto
  moreover have "stripe_header t ?v \<noteq> []" by (simp add: stripe_header_def)
  moreover have "isascii ?v" using assms(5) by (simp add: isascii_def)
  ultimately show ?thesis using assms(1,2,3)
    by (simp add: verify_signature_def str_of_int_def compare_digest_def)
qed


text \<open>
  A failed event can be retried. When processing fails, the answer is a 500, no account
  event is emitted, and the event id is not left in the ledger, so that the provider's
  redelivery is not taken for a duplicate.
\<close>

theorem stripe_failure_retriable:
  assumes "admitted env cfg raw hdr ev eid ty"
    and "stripe_webhook env cfg em raw hdr (s, n) = (ErrorResponse 500 c, (s', n'))"
    and "admitted env' cfg' raw' hdr' ev' eid ty'"
  shows "n' = n \<and> (PROVIDER, eid) \<notin> event_key ` set (webhook_events s') \<and>
    fst (stripe_webhook env' cfg' em' raw' hdr' (s', n')) \<noteq> DuplicateEvent eid"
proof -
  have pe: "process_event env em ev eid ty (s, n) = (ErrorResponse 500 c, (s', n'))"
    using assms(2) stripe_webhook_admitted[OF assms(1)] by simp
  have free: "n' = n \<and> (PROVIDER, eid) \<notin> event_key ` set (webhook_events s')"
    using pe by (cases rule: process_event_cases) (auto simp: forget_event_def set_del_where)
  obtain resp s3 n3 where p': "process_event env' em' ev' eid ty' (s', n') = (resp, (s3, n3))"
    by (metis prod.collapse)
  have "resp \<noteq> DuplicateEvent eid"
    using p' by (cases rule: process_event_cases) (use free in auto)
  then show ?thesis using free p' by (simp add: stripe_webhook_admitted[OF assms(3)])
qed

text \<open>
  Payments never grant. Whatever a webhook call does and answers, the operator's plans
  and the recorded usage are untouched, no key is added, removed, re-owned or re-hashed, and
  a revoked key stays exactly as it was.
\<close>

theorem stripe_webhook_grants_nothing:
  "plans (fst (snd (stripe_webhook env cfg em raw hdr (s, n)))) = plans s \<and>
   usage_events (fst (snd (stripe_webhook env cfg em raw hdr (s, n)))) = usage_events s \<and>
   list_all2 same_key (api_keys s) (api_keys (fst (snd (stripe_webhook env cfg em raw hdr (s, n)))))"
proof (cases "\<exists>ev eid ty. admitted env cfg raw hdr ev eid ty")
  case True
  then obtain ev eid ty where a: "admitted env cfg raw hdr ev eid ty" by blast
  obtain resp s' n' where "process_event env em ev eid ty (s, n) = (resp, (s', n'))"
    by (metis prod.collapse)
  then show ?thesis using process_event_keeps by (simp add: stripe_webhook_admitted[OF a])
next
  case False
  then show ?thesis using stripe_webhook_rejected[of env cfg raw hdr em "(s, n)"] by (simp add: list_all2_refl)
qed

lemma bind_action_Inr_iff:
  "bind_action m f s = (Inr b, s') \<longleftrightarrow> (\<exists>a s1. m s = (Inr a, s1) \<and> f a s1 = (Inr b, s'))"
  by (auto simp: bind_action_def split: prod.splits sum.splits)

lemma bind_result_Inr_iff:
  "bind_result r f s = (Inr b, s') \<longleftrightarrow> (\<exists>a. r = Inr a \<and> f a s = (Inr b, s'))"
  by (auto simp: bind_result_def split: sum.splits)

lemma handle_event_cases:
  assumes "handle_event u now rp ev s = (Inr res, s')"
  obtains (ignored) "res = ignored" "s' = s"
  | (change) obj c i where "on_subscription_change u now rp obj c i s = (Inr res, s')"
  | (failed) c where "on_payment_failed c s = (Inr res, s')"
  | (deleted) obj c i where "on_subscription_deleted now rp obj c i s = (Inr res, s')"
proof -
  obtain ty data oval where "json_get ev ''type'' (JStr []) = Inr ty" "json_get ev ''data'' JNull = Inr data"
      "json_get (or_empty data) ''object'' JNull = Inr oval"
    using assms unfolding handle_event_def bind_result_Inr_iff by blast
  note h = assms[unfolded handle_event_def Let_def, simplified this bind_result_def sum.case]
  consider (a) "ty = JStr ''customer.subscription.created'' \<or> ty = JStr ''customer.subscription.updated''"
    | (b) "ty = JStr ''invoice.payment_failed''" | (c) "ty = JStr ''customer.subscription.deleted''"
    | (d) "ty \<notin> {JStr ''customer.subscription.created'', JStr ''customer.subscription.updated'',
        JStr ''invoice.payment_failed'', JStr ''customer.subscription.deleted''}" by blast
  then show ?thesis
  proof cases
    case a
    then show ?thesis using h ignored change
      by (auto simp: bind_result_Inr_iff return_action_def split: if_splits)
  next
    case b
    then show ?thesis using h ignored failed
      by (auto simp: bind_result_Inr_iff return_action_def split: if_splits)
  next
    case c
    then show ?thesis using h ignored deleted
      by (auto simp: bind_result_Inr_iff return_action_def split: if_splits)
  next
    case d
    then show ?thesis using h ignored by (simp add: return_action_def)
  qed
qed

lemma canceled_only_by_deletion:
  assumes "handle_event u now rp ev s = (Inr res, s')" and "lr_action res = ''canceled''"
  obtains cid s1 where "lr_client_id res = Some cid" "lifecycle_only s s1"
    "s' = snd (revoke_client_keys cid (now 1) (snd (set_client_status cid STATUS_CANCELED s1)))"
proof -
  have no: "lr_action r \<noteq> ''canceled''"
    if "on_subscription_change u now rp obj c i s = (Inr r, t) \<or> on_payment_failed c s = (Inr r, t)" for obj c i r t
    using that
    by (auto simp: on_subscription_change_def on_payment_failed_def bind_action_Inr_iff bind_result_Inr_iff
        return_action_def ignored_def split: if_splits option.splits)
  obtain obj c i where d: "on_subscription_deleted now rp obj c i s = (Inr res, s')"
    using assms(1)
  proof (cases rule: handle_event_cases)
    case ignored
    then show ?thesis using assms(2) by (simp add: ignored_def)
  next
    case (change obj c i)
    then show ?thesis using no[of obj c i] assms(2) by blast
  next
    case (failed c)
    then show ?thesis using no[of _ c] assms(2) by blast
  qed
  then obtain cl s1 s2 where "res = \<lparr>lr_action = ''canceled'', lr_client_id = Some (c_id cl)\<rparr>"
    and c: "cancel_subscription now rp obj i (c_id cl) s2 = (Inr (), s1)" "client_by_ref c s = (Inr (Some cl), s2)"
    and "s' = snd (revoke_client_keys (c_id cl) (now 1) (snd (set_client_status (c_id cl) STATUS_CANCELED s1)))"
    using assms(2)
    by (auto simp: on_subscription_deleted_def bind_action_Inr_iff return_action_def ignored_def set_status_def
        revoke_keys_def split: option.splits)
  moreover have "lifecycle_only s s1"
    using lifecycle_steps(5)[of s c] lifecycle_cancel[of s2 now rp obj i "c_id cl"] c lifecycle_only_trans by force
  ultimately show ?thesis using that by simp
qed

text \<open>
  Cancellation cuts the client off. When an event is processed as a cancellation of a
  client, its status is canceled and no token verifies as one of its keys any more, while
  every key of another client (or of none) keeps its row, up to changes the key store made.
\<close>

theorem stripe_cancel_revokes:
  assumes "handle_event u now rp ev s = (Inr res, s')" and "lr_action res = ''canceled''"
  shows "\<exists>cid. lr_client_id res = Some cid \<and>
    (\<forall>hash tok t rec. fst (key_verify hash tok t s') = Some rec \<longrightarrow> k_client_id rec \<noteq> Some cid) \<and>
    (\<forall>c. client_row_of cid (clients s') = Some c \<longrightarrow> c_status c = STATUS_CANCELED) \<and>
    list_all2 same_key (api_keys s) (api_keys s')"
proof -
  obtain cid s1 where r: "lr_client_id res = Some cid" and keep: "lifecycle_only s s1"
    and s': "s' = snd (revoke_client_keys cid (now 1) (snd (set_client_status cid STATUS_CANCELED s1)))"
    using canceled_only_by_deletion[OF assms] by metis
  have rev: "k_revoked_at k \<noteq> None" if "k \<in> set (api_keys s')" "k_client_id k = Some cid" for k
    using that by (auto simp: s' revoke_client_keys_def Let_def set_upd_where split: if_splits)
  have "k_client_id rec \<noteq> Some cid" if v: "fst (key_verify hash tok t s') = Some rec" for hash tok t rec
  proof -
    obtain row where "row \<in> set (api_keys s')" "k_revoked_at row = None" "rec = key_record.truncate row"
      using v by (auto simp: key_verify_def dest: fetchone_Some split: if_splits option.splits)
    then show ?thesis using rev[of row] by (auto simp: key_record.defs)
  qed
  moreover have "\<forall>c. client_row_of cid (clients s') = Some c \<longrightarrow> c_status c = STATUS_CANCELED"
  proof -
    let ?upd = "\<lambda>r. if c_id r = cid then r\<lparr>c_status := STATUS_CANCELED\<rparr> else r"
    have cs: "set (clients s') = ?upd ` set (clients s1)"
      by (simp add: s' revoke_client_keys_def set_client_status_def Let_def set_upd_where)
    have "\<forall>c\<in>set (clients s'). c_id c = cid \<longrightarrow> c_status c = STATUS_CANCELED"
      unfolding cs by (simp add: ball_Un)
    then show ?thesis unfolding client_row_of_def by (metis (mono_tags, lifting) fetchone_Some)
  qed
  moreover have "list_all2 same_key (api_keys s) (api_keys s')"
    using lifecycle_handle_event[of s u now rp ev] assms(1) by (simp add: lifecycle_only_def)
  ultimately show ?thesis using r by (intro exI[of _ cid]) simp
qed

text \<open>
  A non-ASCII signature is not a signature error. If the first v1 value of an otherwise
  acceptable header is not ASCII, the comparison raises \<open>TypeError\<close>, which the endpoint
  does not catch: the call ends in an unhandled exception instead of the 400 answer for an
  invalid signature. The state is unchanged.
\<close>

theorem stripe_non_ascii_unhandled:
  assumes "has_billing cfg" and "billing_provider cfg = ''stripe''" and "stripe_webhook_secret cfg = Some secret"
    and "secret \<noteq> []" and "parse_sig_header h = (t, c # cs)" and "h \<noteq> []" and "0 \<le> t" and "t < FLOAT_OVERFLOW"
    and "\<bar>unix_clock env - of_int t\<bar> \<le> of_int (stripe_signature_tolerance_s cfg)" and "\<not> isascii c"
  shows "stripe_webhook env cfg em raw (Some h) st = (Unhandled TypeError, st)"
proof -
  have "verify_signature (hmac_hex env) raw (Some h) secret (stripe_signature_tolerance_s cfg) (unix_clock env)
      = SigRaise TypeError"
    using assms by (simp add: verify_signature_def compare_digest_def)
  then show ?thesis using assms(1-4) by (simp add: stripe_webhook_def)
qed

section \<open>Witnesses\<close>

definition sample_stripe_event :: "string \<Rightarrow> json" where
  "sample_stripe_event ty = JObj [(''id'', JStr ''evt_1''), (''type'', JStr ty),
     (''data'', JObj [(''object'', JObj [(''customer'', JStr ''cus_1''), (''id'', JStr ''sub_1''), (''status'', JStr ''active'')])])]"

definition sample_env :: "json \<Rightarrow> surroundings" where
  "sample_env ev = \<lparr>hmac_hex = (\<lambda>k p. ''ab''), json_loads = (\<lambda>raw. Some ev), json_repr = (\<lambda>j. []),
     envelope = (\<lambda>a b c d. []), new_uuid = (\<lambda>k. ''u''), iso_clock = (\<lambda>k. ''now''), unix_clock = 10, row_gap = 0\<rparr>"

definition sample_cfg :: stripe_settings where
  "sample_cfg = \<lparr>has_billing = True, billing_provider = ''stripe'', stripe_webhook_secret = Some ''k'',
     stripe_signature_tolerance_s = 300\<rparr>"

lemma sample_parse: "parse_sig_header ''t=5,v1=ab'' = (5, [''ab''])"
  by code_simp

lemma sample_verified: "verify_signature (\<lambda>k p. ''ab'') ''b'' (Some ''t=5,v1=ab'') ''k'' 300 10 = SigOk"
  by (simp add: verify_signature_def sample_parse FLOAT_OVERFLOW_def compare_digest_def isascii_def code_def)

lemma sample_admitted:
  "admitted (sample_env (sample_stripe_event ty)) sample_cfg ''b'' (Some ''t=5,v1=ab'') (sample_stripe_event ty)
     ''evt_1'' (Some ty)"
  by (simp add: admitted_def sample_env_def sample_cfg_def sample_verified sample_stripe_event_def)

definition sample_state :: db where
  "sample_state = empty_db\<lparr>clients := [\<lparr>c_id = ''c'', c_external_ref = Some ''cus_1'', c_email = None,
     c_status = ''active'', c_created_at = ''t''\<rparr>]\<rparr>"

lemmas sample_run = process_event_def sample_env_def sample_stripe_event_def record_event_once_def insert_or_ignore_def
  handle_event_def bind_result_def bind_action_def on_payment_failed_def client_by_ref_def on_subscription_deleted_def
  get_client_by_external_ref_def return_action_def ignored_def or_empty_def sample_state_def empty_db_def set_status_def
  set_client_status_def emit_lifecycle_def cancel_subscription_def period_end_def upsert_event_subscription_def
  upsert_subscription_def get_subscription_by_provider_def sub_key_def revoke_keys_def revoke_client_keys_def
  plan_ref_ok_def event_key_def mark_event_processed_def forget_event_def client.defs subscription.defs

lemma sample_suspends:
  "\<exists>s'. process_event (sample_env (sample_stripe_event ''invoice.payment_failed'')) None
     (sample_stripe_event ''invoice.payment_failed'') ''evt_1'' (Some ''invoice.payment_failed'') (sample_state, notifier_init)
     = (ProcessedEvent ''suspended'', (s', notifier_init))"
  by (simp add: sample_run)

theorem stripe_webhook_authentic_witness:
  "\<exists>t sigs. parse_sig_header ''t=5,v1=ab'' = (t, sigs) \<and> ''ab'' \<in> set sigs"
proof -
  let ?ev = "sample_stripe_event ''invoice.payment_failed''"
  let ?r = "stripe_webhook (sample_env ?ev) sample_cfg None ''b'' (Some ''t=5,v1=ab'') (sample_state, notifier_init)"
  have "snd ?r \<noteq> (sample_state, notifier_init)"
    unfolding stripe_webhook_admitted[OF sample_admitted] by (simp add: sample_run)
  from stripe_webhook_authentic[OF this] show ?thesis by (auto simp: sample_env_def)
qed

theorem stripe_signature_accepted_witness:
  "verify_signature (\<lambda>k p. ''ab'') ''b'' (Some (stripe_header 5 ''ab'')) ''k'' 300 10 = SigOk"
  by (rule stripe_signature_accepted[of "''k''" 10 5 300 "\<lambda>k p. ''ab''"])
    (auto simp: FLOAT_OVERFLOW_def is_space_def code_def str_of_nat.simps)


theorem stripe_failure_retriable_witness:
  "\<exists>ev s'. stripe_webhook (sample_env ev) sample_cfg None ''b'' (Some ''t=5,v1=ab'') (sample_state, notifier_init)
      = (ErrorResponse 500 ''webhook_processing_error'', (s', notifier_init)) \<and>
    (PROVIDER, ''evt_1'') \<notin> event_key ` set (webhook_events s')"
proof -
  let ?ev = "JObj [(''id'', JStr ''evt_1''), (''data'', JList [JNull])]"
  have a: "admitted (sample_env ?ev) sample_cfg ''b'' (Some ''t=5,v1=ab'') ?ev ''evt_1'' None"
    by (simp add: admitted_def sample_env_def sample_cfg_def sample_verified)
  have "\<exists>s'. stripe_webhook (sample_env ?ev) sample_cfg None ''b'' (Some ''t=5,v1=ab'') (sample_state, notifier_init)
      = (ErrorResponse 500 ''webhook_processing_error'', (s', notifier_init))"
    unfolding stripe_webhook_admitted[OF a] by (simp add: sample_run)
  then obtain s' where r: "stripe_webhook (sample_env ?ev) sample_cfg None ''b'' (Some ''t=5,v1=ab'')
      (sample_state, notifier_init) = (ErrorResponse 500 ''webhook_processing_error'', (s', notifier_init))" ..
  from stripe_failure_retriable[OF a r a] r show ?thesis by blast
qed

theorem stripe_cancel_revokes_witness:
  "\<exists>c. client_row_of ''c'' (clients (snd (handle_event ''u'' (\<lambda>k. ''now'') (\<lambda>j. [])
     (sample_stripe_event ''customer.subscription.deleted'') sample_state))) = Some c \<and> c_status c = STATUS_CANCELED"
proof -
  let ?r = "handle_event ''u'' (\<lambda>k. ''now'') (\<lambda>j. []) (sample_stripe_event ''customer.subscription.deleted'') sample_state"
  have "\<exists>s'. ?r = (Inr \<lparr>lr_action = ''canceled'', lr_client_id = Some ''c''\<rparr>, s')"
    by (simp add: sample_run)
  then obtain s' where h: "?r = (Inr \<lparr>lr_action = ''canceled'', lr_client_id = Some ''c''\<rparr>, s')" ..
  have "\<exists>c. client_row_of ''c'' (clients (snd ?r)) = Some c" by (simp add: sample_run client_row_of_def)
  then show ?thesis using stripe_cancel_revokes[OF h] h by auto
qed

theorem stripe_non_ascii_unhandled_witness:
  "stripe_webhook (sample_env JNull) sample_cfg None ''b'' (Some (''t=5,v1='' @ [CHR 0xE9])) (sample_state, notifier_init)
     = (Unhandled TypeError, (sample_state, notifier_init))"
proof -
  have "parse_sig_header (''t=5,v1='' @ [CHR 0xE9]) = (5, [[CHR 0xE9]])" by code_simp
  then show ?thesis
    using stripe_non_ascii_unhandled[of sample_cfg "''k''" "''t=5,v1='' @ [CHR 0xE9]" 5 "[CHR 0xE9]" "[]" "sample_env JNull"]
    by (simp add: sample_cfg_def sample_env_def FLOAT_OVERFLOW_def isascii_def code_def)
qed

end
