(* ===== verification/Gateway.thy ===== *)
theory Gateway
  imports Client_Events
begin

text \<open>
  The gateway (\<open>engine/gateway.py\<close>): token extraction, authentication, the operator gate,
  the in-memory limiter, authorization with entitlements and quota, and the access handle
  whose \<open>finalize\<close> or \<open>abort\<close> ends a request; with \<open>Settings.effective_require_auth\<close>
  (\<open>engine/config.py\<close>) and the usage-threshold hook of \<open>engine/main.py\<close>.

  The state is the database, the limiter and the stream notifier. Errors carry the status,
  type, code and headers of \<open>OpenAIError\<close>; the message for humans is left out. The hash of
  tokens and the clock are arguments.
\<close>

section \<open>Settings and errors\<close>

record settings =
  host :: string
  require_auth :: "bool option"
  quota_5h_cu :: real
  quota_weekly_cu :: real
  rate_limit_per_min :: int
  max_concurrent_per_key :: int
  cu_weights :: compute_model
  billing_default_plan :: "string option option"

text \<open>\<open>billing_default_plan\<close> is \<open>None\<close> without a billing store, else the store's default plan.\<close>

definition LOOPBACK_HOSTS :: "string list" where
  "LOOPBACK_HOSTS = [''127.0.0.1'', ''::1'', ''localhost'']"

definition is_loopback_host :: "settings \<Rightarrow> bool" where
  "is_loopback_host cfg \<longleftrightarrow> host cfg \<in> set LOOPBACK_HOSTS"

definition effective_require_auth :: "settings \<Rightarrow> bool" where
  "effective_require_auth cfg = (case require_auth cfg of Some b \<Rightarrow> b | None \<Rightarrow> \<not> is_loopback_host cfg)"

type_synonym headers = "(string \<times> string) list"

record openai_error =
  er_status :: nat
  er_type :: string
  er_code :: string
  er_headers :: headers

definition api_error :: "nat \<Rightarrow> string \<Rightarrow> string \<Rightarrow> headers \<Rightarrow> openai_error" where
  "api_error st ty co hs = \<lparr>er_status = st, er_type = ty, er_code = co, er_headers = hs\<rparr>"

definition LOCAL_KEY_ID :: string where "LOCAL_KEY_ID = ''local''"

section \<open>Tokens\<close>

definition extract_token :: "(string \<rightharpoonup> string) \<Rightarrow> string option" where
  "extract_token request_headers =
     (let x_api_key = (case request_headers ''x-api-key'' of
                         Some k \<Rightarrow> if k = [] then None else Some (strip k)
                       | None \<Rightarrow> None)
      in case request_headers ''authorization'' of
           Some auth \<Rightarrow> if auth \<noteq> [] \<and> startswith (lower auth) ''bearer '' then Some (strip (drop 7 auth)) else x_api_key
         | None \<Rightarrow> x_api_key)"

definition is_loopback_client :: "string option \<Rightarrow> bool" where
  "is_loopback_client h = (case h of None \<Rightarrow> False | Some a \<Rightarrow> a \<in> set LOOPBACK_HOSTS)"

section \<open>The limiter\<close>

record limiter =
  l_rate :: int
  l_max_concurrent :: int
  l_windows :: "string \<rightharpoonup> int \<times> int"
  l_inflight :: "string \<rightharpoonup> nat"

definition limiter_init :: "int \<Rightarrow> int \<Rightarrow> limiter" where
  "limiter_init rate_per_min max_concurrent =
     \<lparr>l_rate = rate_per_min, l_max_concurrent = max_concurrent, l_windows = Map.empty, l_inflight = Map.empty\<rparr>"

definition check_rate :: "string \<Rightarrow> time \<Rightarrow> int option \<Rightarrow> limiter \<Rightarrow> bool \<times> limiter" where
  "check_rate key_id now rate l =
     (let effective = (case rate of None \<Rightarrow> l_rate l | Some r \<Rightarrow> r)
      in if effective \<le> 0 then (True, l)
         else let bucket = \<lfloor>now / 60\<rfloor>;
                  (cur_bucket, count) = (case l_windows l key_id of Some w \<Rightarrow> w | None \<Rightarrow> (bucket, 0));
                  (cur_bucket', count') = (if cur_bucket \<noteq> bucket then (bucket, 0) else (cur_bucket, count))
              in if count' \<ge> effective
                 then (False, l\<lparr>l_windows := (l_windows l)(key_id \<mapsto> (cur_bucket', count'))\<rparr>)
                 else (True, l\<lparr>l_windows := (l_windows l)(key_id \<mapsto> (cur_bucket', count' + 1))\<rparr>))"

definition inflight :: "limiter \<Rightarrow> string \<Rightarrow> nat" where
  "inflight l key_id = (case l_inflight l key_id of Some n \<Rightarrow> n | None \<Rightarrow> 0)"

definition acquire :: "string \<Rightarrow> limiter \<Rightarrow> bool \<times> limiter" where
  "acquire key_id l =
     (if l_max_concurrent l \<le> 0
      then (True, l\<lparr>l_inflight := (l_inflight l)(key_id \<mapsto> inflight l key_id + 1)\<rparr>)
      else if int (inflight l key_id) \<ge> l_max_concurrent l then (False, l)
      else (True, l\<lparr>l_inflight := (l_inflight l)(key_id \<mapsto> inflight l key_id + 1)\<rparr>))"

definition release :: "string \<Rightarrow> limiter \<Rightarrow> limiter" where
  "release key_id l =
     (let cur = inflight l key_id
      in if cur \<le> 1 then l\<lparr>l_inflight := (l_inflight l)(key_id := None)\<rparr>
         else l\<lparr>l_inflight := (l_inflight l)(key_id \<mapsto> cur - 1)\<rparr>)"

text \<open>The limiter's concurrency side is a pool of slots per key.\<close>

definition slot_bound :: "limiter \<Rightarrow> string \<Rightarrow> nat option" where
  "slot_bound l key_id = (if l_max_concurrent l \<le> 0 then None else Some (nat (l_max_concurrent l)))"

definition try_acquire :: "string \<Rightarrow> limiter \<Rightarrow> limiter option" where
  "try_acquire key_id l = (case acquire key_id l of (True, l') \<Rightarrow> Some l' | (False, _) \<Rightarrow> None)"

interpretation key_slots: slot_pool inflight slot_bound try_acquire release
proof
  fix k s s'
  show "(try_acquire k s \<noteq> None) = (case slot_bound s k of None \<Rightarrow> True | Some c \<Rightarrow> inflight s k < c)"
    by (auto simp: try_acquire_def acquire_def slot_bound_def)
  show "inflight s' = (inflight s)(k := Suc (inflight s k))" if "try_acquire k s = Some s'"
    using that by (auto simp: try_acquire_def acquire_def inflight_def split: if_splits)
  show "slot_bound s' = slot_bound s" if "try_acquire k s = Some s'"
    using that by (auto simp: try_acquire_def acquire_def slot_bound_def split: if_splits)
  show "inflight (release k s) = (inflight s)(k := inflight s k - 1)"
    by (auto simp: release_def inflight_def Let_def)
  show "slot_bound (release k s) = slot_bound s"
    by (auto simp: release_def slot_bound_def Let_def)
qed

section \<open>Authentication\<close>

record gw_state =
  gw_db :: db
  gw_limiter :: limiter
  gw_notifier :: notifier

definition verify_token :: "(string \<Rightarrow> string) \<Rightarrow> string \<Rightarrow> iso_time \<Rightarrow> gw_state \<Rightarrow> key_record option \<times> gw_state" where
  "verify_token hash token now_iso g =
     (let (r, s) = key_verify hash token now_iso (gw_db g) in (r, g\<lparr>gw_db := s\<rparr>))"

definition authenticate_token ::
  "settings \<Rightarrow> (string \<Rightarrow> string) \<Rightarrow> iso_time \<Rightarrow> string option \<Rightarrow> gw_state \<Rightarrow> (openai_error, string) result \<times> gw_state" where
  "authenticate_token cfg hash now_iso token g =
     (let required = effective_require_auth cfg
      in case (case token of Some t \<Rightarrow> if t = [] then None else Some t | None \<Rightarrow> None) of
           Some t \<Rightarrow>
             (case verify_token hash t now_iso g of
                (Some rec, g') \<Rightarrow> (Inr (k_id rec), g')
              | (None, g') \<Rightarrow>
                  if required then (Inl (api_error 401 ''invalid_request_error'' ''invalid_api_key'' []), g')
                  else (Inr LOCAL_KEY_ID, g'))
         | None \<Rightarrow>
             if required then (Inl (api_error 401 ''invalid_request_error'' ''missing_api_key'' []), g)
             else (Inr LOCAL_KEY_ID, g))"

datatype operator_access = ALLOWED | UNAUTHENTICATED | FORBIDDEN_ROLE

definition operator_gate ::
  "settings \<Rightarrow> (string \<Rightarrow> string) \<Rightarrow> iso_time \<Rightarrow> string option \<Rightarrow> string option \<Rightarrow> gw_state
    \<Rightarrow> (operator_access \<times> key_record option) \<times> gw_state" where
  "operator_gate cfg hash now_iso client_host token g =
     (case (case token of Some t \<Rightarrow> if t = [] then None else Some t | None \<Rightarrow> None) of
        Some t \<Rightarrow>
          (case verify_token hash t now_iso g of
             (None, g') \<Rightarrow> ((UNAUTHENTICATED, None), g')
           | (Some rec, g') \<Rightarrow>
               if role rec \<noteq> ROLE_OPERATOR then ((FORBIDDEN_ROLE, Some rec), g')
               else ((ALLOWED, Some rec), g'))
      | None \<Rightarrow>
          if \<not> effective_require_auth cfg \<and> is_loopback_client client_host then ((ALLOWED, None), g)
          else ((UNAUTHENTICATED, None), g))"

definition operator_allowed ::
  "settings \<Rightarrow> (string \<Rightarrow> string) \<Rightarrow> iso_time \<Rightarrow> string option \<Rightarrow> string option \<Rightarrow> gw_state \<Rightarrow> bool \<times> gw_state" where
  "operator_allowed cfg hash now_iso client_host token g =
     (let ((a, _), g') = operator_gate cfg hash now_iso client_host token g in (a = ALLOWED, g'))"

section \<open>The access handle\<close>

record api_access =
  ac_key_id :: string
  ac_endpoint :: string
  ac_headers :: headers
  ac_slot_held :: bool
  ac_finalized :: bool

definition new_access :: "string \<Rightarrow> string \<Rightarrow> api_access" where
  "new_access key_id endpoint =
     \<lparr>ac_key_id = key_id, ac_endpoint = endpoint, ac_headers = [], ac_slot_held = False, ac_finalized = False\<rparr>"

definition free_slot :: "api_access \<times> gw_state \<Rightarrow> api_access \<times> gw_state" where
  "free_slot ag =
     (let (a, g) = ag
      in if ac_slot_held a
         then (a\<lparr>ac_slot_held := False\<rparr>, g\<lparr>gw_limiter := release (ac_key_id a) (gw_limiter g)\<rparr>)
         else (a, g))"

definition abort :: "api_access \<times> gw_state \<Rightarrow> api_access \<times> gw_state" where
  "abort ag =
     (let (a, g) = ag in if ac_finalized a then (a, g) else free_slot (a\<lparr>ac_finalized := True\<rparr>, g))"

text \<open>
  \<open>record_fails\<close> says whether the insert into \<open>usage_events\<close> raises (a locked or full
  database); the slot is freed then too and the error propagates (\<open>False\<close>). The hook's own
  errors are swallowed; what it committed stays.
\<close>

definition finalize ::
  "settings \<Rightarrow> (string \<Rightarrow> string \<Rightarrow> real \<Rightarrow> db \<times> notifier \<Rightarrow> db \<times> notifier) option \<Rightarrow> bool \<Rightarrow> time
    \<Rightarrow> string \<Rightarrow> string option \<Rightarrow> int \<Rightarrow> int \<Rightarrow> int \<Rightarrow> api_access \<times> gw_state \<Rightarrow> bool \<times> (api_access \<times> gw_state)" where
  "finalize cfg hook record_fails now request_id model prompt_tokens completion_tokens status ag =
     (let (a, g) = ag in
      if ac_finalized a then (True, (a, g))
      else let a1 = a\<lparr>ac_finalized := True\<rparr> in
        if record_fails then (False, free_slot (a1, g))
        else let cu = actual (cu_weights cfg) prompt_tokens completion_tokens 1;
                 e = \<lparr>u_ts = now, u_key_id = Some (ac_key_id a), u_request_id = request_id,
                      u_endpoint = ac_endpoint a, u_model = model, u_prompt_tokens = prompt_tokens,
                      u_completion_tokens = completion_tokens, u_cu = cu, u_status = Some status\<rparr>;
                 s1 = (gw_db g)\<lparr>usage_events := record_usage e (usage_events (gw_db g))\<rparr>;
                 (s2, n2) = (case hook of None \<Rightarrow> (s1, gw_notifier g)
                             | Some h \<Rightarrow> h (ac_key_id a) (ac_endpoint a) cu (s1, gw_notifier g))
             in (True, free_slot (a1, g\<lparr>gw_db := s2, gw_notifier := n2\<rparr>)))"

section \<open>Authorization\<close>

definition int_of_float :: "real \<Rightarrow> int" where
  "int_of_float x = (if 0 \<le> x then \<lfloor>x\<rfloor> else \<lceil>x\<rceil>)"

definition window_headers :: "string \<Rightarrow> window_usage \<Rightarrow> headers" where
  "window_headers w u =
     (if w_limit u > 0 then
        [(''x-ratelimit-limit-cu-'' @ w, str_of_int (int_of_float (w_limit u))),
         (''x-ratelimit-remaining-cu-'' @ w,
            (case remaining u of Fin x \<Rightarrow> str_of_int (int_of_float x) | Infinity \<Rightarrow> [])),
         (''x-ratelimit-reset-cu-'' @ w, str_of_int (int_of_float (w_reset_at u)))]
      else [])"

definition quota_headers :: "window_usage \<Rightarrow> window_usage \<Rightarrow> headers" where
  "quota_headers u5h uweek = window_headers ''5h'' u5h @ window_headers ''week'' uweek"

text \<open>The billing gate: the limits to apply, or the refusal.\<close>

record limits =
  li_quota_5h :: real
  li_quota_weekly :: real
  li_rate :: "int option"

definition default_limits :: "settings \<Rightarrow> limits" where
  "default_limits cfg = \<lparr>li_quota_5h = quota_5h_cu cfg, li_quota_weekly = quota_weekly_cu cfg, li_rate = None\<rparr>"

definition billing_gate :: "settings \<Rightarrow> string \<Rightarrow> string option \<Rightarrow> db \<Rightarrow> (openai_error, limits) result" where
  "billing_gate cfg key_id model s =
     (case billing_default_plan cfg of
        None \<Rightarrow> Inr (default_limits cfg)
      | Some default_plan \<Rightarrow>
          (let st = key_access default_plan key_id s in
           if ka_status st = STATUS_REVOKED then Inl (api_error 403 ''invalid_request_error'' ''key_revoked'' [])
           else if ka_status st = STATUS_SUSPENDED then Inl (api_error 403 ''invalid_request_error'' ''key_suspended'' [])
           else case ka_entitlement st of
               None \<Rightarrow> Inr (default_limits cfg)
             | Some ent \<Rightarrow>
                 (case (e_allowed_models ent, model) of
                    (Some allowed, Some m) \<Rightarrow>
                      if m \<notin> set allowed then Inl (api_error 403 ''invalid_request_error'' ''model_not_entitled'' [])
                      else Inr \<lparr>li_quota_5h = e_quota_5h_cu ent, li_quota_weekly = e_quota_weekly_cu ent,
                                li_rate = e_rate_limit_per_min ent\<rparr>
                  | _ \<Rightarrow> Inr \<lparr>li_quota_5h = e_quota_5h_cu ent, li_quota_weekly = e_quota_weekly_cu ent,
                              li_rate = e_rate_limit_per_min ent\<rparr>)))"

definition quota_check ::
  "settings \<Rightarrow> time \<Rightarrow> string \<Rightarrow> int \<Rightarrow> limits \<Rightarrow> api_access \<times> gw_state \<Rightarrow> (openai_error, api_access) result \<times> gw_state" where
  "quota_check cfg now prompt_text max_tokens li ag =
     (let (a, g) = ag;
          events = usage_events (gw_db g);
          est = estimate (cu_weights cfg) (estimate_prompt_tokens prompt_text) max_tokens 1;
          u5h = usage_5h (ac_key_id a) (li_quota_5h li) now events;
          uweek = usage_weekly (ac_key_id a) (li_quota_weekly li) now events;
          hs = quota_headers u5h uweek
      in if would_exceed uweek est then
           (Inl (api_error 429 ''rate_limit_error'' ''quota_exceeded''
              (hs @ [(''retry-after'', str_of_int (int_of_float (w_reset_at uweek - now)))])), snd (abort (a, g)))
         else if would_exceed u5h est then
           (Inl (api_error 429 ''rate_limit_error'' ''quota_exceeded'' (hs @ [(''retry-after'', ''60'')])), snd (abort (a, g)))
         else (Inr (a\<lparr>ac_headers := hs\<rparr>), g))"

definition authorize_token ::
  "settings \<Rightarrow> (string \<Rightarrow> string) \<Rightarrow> iso_time \<Rightarrow> time \<Rightarrow> string option \<Rightarrow> string \<Rightarrow> int \<Rightarrow> string \<Rightarrow> string option
    \<Rightarrow> gw_state \<Rightarrow> (openai_error, api_access) result \<times> gw_state" where
  "authorize_token cfg hash now_iso now token prompt_text max_tokens endpoint model g =
     (case authenticate_token cfg hash now_iso token g of
        (Inl e, g1) \<Rightarrow> (Inl e, g1)
      | (Inr key_id, g1) \<Rightarrow>
          if key_id = LOCAL_KEY_ID then (Inr (new_access key_id endpoint), g1)
          else case billing_gate cfg key_id model (gw_db g1) of
              Inl e \<Rightarrow> (Inl e, g1)
            | Inr li \<Rightarrow>
                (let (ok, l1) = check_rate key_id now (li_rate li) (gw_limiter g1);
                     g2 = g1\<lparr>gw_limiter := l1\<rparr>
                 in if \<not> ok
                    then (Inl (api_error 429 ''rate_limit_error'' ''rate_limit_exceeded'' [(''retry-after'', ''60'')]), g2)
                    else let (got, l2) = acquire key_id l1; g3 = g2\<lparr>gw_limiter := l2\<rparr>
                      in if \<not> got
                         then (Inl (api_error 429 ''rate_limit_error'' ''concurrency_limit_exceeded'' [(''retry-after'', ''5'')]), g3)
                         else quota_check cfg now prompt_text max_tokens li
                                ((new_access key_id endpoint)\<lparr>ac_slot_held := True\<rparr>, g3)))"

definition authorize ::
  "settings \<Rightarrow> (string \<Rightarrow> string) \<Rightarrow> iso_time \<Rightarrow> time \<Rightarrow> (string \<rightharpoonup> string) \<Rightarrow> string \<Rightarrow> int \<Rightarrow> string \<Rightarrow> string option
    \<Rightarrow> gw_state \<Rightarrow> (openai_error, api_access) result \<times> gw_state" where
  "authorize cfg hash now_iso now request_headers = authorize_token cfg hash now_iso now (extract_token request_headers)"

section \<open>The usage-threshold hook\<close>

text \<open>
  Registered as \<open>on_usage_recorded\<close> when a threshold fraction is configured; \<open>pct_text\<close> is
  its rendering in the event id.
\<close>

definition threshold_event_id :: "string \<Rightarrow> time \<Rightarrow> string \<Rightarrow> string" where
  "threshold_event_id cid window_start pct_text =
     ''usage.threshold.weekly.'' @ cid @ ''.'' @ str_of_int (int_of_float window_start) @ ''.'' @ pct_text"

definition usage_threshold_hook ::
  "string option \<Rightarrow> emitter \<Rightarrow> real \<Rightarrow> string \<Rightarrow> (real \<Rightarrow> string \<Rightarrow> string) \<Rightarrow> (nat \<Rightarrow> string) \<Rightarrow> nat \<Rightarrow> time
    \<Rightarrow> string \<Rightarrow> string \<Rightarrow> real \<Rightarrow> db \<times> notifier \<Rightarrow> db \<times> notifier" where
  "usage_threshold_hook default_plan em pct pct_text payload uuid gap now key_id endpoint cu st =
     (let (s, n) = st in
      case ka_entitlement (key_access default_plan key_id s) of
        None \<Rightarrow> st
      | Some ent \<Rightarrow>
          if e_quota_weekly_cu ent \<le> 0 then st
          else case client_id_for_key key_id s of
              None \<Rightarrow> st
            | Some cid \<Rightarrow>
                (let used = client_usage_cu cid (week_start now) s
                 in if used < pct * e_quota_weekly_cu ent then st
                    else emit em uuid gap cid ''usage.threshold.reached'' (payload used)
                           (Some (threshold_event_id cid (week_start now) pct_text)) now st))"

section \<open>Lemmas: the rate window\<close>

definition effective_rate :: "limiter \<Rightarrow> int option \<Rightarrow> int" where
  "effective_rate l rate = (case rate of None \<Rightarrow> l_rate l | Some r \<Rightarrow> r)"

text \<open>A history of checks: who asked, when, with which override; and whether it was admitted.\<close>

fun rate_run :: "(string \<times> time \<times> int option) list \<Rightarrow> limiter \<Rightarrow> (string \<times> time \<times> bool) list" where
  "rate_run [] l = []"
| "rate_run ((k, t, r) # calls) l = (let (ok, l') = check_rate k t r l in (k, t, ok) # rate_run calls l')"

definition admitted_in :: "string \<Rightarrow> int \<Rightarrow> (string \<times> time \<times> bool) list \<Rightarrow> nat" where
  "admitted_in k b outs = length (filter (\<lambda>(k', t, ok). k' = k \<and> ok \<and> \<lfloor>t / 60\<rfloor> = b) outs)"

lemma admitted_in_Cons:
  "admitted_in k b ((k', t, ok) # outs) = (if k' = k \<and> ok \<and> \<lfloor>t / 60\<rfloor> = b then 1 else 0) + admitted_in k b outs"
  by (simp add: admitted_in_def)

lemma check_rate_keeps: "l_rate (snd (check_rate k t r l)) = l_rate l" "l_inflight (snd (check_rate k t r l)) = l_inflight l"
  "l_max_concurrent (snd (check_rate k t r l)) = l_max_concurrent l"
  by (simp_all add: check_rate_def Let_def split_beta)

lemma check_rate_other: "k \<noteq> k' \<Longrightarrow> l_windows (snd (check_rate k t r l)) k' = l_windows l k'"
  by (simp add: check_rate_def Let_def split_beta)

lemma check_rate_window:
  assumes "0 < effective_rate l r" and "check_rate k t r l = (ok, l')"
    and "case l_windows l k of None \<Rightarrow> c = 0 | Some (b', c') \<Rightarrow> c = (if b' = \<lfloor>t / 60\<rfloor> then c' else 0)"
  shows "ok \<longleftrightarrow> c < effective_rate l r"
    and "l_windows l' k = Some (\<lfloor>t / 60\<rfloor>, if ok then c + 1 else c)"
  using assms
  by (auto simp: check_rate_def effective_rate_def Let_def split: option.splits if_splits prod.splits)

definition window_room :: "int \<Rightarrow> limiter \<Rightarrow> string \<Rightarrow> int \<Rightarrow> int" where
  "window_room r l k b =
     (case l_windows l k of None \<Rightarrow> r | Some (cb, c) \<Rightarrow> if b = cb then r - c else if b < cb then 0 else r)"

definition window_ok :: "int \<Rightarrow> limiter \<Rightarrow> string \<Rightarrow> (string \<times> time \<times> int option) list \<Rightarrow> bool" where
  "window_ok r l k calls = (case l_windows l k of None \<Rightarrow> True
     | Some (cb, c) \<Rightarrow> 0 \<le> c \<and> c \<le> r \<and> (\<forall>(k', t, r')\<in>set calls. cb \<le> \<lfloor>t / 60\<rfloor>))"

lemma rate_run_room:
  assumes "sorted (map (\<lambda>(k, t, r). t) calls)" and "\<forall>(k', t, r')\<in>set calls. k' = k \<longrightarrow> effective_rate l r' = r"
    and "0 < r" and "window_ok r l k calls"
  shows "int (admitted_in k b (rate_run calls l)) \<le> window_room r l k b"
  using assms
proof (induction calls arbitrary: l)
  case Nil
  then show ?case by (auto simp: admitted_in_def window_room_def window_ok_def split: option.splits prod.splits)
next
  case (Cons call calls)
  obtain k1 t1 r1 where call: "call = (k1, t1, r1)" by (cases call) auto
  obtain ok l' where ck: "check_rate k1 t1 r1 l = (ok, l')" by force
  have eff: "effective_rate l' x = effective_rate l x" for x
    using check_rate_keeps(1)[of k1 t1 r1 l] ck by (simp add: effective_rate_def split: option.split)
  have later: "\<lfloor>t1 / 60\<rfloor> \<le> \<lfloor>t / 60\<rfloor>" if "(k', t, r') \<in> set calls" for k' t r'
    using Cons.prems(1) that by (auto simp: call intro!: floor_mono divide_right_mono)
  have IH: "int (admitted_in k b (rate_run calls l')) \<le> window_room r l' k b" if "window_ok r l' k calls"
    using Cons.prems that by (intro Cons.IH) (auto simp: call eff)
  show ?case
  proof (cases "k1 = k")
    case False
    then have w: "l_windows l' k = l_windows l k" using check_rate_other[of k1 k t1 r1 l] ck by simp
    then have "window_ok r l' k calls" using Cons.prems(4) by (auto simp: window_ok_def call split: option.splits)
    then show ?thesis using IH False ck w by (simp add: call admitted_in_Cons window_room_def)
  next
    case True
    define c where "c = (case l_windows l k of None \<Rightarrow> 0 | Some (b', c') \<Rightarrow> if b' = \<lfloor>t1 / 60\<rfloor> then c' else 0)"
    have r1: "effective_rate l r1 = r" using Cons.prems(2) True by (simp add: call)
    have c: "0 \<le> c" "c \<le> r" using Cons.prems(3,4) by (auto simp: c_def window_ok_def split: option.splits prod.splits)
    have "case l_windows l k of None \<Rightarrow> c = 0 | Some (b', c') \<Rightarrow> c = (if b' = \<lfloor>t1 / 60\<rfloor> then c' else 0)"
      by (auto simp: c_def split: option.split)
    then have ok: "ok \<longleftrightarrow> c < r" and w: "l_windows l' k = Some (\<lfloor>t1 / 60\<rfloor>, if ok then c + 1 else c)"
      using check_rate_window[of l r1 k t1 ok l' c] ck r1 Cons.prems(3) True by auto
    have "window_ok r l' k calls" using w ok c later by (auto simp: window_ok_def)
    then have "int (admitted_in k b (rate_run calls l')) \<le> window_room r l' k b" by (rule IH)
    moreover have "window_room r l' k b + (if ok \<and> \<lfloor>t1 / 60\<rfloor> = b then 1 else 0) \<le> window_room r l k b"
      using w ok c Cons.prems(4)
      by (auto simp: window_room_def window_ok_def c_def call split: option.splits prod.splits if_splits)
    ultimately show ?thesis using ck True by (auto simp: call admitted_in_Cons)
  qed
qed

section \<open>Lemmas: slots through authorization\<close>

lemma verify_token_limiter: "gw_limiter (snd (verify_token h t n g)) = gw_limiter g"
  by (simp add: verify_token_def split_beta)

lemma authenticate_limiter: "gw_limiter (snd (authenticate_token cfg h n tok g)) = gw_limiter g"
  using verify_token_limiter[of h _ n g]
  by (auto simp: authenticate_token_def Let_def split: option.splits prod.splits)
    (metis snd_conv)+

lemma inflight_check_rate: "inflight (snd (check_rate k t r l)) = inflight l"
  by (simp add: inflight_def check_rate_keeps fun_eq_iff)

lemma acquire_inflight: "acquire k l = (True, l') \<Longrightarrow> inflight l' = (inflight l)(k := Suc (inflight l k))"
  by (rule key_slots.acquire_used) (simp add: try_acquire_def)

lemma acquire_refused: "acquire k l = (False, l') \<Longrightarrow> l' = l"
  by (auto simp: acquire_def split: if_splits)

lemma release_acquired: "acquire k l = (True, l') \<Longrightarrow> inflight (release k l') = inflight l"
  by (rule key_slots.acquire_release_used) (simp add: try_acquire_def)

lemma abort_held:
  "\<not> ac_finalized a \<Longrightarrow> ac_slot_held a \<Longrightarrow> gw_limiter (snd (abort (a, g))) = release (ac_key_id a) (gw_limiter g)"
  by (simp add: abort_def free_slot_def)

text \<open>What a run of \<open>quota_check\<close> says: refusals free the slot, success means room in both windows.\<close>

lemma quota_check_refused:
  assumes "quota_check cfg now pt mt li (a, g) = (Inl e, g')"
  shows "g' = snd (abort (a, g))"
  using assms by (auto simp: quota_check_def Let_def split: if_splits)

lemma quota_check_ok:
  assumes "quota_check cfg now pt mt li (a, g) = (Inr a', g')"
  shows "g' = g" and "\<exists>hs. a' = a\<lparr>ac_headers := hs\<rparr>"
    and "li_quota_weekly li > 0 \<Longrightarrow> sum_cu (ac_key_id a) (week_start now) (usage_events (gw_db g))
      + estimate (cu_weights cfg) (estimate_prompt_tokens pt) mt 1 \<le> li_quota_weekly li"
    and "li_quota_5h li > 0 \<Longrightarrow> sum_cu (ac_key_id a) (rolling_5h_start now) (usage_events (gw_db g))
      + estimate (cu_weights cfg) (estimate_prompt_tokens pt) mt 1 \<le> li_quota_5h li"
  using assms
  by (auto simp: quota_check_def Let_def would_exceed_def usage_5h_def usage_weekly_def split: if_splits)

text \<open>The ways authorization ends.\<close>

lemma authorize_cases:
  assumes "authorize_token cfg h ni now tok pt mt ep mo g = (r, g')"
  obtains (unauthenticated) e where "authenticate_token cfg h ni tok g = (Inl e, g')" "r = Inl e"
  | (local) "authenticate_token cfg h ni tok g = (Inr LOCAL_KEY_ID, g')" "r = Inr (new_access LOCAL_KEY_ID ep)"
  | (billing) k e where "authenticate_token cfg h ni tok g = (Inr k, g')"
      "billing_gate cfg k mo (gw_db g') = Inl e" "r = Inl e"
  | (rate) k g1 and li :: limits and l1 e where "authenticate_token cfg h ni tok g = (Inr k, g1)"
      "check_rate k now (li_rate li) (gw_limiter g1) = (False, l1)" "r = Inl e" "g' = g1\<lparr>gw_limiter := l1\<rparr>"
  | (busy) k g1 and li :: limits and l1 l2 e where "authenticate_token cfg h ni tok g = (Inr k, g1)"
      "check_rate k now (li_rate li) (gw_limiter g1) = (True, l1)" "acquire k l1 = (False, l2)" "r = Inl e"
      "g' = g1\<lparr>gw_limiter := l2\<rparr>"
  | (slot) k g1 li l1 l2 where "authenticate_token cfg h ni tok g = (Inr k, g1)" "k \<noteq> LOCAL_KEY_ID"
      "billing_gate cfg k mo (gw_db g1) = Inr li"
      "check_rate k now (li_rate li) (gw_limiter g1) = (True, l1)" "acquire k l1 = (True, l2)"
      "quota_check cfg now pt mt li ((new_access k ep)\<lparr>ac_slot_held := True\<rparr>, g1\<lparr>gw_limiter := l2\<rparr>) = (r, g')"
proof -
  obtain ra g1 where au: "authenticate_token cfg h ni tok g = (ra, g1)" by force
  show ?thesis
  proof (cases ra)
    case (Inl e)
    then show ?thesis using assms au by (intro unauthenticated[of e]) (simp_all add: authorize_token_def)
  next
    case k: (Inr k)
    show ?thesis
    proof (cases "k = LOCAL_KEY_ID")
      case True
      then show ?thesis using assms au k by (intro local) (simp_all add: authorize_token_def)
    next
      case nl: False
      show ?thesis
      proof (cases "billing_gate cfg k mo (gw_db g1)")
        case (Inl e)
        then show ?thesis using assms au k nl by (intro billing[of k e]) (simp_all add: authorize_token_def)
      next
        case li: (Inr li)
        obtain ok l1 where cr: "check_rate k now (li_rate li) (gw_limiter g1) = (ok, l1)" by force
        obtain got l2 where aq: "acquire k l1 = (got, l2)" by force
        note run = assms[unfolded authorize_token_def au k, simplified nl li cr aq]
        show ?thesis
        proof (cases "ok \<and> got")
          case True
          then show ?thesis using run au k nl li cr aq by (intro slot[of k g1 li l1 l2]) (auto simp: aq cr li)
        next
          case False
          then show ?thesis
            using run au k nl li cr aq rate[of k g1 li l1] busy[of k g1 li l1 l2] by (auto simp: aq cr li Let_def split: if_splits)
        qed
      qed
    qed
  qed
qed

section \<open>Properties of the gateway\<close>

text \<open>
  The rate limit holds. In every history of checks with non-decreasing clock readings,
  starting with no window for the key, at most \<open>r\<close> calls of a key whose effective rate is
  \<open>r\<close> are admitted in any minute, whatever other keys do in between.
\<close>

theorem rate_limit_bound:
  assumes "sorted (map (\<lambda>(k, t, r). t) calls)" and "\<forall>(k', t, r')\<in>set calls. k' = k \<longrightarrow> effective_rate l r' = r"
    and "0 < r" and "l_windows l k = None"
  shows "int (admitted_in k b (rate_run calls l)) \<le> r"
  using rate_run_room[OF assms(1-3), of b] assms(4) by (simp add: window_ok_def window_room_def)

theorem rate_limit_bound_witness:
  "int (admitted_in ''k'' 0 (rate_run [(''k'', 1, None), (''k'', 2, None)] (limiter_init 1 0))) \<le> 1"
  by (rule rate_limit_bound) (simp_all add: limiter_init_def effective_rate_def)

text \<open>
  A call whose clock reading is older than the window resets it: readings are taken before
  the lock, so three calls around a minute boundary can admit two in one minute at a limit
  of one.
\<close>

lemma rate_window_rewinds:
  "admitted_in ''k'' 0 (rate_run [(''k'', 59, None), (''k'', 60, None), (''k'', 59.5, None)] (limiter_init 1 0)) = 2"
proof -
  have "\<lfloor>59 / 60 :: real\<rfloor> = 0" "\<lfloor>119 / 120 :: real\<rfloor> = 0" by (simp_all add: floor_eq_iff)
  then show ?thesis by (simp add: limiter_init_def check_rate_def Let_def admitted_in_def)
qed

text \<open>
  Concurrency is bounded. Whatever sequence of acquisitions and releases runs, starting
  from a fresh limiter with a positive limit, no key ever holds more slots than the limit.
\<close>

theorem concurrency_bounded:
  assumes "0 < max_concurrent"
  shows "int (inflight (foldl key_slots.slot_step (limiter_init rate max_concurrent) events) k) \<le> max_concurrent"
proof -
  let ?l = "limiter_init rate max_concurrent"
  have "key_slots.in_bounds ?l"
    by (simp add: key_slots.in_bounds_def limiter_init_def inflight_def slot_bound_def)
  then have "key_slots.in_bounds (foldl key_slots.slot_step ?l events)" by (rule key_slots.in_bounds_run)
  moreover have "slot_bound (foldl key_slots.slot_step ?l events) k = Some (nat max_concurrent)"
    using assms by (simp add: key_slots.bound_run) (simp add: slot_bound_def limiter_init_def)
  ultimately have "inflight (foldl key_slots.slot_step ?l events) k \<le> nat max_concurrent"
    unfolding key_slots.in_bounds_def by blast
  then show ?thesis using assms by linarith
qed

theorem concurrency_bounded_witness:
  "int (inflight (foldl key_slots.slot_step (limiter_init 0 1) [Acquire ''k'', Acquire ''k'', Release ''k'', Acquire ''k'']) ''k'') \<le> 1"
  by (rule concurrency_bounded) simp

lemma end_of_request:
  assumes "\<not> ac_finalized a"
    and "snd (finalize cfg hook fails now rid mo p c st (a, g)) = (a2, g2) \<or> abort (a, g) = (a2, g2)"
  shows "gw_limiter g2 = (if ac_slot_held a then release (ac_key_id a) (gw_limiter g) else gw_limiter g) \<and> ac_finalized a2"
  using assms
  by (auto simp: finalize_def abort_def free_slot_def Let_def split: if_splits option.splits prod.splits)

lemma ended_noop:
  "ac_finalized a \<Longrightarrow> abort (a, g) = (a, g)"
  "ac_finalized a \<Longrightarrow> finalize cfg hook fails now rid mo p c st (a, g) = (True, (a, g))"
  by (simp_all add: abort_def finalize_def)

text \<open>Ending a request restores the counts \<open>counts\<close> that freeing its slot restores.\<close>

lemma end_restores:
  assumes "\<not> ac_finalized a"
    and "inflight (if ac_slot_held a then release (ac_key_id a) (gw_limiter g) else gw_limiter g) = counts"
  shows "\<forall>hook fails now' rid p c st a2 g2.
           snd (finalize cfg hook fails now' rid mo p c st (a, g)) = (a2, g2) \<or> abort (a, g) = (a2, g2) \<longrightarrow>
           inflight (gw_limiter g2) = counts \<and> abort (a2, g2) = (a2, g2) \<and>
           (\<forall>hook' fails' now'' rid' mo' p' c' st'.
              finalize cfg hook' fails' now'' rid' mo' p' c' st' (a2, g2) = (True, (a2, g2)))"
proof (intro allI impI)
  fix hook fails now' rid p c st a2 g2
  assume "snd (finalize cfg hook fails now' rid mo p c st (a, g)) = (a2, g2) \<or> abort (a, g) = (a2, g2)"
  then have e: "gw_limiter g2 = (if ac_slot_held a then release (ac_key_id a) (gw_limiter g) else gw_limiter g)" "ac_finalized a2"
    using end_of_request[OF assms(1)] by blast+
  show "inflight (gw_limiter g2) = counts \<and> abort (a2, g2) = (a2, g2) \<and>
     (\<forall>hook' fails' now'' rid' mo' p' c' st'.
              finalize cfg hook' fails' now'' rid' mo' p' c' st' (a2, g2) = (True, (a2, g2)))"
    using assms(2) by (simp add: e ended_noop)
qed

text \<open>Which slots a run of \<open>authorize_token\<close> takes.\<close>

lemma authorize_slots:
  assumes "authorize_token cfg h ni now tok pt mt ep mo g = (r, g1)"
  shows "case r of
      Inl e \<Rightarrow> inflight (gw_limiter g1) = inflight (gw_limiter g)
    | Inr a \<Rightarrow> \<not> ac_finalized a \<and> (ac_slot_held a \<longleftrightarrow> ac_key_id a \<noteq> LOCAL_KEY_ID) \<and>
        inflight (gw_limiter g1) = (if ac_slot_held a
          then (inflight (gw_limiter g))(ac_key_id a := Suc (inflight (gw_limiter g) (ac_key_id a))) else inflight (gw_limiter g))"
  using assms
proof (cases rule: authorize_cases)
  case (unauthenticated e)
  then show ?thesis using authenticate_limiter[of cfg h ni tok g] by simp
next
  case local
  have "gw_limiter g1 = gw_limiter g" using local(1) authenticate_limiter[of cfg h ni tok g] by simp
  moreover have "\<not> ac_finalized (new_access LOCAL_KEY_ID ep)" "\<not> ac_slot_held (new_access LOCAL_KEY_ID ep)"
    "ac_key_id (new_access LOCAL_KEY_ID ep) = LOCAL_KEY_ID" by (simp_all add: new_access_def)
  ultimately show ?thesis unfolding local(2) by simp
next
  case (billing k e)
  then show ?thesis using authenticate_limiter[of cfg h ni tok g] by simp
next
  case (rate k g1' li l1 e)
  then show ?thesis using authenticate_limiter[of cfg h ni tok g] inflight_check_rate[of k now "li_rate li" "gw_limiter g1'"]
    by simp
next
  case (busy k g1' li l1 l2 e)
  then show ?thesis using authenticate_limiter[of cfg h ni tok g] inflight_check_rate[of k now "li_rate li" "gw_limiter g1'"]
    acquire_refused[of k l1 l2] by simp
next
  case (slot k g1' li l1 l2)
  let ?a = "(new_access k ep)\<lparr>ac_slot_held := True\<rparr>"
  have l1: "inflight l1 = inflight (gw_limiter g)"
    using slot(1,4) authenticate_limiter[of cfg h ni tok g] inflight_check_rate[of k now "li_rate li" "gw_limiter g1'"] by simp
  have a: "\<not> ac_finalized ?a" "ac_slot_held ?a" "ac_key_id ?a = k" by (simp_all add: new_access_def)
  show ?thesis
  proof (cases r)
    case (Inl e)
    then show ?thesis using quota_check_refused[of cfg now pt mt li ?a "g1'\<lparr>gw_limiter := l2\<rparr>" e g1] slot(6)
      abort_held[OF a(1,2)] release_acquired[OF slot(5)] l1 a(3) by simp
  next
    case (Inr a')
    have "g1 = g1'\<lparr>gw_limiter := l2\<rparr>" "\<exists>hs. a' = ?a\<lparr>ac_headers := hs\<rparr>"
      using quota_check_ok(1,2)[of cfg now pt mt li ?a "g1'\<lparr>gw_limiter := l2\<rparr>" a' g1] slot(6) Inr by auto
    then have g1: "gw_limiter g1 = l2" and a': "\<not> ac_finalized a'" "ac_slot_held a'" "ac_key_id a' = k"
      using a by auto
    have "inflight (gw_limiter g1) = (inflight (gw_limiter g))(k := Suc (inflight (gw_limiter g) k))"
      using acquire_inflight[OF slot(5)] l1 g1 by simp
    then show ?thesis unfolding Inr using a' slot(2) by simp
  qed
qed

text \<open>
  C8. No slot is leaked. Every refused request leaves all slot counts as they were; an
  authorized request holds exactly one slot of its key (none for anonymous loopback use); and
  ending it by \<open>finalize\<close>, whether or not the usage record can be written, or by \<open>abort\<close>,
  restores the counts, after which ending it again does nothing.
\<close>

theorem request_slot_conserved:
  assumes "authorize_token cfg h ni now tok pt mt ep mo g = (r, g1)"
  shows "case r of
      Inl e \<Rightarrow> inflight (gw_limiter g1) = inflight (gw_limiter g)
    | Inr a \<Rightarrow>
        inflight (gw_limiter g1) = (if ac_key_id a = LOCAL_KEY_ID then inflight (gw_limiter g)
          else (inflight (gw_limiter g))(ac_key_id a := Suc (inflight (gw_limiter g) (ac_key_id a)))) \<and>
        (\<forall>hook fails now' rid p c st a2 g2.
           snd (finalize cfg hook fails now' rid mo p c st (a, g1)) = (a2, g2) \<or> abort (a, g1) = (a2, g2) \<longrightarrow>
           inflight (gw_limiter g2) = inflight (gw_limiter g) \<and> abort (a2, g2) = (a2, g2) \<and>
           (\<forall>hook' fails' now'' rid' mo' p' c' st'.
              finalize cfg hook' fails' now'' rid' mo' p' c' st' (a2, g2) = (True, (a2, g2))))"
proof (cases r)
  case (Inl e)
  then show ?thesis using authorize_slots[OF assms] by simp
next
  case (Inr a)
  have a: "\<not> ac_finalized a" "ac_slot_held a \<longleftrightarrow> ac_key_id a \<noteq> LOCAL_KEY_ID"
    and g1: "inflight (gw_limiter g1) = (if ac_slot_held a
      then (inflight (gw_limiter g))(ac_key_id a := Suc (inflight (gw_limiter g) (ac_key_id a))) else inflight (gw_limiter g))"
    using authorize_slots[OF assms] unfolding Inr sum.case by blast+
  have "inflight (if ac_slot_held a then release (ac_key_id a) (gw_limiter g1) else gw_limiter g1) = inflight (gw_limiter g)"
    by (simp add: g1 key_slots.release_used)
  then show ?thesis unfolding Inr sum.case using g1 a(2) by (intro conjI end_restores[OF a(1)]) simp_all
qed

lemma authenticate_key:
  assumes "authenticate_token cfg h ni tok g = (Inr k, g1)" and "k \<noteq> LOCAL_KEY_ID"
  obtains t rec where "tok = Some t" "fst (key_verify h t ni (gw_db g)) = Some rec" "k_id rec = k"
    "gw_db g1 = snd (key_verify h t ni (gw_db g))"
  using assms
  by (auto simp: authenticate_token_def verify_token_def Let_def split: option.splits prod.splits if_splits)

lemma authenticate_required:
  assumes "authenticate_token cfg h ni tok g = (Inr k, g1)" and "effective_require_auth cfg"
  obtains t rec where "tok = Some t" "fst (key_verify h t ni (gw_db g)) = Some rec" "k_id rec = k"
  using assms
  by (auto simp: authenticate_token_def verify_token_def Let_def split: option.splits prod.splits if_splits)

lemma billing_gate_ok:
  assumes "billing_gate cfg k mo s = Inr li" and "billing_default_plan cfg = Some d"
  shows "ka_status (key_access d k s) \<notin> {STATUS_REVOKED, STATUS_SUSPENDED}"
    and "case ka_entitlement (key_access d k s) of
        None \<Rightarrow> li = default_limits cfg
      | Some ent \<Rightarrow> li = \<lparr>li_quota_5h = e_quota_5h_cu ent, li_quota_weekly = e_quota_weekly_cu ent, li_rate = e_rate_limit_per_min ent\<rparr> \<and>
          (\<forall>allowed m. e_allowed_models ent = Some allowed \<and> mo = Some m \<longrightarrow> m \<in> set allowed)"
  using assms
  by (auto simp: billing_gate_def Let_def split: option.splits if_splits)

text \<open>
  C2. Authorization is fail-closed. A request is authorized for a key only if a presented
  token verifies as that key, the billing store (if there is one) reports the key neither
  revoked nor suspended and the model allowed by its plan, and the recorded usage plus the
  estimate of this request fits both quota windows, with the plan's limits when the key has
  an entitlement and the engine's otherwise (a limit of zero or less is none).
\<close>

theorem authorize_fail_closed:
  assumes "authorize_token cfg h ni now tok pt mt ep mo g = (Inr a, g')" and "ac_key_id a \<noteq> LOCAL_KEY_ID"
  shows "\<exists>t rec li. tok = Some t \<and> fst (key_verify h t ni (gw_db g)) = Some rec \<and> k_id rec = ac_key_id a \<and>
    (case billing_default_plan cfg of
       None \<Rightarrow> li = default_limits cfg
     | Some d \<Rightarrow>
         ka_status (key_access d (ac_key_id a) (gw_db g')) \<notin> {STATUS_REVOKED, STATUS_SUSPENDED} \<and>
         (case ka_entitlement (key_access d (ac_key_id a) (gw_db g')) of
            None \<Rightarrow> li = default_limits cfg
          | Some ent \<Rightarrow>
              li = \<lparr>li_quota_5h = e_quota_5h_cu ent, li_quota_weekly = e_quota_weekly_cu ent, li_rate = e_rate_limit_per_min ent\<rparr> \<and>
              (\<forall>allowed m. e_allowed_models ent = Some allowed \<and> mo = Some m \<longrightarrow> m \<in> set allowed))) \<and>
    (0 < li_quota_weekly li \<longrightarrow> sum_cu (ac_key_id a) (week_start now) (usage_events (gw_db g'))
       + estimate (cu_weights cfg) (estimate_prompt_tokens pt) mt 1 \<le> li_quota_weekly li) \<and>
    (0 < li_quota_5h li \<longrightarrow> sum_cu (ac_key_id a) (rolling_5h_start now) (usage_events (gw_db g'))
       + estimate (cu_weights cfg) (estimate_prompt_tokens pt) mt 1 \<le> li_quota_5h li)"
  using assms(1)
proof (cases rule: authorize_cases)
  case local
  then show ?thesis using assms(2) by (simp add: new_access_def)
next
  case (slot k g1 li l1 l2)
  let ?a = "(new_access k ep)\<lparr>ac_slot_held := True\<rparr>"
  note ok = quota_check_ok[OF slot(6)]
  have a: "ac_key_id a = k" "ac_key_id ?a = k" using ok(2) by (auto simp: new_access_def)
  have g': "gw_db g' = gw_db g1" using ok(1) by simp
  obtain t rec where "tok = Some t" "fst (key_verify h t ni (gw_db g)) = Some rec" "k_id rec = k"
    using authenticate_key[OF slot(1,2)] by metis
  moreover have "case billing_default_plan cfg of
       None \<Rightarrow> li = default_limits cfg
     | Some d \<Rightarrow>
         ka_status (key_access d k (gw_db g1)) \<notin> {STATUS_REVOKED, STATUS_SUSPENDED} \<and>
         (case ka_entitlement (key_access d k (gw_db g1)) of
            None \<Rightarrow> li = default_limits cfg
          | Some ent \<Rightarrow>
              li = \<lparr>li_quota_5h = e_quota_5h_cu ent, li_quota_weekly = e_quota_weekly_cu ent, li_rate = e_rate_limit_per_min ent\<rparr> \<and>
              (\<forall>allowed m. e_allowed_models ent = Some allowed \<and> mo = Some m \<longrightarrow> m \<in> set allowed))"
  proof (cases "billing_default_plan cfg")
    case None
    then show ?thesis using slot(3) by (simp add: billing_gate_def)
  next
    case (Some d)
    then show ?thesis using billing_gate_ok[OF slot(3) Some] by simp
  qed
  ultimately show ?thesis using ok(3,4) unfolding a g'
    by (intro exI[of _ t] exI[of _ rec] exI[of _ li] conjI) (auto simp: a g')
qed auto

text \<open>
  C34. The operator gate. Operator surfaces are open exactly to a caller that presents a valid
  key owned by no billing client, or, without a key, to a loopback caller while
  authentication is off; a presented key that is invalid, revoked or a client's is refused
  even from loopback.
\<close>

theorem operator_gate_exact:
  "fst (operator_allowed cfg h ni client_host tok g) \<longleftrightarrow>
     (case tok of
        Some (c # cs) \<Rightarrow> (\<exists>rec. fst (key_verify h (c # cs) ni (gw_db g)) = Some rec \<and> k_client_id rec = None)
      | _ \<Rightarrow> \<not> effective_require_auth cfg \<and> (\<exists>a. client_host = Some a \<and> a \<in> set LOOPBACK_HOSTS))"
proof (cases "case tok of Some t \<Rightarrow> t = [] | None \<Rightarrow> True")
  case True
  then show ?thesis
    by (auto simp: operator_allowed_def operator_gate_def is_loopback_client_def split: option.splits)
next
  case False
  then obtain c cs where t: "tok = Some (c # cs)" by (auto split: option.splits) (metis list.exhaust)
  obtain r s where v: "key_verify h (c # cs) ni (gw_db g) = (r, s)" by force
  show ?thesis
    by (cases r) (auto simp: t v operator_allowed_def operator_gate_def verify_token_def role_def
        ROLE_OPERATOR_def ROLE_CLIENT_def)
qed

section \<open>Witnesses\<close>

definition sample_settings :: settings where
  "sample_settings = \<lparr>host = ''127.0.0.1'', require_auth = Some True, quota_5h_cu = 0, quota_weekly_cu = 0,
     rate_limit_per_min = 0, max_concurrent_per_key = 1, cu_weights = \<lparr>prompt_weight = 1, completion_weight = 1\<rparr>,
     billing_default_plan = None\<rparr>"

definition sample_gw :: gw_state where
  "sample_gw = \<lparr>gw_db = empty_db\<lparr>api_keys := [\<lparr>k_id = ''k1'', k_prefix = ''p'', k_label = None, k_created_at = ''t'',
       k_last_used_at = None, k_revoked_at = None, k_client_id = None, k_hash = ''tok'', k_status = ''active''\<rparr>]\<rparr>,
     gw_limiter = limiter_init 0 1, gw_notifier = notifier_init\<rparr>"

lemma sample_authorized:
  "\<exists>a g'. authorize_token sample_settings (\<lambda>t. t) ''now'' 0 (Some ''tok'') ''hi'' 10 ''chat'' None sample_gw = (Inr a, g') \<and>
     ac_key_id a = ''k1''"
  by (simp add: authorize_token_def authenticate_token_def verify_token_def key_verify_def sample_gw_def sample_settings_def
      empty_db_def effective_require_auth_def billing_gate_def default_limits_def check_rate_def limiter_init_def
      acquire_def inflight_def quota_check_def would_exceed_def usage_5h_def usage_weekly_def LOCAL_KEY_ID_def Let_def
      key_record.defs new_access_def)

theorem request_slot_conserved_witness:
  "\<exists>a g1. authorize_token sample_settings (\<lambda>t. t) ''now'' 0 (Some ''tok'') ''hi'' 10 ''chat'' None sample_gw = (Inr a, g1) \<and>
     inflight (gw_limiter (snd (abort (a, g1)))) = inflight (gw_limiter sample_gw)"
proof -
  obtain a g1 where r: "authorize_token sample_settings (\<lambda>t. t) ''now'' 0 (Some ''tok'') ''hi'' 10 ''chat'' None sample_gw
      = (Inr a, g1)"
    using sample_authorized by blast
  obtain a2 g2 where ab: "abort (a, g1) = (a2, g2)" by force
  have "inflight (gw_limiter g2) = inflight (gw_limiter sample_gw)"
    using request_slot_conserved[OF r] ab unfolding sum.case by blast
  then show ?thesis using r ab by auto
qed

theorem authorize_fail_closed_witness:
  "\<exists>rec. fst (key_verify (\<lambda>t. t) ''tok'' ''now'' (gw_db sample_gw)) = Some rec \<and> k_id rec = ''k1''"
proof -
  obtain a g1 where r: "authorize_token sample_settings (\<lambda>t. t) ''now'' 0 (Some ''tok'') ''hi'' 10 ''chat'' None sample_gw
      = (Inr a, g1)" and k: "ac_key_id a = ''k1''"
    using sample_authorized by blast
  have "ac_key_id a \<noteq> LOCAL_KEY_ID" by (simp add: k LOCAL_KEY_ID_def)
  from authorize_fail_closed[OF r this] k show ?thesis by auto
qed

end
