(* ===== verification/Scheduler.thy ===== *)
theory Scheduler
  imports Prelude
begin

text \<open>
  The admission layer (\<open>engine/inference/scheduler.py\<close>): bounded concurrency over an
  \<open>asyncio.Semaphore\<close>, a bounded FIFO queue of waiters, timeouts, cancellations and the
  graceful drain.

  Everything runs on one event loop, so a coroutine runs without interruption between its
  suspension points. \<open>admit\<close> has one suspension point, the wait for a slot: it is split
  into \<open>admit_start\<close> (up to the wait) and \<open>admit_resume\<close> (from the wakeup on). The
  semaphore is modelled as the standard library of Python 3.12 has it: the permit of a
  release is handed to the first pending waiter, which takes it when it is resumed; a waiter
  cancelled after it was handed the permit gives it back; and a resumed waiter wakes as many
  others as there are permits left.
\<close>

section \<open>The semaphore\<close>

datatype cancel_cause = ByTimeout | ByClient

datatype wstate = Pending | Woken | Cancelled cancel_cause | WokenCancelled cancel_cause

record waiter =
  wt_task :: nat
  wt_start :: time
  wt_state :: wstate

definition fut_cancelled :: "waiter \<Rightarrow> bool" where
  "fut_cancelled w = (case wt_state w of Cancelled _ \<Rightarrow> True | _ \<Rightarrow> False)"

definition has_permit :: "waiter \<Rightarrow> bool" where
  "has_permit w = (case wt_state w of Woken \<Rightarrow> True | WokenCancelled _ \<Rightarrow> True | _ \<Rightarrow> False)"

text \<open>\<open>_wake_up_next\<close>: the first waiter that is not done is handed a permit.\<close>

fun wake_first :: "waiter list \<Rightarrow> waiter list option" where
  "wake_first [] = None"
| "wake_first (w # ws) =
     (if wt_state w = Pending then Some (w\<lparr>wt_state := Woken\<rparr> # ws) else map_option (Cons w) (wake_first ws))"

fun wake_loop :: "nat \<Rightarrow> waiter list \<Rightarrow> nat \<times> waiter list" where
  "wake_loop 0 ws = (0, ws)"
| "wake_loop (Suc v) ws = (case wake_first ws of None \<Rightarrow> (Suc v, ws) | Some ws' \<Rightarrow> wake_loop v ws')"

section \<open>The scheduler\<close>

record sched =
  sc_max_concurrency :: nat
  sc_max_queue_depth :: nat
  sc_queue_timeout_s :: real
  sem_value :: nat
  sem_waiters :: "waiter list"
  sc_draining :: bool
  sc_idle :: bool
  sc_in_use :: nat
  sc_waiters :: nat
  sc_admitted :: nat
  sc_rejected_queue_full :: nat
  sc_rejected_timeout :: nat
  sc_cancelled :: nat
  sc_slow_consumer :: nat
  sc_peak_in_use :: nat
  sc_peak_waiters :: nat
  sc_wait_total :: real
  sc_wait_count :: nat
  sc_wait_max :: real
  sc_wait_last :: real

definition scheduler_init :: "int \<Rightarrow> int \<Rightarrow> real \<Rightarrow> (string, sched) result" where
  "scheduler_init max_concurrency max_queue_depth queue_timeout_s =
     (if max_concurrency < 1 then Inl ''max_concurrency must be >= 1''
      else if max_queue_depth < 0 then Inl ''max_queue_depth must be >= 0''
      else if queue_timeout_s < 0 then Inl ''queue_timeout_s must be >= 0''
      else Inr \<lparr>sc_max_concurrency = nat max_concurrency, sc_max_queue_depth = nat max_queue_depth,
        sc_queue_timeout_s = queue_timeout_s, sem_value = nat max_concurrency, sem_waiters = [],
        sc_draining = False, sc_idle = True, sc_in_use = 0, sc_waiters = 0, sc_admitted = 0,
        sc_rejected_queue_full = 0, sc_rejected_timeout = 0, sc_cancelled = 0, sc_slow_consumer = 0,
        sc_peak_in_use = 0, sc_peak_waiters = 0, sc_wait_total = 0, sc_wait_count = 0, sc_wait_max = 0,
        sc_wait_last = 0\<rparr>)"

definition retry_after_hint :: "sched \<Rightarrow> int" where
  "retry_after_hint s =
     (if sc_wait_count s > 0 then max 1 \<lceil>sc_wait_total s / of_nat (sc_wait_count s)\<rceil> else 1)"

definition locked :: "sched \<Rightarrow> bool" where
  "locked s \<longleftrightarrow> sem_value s = 0 \<or> (\<exists>w\<in>set (sem_waiters s). \<not> fut_cancelled w)"

text \<open>The tail of \<open>admit\<close>: the slot is held.\<close>

definition note_admitted :: "real \<Rightarrow> sched \<Rightarrow> sched" where
  "note_admitted waited s =
     s\<lparr>sc_in_use := sc_in_use s + 1, sc_idle := False,
       sc_peak_in_use := max (sc_peak_in_use s) (sc_in_use s + 1), sc_admitted := sc_admitted s + 1,
       sc_wait_total := sc_wait_total s + waited, sc_wait_count := sc_wait_count s + 1,
       sc_wait_max := max (sc_wait_max s) waited, sc_wait_last := waited\<rparr>"

datatype admit_outcome = Saturated string int | Leased real | Waits | Aborted

definition admit_start :: "nat \<Rightarrow> time \<Rightarrow> sched \<Rightarrow> admit_outcome \<times> sched" where
  "admit_start task now s =
     (if sc_draining s then
        (Saturated ''draining'' (retry_after_hint s), s\<lparr>sc_rejected_queue_full := sc_rejected_queue_full s + 1\<rparr>)
      else if \<not> locked s then (Leased 0, note_admitted 0 (s\<lparr>sem_value := sem_value s - 1\<rparr>))
      else if sc_waiters s \<ge> sc_max_queue_depth s then
        (Saturated ''queue_full'' (retry_after_hint s), s\<lparr>sc_rejected_queue_full := sc_rejected_queue_full s + 1\<rparr>)
      else (Waits, s\<lparr>sc_waiters := sc_waiters s + 1, sc_peak_waiters := max (sc_peak_waiters s) (sc_waiters s + 1),
              sem_waiters := sem_waiters s @ [\<lparr>wt_task = task, wt_start = now, wt_state = Pending\<rparr>]\<rparr>))"

text \<open>
  Cancelling the task of a waiter, by its client or by \<open>wait_for\<close> on timeout. A client's
  cancellation wins over a timeout: \<open>wait_for\<close> then lets \<open>CancelledError\<close> through.
\<close>

fun cancel_state :: "cancel_cause \<Rightarrow> wstate \<Rightarrow> wstate" where
  "cancel_state c Pending = Cancelled c"
| "cancel_state c Woken = WokenCancelled c"
| "cancel_state c (Cancelled c') = Cancelled (if c = ByClient then ByClient else c')"
| "cancel_state c (WokenCancelled c') = WokenCancelled (if c = ByClient then ByClient else c')"

definition cancel_waiter :: "cancel_cause \<Rightarrow> nat \<Rightarrow> sched \<Rightarrow> sched" where
  "cancel_waiter c task s =
     s\<lparr>sem_waiters := map (\<lambda>w. if wt_task w = task then w\<lparr>wt_state := cancel_state c (wt_state w)\<rparr> else w) (sem_waiters s)\<rparr>"

text \<open>The rest of \<open>Semaphore.acquire\<close> and of \<open>admit\<close> when the waiter \<open>w\<close> is resumed.\<close>

definition sem_resume :: "waiter \<Rightarrow> sched \<Rightarrow> sched" where
  "sem_resume w s =
     (let ws = remove1 w (sem_waiters s);
          v = (case wt_state w of WokenCancelled _ \<Rightarrow> sem_value s + 1 | _ \<Rightarrow> sem_value s);
          (v', ws') = wake_loop v ws
      in s\<lparr>sem_value := v', sem_waiters := ws'\<rparr>)"

definition admit_resume :: "waiter \<Rightarrow> time \<Rightarrow> sched \<Rightarrow> admit_outcome \<times> sched" where
  "admit_resume w now s =
     (let s1 = sem_resume w s; s2 = s1\<lparr>sc_waiters := sc_waiters s1 - 1\<rparr>
      in case wt_state w of
           Woken \<Rightarrow> (let waited = max 0 (now - wt_start w) in (Leased waited, note_admitted waited s2))
         | Pending \<Rightarrow> (Waits, s)
         | Cancelled c \<Rightarrow> (if c = ByTimeout
             then (Saturated ''queue_timeout'' (retry_after_hint s2), s2\<lparr>sc_rejected_timeout := sc_rejected_timeout s2 + 1\<rparr>)
             else (Aborted, s2))
         | WokenCancelled c \<Rightarrow> (if c = ByTimeout
             then (Saturated ''queue_timeout'' (retry_after_hint s2), s2\<lparr>sc_rejected_timeout := sc_rejected_timeout s2 + 1\<rparr>)
             else (Aborted, s2)))"

definition sem_release :: "sched \<Rightarrow> sched" where
  "sem_release s =
     (case wake_first (sem_waiters s) of
        None \<Rightarrow> s\<lparr>sem_value := sem_value s + 1\<rparr>
      | Some ws \<Rightarrow> s\<lparr>sem_waiters := ws\<rparr>)"

definition sched_release :: "bool \<Rightarrow> sched \<Rightarrow> sched" where
  "sched_release cancelled s =
     (let s1 = (if sc_in_use s > 0 then s\<lparr>sc_in_use := sc_in_use s - 1\<rparr> else s);
          s2 = (if cancelled then s1\<lparr>sc_cancelled := sc_cancelled s1 + 1\<rparr> else s1);
          s3 = (if sc_in_use s2 = 0 then s2\<lparr>sc_idle := True\<rparr> else s2)
      in sem_release s3)"

definition begin_drain :: "sched \<Rightarrow> sched" where
  "begin_drain s = s\<lparr>sc_draining := True\<rparr>"

text \<open>\<open>wait_drained\<close> returns true when it observes this.\<close>

definition drained :: "sched \<Rightarrow> bool" where
  "drained s \<longleftrightarrow> sc_in_use s = 0 \<or> sc_idle s"

definition note_slow_consumer :: "int \<Rightarrow> sched \<Rightarrow> sched" where
  "note_slow_consumer waits s = (if waits > 0 then s\<lparr>sc_slow_consumer := sc_slow_consumer s + 1\<rparr> else s)"

text \<open>\<open>round(x, 1)\<close>: to the nearest tenth, ties to even.\<close>

definition round1 :: "real \<Rightarrow> real" where
  "round1 x =
     (let y = x * 10; f = \<lfloor>y\<rfloor>; d = y - of_int f
      in of_int (if d < 1 / 2 then f else if d > 1 / 2 then f + 1 else if even f then f else f + 1) / 10)"

record sched_snapshot =
  sn_max_concurrency :: nat
  sn_max_queue_depth :: nat
  sn_queue_timeout_s :: real
  sn_draining :: bool
  sn_in_use :: nat
  sn_available :: int
  sn_queue_depth :: nat
  sn_peak_in_use :: nat
  sn_peak_queue_depth :: nat
  sn_admitted_total :: nat
  sn_rejected_total :: nat
  sn_rejected_queue_full :: nat
  sn_rejected_timeout :: nat
  sn_cancelled_total :: nat
  sn_slow_consumer_total :: nat
  sn_wait_ms_avg :: "real option"
  sn_wait_ms_max :: real
  sn_wait_ms_last :: real

definition snapshot :: "sched \<Rightarrow> sched_snapshot" where
  "snapshot s =
     \<lparr>sn_max_concurrency = sc_max_concurrency s, sn_max_queue_depth = sc_max_queue_depth s,
      sn_queue_timeout_s = sc_queue_timeout_s s, sn_draining = sc_draining s, sn_in_use = sc_in_use s,
      sn_available = int (sc_max_concurrency s) - int (sc_in_use s), sn_queue_depth = sc_waiters s,
      sn_peak_in_use = sc_peak_in_use s, sn_peak_queue_depth = sc_peak_waiters s,
      sn_admitted_total = sc_admitted s, sn_rejected_total = sc_rejected_queue_full s + sc_rejected_timeout s,
      sn_rejected_queue_full = sc_rejected_queue_full s, sn_rejected_timeout = sc_rejected_timeout s,
      sn_cancelled_total = sc_cancelled s, sn_slow_consumer_total = sc_slow_consumer s,
      sn_wait_ms_avg = (if sc_wait_count s > 0 then Some (round1 (sc_wait_total s / of_nat (sc_wait_count s) * 1000)) else None),
      sn_wait_ms_max = round1 (sc_wait_max s * 1000), sn_wait_ms_last = round1 (sc_wait_last s * 1000)\<rparr>"

section \<open>The system: tasks and leases\<close>

text \<open>
  \<open>leases t\<close> is \<open>Some released\<close> once the task \<open>t\<close> was admitted. A lease may be released any
  number of times; only the first counts.
\<close>

record sched_sys =
  sy_sched :: sched
  sy_leases :: "nat \<rightharpoonup> bool"

definition lease_release :: "nat \<Rightarrow> bool \<Rightarrow> sched_sys \<Rightarrow> sched_sys" where
  "lease_release task cancelled y =
     (case sy_leases y task of
        Some False \<Rightarrow> \<lparr>sy_sched = sched_release cancelled (sy_sched y), sy_leases = (sy_leases y)(task \<mapsto> True)\<rparr>
      | _ \<Rightarrow> y)"

definition grant :: "nat \<Rightarrow> admit_outcome \<times> sched \<Rightarrow> sched_sys \<Rightarrow> sched_sys" where
  "grant task r y =
     (case r of
        (Leased _, s) \<Rightarrow> \<lparr>sy_sched = s, sy_leases = (sy_leases y)(task \<mapsto> False)\<rparr>
      | (_, s) \<Rightarrow> y\<lparr>sy_sched := s\<rparr>)"

inductive sched_step :: "sched_sys \<Rightarrow> sched_sys \<Rightarrow> bool" where
  arrive: "task \<notin> dom (sy_leases y) \<Longrightarrow> task \<notin> wt_task ` set (sem_waiters (sy_sched y))
    \<Longrightarrow> sched_step y (grant task (admit_start task now (sy_sched y)) y)"
| resume: "w \<in> set (sem_waiters (sy_sched y)) \<Longrightarrow> wt_state w \<noteq> Pending
    \<Longrightarrow> sched_step y (grant (wt_task w) (admit_resume w now (sy_sched y)) y)"
| timeout: "sc_queue_timeout_s (sy_sched y) > 0
    \<Longrightarrow> sched_step y (y\<lparr>sy_sched := cancel_waiter ByTimeout task (sy_sched y)\<rparr>)"
| disconnect: "sched_step y (y\<lparr>sy_sched := cancel_waiter ByClient task (sy_sched y)\<rparr>)"
| finish: "sched_step y (lease_release task cancelled y)"
| drain: "sched_step y (y\<lparr>sy_sched := begin_drain (sy_sched y)\<rparr>)"
| slow: "sched_step y (y\<lparr>sy_sched := note_slow_consumer n (sy_sched y)\<rparr>)"

inductive_cases sched_step_elim: "sched_step y y'"

definition sched_start :: "sched \<Rightarrow> sched_sys" where
  "sched_start s = \<lparr>sy_sched = s, sy_leases = Map.empty\<rparr>"

section \<open>Lemmas: waking\<close>

definition permits :: "waiter list \<Rightarrow> nat" where
  "permits ws = length (filter has_permit ws)"

definition fifo :: "waiter list \<Rightarrow> bool" where
  "fifo ws \<longleftrightarrow> sorted_wrt (\<lambda>a b. wt_state a = Pending \<longrightarrow> \<not> has_permit b) ws"

lemma permits_simps [simp]: "permits [] = 0" "permits (w # ws) = (if has_permit w then 1 else 0) + permits ws"
  "permits (us @ ws) = permits us + permits ws"
  by (auto simp: permits_def)

lemma permits_pos: "permits ws > 0 \<longleftrightarrow> (\<exists>w\<in>set ws. has_permit w)"
  by (auto simp: permits_def filter_empty_conv)

lemma wake_first_None: "wake_first ws = None \<longleftrightarrow> (\<forall>w\<in>set ws. wt_state w \<noteq> Pending)"
  by (induction ws) auto

lemma wake_first_Some:
  assumes "wake_first ws = Some ws'"
  shows "permits ws' = Suc (permits ws)" and "map wt_task ws' = map wt_task ws" and "length ws' = length ws"
  using assms by (induction ws arbitrary: ws') (auto simp: has_permit_def split: if_splits)

lemma wake_first_states:
  "wake_first ws = Some ws' \<Longrightarrow> w \<in> set ws' \<Longrightarrow> wt_state w = Pending \<Longrightarrow> w \<in> set ws"
  by (induction ws arbitrary: ws') (auto split: if_splits)

lemma fifo_Cons: "fifo (w # ws) \<longleftrightarrow> (wt_state w = Pending \<longrightarrow> (\<forall>b\<in>set ws. \<not> has_permit b)) \<and> fifo ws"
  by (auto simp: fifo_def)

lemma fifo_wake_first: "fifo ws \<Longrightarrow> wake_first ws = Some ws' \<Longrightarrow> fifo ws'"
proof (induction ws arbitrary: ws')
  case (Cons w ws)
  show ?case
  proof (cases "wt_state w = Pending")
    case True
    then show ?thesis using Cons.prems by (auto simp: fifo_Cons)
  next
    case False
    then obtain ws1 where "wake_first ws = Some ws1" "ws' = w # ws1" using Cons.prems(2) by auto
    then show ?thesis using Cons False by (simp add: fifo_Cons)
  qed
qed simp

lemma wake_loop_props:
  assumes "wake_loop v ws = (v', ws')"
  shows "v' + permits ws' = v + permits ws" and "map wt_task ws' = map wt_task ws" and "length ws' = length ws"
    and "fifo ws \<Longrightarrow> fifo ws'" and "v' = 0 \<or> (\<forall>w\<in>set ws'. wt_state w \<noteq> Pending)"
  using assms
proof (induction v ws rule: wake_loop.induct)
  case (2 v ws)
  {
    case 1 then show ?case using "2.IH"(1) wake_first_Some(1) by (fastforce split: option.splits)
  next
    case 2 then show ?case using "2.IH"(2) wake_first_Some(2) by (fastforce split: option.splits)
  next
    case 3 then show ?case using "2.IH"(3) wake_first_Some(3) by (fastforce split: option.splits)
  next
    case 4 then show ?case using "2.IH"(4) fifo_wake_first by (fastforce split: option.splits)
  next
    case 5 then show ?case using "2.IH"(5) wake_first_None by (fastforce split: option.splits)
  }
qed auto

section \<open>The invariant\<close>

text \<open>
  Every permit is free, handed to a waiter that has not resumed yet, or in use; the queue
  gauge is the length of the semaphore's queue and within its bound; permits are handed out
  in queue order; and a permit is free while someone waits only if some waiter is about to
  resume, which will hand it on.
\<close>

definition sem_ok :: "sched \<Rightarrow> bool" where
  "sem_ok s \<longleftrightarrow>
     sem_value s + permits (sem_waiters s) + sc_in_use s = sc_max_concurrency s \<and>
     sc_waiters s = length (sem_waiters s) \<and> sc_waiters s \<le> sc_max_queue_depth s \<and>
     (sc_idle s \<longleftrightarrow> sc_in_use s = 0) \<and> fifo (sem_waiters s) \<and>
     (0 < sem_value s \<and> (\<exists>w\<in>set (sem_waiters s). wt_state w = Pending) \<longrightarrow> 0 < permits (sem_waiters s))"

lemma sem_ok_init: "scheduler_init c d t = Inr s \<Longrightarrow> sem_ok s"
  by (auto simp: scheduler_init_def sem_ok_def fifo_def split: if_splits)

lemma unlocked: "\<not> locked s \<Longrightarrow> 0 < sem_value s \<and> permits (sem_waiters s) = 0 \<and> (\<forall>w\<in>set (sem_waiters s). wt_state w \<noteq> Pending)"
  by (auto simp: locked_def permits_def filter_empty_conv fut_cancelled_def has_permit_def split: wstate.splits)

lemma locked_waiter:
  "locked s \<Longrightarrow> 0 < sem_value s \<Longrightarrow> \<exists>w\<in>set (sem_waiters s). wt_state w = Pending \<or> has_permit w"
  by (auto simp: locked_def fut_cancelled_def has_permit_def split: wstate.splits)

lemma fifo_snoc_pending: "fifo ws \<Longrightarrow> wt_state w = Pending \<Longrightarrow> fifo (ws @ [w])"
  by (auto simp: fifo_def sorted_wrt_append has_permit_def)

lemma sem_ok_start:
  assumes "sem_ok s" shows "sem_ok (snd (admit_start task now s))"
proof -
  consider (drain) "sc_draining s" | (free) "\<not> sc_draining s" "\<not> locked s"
    | (full) "\<not> sc_draining s" "locked s" "sc_waiters s \<ge> sc_max_queue_depth s"
    | (wait) "\<not> sc_draining s" "locked s" "sc_waiters s < sc_max_queue_depth s" by linarith
  then show ?thesis
  proof cases
    case free
    then show ?thesis using assms unlocked[OF free(2)]
      by (auto simp: admit_start_def sem_ok_def note_admitted_def)
  next
    case wait
    have "0 < sem_value s \<longrightarrow> 0 < permits (sem_waiters s)"
      using assms locked_waiter[OF wait(2)] permits_pos[of "sem_waiters s"] by (auto simp: sem_ok_def)
    then show ?thesis using assms wait
      by (auto simp: admit_start_def sem_ok_def has_permit_def fifo_snoc_pending)
  qed (use assms in \<open>simp_all add: admit_start_def sem_ok_def\<close>)
qed

lemma permits_remove1: "w \<in> set ws \<Longrightarrow> permits (remove1 w ws) + (if has_permit w then 1 else 0) = permits ws"
  by (induction ws) auto

lemma fifo_remove1: "fifo ws \<Longrightarrow> fifo (remove1 w ws)"
proof (induction ws)
  case (Cons a ws)
  have sub: "set (remove1 w ws) \<subseteq> set ws" by (rule set_remove1_subset)
  have f: "fifo ws" "wt_state a = Pending \<longrightarrow> (\<forall>b\<in>set ws. \<not> has_permit b)"
    using Cons.prems unfolding fifo_Cons by blast+
  have "fifo (a # remove1 w ws)" unfolding fifo_Cons using f(2) sub Cons.IH[OF f(1)] by blast
  then show ?case using f(1) by simp
qed simp

lemma sem_resume_props:
  assumes "sem_ok s" "w \<in> set (sem_waiters s)" "wt_state w \<noteq> Pending"
  defines "s' \<equiv> sem_resume w s"
  shows "sem_value s' + permits (sem_waiters s') + sc_in_use s + (if wt_state w = Woken then 1 else 0) = sc_max_concurrency s"
    and "Suc (length (sem_waiters s')) = length (sem_waiters s)" and "fifo (sem_waiters s')"
    and "sem_value s' = 0 \<or> (\<forall>w\<in>set (sem_waiters s'). wt_state w \<noteq> Pending)"
    and "map wt_task (sem_waiters s') = map wt_task (remove1 w (sem_waiters s))"
proof -
  let ?ws = "remove1 w (sem_waiters s)"
  let ?v = "case wt_state w of WokenCancelled _ \<Rightarrow> sem_value s + 1 | _ \<Rightarrow> sem_value s"
  obtain v' ws' where wl: "wake_loop ?v ?ws = (v', ws')" by force
  then have s': "sem_value s' = v'" "sem_waiters s' = ws'" by (simp_all add: s'_def sem_resume_def)
  note p = wake_loop_props[OF wl]
  have sum: "sem_value s + permits (sem_waiters s) + sc_in_use s = sc_max_concurrency s" and f: "fifo (sem_waiters s)"
    using assms(1) by (auto simp: sem_ok_def)
  show "sem_value s' + permits (sem_waiters s') + sc_in_use s + (if wt_state w = Woken then 1 else 0) = sc_max_concurrency s"
    unfolding s' p(1) using sum permits_remove1[OF assms(2)] assms(3)
    by (cases "wt_state w") (auto simp: has_permit_def)
  show "Suc (length (sem_waiters s')) = length (sem_waiters s)"
    unfolding s' p(3) using length_pos_if_in_set[OF assms(2)] assms(2) by (simp add: length_remove1)
  show "fifo (sem_waiters s')" unfolding s' using p(4) fifo_remove1[OF f] by blast
  show "sem_value s' = 0 \<or> (\<forall>w\<in>set (sem_waiters s'). wt_state w \<noteq> Pending)" unfolding s' by (rule p(5))
  show "map wt_task (sem_waiters s') = map wt_task ?ws" unfolding s' by (rule p(2))
qed

lemma sem_resume_fields:
  "sc_in_use (sem_resume w s) = sc_in_use s" "sc_max_concurrency (sem_resume w s) = sc_max_concurrency s"
  "sc_waiters (sem_resume w s) = sc_waiters s" "sc_idle (sem_resume w s) = sc_idle s"
  "sc_max_queue_depth (sem_resume w s) = sc_max_queue_depth s"
  by (simp_all add: sem_resume_def Let_def split_beta)

lemma sem_ok_resume:
  assumes "sem_ok s" "w \<in> set (sem_waiters s)" "wt_state w \<noteq> Pending"
  shows "sem_ok (snd (admit_resume w now s))"
proof -
  note p = sem_resume_props[OF assms]
  have s: "sc_waiters s = length (sem_waiters s)" "sc_waiters s \<le> sc_max_queue_depth s" "sc_idle s \<longleftrightarrow> sc_in_use s = 0"
    using assms(1) by (auto simp: sem_ok_def)
  let ?s = "(sem_resume w s)\<lparr>sc_waiters := sc_waiters s - 1\<rparr>"
  have q: "sc_waiters s - 1 = length (sem_waiters (sem_resume w s))" "sc_waiters s - 1 \<le> sc_max_queue_depth s"
    using p(2) s by auto
  show ?thesis
    using p(1,3,4) q s(3) assms(3)
    by (cases "wt_state w")
      (auto simp: admit_resume_def Let_def sem_ok_def note_admitted_def sem_resume_fields)
qed

lemma cancel_state_props:
  "has_permit (w\<lparr>wt_state := cancel_state c (wt_state w)\<rparr>) = has_permit w"
  "cancel_state c st \<noteq> Pending"
  by (cases "wt_state w"; simp add: has_permit_def) (cases st; simp)

lemma cancel_waiter_props:
  "permits (sem_waiters (cancel_waiter c task s)) = permits (sem_waiters s)"
  "length (sem_waiters (cancel_waiter c task s)) = length (sem_waiters s)"
  "map wt_task (sem_waiters (cancel_waiter c task s)) = map wt_task (sem_waiters s)"
  by (simp_all add: cancel_waiter_def permits_def filter_map comp_def cancel_state_props if_distrib cong: if_cong)

lemma fifo_cancel: "fifo ws \<Longrightarrow> fifo (map (\<lambda>w. if wt_task w = task then w\<lparr>wt_state := cancel_state c (wt_state w)\<rparr> else w) ws)"
  by (induction ws) (auto simp: fifo_Cons cancel_state_props)

lemma sem_ok_cancel: "sem_ok s \<Longrightarrow> sem_ok (cancel_waiter c task s)"
  using cancel_waiter_props[of c task s]
  by (auto simp: sem_ok_def cancel_waiter_def fifo_cancel cancel_state_props split: if_splits)

lemma sem_ok_release:
  assumes "sem_ok s" "0 < sc_in_use s" shows "sem_ok (sched_release b s)"
proof (cases "wake_first (sem_waiters s)")
  case None
  then have "\<forall>w\<in>set (sem_waiters s). wt_state w \<noteq> Pending" by (simp add: wake_first_None)
  then show ?thesis using assms None by (auto simp: sched_release_def sem_release_def sem_ok_def Let_def)
next
  case (Some ws)
  show ?thesis using assms Some wake_first_Some[OF Some] fifo_wake_first[of "sem_waiters s" ws]
    by (auto simp: sched_release_def sem_release_def sem_ok_def Let_def)
qed

definition live_leases :: "sched_sys \<Rightarrow> nat set" where
  "live_leases y = {t. sy_leases y t = Some False}"

definition lease_ok :: "sched_sys \<Rightarrow> bool" where
  "lease_ok y \<longleftrightarrow>
     distinct (map wt_task (sem_waiters (sy_sched y))) \<and>
     wt_task ` set (sem_waiters (sy_sched y)) \<inter> dom (sy_leases y) = {} \<and>
     finite (dom (sy_leases y)) \<and> card (live_leases y) = sc_in_use (sy_sched y)"

definition sched_inv :: "sched_sys \<Rightarrow> bool" where
  "sched_inv y \<longleftrightarrow> sem_ok (sy_sched y) \<and> lease_ok y"

lemma sched_inv_init: "scheduler_init c d t = Inr s \<Longrightarrow> sched_inv (sched_start s)"
  by (auto simp: sched_inv_def sem_ok_init sched_start_def lease_ok_def live_leases_def scheduler_init_def split: if_splits)

lemma live_finite: "finite (dom (sy_leases y)) \<Longrightarrow> finite (live_leases y)"
  by (rule finite_subset[rotated]) (auto simp: live_leases_def)

text \<open>Granting: the task's lease is new, and the slot is counted.\<close>

lemma lease_ok_grant:
  assumes "lease_ok y" and "task \<notin> dom (sy_leases y)"
    and "distinct (map wt_task (sem_waiters s))"
    and "wt_task ` set (sem_waiters s) \<subseteq> insert task (wt_task ` set (sem_waiters (sy_sched y)))"
    and "sc_in_use s = (case out of Leased _ \<Rightarrow> Suc (sc_in_use (sy_sched y)) | _ \<Rightarrow> sc_in_use (sy_sched y))"
    and "\<And>x. out = Leased x \<Longrightarrow> task \<notin> wt_task ` set (sem_waiters s)"
  shows "lease_ok (grant task (out, s) y)"
proof (cases "\<exists>x. out = Leased x")
  case True
  then obtain x where out: "out = Leased x" ..
  have "live_leases (grant task (out, s) y) = insert task (live_leases y)" by (auto simp: out grant_def live_leases_def)
  moreover have "task \<notin> live_leases y" using assms(2) by (auto simp: live_leases_def)
  moreover have "finite (live_leases y)" using assms(1) live_finite by (simp add: lease_ok_def)
  ultimately have "card (live_leases (grant task (out, s) y)) = Suc (card (live_leases y))" by simp
  then show ?thesis using assms(1,3,4,5) assms(6)[OF out] by (auto simp: lease_ok_def out grant_def)
next
  case False
  then have "grant task (out, s) y = y\<lparr>sy_sched := s\<rparr>" by (cases out) (auto simp: grant_def)
  moreover have "sc_in_use s = sc_in_use (sy_sched y)" using assms(5) False by (cases out) auto
  moreover have "live_leases (y\<lparr>sy_sched := s\<rparr>) = live_leases y" by (simp add: live_leases_def)
  ultimately show ?thesis using assms(1-4) by (auto simp: lease_ok_def)
qed

lemma lease_ok_arrive:
  assumes "lease_ok y" "task \<notin> dom (sy_leases y)" "task \<notin> wt_task ` set (sem_waiters (sy_sched y))"
  shows "lease_ok (grant task (admit_start task now (sy_sched y)) y)"
proof -
  obtain out s where r: "admit_start task now (sy_sched y) = (out, s)" by force
  have "distinct (map wt_task (sem_waiters s))" "wt_task ` set (sem_waiters s) \<subseteq> insert task (wt_task ` set (sem_waiters (sy_sched y)))"
    "sc_in_use s = (case out of Leased _ \<Rightarrow> Suc (sc_in_use (sy_sched y)) | _ \<Rightarrow> sc_in_use (sy_sched y))"
    "\<And>x. out = Leased x \<Longrightarrow> task \<notin> wt_task ` set (sem_waiters s)"
    using r assms by (auto simp: admit_start_def note_admitted_def lease_ok_def split: if_splits)
  then show ?thesis unfolding r by (rule lease_ok_grant[OF assms(1,2)])
qed

lemma distinct_tasks_remove1:
  assumes "distinct (map wt_task ws)" "w \<in> set ws"
  shows "distinct (map wt_task (remove1 w ws))" "wt_task w \<notin> wt_task ` set (remove1 w ws)"
proof -
  have d: "distinct ws" "inj_on wt_task (set ws)" using assms(1) by (auto simp: distinct_map)
  then have r: "set (remove1 w ws) = set ws - {w}" by simp
  show "distinct (map wt_task (remove1 w ws))"
    using d r by (auto simp: distinct_map intro: inj_on_subset)
  show "wt_task w \<notin> wt_task ` set (remove1 w ws)" unfolding r using d(2) assms(2) by (auto dest: inj_onD)
qed

lemma lease_ok_resume:
  assumes ok: "sem_ok (sy_sched y)" "lease_ok y" and w: "w \<in> set (sem_waiters (sy_sched y))" "wt_state w \<noteq> Pending"
  shows "lease_ok (grant (wt_task w) (admit_resume w now (sy_sched y)) y)"
proof -
  let ?s = "sy_sched y"
  obtain out s where r: "admit_resume w now ?s = (out, s)" by force
  have d: "distinct (map wt_task (sem_waiters ?s))" using ok(2) by (simp add: lease_ok_def)
  have tasks: "map wt_task (sem_waiters s) = map wt_task (remove1 w (sem_waiters ?s))"
    using r w(2) sem_resume_props(5)[OF ok(1) w]
    by (cases "wt_state w") (auto simp: admit_resume_def Let_def note_admitted_def split: if_splits)
  then have ts: "wt_task ` set (sem_waiters s) = wt_task ` set (remove1 w (sem_waiters ?s))" by (metis list.set_map)
  have use: "sc_in_use s = (case out of Leased _ \<Rightarrow> Suc (sc_in_use ?s) | _ \<Rightarrow> sc_in_use ?s)"
    using r w(2) by (cases "wt_state w")
      (auto simp: admit_resume_def Let_def note_admitted_def sem_resume_fields split: if_splits)
  have "wt_task w \<notin> dom (sy_leases y)" using ok(2) w(1) by (auto simp: lease_ok_def)
  moreover have "distinct (map wt_task (sem_waiters s))" unfolding tasks using distinct_tasks_remove1(1)[OF d w(1)] .
  moreover have "wt_task ` set (sem_waiters s) \<subseteq> insert (wt_task w) (wt_task ` set (sem_waiters ?s))"
    unfolding ts using set_remove1_subset by fastforce
  moreover have "wt_task w \<notin> wt_task ` set (sem_waiters s)" unfolding ts using distinct_tasks_remove1(2)[OF d w(1)] .
  ultimately show ?thesis unfolding r using use by (intro lease_ok_grant[OF ok(2)]) auto
qed

lemma sem_release_waiters: "map wt_task (sem_waiters (sched_release b s)) = map wt_task (sem_waiters s)"
  using wake_first_Some(2)[of "sem_waiters s"]
  by (auto simp: sched_release_def sem_release_def Let_def split: option.splits)

lemma sched_release_in_use: "sc_in_use (sched_release b s) = sc_in_use s - 1"
  by (auto simp: sched_release_def sem_release_def Let_def split: option.splits)

lemma sched_inv_finish:
  assumes "sched_inv y" shows "sched_inv (lease_release task b y)"
proof (cases "sy_leases y task = Some False")
  case True
  let ?y = "lease_release task b y"
  have y': "?y = \<lparr>sy_sched = sched_release b (sy_sched y), sy_leases = (sy_leases y)(task \<mapsto> True)\<rparr>"
    using True by (simp add: lease_release_def)
  have fin: "finite (live_leases y)" and c: "card (live_leases y) = sc_in_use (sy_sched y)"
    using assms live_finite by (auto simp: sched_inv_def lease_ok_def)
  have t: "task \<in> live_leases y" using True by (simp add: live_leases_def)
  then have pos: "0 < sc_in_use (sy_sched y)" using fin c by (metis card_gt_0_iff empty_iff)
  have "live_leases ?y = live_leases y - {task}" by (auto simp: y' live_leases_def)
  then have "card (live_leases ?y) = sc_in_use (sy_sched y) - 1" using fin c t by simp
  moreover have "wt_task ` set (sem_waiters (sched_release b (sy_sched y))) = wt_task ` set (sem_waiters (sy_sched y))"
    using sem_release_waiters by (metis list.set_map)
  moreover have "dom (sy_leases ?y) = dom (sy_leases y)" using True by (auto simp: y')
  moreover have "distinct (map wt_task (sem_waiters (sched_release b (sy_sched y))))"
    using assms by (simp add: sem_release_waiters sched_inv_def lease_ok_def)
  ultimately have "lease_ok ?y" using assms by (simp add: sched_inv_def lease_ok_def y' sched_release_in_use)
  then show ?thesis using assms sem_ok_release[OF _ pos] by (simp add: sched_inv_def y')
next
  case False
  then have "lease_release task b y = y" by (auto simp: lease_release_def split: option.splits bool.splits)
  then show ?thesis using assms by simp
qed

lemma lease_ok_sched:
  assumes "lease_ok y" and "map wt_task (sem_waiters s) = map wt_task (sem_waiters (sy_sched y))"
    and "sc_in_use s = sc_in_use (sy_sched y)"
  shows "lease_ok (y\<lparr>sy_sched := s\<rparr>)"
proof -
  have "wt_task ` set (sem_waiters s) = wt_task ` set (sem_waiters (sy_sched y))" using assms(2) by (metis list.set_map)
  then show ?thesis using assms by (simp add: lease_ok_def live_leases_def)
qed

lemma sched_inv_step: "sched_step y y' \<Longrightarrow> sched_inv y \<Longrightarrow> sched_inv y'"
proof (induction rule: sched_step.induct)
  case (arrive task y now)
  then have "sem_ok (sy_sched (grant task (admit_start task now (sy_sched y)) y))"
    using sem_ok_start[of "sy_sched y" task now]
    by (auto simp: sched_inv_def grant_def split: prod.splits admit_outcome.splits)
  then show ?case using arrive lease_ok_arrive by (simp add: sched_inv_def)
next
  case (resume w y now)
  then have "sem_ok (sy_sched (grant (wt_task w) (admit_resume w now (sy_sched y)) y))"
    using sem_ok_resume[of "sy_sched y" w now]
    by (auto simp: sched_inv_def grant_def split: prod.splits admit_outcome.splits)
  then show ?case using resume lease_ok_resume by (simp add: sched_inv_def)
next
  case (timeout y task)
  then show ?case
    using cancel_waiter_props(3)[of _ task "sy_sched y"] lease_ok_sched[of y "cancel_waiter _ task (sy_sched y)"]
    by (simp add: sched_inv_def sem_ok_cancel) (simp add: cancel_waiter_def)
next
  case (disconnect y task)
  then show ?case
    using cancel_waiter_props(3)[of _ task "sy_sched y"] lease_ok_sched[of y "cancel_waiter _ task (sy_sched y)"]
    by (simp add: sched_inv_def sem_ok_cancel) (simp add: cancel_waiter_def)
next
  case (finish y task cancelled)
  then show ?case by (simp add: sched_inv_finish)
qed (auto simp: sched_inv_def begin_drain_def note_slow_consumer_def sem_ok_def intro: lease_ok_sched)

lemma sched_inv_steps: "sched_step\<^sup>*\<^sup>* y y' \<Longrightarrow> sched_inv y \<Longrightarrow> sched_inv y'"
  by (induction rule: rtranclp_induct) (auto intro: sched_inv_step)

section \<open>Properties of the scheduler\<close>

lemma live_within: "sched_inv y \<Longrightarrow> card (live_leases y) = sc_in_use (sy_sched y)"
  by (simp add: sched_inv_def lease_ok_def)

text \<open>
  C12. Slots are conserved. Whatever tasks arrive, resume, time out, disconnect or release
  their lease (once or repeatedly), in any order: the slots in use are exactly the unreleased
  leases, together with the free permits and those handed to waiters they make up
  \<open>max_concurrency\<close>, at most \<open>max_queue_depth\<close> tasks wait, and the idle flag is set exactly
  when no slot is in use.
\<close>

theorem scheduler_slots_conserved:
  assumes "scheduler_init c d t = Inr s" and "sched_step\<^sup>*\<^sup>* (sched_start s) y"
  shows "card {task. sy_leases y task = Some False} = sc_in_use (sy_sched y) \<and>
    sem_value (sy_sched y) + permits (sem_waiters (sy_sched y)) + sc_in_use (sy_sched y) = sc_max_concurrency (sy_sched y) \<and>
    sc_waiters (sy_sched y) = length (sem_waiters (sy_sched y)) \<and>
    sc_waiters (sy_sched y) \<le> sc_max_queue_depth (sy_sched y) \<and>
    (sc_idle (sy_sched y) \<longleftrightarrow> sc_in_use (sy_sched y) = 0)"
  using sched_inv_steps[OF assms(2) sched_inv_init[OF assms(1)]]
  by (simp add: sched_inv_def sem_ok_def lease_ok_def live_leases_def)

text \<open>
  C11. First come, first served, and no slot idles. In every reachable state a waiter that has
  not been woken is behind every waiter that holds a permit, a newcomer gets a slot at once
  only if nobody else waits for one, and when somebody waits while no waiter is about to
  resume, all slots are in use.
\<close>

theorem scheduler_fifo_work_conserving:
  assumes "scheduler_init c d t = Inr s" and "sched_step\<^sup>*\<^sup>* (sched_start s) y"
  shows "(\<forall>us w vs. sem_waiters (sy_sched y) = us @ w # vs \<and> wt_state w = Pending \<longrightarrow> (\<forall>v\<in>set vs. \<not> has_permit v)) \<and>
    (\<forall>task now x. fst (admit_start task now (sy_sched y)) = Leased x \<longrightarrow> (\<forall>w\<in>set (sem_waiters (sy_sched y)). fut_cancelled w)) \<and>
    (sem_waiters (sy_sched y) \<noteq> [] \<and> (\<forall>w\<in>set (sem_waiters (sy_sched y)). wt_state w = Pending) \<longrightarrow>
      sc_in_use (sy_sched y) = sc_max_concurrency (sy_sched y))"
proof -
  have ok: "sem_ok (sy_sched y)"
    using sched_inv_steps[OF assms(2) sched_inv_init[OF assms(1)]] by (simp add: sched_inv_def)
  have "\<forall>us w vs. sem_waiters (sy_sched y) = us @ w # vs \<and> wt_state w = Pending \<longrightarrow> (\<forall>v\<in>set vs. \<not> has_permit v)"
    using ok by (auto simp: sem_ok_def fifo_def sorted_wrt_append)
  moreover have "\<forall>task now x. fst (admit_start task now (sy_sched y)) = Leased x \<longrightarrow>
      (\<forall>w\<in>set (sem_waiters (sy_sched y)). fut_cancelled w)"
    by (auto simp: admit_start_def locked_def split: if_splits)
  moreover have "sc_in_use (sy_sched y) = sc_max_concurrency (sy_sched y)"
    if ne: "sem_waiters (sy_sched y) \<noteq> []" and p: "\<forall>w\<in>set (sem_waiters (sy_sched y)). wt_state w = Pending"
  proof -
    have "permits (sem_waiters (sy_sched y)) = 0"
      using p by (auto simp: permits_def filter_empty_conv has_permit_def)
    moreover have "\<exists>w\<in>set (sem_waiters (sy_sched y)). wt_state w = Pending"
      using ne p by (cases "sem_waiters (sy_sched y)") auto
    ultimately show ?thesis using ok unfolding sem_ok_def by linarith
  qed
  ultimately show ?thesis by blast
qed

text \<open>A scheduler with one slot and one place in the queue; the run of the drain race.\<close>

definition sample_sched :: sched where
  "sample_sched = \<lparr>sc_max_concurrency = 1, sc_max_queue_depth = 1, sc_queue_timeout_s = 0, sem_value = 1, sem_waiters = [],
     sc_draining = False, sc_idle = True, sc_in_use = 0, sc_waiters = 0, sc_admitted = 0, sc_rejected_queue_full = 0,
     sc_rejected_timeout = 0, sc_cancelled = 0, sc_slow_consumer = 0, sc_peak_in_use = 0, sc_peak_waiters = 0,
     sc_wait_total = 0, sc_wait_count = 0, sc_wait_max = 0, sc_wait_last = 0\<rparr>"

lemma sample_sched_init: "scheduler_init 1 1 0 = Inr sample_sched"
  by (simp add: scheduler_init_def sample_sched_def)

definition race_1 :: sched_sys where "race_1 = grant 1 (admit_start 1 0 sample_sched) (sched_start sample_sched)"
definition race_2 :: sched_sys where "race_2 = grant 2 (admit_start 2 1 (sy_sched race_1)) race_1"
definition race_3 :: sched_sys where "race_3 = race_2\<lparr>sy_sched := begin_drain (sy_sched race_2)\<rparr>"
definition race_4 :: sched_sys where "race_4 = lease_release 1 False race_3"
definition race_5 :: sched_sys where
  "race_5 = grant 2 (admit_resume \<lparr>wt_task = 2, wt_start = 1, wt_state = Woken\<rparr> 2 (sy_sched race_4)) race_4"

lemmas race_defs = race_1_def race_2_def race_3_def race_4_def sched_start_def admit_start_def grant_def
  sample_sched_def locked_def note_admitted_def begin_drain_def lease_release_def sched_release_def sem_release_def
  fut_cancelled_def

lemma race_run: "sched_step\<^sup>*\<^sup>* (sched_start sample_sched) race_4" "sched_step race_4 race_5"
  "sched_step\<^sup>*\<^sup>* (sched_start sample_sched) race_2"
proof -
  have one: "sched_step (sched_start sample_sched) race_1"
    using sched_step.arrive[of 1 "sched_start sample_sched" 0] by (simp add: race_1_def sched_start_def sample_sched_def)
  have two: "sched_step race_1 race_2"
    using sched_step.arrive[of 2 race_1 1] by (simp add: race_defs)
  show start: "sched_step\<^sup>*\<^sup>* (sched_start sample_sched) race_2"
    by (meson one two rtranclp.rtrancl_into_rtrancl rtranclp.rtrancl_refl)
  have "sched_step race_2 race_3" using sched_step.drain[of race_2] by (simp add: race_3_def)
  moreover have "sched_step race_3 race_4" using sched_step.finish[of race_3 1 False] by (simp add: race_4_def)
  ultimately show "sched_step\<^sup>*\<^sup>* (sched_start sample_sched) race_4"
    by (meson start rtranclp.rtrancl_into_rtrancl)
  have "\<lparr>wt_task = 2, wt_start = 1, wt_state = Woken\<rparr> \<in> set (sem_waiters (sy_sched race_4))"
    by (simp add: race_defs)
  from sched_step.resume[OF this, of 2] show "sched_step race_4 race_5" by (simp add: race_5_def)
qed

theorem scheduler_slots_conserved_witness:
  "card {task. sy_leases race_4 task = Some False} = sc_in_use (sy_sched race_4)"
  using scheduler_slots_conserved[OF sample_sched_init race_run(1)] by blast

theorem scheduler_fifo_work_conserving_witness:
  "sem_waiters (sy_sched race_2) \<noteq> [] \<and> sc_in_use (sy_sched race_2) = sc_max_concurrency (sy_sched race_2)"
proof -
  have "sem_waiters (sy_sched race_2) \<noteq> [] \<and> (\<forall>w\<in>set (sem_waiters (sy_sched race_2)). wt_state w = Pending)"
    by (simp add: race_defs)
  then show ?thesis using scheduler_fifo_work_conserving[OF sample_sched_init race_run(3)] by blast
qed

lemma drained_step:
  assumes "sched_step y y'" and "sched_inv y" and "sc_draining (sy_sched y)" "sc_in_use (sy_sched y) = 0" "sem_waiters (sy_sched y) = []"
  shows "sc_draining (sy_sched y') \<and> sc_in_use (sy_sched y') = 0 \<and> sem_waiters (sy_sched y') = []"
  using assms
proof (cases rule: sched_step.cases)
  case (finish task cancelled)
  have "finite (live_leases y)" using assms(2) live_finite by (simp add: sched_inv_def lease_ok_def)
  then have "live_leases y = {}" using live_within[OF assms(2)] assms(4) by simp
  then have "sy_leases y task \<noteq> Some False" by (auto simp: live_leases_def)
  then have "lease_release task cancelled y = y" by (auto simp: lease_release_def split: option.splits bool.splits)
  then show ?thesis using finish assms by simp
qed (auto simp: admit_start_def grant_def cancel_waiter_def begin_drain_def note_slow_consumer_def)

text \<open>
  A drain that found nobody waiting is final. Once draining with no slot in use and an
  empty queue, no slot is ever used again, whatever arrives.
\<close>

theorem scheduler_drain_final:
  assumes "scheduler_init c d t = Inr s" and "sched_step\<^sup>*\<^sup>* (sched_start s) y"
    and "sc_draining (sy_sched y)" and "sc_in_use (sy_sched y) = 0" and "sem_waiters (sy_sched y) = []"
    and "sched_step\<^sup>*\<^sup>* y y'"
  shows "sc_in_use (sy_sched y') = 0"
proof -
  have "sched_inv y" using sched_inv_steps[OF assms(2) sched_inv_init[OF assms(1)]] .
  with assms(6) assms(3-5) have "sched_inv y' \<and> sc_draining (sy_sched y') \<and> sc_in_use (sy_sched y') = 0 \<and> sem_waiters (sy_sched y') = []"
    by (induction rule: rtranclp_induct) (auto dest: drained_step sched_inv_step)
  then show ?thesis by simp
qed

theorem scheduler_drain_final_witness:
  "sc_in_use (sy_sched ((sched_start sample_sched)\<lparr>sy_sched := begin_drain sample_sched\<rparr>)) = 0"
proof -
  let ?y = "(sched_start sample_sched)\<lparr>sy_sched := begin_drain sample_sched\<rparr>"
  have "sched_step\<^sup>*\<^sup>* (sched_start sample_sched) ?y"
    using sched_step.drain[of "sched_start sample_sched"] by (simp add: sched_start_def r_into_rtranclp)
  from scheduler_drain_final[OF sample_sched_init this, of ?y] show ?thesis
    by (simp add: begin_drain_def sample_sched_def)
qed

text \<open>
  The drain can report idle too early. With one slot and one waiter: the holder releases
  while the scheduler drains, so the permit is handed to the waiter, no slot is in use and the
  idle event is set, and \<open>wait_drained\<close> reports a clean drain; then the waiter resumes and
  its generation starts. The drained state is reachable from the initial one.
\<close>

theorem drain_reports_idle_before_waiter:
  "\<exists>y y'. sched_step\<^sup>*\<^sup>* (sched_start sample_sched) y \<and> sc_draining (sy_sched y) \<and> drained (sy_sched y) \<and>
     sc_in_use (sy_sched y) = 0 \<and> sched_step y y' \<and> sc_draining (sy_sched y') \<and> sc_in_use (sy_sched y') = 1"
proof (intro exI conjI)
  show "sched_step\<^sup>*\<^sup>* (sched_start sample_sched) race_4" "sched_step race_4 race_5" by (rule race_run)+
qed (simp_all add: race_defs race_5_def drained_def admit_resume_def sem_resume_def)

end
