(* ===== verification/Backend_Registry.thy ===== *)
theory Backend_Registry
  imports Prelude
begin

text \<open>
  The backend registry (\<open>engine/inference/registry.py\<close>): the pool of backends with their
  in-flight and health accounting, and the health-aware placement of requests (prefix
  affinity, least busy, spillover tier).

  A registry is the list of its entries in configuration order; an entry's \<open>be_order\<close> is its
  index. \<open>be_backend\<close> is what the entry's provider returns now. Request features are the keys
  of \<open>_FEATURE_ATTR\<close>. SHA-256 of a prefix key, read as a number, is an argument.
\<close>

section \<open>Entries\<close>

datatype backend_state = UNLOADED | LOADING | READY | GENERATING | FAILED

record capabilities =
  cap_model_id :: string
  cap_context_length :: int
  cap_supports_structured_output :: bool
  cap_supports_kv_cache_metrics :: bool

record backend =
  ba_state :: backend_state
  ba_capabilities :: capabilities
  ba_has_checker :: bool

record backend_entry =
  be_name :: string
  be_kind :: string
  be_is_local :: bool
  be_backend :: "backend option"
  be_max_in_flight :: int
  be_prefix_cache :: bool
  be_order :: nat
  be_in_flight :: nat
  be_available :: bool
  be_cache :: "(string \<times> real) list option"
  be_spillover :: bool
  be_external :: bool
  be_served_model :: "string option"

type_synonym registry = "backend_entry list"

definition READYISH :: "backend_state list" where
  "READYISH = [READY, GENERATING]"

definition is_loaded :: "backend_entry \<Rightarrow> bool" where
  "is_loaded e = (case be_backend e of None \<Rightarrow> False | Some b \<Rightarrow> ba_state b \<in> set READYISH)"

definition is_ready :: "backend_entry \<Rightarrow> bool" where
  "is_ready e \<longleftrightarrow> be_available e \<and> is_loaded e"

definition has_capacity :: "backend_entry \<Rightarrow> bool" where
  "has_capacity e \<longleftrightarrow> int (be_in_flight e) < be_max_in_flight e"

definition live_model :: "backend_entry \<Rightarrow> string option" where
  "live_model e =
     (if is_ready e then map_option (\<lambda>b. cap_model_id (ba_capabilities b)) (be_backend e) else None)"

definition current_model :: "backend_entry \<Rightarrow> string option" where
  "current_model e = (case live_model e of Some m \<Rightarrow> Some m | None \<Rightarrow> be_served_model e)"

section \<open>Eligibility and selection\<close>

datatype feature = STRUCTURED_OUTPUT

fun feature_attr :: "feature \<Rightarrow> capabilities \<Rightarrow> bool" where
  "feature_attr STRUCTURED_OUTPUT caps = cap_supports_structured_output caps"

definition registry_init :: "registry \<Rightarrow> registry" where
  "registry_init entries = map (\<lambda>(i, e). e\<lparr>be_order := i\<rparr>) (enumerate 0 entries)"

definition any_ready :: "registry \<Rightarrow> bool" where
  "any_ready r = list_ex is_ready r"

definition representative :: "registry \<Rightarrow> backend option" where
  "representative r = Option.bind (List.find is_ready r) be_backend"

definition representative_for :: "string \<Rightarrow> registry \<Rightarrow> backend option" where
  "representative_for model r = Option.bind (List.find (\<lambda>e. live_model e = Some model) r) be_backend"

definition known_models :: "registry \<Rightarrow> string list" where
  "known_models r = remdups (List.map_filter current_model r)"

definition eligible :: "backend_entry \<Rightarrow> string option \<Rightarrow> feature list \<Rightarrow> bool" where
  "eligible e model required_features =
     (if (case model of None \<Rightarrow> False | Some m \<Rightarrow> live_model e \<noteq> Some m) then False
      else if required_features \<noteq> [] then
        (case (if is_ready e then be_backend e else None) of
           None \<Rightarrow> False
         | Some b \<Rightarrow> list_all (\<lambda>f. feature_attr f (ba_capabilities b)) required_features)
      else True)"

text \<open>\<open>min(candidates, key=(in_flight, order))\<close>: the first smallest.\<close>

definition busier :: "backend_entry \<Rightarrow> backend_entry \<Rightarrow> bool" where
  "busier a b \<longleftrightarrow> be_in_flight b < be_in_flight a \<or> (be_in_flight b = be_in_flight a \<and> be_order b < be_order a)"

fun least_busy :: "backend_entry \<Rightarrow> registry \<Rightarrow> backend_entry" where
  "least_busy best [] = best"
| "least_busy best (e # es) = least_busy (if busier best e then e else best) es"

definition in_scope :: "string list option \<Rightarrow> backend_entry \<Rightarrow> bool" where
  "in_scope allowed e = (case allowed of None \<Rightarrow> True | Some names \<Rightarrow> be_name e \<in> set names)"

definition placeable :: "backend_entry \<Rightarrow> bool" where
  "placeable e \<longleftrightarrow> is_ready e \<and> has_capacity e"

definition pick :: "(string \<Rightarrow> nat) \<Rightarrow> registry \<Rightarrow> string option \<Rightarrow> (backend_entry \<times> string) option" where
  "pick digest pool prefix_key =
     (let candidates = filter placeable pool;
          capable = sort_key be_order (filter (\<lambda>e. is_ready e \<and> be_prefix_cache e) pool);
          key = (case prefix_key of None \<Rightarrow> None | Some k \<Rightarrow> if k = [] then None else Some k)
      in case key of
           Some k \<Rightarrow>
             if capable \<noteq> [] then
               (let target = capable ! (digest k mod length capable)
                in if has_capacity target then Some (target, ''prefix_affinity'')
                   else (case candidates of
                           [] \<Rightarrow> None
                         | c # cs \<Rightarrow> Some (least_busy c cs, ''affinity_fallback'')))
             else (case candidates of [] \<Rightarrow> None | c # cs \<Rightarrow> Some (least_busy c cs, ''least_busy''))
         | None \<Rightarrow> (case candidates of [] \<Rightarrow> None | c # cs \<Rightarrow> Some (least_busy c cs, ''least_busy'')))"

record selection =
  sel_entry :: backend_entry
  sel_reason :: string
  sel_tier :: string
  sel_available :: nat

definition scoped_pool :: "string list option \<Rightarrow> string option \<Rightarrow> feature list \<Rightarrow> registry \<Rightarrow> registry" where
  "scoped_pool allowed model features r = filter (\<lambda>e. in_scope allowed e \<and> eligible e model features) r"

definition select_detailed ::
  "(string \<Rightarrow> nat) \<Rightarrow> string option \<Rightarrow> string list option \<Rightarrow> string option \<Rightarrow> feature list \<Rightarrow> registry \<Rightarrow> selection option" where
  "select_detailed digest prefix_key allowed model features r =
     (let pool = scoped_pool allowed model features r;
          primary = filter (\<lambda>e. \<not> be_spillover e) pool;
          spill = filter be_spillover pool;
          finish = (\<lambda>(e, reason) tier tier_pool.
            let available = length (filter placeable tier_pool)
            in \<lparr>sel_entry = e,
                sel_reason = (if reason = ''least_busy'' \<and> available = 1 \<and> model \<noteq> None then ''model_map'' else reason),
                sel_tier = tier, sel_available = available\<rparr>)
      in case pick digest primary prefix_key of
           Some p \<Rightarrow> Some (finish p ''primary'' primary)
         | None \<Rightarrow>
             (case pick digest spill prefix_key of
                Some p \<Rightarrow> Some (finish p ''spillover'' spill)
              | None \<Rightarrow> None))"

definition select ::
  "(string \<Rightarrow> nat) \<Rightarrow> string option \<Rightarrow> string list option \<Rightarrow> string option \<Rightarrow> feature list \<Rightarrow> registry \<Rightarrow> backend_entry option" where
  "select digest prefix_key allowed model features r =
     map_option sel_entry (select_detailed digest prefix_key allowed model features r)"

section \<open>Leases\<close>

record route_decision =
  rd_backend :: string
  rd_engine :: string
  rd_tier :: string
  rd_reason :: string
  rd_fallbacks :: "string list"
  rd_policy :: string
  rd_step :: "nat option"
  rd_workload_rule :: "string option"

record registry_lease =
  rl_entry :: nat
  rl_released :: bool
  rl_decision :: route_decision

datatype acquire_error = NoBackendAvailable string | FeatureUnsupported "feature list" "string option"

definition set_in_flight :: "nat \<Rightarrow> (nat \<Rightarrow> nat) \<Rightarrow> registry \<Rightarrow> registry" where
  "set_in_flight i f r = (if i < length r then r[i := (r ! i)\<lparr>be_in_flight := f (be_in_flight (r ! i))\<rparr>] else r)"

definition refusal :: "string list option \<Rightarrow> string option \<Rightarrow> feature list \<Rightarrow> registry \<Rightarrow> acquire_error" where
  "refusal allowed model features r =
     (let scope = filter (in_scope allowed) r;
          model_ready = filter (\<lambda>e. is_ready e \<and> (case model of None \<Rightarrow> True | Some m \<Rightarrow> live_model e = Some m)) scope
      in if model_ready = [] then NoBackendAvailable ''unloaded''
         else if filter (\<lambda>e. eligible e model features) model_ready = [] then FeatureUnsupported features model
         else NoBackendAvailable ''busy'')"

definition registry_acquire ::
  "(string \<Rightarrow> nat) \<Rightarrow> string option \<Rightarrow> string list option \<Rightarrow> string option \<Rightarrow> feature list \<Rightarrow> registry
    \<Rightarrow> (acquire_error, registry_lease) result \<times> registry" where
  "registry_acquire digest prefix_key allowed model features r =
     (case select_detailed digest prefix_key allowed model features r of
        None \<Rightarrow> (Inl (refusal allowed model features r), r)
      | Some sel \<Rightarrow>
          (Inr \<lparr>rl_entry = be_order (sel_entry sel), rl_released = False,
             rl_decision = \<lparr>rd_backend = be_name (sel_entry sel), rd_engine = be_kind (sel_entry sel),
               rd_tier = sel_tier sel, rd_reason = sel_reason sel,
               rd_fallbacks = (if sel_tier sel = ''spillover'' then [''spillover''] else []),
               rd_policy = ''base'', rd_step = None, rd_workload_rule = None\<rparr>\<rparr>,
           set_in_flight (be_order (sel_entry sel)) Suc r))"

definition registry_release :: "nat \<Rightarrow> registry \<Rightarrow> registry" where
  "registry_release i r = set_in_flight i (\<lambda>n. if n > 0 then n - 1 else n) r"

definition registry_lease_release :: "registry_lease \<Rightarrow> registry \<Rightarrow> registry_lease \<times> registry" where
  "registry_lease_release l r =
     (if rl_released l then (l, r) else (l\<lparr>rl_released := True\<rparr>, registry_release (rl_entry l) r))"

section \<open>Status and health\<close>

record status_row =
  sr_name :: string
  sr_kind :: string
  sr_location :: string
  sr_state :: backend_state
  sr_available :: bool
  sr_in_flight :: nat
  sr_max_in_flight :: int
  sr_model_id :: "string option"
  sr_served_model :: "string option"
  sr_context_length :: "int option"
  sr_supports_prefix_cache :: bool
  sr_supports_kv_cache_metrics :: bool
  sr_tier :: string
  sr_external :: bool
  sr_cache :: "(string \<times> real) list option"

definition status :: "registry \<Rightarrow> status_row list" where
  "status r = map (\<lambda>e.
     let caps = (if is_loaded e then map_option ba_capabilities (be_backend e) else None)
     in \<lparr>sr_name = be_name e, sr_kind = be_kind e, sr_location = (if be_is_local e then ''local'' else ''remote''),
         sr_state = (case be_backend e of None \<Rightarrow> UNLOADED | Some b \<Rightarrow> ba_state b),
         sr_available = is_ready e, sr_in_flight = be_in_flight e, sr_max_in_flight = be_max_in_flight e,
         sr_model_id = map_option cap_model_id caps, sr_served_model = be_served_model e,
         sr_context_length = map_option cap_context_length caps, sr_supports_prefix_cache = be_prefix_cache e,
         sr_supports_kv_cache_metrics = (case caps of None \<Rightarrow> False | Some c \<Rightarrow> cap_supports_kv_cache_metrics c),
         sr_tier = (if be_spillover e then ''spillover'' else ''primary''), sr_external = be_external e,
         sr_cache = be_cache e\<rparr>) r"

text \<open>
  \<open>refresh_health\<close> for one entry: \<open>probe\<close> is the checker's answer (an exception counts as
  false) and \<open>stats\<close> what the cache scrape returns, \<open>None\<close> when the backend has none.
\<close>

definition refresh_entry :: "bool \<Rightarrow> (string \<times> real) list option option \<Rightarrow> backend_entry \<Rightarrow> backend_entry" where
  "refresh_entry probe stats e =
     (case be_backend e of
        None \<Rightarrow> e\<lparr>be_available := False\<rparr>
      | Some b \<Rightarrow>
          if be_is_local e \<or> \<not> ba_has_checker b then e\<lparr>be_available := ba_state b \<in> set READYISH\<rparr>
          else (let e1 = e\<lparr>be_available := probe\<rparr>
                in case stats of Some c \<Rightarrow> if probe then e1\<lparr>be_cache := c\<rparr> else e1 | None \<Rightarrow> e1))"

definition refresh_health :: "(nat \<Rightarrow> bool) \<Rightarrow> (nat \<Rightarrow> (string \<times> real) list option option) \<Rightarrow> registry \<Rightarrow> registry" where
  "refresh_health probe stats r = map (\<lambda>e. refresh_entry (probe (be_order e)) (stats (be_order e)) e) r"

section \<open>Lemmas: selection\<close>

definition registry_wf :: "registry \<Rightarrow> bool" where
  "registry_wf r \<longleftrightarrow> (\<forall>i<length r. be_order (r ! i) = i)"

lemma registry_init_wf: "registry_wf (registry_init es)"
  by (auto simp: registry_wf_def registry_init_def nth_enumerate_eq)

lemma registry_wf_index: "registry_wf r \<Longrightarrow> e \<in> set r \<Longrightarrow> be_order e < length r \<and> r ! be_order e = e"
  by (metis in_set_conv_nth registry_wf_def)

lemma busier_total: "\<not> busier a b \<Longrightarrow> \<not> busier b c \<Longrightarrow> \<not> busier a c"
  by (auto simp: busier_def)

lemma least_busy_min:
  "least_busy best es \<in> insert best (set es) \<and> (\<forall>e\<in>insert best (set es). \<not> busier (least_busy best es) e)"
proof (induction es arbitrary: best)
  case Nil
  then show ?case by (simp add: busier_def)
next
  case (Cons e es)
  let ?b = "if busier best e then e else best"
  have IH: "least_busy ?b es \<in> insert ?b (set es)" "\<And>x. x \<in> insert ?b (set es) \<Longrightarrow> \<not> busier (least_busy ?b es) x"
    using Cons.IH[of ?b] by blast+
  have "\<not> busier ?b best" "\<not> busier ?b e" by (auto simp: busier_def)
  then have "\<not> busier (least_busy ?b es) best" "\<not> busier (least_busy ?b es) e"
    using IH(2)[of ?b] busier_total by blast+
  then show ?case using IH by (auto split: if_splits)
qed

lemma pick_Some:
  assumes "pick digest pool key = Some (e, reason)"
  shows "e \<in> set pool" and "placeable e"
    and "reason \<noteq> ''prefix_affinity'' \<Longrightarrow> c \<in> set pool \<Longrightarrow> placeable c \<Longrightarrow> \<not> busier e c"
proof -
  let ?cap = "sort_key be_order (filter (\<lambda>e. is_ready e \<and> be_prefix_cache e) pool)"
  have min: "least_busy c cs \<in> set pool \<and> placeable (least_busy c cs) \<and> (\<forall>x\<in>set pool. placeable x \<longrightarrow> \<not> busier (least_busy c cs) x)"
    if "filter placeable pool = c # cs" for c cs
  proof -
    have s: "insert c (set cs) = {x \<in> set pool. placeable x}" using that by (metis list.simps(15) set_filter)
    show ?thesis using least_busy_min[of c cs] unfolding s by blast
  qed
  have tgt: "?cap ! (n mod length ?cap) \<in> set pool \<and> is_ready (?cap ! (n mod length ?cap))" if "?cap \<noteq> []" for n
  proof -
    have "0 < length ?cap" by (rule iffD2[OF length_greater_0_conv that])
    then have "n mod length ?cap < length ?cap" by (rule mod_less_divisor)
    then have "?cap ! (n mod length ?cap) \<in> set ?cap" by (rule nth_mem)
    then show ?thesis by simp
  qed
  consider (target) n where "?cap \<noteq> []" "e = ?cap ! (n mod length ?cap)" "has_capacity e" "reason = ''prefix_affinity''"
    | (least) c cs where "filter placeable pool = c # cs" "e = least_busy c cs"
    using assms by (auto simp: pick_def Let_def split: option.splits if_splits list.splits)
  then have "e \<in> set pool \<and> placeable e \<and> (reason \<noteq> ''prefix_affinity'' \<longrightarrow> (\<forall>x\<in>set pool. placeable x \<longrightarrow> \<not> busier e x))"
  proof cases
    case (target n)
    then show ?thesis using tgt[of n] by (simp add: placeable_def)
  next
    case (least c cs)
    then show ?thesis using min by simp
  qed
  then show "e \<in> set pool" "placeable e"
    "reason \<noteq> ''prefix_affinity'' \<Longrightarrow> c \<in> set pool \<Longrightarrow> placeable c \<Longrightarrow> \<not> busier e c" by blast+
qed

lemma pick_None: "pick digest pool key = None \<longleftrightarrow> (\<forall>e\<in>set pool. \<not> placeable e)"
proof
  assume n: "pick digest pool key = None"
  then have "filter placeable pool = []"
    by (auto simp: pick_def Let_def split: option.splits if_splits list.splits)
  then show "\<forall>e\<in>set pool. \<not> placeable e" by (simp add: filter_empty_conv)
next
  assume "\<forall>e\<in>set pool. \<not> placeable e"
  then show "pick digest pool key = None" using pick_Some(1,2)[of digest pool key]
    by (cases "pick digest pool key") auto
qed

lemma set_scoped_pool: "set (scoped_pool a m f r) = {e \<in> set r. in_scope a e \<and> eligible e m f}"
  by (auto simp: scoped_pool_def)

lemma select_detailed_Some:
  assumes "select_detailed digest key a m f r = Some sel"
  shows "sel_entry sel \<in> set r \<and> in_scope a (sel_entry sel) \<and> eligible (sel_entry sel) m f \<and> placeable (sel_entry sel)"
    and "sel_tier sel = (if be_spillover (sel_entry sel) then ''spillover'' else ''primary'')"
    and "e \<in> set r \<Longrightarrow> in_scope a e \<Longrightarrow> eligible e m f \<Longrightarrow> placeable e \<Longrightarrow> be_spillover (sel_entry sel) \<Longrightarrow> be_spillover e"
    and "sel_reason sel \<noteq> ''prefix_affinity'' \<Longrightarrow> e \<in> set r \<Longrightarrow> in_scope a e \<Longrightarrow> eligible e m f \<Longrightarrow> placeable e
      \<Longrightarrow> be_spillover e = be_spillover (sel_entry sel) \<Longrightarrow> \<not> busier (sel_entry sel) e"
proof -
  let ?pool = "scoped_pool a m f r"
  let ?prim = "filter (\<lambda>e. \<not> be_spillover e) ?pool" let ?spill = "filter be_spillover ?pool"
  consider (primary) x reason where "pick digest ?prim key = Some (x, reason)" "sel_entry sel = x" "sel_tier sel = ''primary''"
      "sel_reason sel = ''prefix_affinity'' \<longleftrightarrow> reason = ''prefix_affinity''"
    | (spill) x reason where "pick digest ?prim key = None" "pick digest ?spill key = Some (x, reason)" "sel_entry sel = x"
      "sel_tier sel = ''spillover''" "sel_reason sel = ''prefix_affinity'' \<longleftrightarrow> reason = ''prefix_affinity''"
    using assms by (auto simp: select_detailed_def Let_def split: option.splits if_splits)
  then have "(sel_entry sel \<in> set ?pool \<and> placeable (sel_entry sel)) \<and>
      sel_tier sel = (if be_spillover (sel_entry sel) then ''spillover'' else ''primary'') \<and>
      (\<forall>e\<in>set ?pool. placeable e \<longrightarrow> be_spillover (sel_entry sel) \<longrightarrow> be_spillover e) \<and>
      (sel_reason sel \<noteq> ''prefix_affinity'' \<longrightarrow> (\<forall>e\<in>set ?pool. placeable e \<longrightarrow>
         be_spillover e = be_spillover (sel_entry sel) \<longrightarrow> \<not> busier (sel_entry sel) e))"
  proof cases
    case (primary x reason)
    note p = pick_Some[OF primary(1)]
    show ?thesis using p(1,2) p(3) primary by auto
  next
    case (spill x reason)
    note p = pick_Some[OF spill(2)]
    have "\<forall>e\<in>set ?prim. \<not> placeable e" using spill(1) pick_None by blast
    then show ?thesis using p(1,2) p(3) spill by auto
  qed
  then show "sel_entry sel \<in> set r \<and> in_scope a (sel_entry sel) \<and> eligible (sel_entry sel) m f \<and> placeable (sel_entry sel)"
    "sel_tier sel = (if be_spillover (sel_entry sel) then ''spillover'' else ''primary'')"
    "e \<in> set r \<Longrightarrow> in_scope a e \<Longrightarrow> eligible e m f \<Longrightarrow> placeable e \<Longrightarrow> be_spillover (sel_entry sel) \<Longrightarrow> be_spillover e"
    "sel_reason sel \<noteq> ''prefix_affinity'' \<Longrightarrow> e \<in> set r \<Longrightarrow> in_scope a e \<Longrightarrow> eligible e m f \<Longrightarrow> placeable e
      \<Longrightarrow> be_spillover e = be_spillover (sel_entry sel) \<Longrightarrow> \<not> busier (sel_entry sel) e"
    unfolding set_scoped_pool by blast+
qed

lemma select_detailed_None:
  "select_detailed digest key a m f r = None \<longleftrightarrow> (\<forall>e\<in>set r. in_scope a e \<and> eligible e m f \<longrightarrow> \<not> placeable e)"
proof -
  have "select_detailed digest key a m f r = None \<longleftrightarrow>
      pick digest (filter (\<lambda>e. \<not> be_spillover e) (scoped_pool a m f r)) key = None \<and>
      pick digest (filter be_spillover (scoped_pool a m f r)) key = None"
    by (auto simp: select_detailed_def Let_def split: option.splits)
  also have "\<dots> \<longleftrightarrow> (\<forall>e\<in>set (scoped_pool a m f r). \<not> placeable e)" unfolding pick_None by auto
  finally show ?thesis by (auto simp: set_scoped_pool)
qed

section \<open>The pool of slots\<close>

definition entry_in_flight :: "registry \<Rightarrow> nat \<Rightarrow> nat" where
  "entry_in_flight r i = (if i < length r then be_in_flight (r ! i) else 0)"

definition entry_bound :: "registry \<Rightarrow> nat \<Rightarrow> nat option" where
  "entry_bound r i = Some (if i < length r then nat (be_max_in_flight (r ! i)) else 0)"

definition reserve :: "nat \<Rightarrow> registry \<Rightarrow> registry option" where
  "reserve i r = (if i < length r \<and> has_capacity (r ! i) then Some (set_in_flight i Suc r) else None)"

lemma set_in_flight_simps [simp]:
  "length (set_in_flight i f r) = length r"
  "j < length r \<Longrightarrow> set_in_flight i f r ! j = (if i = j then (r ! j)\<lparr>be_in_flight := f (be_in_flight (r ! j))\<rparr> else r ! j)"
  by (auto simp: set_in_flight_def nth_list_update)

interpretation backend_slots: slot_pool entry_in_flight entry_bound reserve registry_release
proof
  fix k s s'
  show "(reserve k s \<noteq> None) = (case entry_bound s k of None \<Rightarrow> True | Some c \<Rightarrow> entry_in_flight s k < c)"
    by (auto simp: reserve_def entry_bound_def entry_in_flight_def has_capacity_def)
  show "entry_in_flight s' = (entry_in_flight s)(k := Suc (entry_in_flight s k))" if "reserve k s = Some s'"
    using that by (auto simp: reserve_def entry_in_flight_def fun_eq_iff split: if_splits)
  show "entry_bound s' = entry_bound s" if "reserve k s = Some s'"
    using that by (auto simp: reserve_def entry_bound_def fun_eq_iff split: if_splits)
  show "entry_in_flight (registry_release k s) = (entry_in_flight s)(k := entry_in_flight s k - 1)"
    by (auto simp: registry_release_def entry_in_flight_def fun_eq_iff)
  show "entry_bound (registry_release k s) = entry_bound s"
    by (auto simp: registry_release_def entry_bound_def fun_eq_iff)
qed

lemma registry_wf_set_in_flight: "registry_wf r \<Longrightarrow> registry_wf (set_in_flight i f r)"
  by (simp add: registry_wf_def)

text \<open>A successful acquisition reserves the selected entry's slot.\<close>

lemma registry_acquire_reserves:
  assumes "registry_wf r" and "registry_acquire digest key a m f r = (Inr l, r')"
  obtains sel where "select_detailed digest key a m f r = Some sel" "rl_entry l = be_order (sel_entry sel)"
    "r ! rl_entry l = sel_entry sel" "rl_entry l < length r" "reserve (rl_entry l) r = Some r'" "\<not> rl_released l"
    "rl_decision l = \<lparr>rd_backend = be_name (sel_entry sel), rd_engine = be_kind (sel_entry sel),
               rd_tier = sel_tier sel, rd_reason = sel_reason sel,
               rd_fallbacks = (if sel_tier sel = ''spillover'' then [''spillover''] else []),
               rd_policy = ''base'', rd_step = None, rd_workload_rule = None\<rparr>"
proof -
  obtain sel where sel: "select_detailed digest key a m f r = Some sel"
    using assms(2) by (auto simp: registry_acquire_def split: option.splits)
  have s: "sel_entry sel \<in> set r" "placeable (sel_entry sel)" using select_detailed_Some(1)[OF sel] by auto
  have i: "be_order (sel_entry sel) < length r" "r ! be_order (sel_entry sel) = sel_entry sel"
    using registry_wf_index[OF assms(1) s(1)] by auto
  have eq: "l = \<lparr>rl_entry = be_order (sel_entry sel), rl_released = False,
      rl_decision = \<lparr>rd_backend = be_name (sel_entry sel), rd_engine = be_kind (sel_entry sel),
               rd_tier = sel_tier sel, rd_reason = sel_reason sel,
               rd_fallbacks = (if sel_tier sel = ''spillover'' then [''spillover''] else []),
               rd_policy = ''base'', rd_step = None, rd_workload_rule = None\<rparr>\<rparr>"
    "r' = set_in_flight (be_order (sel_entry sel)) Suc r"
    using assms(2) sel by (simp_all add: registry_acquire_def)
  show ?thesis
    by (rule that[OF sel]) (use eq i s(2) in \<open>simp_all add: reserve_def placeable_def\<close>)
qed

lemma registry_acquire_refused: "registry_acquire digest key a m f r = (Inl e, r') \<Longrightarrow> r' = r \<and> e = refusal a m f r"
  by (auto simp: registry_acquire_def split: option.splits)

lemma registry_acquire_wf:
  assumes "registry_wf r" shows "registry_wf (snd (registry_acquire digest key a m f r))"
  using assms by (simp add: registry_acquire_def registry_wf_set_in_flight split: option.split)

lemma eligible_model: "eligible e m f \<Longrightarrow> m = Some x \<Longrightarrow> live_model e = Some x"
  by (auto simp: eligible_def split: if_splits)

section \<open>Properties of the registry\<close>

text \<open>
  Placement is sound. An acquired lease is for a backend of the pool that is in the allowed
  scope, ready, serves the requested model now, supports every required feature, and had
  capacity; exactly its in-flight count goes up by one. A spillover backend is used only when
  no primary one could take the request, and unless prefix affinity chose the backend no
  candidate of its tier was less busy (ties by configuration order).
\<close>

theorem registry_acquire_sound:
  assumes "registry_wf r" and "registry_acquire digest key a m f r = (Inr l, r')"
  shows "\<exists>e. rl_entry l < length r \<and> r ! rl_entry l = e \<and> in_scope a e \<and> is_ready e \<and> has_capacity e \<and>
    (\<forall>x. m = Some x \<longrightarrow> live_model e = Some x) \<and> eligible e m f \<and>
    r' = r[rl_entry l := e\<lparr>be_in_flight := Suc (be_in_flight e)\<rparr>] \<and>
    (\<forall>c\<in>set r. in_scope a c \<and> eligible c m f \<and> placeable c \<longrightarrow>
       (be_spillover e \<longrightarrow> be_spillover c) \<and>
       (rd_reason (rl_decision l) \<noteq> ''prefix_affinity'' \<and> be_spillover c = be_spillover e \<longrightarrow> \<not> busier e c))"
proof -
  obtain sel where sel: "select_detailed digest key a m f r = Some sel" "r ! rl_entry l = sel_entry sel" "rl_entry l < length r"
      "reserve (rl_entry l) r = Some r'" "rd_reason (rl_decision l) = sel_reason sel"
    using registry_acquire_reserves[OF assms] by (metis route_decision.select_convs(4))
  note s = select_detailed_Some[OF sel(1)]
  let ?e = "sel_entry sel"
  have "r' = r[rl_entry l := ?e\<lparr>be_in_flight := Suc (be_in_flight ?e)\<rparr>]"
    using sel(2-4) by (auto simp: reserve_def set_in_flight_def split: if_splits)
  moreover have "\<forall>x. m = Some x \<longrightarrow> live_model ?e = Some x" using s(1) eligible_model by blast
  moreover have "\<forall>c\<in>set r. in_scope a c \<and> eligible c m f \<and> placeable c \<longrightarrow>
       (be_spillover ?e \<longrightarrow> be_spillover c) \<and>
       (rd_reason (rl_decision l) \<noteq> ''prefix_affinity'' \<and> be_spillover c = be_spillover ?e \<longrightarrow> \<not> busier ?e c)"
    unfolding sel(5) using s(3,4) by blast
  ultimately show ?thesis using s(1) sel(2,3) by (intro exI[of _ ?e]) (simp add: placeable_def)
qed

lemma refusal_parts:
  "(\<exists>e r'. registry_acquire digest key a m f r = (Inl e, r')) \<longleftrightarrow>
     (\<forall>b\<in>set r. in_scope a b \<and> eligible b m f \<longrightarrow> \<not> (is_ready b \<and> has_capacity b))"
  "registry_acquire digest key a m f r = (Inl e, r') \<Longrightarrow> r' = r \<and>
     (e = NoBackendAvailable ''unloaded'' \<longleftrightarrow>
        (\<forall>b\<in>set r. in_scope a b \<and> is_ready b \<longrightarrow> (\<exists>x. m = Some x \<and> live_model b \<noteq> Some x))) \<and>
     (e = FeatureUnsupported f m \<longleftrightarrow>
        (\<exists>b\<in>set r. in_scope a b \<and> is_ready b \<and> (\<forall>x. m = Some x \<longrightarrow> live_model b = Some x)) \<and>
        (\<forall>b\<in>set r. in_scope a b \<and> is_ready b \<longrightarrow> \<not> eligible b m f)) \<and>
     (e = NoBackendAvailable ''busy'' \<longleftrightarrow> (\<exists>b\<in>set r. in_scope a b \<and> is_ready b \<and> eligible b m f))"
proof -
  show "(\<exists>e r'. registry_acquire digest key a m f r = (Inl e, r')) \<longleftrightarrow>
     (\<forall>b\<in>set r. in_scope a b \<and> eligible b m f \<longrightarrow> \<not> (is_ready b \<and> has_capacity b))"
    using select_detailed_None[of digest key a m f r]
    by (cases "select_detailed digest key a m f r") (auto simp: registry_acquire_def placeable_def)
  assume "registry_acquire digest key a m f r = (Inl e, r')"
  then have r: "r' = r" and e: "e = refusal a m f r" using registry_acquire_refused by blast+
  let ?mr = "filter (\<lambda>e. is_ready e \<and> (case m of None \<Rightarrow> True | Some x \<Rightarrow> live_model e = Some x)) (filter (in_scope a) r)"
  have mr: "?mr = [] \<longleftrightarrow> (\<forall>b\<in>set r. in_scope a b \<and> is_ready b \<longrightarrow> (\<exists>x. m = Some x \<and> live_model b \<noteq> Some x))"
    by (auto simp: filter_empty_conv split: option.splits)
  have fr: "filter (\<lambda>e. eligible e m f) ?mr = [] \<longleftrightarrow> (\<forall>b\<in>set r. in_scope a b \<and> is_ready b \<longrightarrow> \<not> eligible b m f)"
    by (cases m) (auto simp: filter_empty_conv dest: eligible_model)
  show "r' = r \<and>
     (e = NoBackendAvailable ''unloaded'' \<longleftrightarrow>
        (\<forall>b\<in>set r. in_scope a b \<and> is_ready b \<longrightarrow> (\<exists>x. m = Some x \<and> live_model b \<noteq> Some x))) \<and>
     (e = FeatureUnsupported f m \<longleftrightarrow>
        (\<exists>b\<in>set r. in_scope a b \<and> is_ready b \<and> (\<forall>x. m = Some x \<longrightarrow> live_model b = Some x)) \<and>
        (\<forall>b\<in>set r. in_scope a b \<and> is_ready b \<longrightarrow> \<not> eligible b m f)) \<and>
     (e = NoBackendAvailable ''busy'' \<longleftrightarrow> (\<exists>b\<in>set r. in_scope a b \<and> is_ready b \<and> eligible b m f))"
  proof (intro conjI)
    show "r' = r" by (rule r)
    show "e = NoBackendAvailable ''unloaded'' \<longleftrightarrow>
        (\<forall>b\<in>set r. in_scope a b \<and> is_ready b \<longrightarrow> (\<exists>x. m = Some x \<and> live_model b \<noteq> Some x))"
      unfolding mr[symmetric] by (simp add: e refusal_def Let_def)
    have "(\<exists>b\<in>set r. in_scope a b \<and> is_ready b \<and> eligible b m f) \<longleftrightarrow> filter (\<lambda>e. eligible e m f) ?mr \<noteq> []"
      unfolding fr by blast
    then show "e = NoBackendAvailable ''busy'' \<longleftrightarrow> (\<exists>b\<in>set r. in_scope a b \<and> is_ready b \<and> eligible b m f)"
      unfolding e refusal_def Let_def by (auto simp: filter_empty_conv)
    have "(\<exists>b\<in>set r. in_scope a b \<and> is_ready b \<and> (\<forall>x. m = Some x \<longrightarrow> live_model b = Some x)) \<longleftrightarrow> ?mr \<noteq> []"
      unfolding mr by blast
    then show "e = FeatureUnsupported f m \<longleftrightarrow>
        (\<exists>b\<in>set r. in_scope a b \<and> is_ready b \<and> (\<forall>x. m = Some x \<longrightarrow> live_model b = Some x)) \<and>
        (\<forall>b\<in>set r. in_scope a b \<and> is_ready b \<longrightarrow> \<not> eligible b m f)"
      unfolding fr[symmetric] by (simp add: e refusal_def Let_def)
  qed
qed

text \<open>
  C29. Refusals are exact. A request is refused exactly when no backend in scope that is
  eligible for it is ready with capacity, and then the registry is unchanged and the error
  says why: \<open>unloaded\<close> exactly when no ready backend in scope serves the model, feature
  unsupported exactly when some do but none of them has the features, \<open>busy\<close> exactly when
  all that have them are at capacity.
\<close>

theorem registry_refusal_exact:
  "((\<exists>e r'. registry_acquire digest key a m f r = (Inl e, r')) \<longleftrightarrow>
     (\<forall>b\<in>set r. in_scope a b \<and> eligible b m f \<longrightarrow> \<not> (is_ready b \<and> has_capacity b))) \<and>
   (\<forall>e r'. registry_acquire digest key a m f r = (Inl e, r') \<longrightarrow> r' = r \<and>
     (e = NoBackendAvailable ''unloaded'' \<longleftrightarrow>
        (\<forall>b\<in>set r. in_scope a b \<and> is_ready b \<longrightarrow> (\<exists>x. m = Some x \<and> live_model b \<noteq> Some x))) \<and>
     (e = FeatureUnsupported f m \<longleftrightarrow>
        (\<exists>b\<in>set r. in_scope a b \<and> is_ready b \<and> (\<forall>x. m = Some x \<longrightarrow> live_model b = Some x)) \<and>
        (\<forall>b\<in>set r. in_scope a b \<and> is_ready b \<longrightarrow> \<not> eligible b m f)) \<and>
     (e = NoBackendAvailable ''busy'' \<longleftrightarrow> (\<exists>b\<in>set r. in_scope a b \<and> is_ready b \<and> eligible b m f)))"
  using refusal_parts[of digest key a m f r] by blast

text \<open>Histories of placements and releases (a lease's release frees its entry's slot).\<close>

datatype reg_event =
    Place "string option" "string list option" "string option" "feature list"
  | Free nat

primrec reg_step :: "(string \<Rightarrow> nat) \<Rightarrow> registry \<Rightarrow> reg_event \<Rightarrow> registry" where
  "reg_step digest r (Place key a m f) = snd (registry_acquire digest key a m f r)"
| "reg_step digest r (Free i) = registry_release i r"

lemma reg_step_inv:
  assumes "registry_wf r \<and> backend_slots.in_bounds r"
  shows "registry_wf (reg_step digest r e) \<and> backend_slots.in_bounds (reg_step digest r e)"
proof (cases e)
  case (Place key a m f)
  obtain res r' where q: "registry_acquire digest key a m f r = (res, r')" by force
  have "backend_slots.in_bounds r'"
  proof (cases res)
    case (Inl x)
    then show ?thesis using q registry_acquire_refused assms by blast
  next
    case (Inr l)
    then obtain i where "reserve i r = Some r'"
      using q registry_acquire_reserves[of r digest key a m f l r'] assms by metis
    then show ?thesis using backend_slots.in_bounds_acquire assms by blast
  qed
  then show ?thesis using Place q registry_acquire_wf[of r digest key a m f] assms by simp
next
  case (Free i)
  then show ?thesis using assms backend_slots.in_bounds_release
    by (auto simp: registry_release_def registry_wf_set_in_flight)
qed

lemma reg_step_bound: "registry_wf r \<Longrightarrow> entry_bound (reg_step digest r e) = entry_bound r"
  by (cases e) (auto simp: registry_acquire_def entry_bound_def registry_release_def fun_eq_iff split: option.splits)

lemma reg_run_inv:
  "registry_wf r \<and> backend_slots.in_bounds r \<Longrightarrow>
   registry_wf (foldl (reg_step digest) r es) \<and> backend_slots.in_bounds (foldl (reg_step digest) r es) \<and>
   entry_bound (foldl (reg_step digest) r es) = entry_bound r"
proof (induction es arbitrary: r)
  case (Cons e es)
  show ?case using Cons.IH[OF reg_step_inv[OF Cons.prems]] reg_step_bound Cons.prems by simp
qed simp

text \<open>
  C28. No backend is overloaded. Starting from fresh entries, whatever requests are placed and
  slots freed in any order, the in-flight count of no backend exceeds its configured maximum.
\<close>

theorem registry_in_flight_bounded:
  assumes "\<forall>e\<in>set entries. be_in_flight e = 0 \<and> 0 \<le> be_max_in_flight e" and "i < length entries"
  shows "int (be_in_flight (foldl (reg_step digest) (registry_init entries) es ! i)) \<le> be_max_in_flight (entries ! i)"
proof -
  let ?r = "registry_init entries" let ?r' = "foldl (reg_step digest) ?r es"
  have nth: "j < length entries \<Longrightarrow> ?r ! j = (entries ! j)\<lparr>be_order := j\<rparr>" for j
    by (simp add: registry_init_def nth_enumerate_eq)
  have len: "length ?r = length entries" by (simp add: registry_init_def)
  have "backend_slots.in_bounds ?r"
    using assms(1) nth by (auto simp: backend_slots.in_bounds_def entry_in_flight_def entry_bound_def len)
  then have inv: "backend_slots.in_bounds ?r'" "entry_bound ?r' = entry_bound ?r"
    using reg_run_inv[of ?r digest es] registry_init_wf by blast+
  have b: "entry_bound ?r i = Some (nat (be_max_in_flight (entries ! i)))"
    using assms(2) nth len by (simp add: entry_bound_def)
  have l': "length ?r' = length entries"
  proof -
    have "length (reg_step digest q e) = length q" for q e
      by (cases e) (auto simp: registry_acquire_def registry_release_def split: option.splits)
    then have "length (foldl (reg_step digest) q es) = length q" for q
      by (induction es arbitrary: q) auto
    then show ?thesis using len by simp
  qed
  have "entry_in_flight ?r' i \<le> nat (be_max_in_flight (entries ! i))"
    using inv b unfolding backend_slots.in_bounds_def by metis
  then have "be_in_flight (?r' ! i) \<le> nat (be_max_in_flight (entries ! i))"
    using assms(2) l' by (simp add: entry_in_flight_def)
  moreover have "0 \<le> be_max_in_flight (entries ! i)" using assms nth_mem by blast
  ultimately show ?thesis by linarith
qed

section \<open>Witnesses\<close>

definition sample_backend :: backend where
  "sample_backend = \<lparr>ba_state = READY, ba_capabilities = \<lparr>cap_model_id = ''m'', cap_context_length = 8,
     cap_supports_structured_output = False, cap_supports_kv_cache_metrics = False\<rparr>, ba_has_checker = False\<rparr>"

definition sample_entry :: "string \<Rightarrow> bool \<Rightarrow> backend_entry" where
  "sample_entry name spill = \<lparr>be_name = name, be_kind = ''local'', be_is_local = True, be_backend = Some sample_backend,
     be_max_in_flight = 1, be_prefix_cache = False, be_order = 0, be_in_flight = 0, be_available = True, be_cache = None,
     be_spillover = spill, be_external = spill, be_served_model = None\<rparr>"

definition sample_registry :: registry where
  "sample_registry = registry_init [sample_entry ''a'' False, sample_entry ''b'' True]"

lemmas sample_registry_defs = sample_registry_def sample_entry_def sample_backend_def registry_init_def
  enumerate_eq_zip registry_acquire_def select_detailed_def scoped_pool_def in_scope_def eligible_def live_model_def
  is_ready_def is_loaded_def READYISH_def pick_def placeable_def has_capacity_def set_in_flight_def

lemma sample_acquired:
  "\<exists>l r'. registry_acquire (\<lambda>_. 0) None None (Some ''m'') [] sample_registry = (Inr l, r') \<and> rl_entry l = 0"
  by (simp add: sample_registry_defs)

theorem registry_acquire_sound_witness:
  "\<exists>l r'. registry_acquire (\<lambda>_. 0) None None (Some ''m'') [] sample_registry = (Inr l, r') \<and>
     is_ready (sample_registry ! rl_entry l) \<and> live_model (sample_registry ! rl_entry l) = Some ''m''"
proof -
  obtain l r' where r: "registry_acquire (\<lambda>_. 0) None None (Some ''m'') [] sample_registry = (Inr l, r')"
    using sample_acquired by blast
  have "registry_wf sample_registry" by (simp add: sample_registry_def registry_init_wf)
  from registry_acquire_sound[OF this r] r show ?thesis by blast
qed

theorem registry_refusal_exact_witness:
  "registry_acquire (\<lambda>_. 0) None (Some []) (Some ''m'') [] sample_registry
     = (Inl (NoBackendAvailable ''unloaded''), sample_registry)"
proof -
  obtain e r' where r: "registry_acquire (\<lambda>_. 0) None (Some []) (Some ''m'') [] sample_registry = (Inl e, r')"
    using registry_refusal_exact[of "\<lambda>_. 0" None "Some []" "Some ''m''" "[]" sample_registry] by (auto simp: in_scope_def)
  then show ?thesis
    using registry_refusal_exact[of "\<lambda>_. 0" None "Some []" "Some ''m''" "[]" sample_registry] by (auto simp: in_scope_def)
qed

theorem registry_in_flight_bounded_witness:
  "int (be_in_flight (foldl (reg_step (\<lambda>_. 0)) (registry_init [sample_entry ''a'' False])
     [Place None None None [], Place None None None [], Free 0] ! 0)) \<le> 1"
  using registry_in_flight_bounded[of "[sample_entry ''a'' False]" 0 "\<lambda>_. 0"
      "[Place None None None [], Place None None None [], Free 0]"]
  by (simp add: sample_entry_def)

end
