(* ===== verification/Router.thy ===== *)
theory Router
  imports Backend_Registry
begin

text \<open>
  The router (\<open>engine/inference/router.py\<close>): virtual models with route and cascade policies,
  workload preferences, placement through the registry, and the dry-run \<open>plan\<close>.

  The cascade loop is written over the acquire operation it calls; what it needs of that
  operation is the locale \<open>scoped_acquire\<close>, interpreted on the registry's \<open>acquire\<close>.
\<close>

record virtual_model =
  vm_name :: string
  vm_policy :: string
  vm_steps :: "string list list"

record workload_rule =
  wr_name :: string
  wr_kind :: string
  wr_model :: string
  wr_preferred_backends :: "string list"
  wr_enabled :: bool

record router =
  ro_vmodels :: "(string \<times> virtual_model) list"
  ro_workload_rules :: "workload_rule list"
  ro_workload_routing_enabled :: bool

text \<open>A dict in insertion order: assigning an existing key replaces its value in place.\<close>

fun dict_put :: "'k \<Rightarrow> 'v \<Rightarrow> ('k \<times> 'v) list \<Rightarrow> ('k \<times> 'v) list" where
  "dict_put k v [] = [(k, v)]"
| "dict_put k v ((k', v') # d) = (if k = k' then (k, v) # d else (k', v') # dict_put k v d)"

definition router_init :: "virtual_model list \<Rightarrow> workload_rule list \<Rightarrow> bool \<Rightarrow> router" where
  "router_init virtual_models workload_rules enabled =
     \<lparr>ro_vmodels = foldl (\<lambda>d vm. dict_put (vm_name vm) vm d) [] virtual_models,
      ro_workload_rules = workload_rules, ro_workload_routing_enabled = enabled\<rparr>"

section \<open>Name resolution\<close>

definition is_virtual :: "router \<Rightarrow> string \<Rightarrow> bool" where
  "is_virtual ro name \<longleftrightarrow> map_of (ro_vmodels ro) name \<noteq> None"

definition known_model :: "router \<Rightarrow> registry \<Rightarrow> string \<Rightarrow> bool" where
  "known_model ro r name \<longleftrightarrow> is_virtual ro name \<or> name \<in> set (known_models r)"

definition model_names :: "router \<Rightarrow> registry \<Rightarrow> string list" where
  "model_names ro r = sort (known_models r) @ map fst (ro_vmodels ro)"

definition scopes :: "router \<Rightarrow> string \<Rightarrow> string list list" where
  "scopes ro name = (case map_of (ro_vmodels ro) name of None \<Rightarrow> [] | Some vm \<Rightarrow> vm_steps vm)"

definition matching_workload_rule :: "router \<Rightarrow> string \<Rightarrow> feature list \<Rightarrow> workload_rule option" where
  "matching_workload_rule ro name required_features =
     (if \<not> ro_workload_routing_enabled ro \<or> is_virtual ro name then None
      else List.find (\<lambda>rule. wr_enabled rule \<and> wr_kind rule = ''structured_output_preference'' \<and>
             wr_model rule = name \<and> STRUCTURED_OUTPUT \<in> set required_features) (ro_workload_rules ro))"

section \<open>Placement\<close>

definition with_policy :: "string \<Rightarrow> nat option \<Rightarrow> bool \<Rightarrow> registry_lease \<Rightarrow> registry_lease" where
  "with_policy policy step escalated l =
     (let d = rl_decision l
      in l\<lparr>rl_decision := d\<lparr>rd_policy := policy, rd_step := step,
           rd_fallbacks := (if escalated then ''cascade_escalation'' # rd_fallbacks d else rd_fallbacks d)\<rparr>\<rparr>)"

definition with_workload_rule :: "string \<Rightarrow> registry_lease \<Rightarrow> registry_lease" where
  "with_workload_rule name l = l\<lparr>rl_decision := (rl_decision l)\<lparr>rd_workload_rule := Some name\<rparr>\<rparr>"

fun cascade_loop ::
  "('sc \<Rightarrow> 'r \<Rightarrow> (acquire_error, 'l) result \<times> 'r) \<Rightarrow> nat \<Rightarrow> bool \<Rightarrow> bool \<Rightarrow> 'sc list \<Rightarrow> 'r
    \<Rightarrow> (bool \<times> bool, 'l \<times> nat) result \<times> 'r" where
  "cascade_loop acq i saw_busy saw_feature [] r = (Inl (saw_busy, saw_feature), r)"
| "cascade_loop acq i saw_busy saw_feature (scope # rest) r =
     (case acq scope r of
        (Inr l, r') \<Rightarrow> (Inr (l, i), r')
      | (Inl (NoBackendAvailable reason), r') \<Rightarrow>
          cascade_loop acq (Suc i) (saw_busy \<or> reason = ''busy'') saw_feature rest r'
      | (Inl (FeatureUnsupported _ _), r') \<Rightarrow> cascade_loop acq (Suc i) saw_busy True rest r')"

definition acquire_virtual ::
  "(string \<Rightarrow> nat) \<Rightarrow> router \<Rightarrow> string \<Rightarrow> string option \<Rightarrow> feature list \<Rightarrow> registry
    \<Rightarrow> (acquire_error, registry_lease) result \<times> registry" where
  "acquire_virtual digest ro name prefix_key features r =
     (case cascade_loop (\<lambda>scope. registry_acquire digest prefix_key (Some scope) None features) 0 False False (scopes ro name) r of
        (Inr (l, i), r') \<Rightarrow>
          (Inr (with_policy (case map_of (ro_vmodels ro) name of None \<Rightarrow> [] | Some vm \<Rightarrow> vm_policy vm) (Some i) (i > 0) l), r')
      | (Inl (saw_busy, saw_feature), r') \<Rightarrow>
          (Inl (if saw_busy then NoBackendAvailable ''busy''
                else if saw_feature then FeatureUnsupported features (Some name)
                else NoBackendAvailable ''unloaded''), r'))"

definition acquire_base ::
  "(string \<Rightarrow> nat) \<Rightarrow> router \<Rightarrow> string \<Rightarrow> string option \<Rightarrow> feature list \<Rightarrow> registry
    \<Rightarrow> (acquire_error, registry_lease) result \<times> registry" where
  "acquire_base digest ro name prefix_key features r =
     (if is_virtual ro name then acquire_virtual digest ro name prefix_key features r
      else case registry_acquire digest prefix_key None (Some name) features r of
          (Inl e, r') \<Rightarrow> (Inl e, r')
        | (Inr l, r') \<Rightarrow> (Inr (with_policy ''base'' None False l), r'))"

definition router_acquire ::
  "(string \<Rightarrow> nat) \<Rightarrow> router \<Rightarrow> string \<Rightarrow> string option \<Rightarrow> feature list \<Rightarrow> registry
    \<Rightarrow> (acquire_error, registry_lease) result \<times> registry" where
  "router_acquire digest ro name prefix_key features r =
     (case matching_workload_rule ro name features of
        Some rule \<Rightarrow>
          (case registry_acquire digest prefix_key (Some (wr_preferred_backends rule)) (Some name) features r of
             (Inr l, r') \<Rightarrow> (Inr (with_workload_rule (wr_name rule) (with_policy ''base'' None False l)), r')
           | (Inl _, r') \<Rightarrow> acquire_base digest ro name prefix_key features r')
      | None \<Rightarrow> acquire_base digest ro name prefix_key features r)"

section \<open>The dry run\<close>

record candidate_row =
  cr_name :: string
  cr_state :: backend_state
  cr_available :: bool
  cr_in_flight :: nat
  cr_has_capacity :: bool

definition candidate_row_of :: "backend_entry \<Rightarrow> candidate_row" where
  "candidate_row_of e = \<lparr>cr_name = be_name e, cr_state = (case be_backend e of None \<Rightarrow> UNLOADED | Some b \<Rightarrow> ba_state b),
     cr_available = is_ready e, cr_in_flight = be_in_flight e, cr_has_capacity = has_capacity e\<rparr>"

record plan_step =
  ps_targets :: "string list"
  ps_chosen :: "string option"
  ps_candidates :: "candidate_row list"

record route_plan =
  rp_model :: string
  rp_policy :: string
  rp_known :: bool
  rp_chosen :: "string option"
  rp_chosen_step :: "nat option"
  rp_steps :: "plan_step list"
  rp_workload_rule :: "string option"
  rp_workload_targets :: "string list option"

text \<open>A scope is a frozenset of names: its listing is sorted without duplicates.\<close>

fun plan_loop ::
  "(string \<Rightarrow> nat) \<Rightarrow> string option \<Rightarrow> string option \<Rightarrow> feature list \<Rightarrow> registry \<Rightarrow> nat \<Rightarrow> (string \<times> nat) option
    \<Rightarrow> string list option list \<Rightarrow> plan_step list \<times> (string \<times> nat) option" where
  "plan_loop digest key model features r i chosen [] = ([], chosen)"
| "plan_loop digest key model features r i chosen (scope # rest) =
     (let entry = (if chosen = None then select digest key scope model features r else None);
          choice = map_option be_name entry;
          chosen' = (case (chosen, choice) of (None, Some n) \<Rightarrow> Some (n, i) | _ \<Rightarrow> chosen);
          step = \<lparr>ps_targets = (case scope of Some names \<Rightarrow> sort (remdups names) | None \<Rightarrow> [''*all*'']),
                  ps_chosen = choice,
                  ps_candidates = map candidate_row_of
                    (filter (\<lambda>e. in_scope scope e \<and> eligible e model features) r)\<rparr>;
          (steps, final) = plan_loop digest key model features r (Suc i) chosen' rest
      in (step # steps, final))"

definition router_plan ::
  "(string \<Rightarrow> nat) \<Rightarrow> router \<Rightarrow> string \<Rightarrow> string option \<Rightarrow> feature list \<Rightarrow> registry \<Rightarrow> route_plan" where
  "router_plan digest ro name prefix_key features r =
     (let rule = matching_workload_rule ro name features;
          virtual = is_virtual ro name;
          policy = (case map_of (ro_vmodels ro) name of Some vm \<Rightarrow> vm_policy vm | None \<Rightarrow> ''base'');
          model = (if virtual then None else Some name);
          scs = (case rule of Some w \<Rightarrow> [Some (wr_preferred_backends w), None]
                 | None \<Rightarrow> if virtual then map Some (scopes ro name) else [None]);
          (steps, chosen) = plan_loop digest prefix_key model features r 0 None scs
      in \<lparr>rp_model = name, rp_policy = policy, rp_known = known_model ro r name,
          rp_chosen = map_option fst chosen, rp_chosen_step = map_option snd chosen, rp_steps = steps,
          rp_workload_rule = map_option wr_name rule,
          rp_workload_targets = map_option wr_preferred_backends rule\<rparr>)"

section \<open>What the cascade relies on\<close>

text \<open>
  A refused acquisition changes nothing. Then a cascade serves from the first step that can,
  and a cascade that fails leaves everything as it was and knows what every step answered.
\<close>

locale scoped_acquire =
  fixes acq :: "'sc \<Rightarrow> 'r \<Rightarrow> (acquire_error, 'l) result \<times> 'r"
  assumes refused_unchanged: "acq sc r = (Inl e, r') \<Longrightarrow> r' = r"
begin

lemma cascade_served:
  "cascade_loop acq i b f scs r = (Inr (l, k), r') \<Longrightarrow>
     i \<le> k \<and> k - i < length scs \<and> acq (scs ! (k - i)) r = (Inr l, r') \<and> (\<forall>j<k - i. \<exists>e. acq (scs ! j) r = (Inl e, r))"
proof (induction scs arbitrary: i b f)
  case (Cons sc scs)
  obtain res r1 where a: "acq sc r = (res, r1)" by force
  show ?case
  proof (cases res)
    case (Inr x)
    then show ?thesis using Cons.prems a by simp
  next
    case (Inl e)
    then have r1: "r1 = r" using a refused_unchanged by blast
    have "\<exists>b' f'. cascade_loop acq (Suc i) b' f' scs r = (Inr (l, k), r')"
      using Cons.prems a Inl r1 by (auto split: acquire_error.splits)
    then have "Suc i \<le> k \<and> k - Suc i < length scs \<and> acq (scs ! (k - Suc i)) r = (Inr l, r') \<and>
        (\<forall>j<k - Suc i. \<exists>e. acq (scs ! j) r = (Inl e, r))"
      using Cons.IH by blast
    moreover from this obtain d where d: "k - i = Suc d" "k - Suc i = d" by (metis Suc_diff_Suc Suc_le_eq)
    ultimately show ?thesis using a Inl r1 by (auto simp: d less_Suc_eq_0_disj)
  qed
qed simp

lemma cascade_failed:
  "cascade_loop acq i b f scs r = (Inl (b', f'), r') \<Longrightarrow>
     r' = r \<and> (\<forall>sc\<in>set scs. \<exists>e. acq sc r = (Inl e, r)) \<and>
     (b' \<longleftrightarrow> b \<or> (\<exists>sc\<in>set scs. fst (acq sc r) = Inl (NoBackendAvailable ''busy''))) \<and>
     (f' \<longleftrightarrow> f \<or> (\<exists>sc\<in>set scs. \<exists>fs m. fst (acq sc r) = Inl (FeatureUnsupported fs m)))"
proof (induction scs arbitrary: i b f)
  case (Cons sc scs)
  obtain e r1 where a: "acq sc r = (Inl e, r1)" using Cons.prems by (cases "acq sc r"; cases "fst (acq sc r)") auto
  then have r1: "r1 = r" using refused_unchanged by blast
  show ?case
  proof (cases e)
    case (NoBackendAvailable reason)
    then have "cascade_loop acq (Suc i) (b \<or> reason = ''busy'') f scs r = (Inl (b', f'), r')"
      using Cons.prems a r1 by simp
    from Cons.IH[OF this] show ?thesis using a r1 NoBackendAvailable by auto
  next
    case (FeatureUnsupported fs m)
    then have "cascade_loop acq (Suc i) b True scs r = (Inl (b', f'), r')"
      using Cons.prems a r1 by simp
    from Cons.IH[OF this] show ?thesis using a r1 FeatureUnsupported by auto
  qed
qed simp

end

interpretation reg_cascade: scoped_acquire "\<lambda>scope. registry_acquire digest key (Some scope) None features"
  for digest key features
  by unfold_locales (use registry_acquire_refused in blast)

section \<open>Lemmas\<close>

lemma acquire_select:
  "(\<exists>l r'. registry_acquire digest key a m f r = (Inr l, r')) \<longleftrightarrow> select digest key a m f r \<noteq> None"
  by (auto simp: registry_acquire_def select_def split: option.splits)

lemma acquire_select_name:
  "registry_acquire digest key a m f r = (Inr l, r') \<Longrightarrow>
     map_option be_name (select digest key a m f r) = Some (rd_backend (rl_decision l))"
  by (auto simp: registry_acquire_def select_def split: option.splits)

lemma refused_select: "registry_acquire digest key a m f r = (Inl e, r') \<Longrightarrow> select digest key a m f r = None"
  by (auto simp: registry_acquire_def select_def split: option.splits)

lemma with_policy_backend [simp]: "rd_backend (rl_decision (with_policy p s e l)) = rd_backend (rl_decision l)"
  "rl_entry (with_policy p s e l) = rl_entry l" "rd_step (rl_decision (with_policy p s e l)) = s"
  by (simp_all add: with_policy_def Let_def)

lemma with_workload_rule_backend [simp]: "rd_backend (rl_decision (with_workload_rule n l)) = rd_backend (rl_decision l)"
  "rl_entry (with_workload_rule n l) = rl_entry l"
  by (simp_all add: with_workload_rule_def)

text \<open>The dry run keeps the first scope that selects an entry.\<close>

lemma plan_loop_chosen_Some: "snd (plan_loop digest key m f r i (Some c) scs) = Some c"
  by (induction scs arbitrary: i) (auto simp: Let_def split_beta)

lemma plan_loop_Cons_Some:
  "select digest key sc m f r = Some e \<Longrightarrow> snd (plan_loop digest key m f r i None (sc # scs)) = Some (be_name e, i)"
  by (simp add: Let_def split_beta plan_loop_chosen_Some)

lemma plan_loop_Cons_None:
  "select digest key sc m f r = None \<Longrightarrow>
     snd (plan_loop digest key m f r i None (sc # scs)) = snd (plan_loop digest key m f r (Suc i) None scs)"
  by (simp add: Let_def split_beta)

lemma plan_loop_shift:
  "map_option fst (snd (plan_loop digest key m f r i None scs)) = map_option fst (snd (plan_loop digest key m f r j None scs))"
proof (induction scs arbitrary: i j)
  case (Cons sc scs)
  show ?case
  proof (cases "select digest key sc m f r")
    case None
    show ?thesis unfolding plan_loop_Cons_None[OF None] by (rule Cons.IH)
  next
    case (Some e)
    then show ?thesis unfolding plan_loop_Cons_Some[OF Some] by simp
  qed
qed simp

lemma plan_loop_cascade:
  "(case cascade_loop (\<lambda>sc. registry_acquire digest key (Some sc) None f) i sb sf scs r of
      (Inr (l, k), r') \<Rightarrow> snd (plan_loop digest key None f r i None (map Some scs)) = Some (rd_backend (rl_decision l), k)
    | (Inl _, r') \<Rightarrow> snd (plan_loop digest key None f r i None (map Some scs)) = None)"
proof (induction scs arbitrary: i sb sf)
  case (Cons sc scs)
  obtain res r1 where a: "registry_acquire digest key (Some sc) None f r = (res, r1)" by force
  show ?case
  proof (cases res)
    case (Inr l)
    then obtain e where "select digest key (Some sc) None f r = Some e" "be_name e = rd_backend (rl_decision l)"
      using acquire_select_name a by fastforce
    then show ?thesis using a Inr by (simp add: plan_loop_Cons_Some del: plan_loop.simps)
  next
    case (Inl e)
    then have n: "select digest key (Some sc) None f r = None" and r1: "r1 = r"
      using a refused_select registry_acquire_refused by blast+
    show ?thesis
    proof (cases e)
      case (NoBackendAvailable reason)
      then show ?thesis unfolding list.map plan_loop_Cons_None[OF n]
        using Cons.IH[of "Suc i" "sb \<or> reason = ''busy''" sf] a Inl r1 by simp
    next
      case (FeatureUnsupported fs m)
      then show ?thesis unfolding list.map plan_loop_Cons_None[OF n]
        using Cons.IH[of "Suc i" sb True] a Inl r1 by simp
    qed
  qed
qed simp

lemma rule_not_virtual: "matching_workload_rule ro name f = Some w \<Longrightarrow> \<not> is_virtual ro name"
  by (auto simp: matching_workload_rule_def split: if_splits)

lemma plan_chosen:
  "rp_chosen (router_plan digest ro name key f r) = map_option fst (snd (plan_loop digest key (if is_virtual ro name then None else Some name) f r 0 None
     (case matching_workload_rule ro name f of Some w \<Rightarrow> [Some (wr_preferred_backends w), None]
      | None \<Rightarrow> if is_virtual ro name then map Some (scopes ro name) else [None])))"
  by (simp add: router_plan_def Let_def split_beta)

lemma base_agrees:
  "map_option fst (snd (plan_loop digest key (if is_virtual ro name then None else Some name) f r i None
      (if is_virtual ro name then map Some (scopes ro name) else [None]))) =
   (case acquire_base digest ro name key f r of (Inr l, _) \<Rightarrow> Some (rd_backend (rl_decision l)) | (Inl _, _) \<Rightarrow> None)"
proof (cases "is_virtual ro name")
  case True
  let ?c = "cascade_loop (\<lambda>sc. registry_acquire digest key (Some sc) None f) 0 False False (scopes ro name) r"
  obtain res r1 where c: "?c = (res, r1)" by force
  note pl = plan_loop_cascade[where digest = digest and key = key and f = f and i = 0 and sb = False and sf = False
      and scs = "scopes ro name" and r = r, unfolded c]
  have "map_option fst (snd (plan_loop digest key None f r 0 None (map Some (scopes ro name)))) =
      (case acquire_base digest ro name key f r of (Inr l, _) \<Rightarrow> Some (rd_backend (rl_decision l)) | (Inl _, _) \<Rightarrow> None)"
  proof (cases res)
    case (Inl x)
    then show ?thesis using pl True c by (cases x) (simp add: acquire_base_def acquire_virtual_def)
  next
    case (Inr y)
    then show ?thesis using pl True c by (cases y) (simp add: acquire_base_def acquire_virtual_def)
  qed
  moreover have "map_option fst (snd (plan_loop digest key None f r i None (map Some (scopes ro name)))) =
      map_option fst (snd (plan_loop digest key None f r 0 None (map Some (scopes ro name))))"
    by (rule plan_loop_shift)
  ultimately show ?thesis using True by simp
next
  case False
  obtain res r1 where a: "registry_acquire digest key None (Some name) f r = (res, r1)" by force
  show ?thesis
  proof (cases res)
    case (Inr l)
    then obtain e where "select digest key None (Some name) f r = Some e" "be_name e = rd_backend (rl_decision l)"
      using acquire_select_name a by fastforce
    then show ?thesis using a Inr False by (simp add: acquire_base_def plan_loop_Cons_Some del: plan_loop.simps)
  next
    case (Inl e)
    then have "select digest key None (Some name) f r = None" using a refused_select by blast
    then show ?thesis using a Inl False by (simp add: acquire_base_def)
  qed
qed

section \<open>Properties of the router\<close>

text \<open>
  C27. The dry run tells the truth. For every model name, prefix key and feature set, the
  backend the plan names is the one an acquisition at the same moment reserves, and the plan
  names none exactly when the acquisition is refused.
\<close>

theorem plan_agrees_with_acquire:
  "rp_chosen (router_plan digest ro name key f r) =
     (case router_acquire digest ro name key f r of
        (Inr l, _) \<Rightarrow> Some (rd_backend (rl_decision l))
      | (Inl _, _) \<Rightarrow> None)"
proof (cases "matching_workload_rule ro name f")
  case None
  then show ?thesis unfolding plan_chosen using base_agrees[of digest key ro name f r 0] by (simp add: router_acquire_def)
next
  case (Some w)
  note nv = rule_not_virtual[OF Some]
  let ?sc = "Some (wr_preferred_backends w)"
  obtain res r1 where a: "registry_acquire digest key ?sc (Some name) f r = (res, r1)" by force
  show ?thesis
  proof (cases res)
    case (Inr l)
    then obtain e where "select digest key ?sc (Some name) f r = Some e" "be_name e = rd_backend (rl_decision l)"
      using acquire_select_name a by fastforce
    then show ?thesis unfolding plan_chosen using Some nv a Inr
      by (simp add: router_acquire_def plan_loop_Cons_Some del: plan_loop.simps)
  next
    case (Inl e)
    then have n: "select digest key ?sc (Some name) f r = None" and r1: "r1 = r"
      using a refused_select registry_acquire_refused by blast+
    show ?thesis unfolding plan_chosen using Some nv a Inl r1 base_agrees[of digest key ro name f r "Suc 0"]
      by (simp add: router_acquire_def plan_loop_Cons_None[OF n] del: plan_loop.simps)
  qed
qed

text \<open>
  A cascade serves from its first available step. A request for a virtual model that is
  served is placed by the first step whose backends can take it, recorded as its step, and
  every earlier step was refused; a request that no step takes leaves the registry unchanged
  and is reported as busy if some step was busy, else as lacking a feature if some step
  lacked it, else as unloaded.
\<close>

theorem cascade_first_available:
  assumes "is_virtual ro name"
  shows "case router_acquire digest ro name key f r of
      (Inr l, r') \<Rightarrow> (\<exists>i l0. i < length (scopes ro name) \<and> rd_step (rl_decision l) = Some i \<and> rl_entry l = rl_entry l0 \<and>
         registry_acquire digest key (Some (scopes ro name ! i)) None f r = (Inr l0, r') \<and>
         (\<forall>j<i. \<exists>e. registry_acquire digest key (Some (scopes ro name ! j)) None f r = (Inl e, r)))
    | (Inl e, r') \<Rightarrow> r' = r \<and>
        (\<forall>sc\<in>set (scopes ro name). \<exists>e. registry_acquire digest key (Some sc) None f r = (Inl e, r)) \<and>
        e = (if \<exists>sc\<in>set (scopes ro name). fst (registry_acquire digest key (Some sc) None f r) = Inl (NoBackendAvailable ''busy'')
             then NoBackendAvailable ''busy''
             else if \<exists>sc\<in>set (scopes ro name). \<exists>fs m. fst (registry_acquire digest key (Some sc) None f r) = Inl (FeatureUnsupported fs m)
             then FeatureUnsupported f (Some name) else NoBackendAvailable ''unloaded'')"
proof -
  let ?acq = "\<lambda>sc. registry_acquire digest key (Some sc) None f"
  have nr: "matching_workload_rule ro name f = None" using assms by (simp add: matching_workload_rule_def)
  obtain res r1 where c: "cascade_loop ?acq 0 False False (scopes ro name) r = (res, r1)" by force
  show ?thesis
  proof (cases res)
    case (Inr lk)
    then obtain l k where lk: "res = Inr (l, k)" by (cases lk) auto
    have "k < length (scopes ro name)" "?acq (scopes ro name ! k) r = (Inr l, r1)"
      "\<forall>j<k. \<exists>e. ?acq (scopes ro name ! j) r = (Inl e, r)"
      using reg_cascade.cascade_served[OF c[unfolded lk]] by auto
    then show ?thesis using c lk nr assms
      by (simp add: router_acquire_def acquire_base_def acquire_virtual_def)
  next
    case (Inl bf)
    then obtain b' f' where bf: "res = Inl (b', f')" by (cases bf) auto
    note fl = reg_cascade.cascade_failed[OF c[unfolded bf]]
    then show ?thesis using c bf nr assms
      by (simp add: router_acquire_def acquire_base_def acquire_virtual_def)
  qed
qed

definition sample_router :: router where
  "sample_router = router_init [\<lparr>vm_name = ''auto'', vm_policy = ''cascade'', vm_steps = [[''x''], [''a'']]\<rparr>] [] False"

theorem cascade_first_available_witness:
  "\<exists>l r'. router_acquire (\<lambda>_. 0) sample_router ''auto'' None [] sample_registry = (Inr l, r') \<and> rd_step (rl_decision l) = Some 1"
proof -
  have v: "is_virtual sample_router ''auto''" by (simp add: is_virtual_def sample_router_def router_init_def)
  have "\<exists>l r'. router_acquire (\<lambda>_. 0) sample_router ''auto'' None [] sample_registry = (Inr l, r')"
    by (simp add: router_acquire_def matching_workload_rule_def is_virtual_def acquire_base_def acquire_virtual_def scopes_def
        sample_router_def router_init_def sample_registry_defs refusal_def)
  then obtain l r' where r: "router_acquire (\<lambda>_. 0) sample_router ''auto'' None [] sample_registry = (Inr l, r')" by blast
  have s: "scopes sample_router ''auto'' = [[''x''], [''a'']]" by (simp add: scopes_def sample_router_def router_init_def)
  have x: "\<not> (\<exists>l r'. registry_acquire (\<lambda>_. 0) None (Some [''x'']) None [] sample_registry = (Inr l, r'))"
    by (simp add: sample_registry_defs)
  obtain i l0 where "i < 2" "rd_step (rl_decision l) = Some i"
      "registry_acquire (\<lambda>_. 0) None (Some ([[''x''], [''a'']] ! i)) None [] sample_registry = (Inr l0, r')"
    using cascade_first_available[OF v, where digest = "\<lambda>_. 0" and key = None and f = "[]" and r = sample_registry]
    unfolding r s by auto
  moreover from this x have "i \<noteq> 0" by (metis nth_Cons_0)
  ultimately have "rd_step (rl_decision l) = Some 1" by (simp add: less_2_cases_iff)
  then show ?thesis using r by blast
qed

end
