(* ===== verification/Audit_Log.thy ===== *)
theory Audit_Log
  imports PyString
begin

text \<open>
  The hash-chained audit log (\<open>engine/audit/log.py\<close>). The table is the list of its rows in id
  order. SHA-256 in hex, JSON quoting of a string, the compact JSON of a detail dictionary and
  the JSON reader and writer of the detail column are arguments (\<open>codec\<close>); the detail column
  is kept as the text that is stored, so that a row whose detail is not JSON is a state of the
  model. \<open>record\<close> reads the last hash and inserts in two separate statements, with no
  transaction around them: \<open>last_hash\<close> and \<open>insert_event\<close>.
\<close>

record 'd codec =
  sha256 :: "string \<Rightarrow> string"
  quote :: "string \<Rightarrow> string"
  dumps_compact :: "'d \<Rightarrow> string"
  dumps :: "'d \<Rightarrow> string"
  loads :: "string \<Rightarrow> 'd option"

definition GENESIS_HASH :: string where
  "GENESIS_HASH = replicate 64 (CHR ''0'')"

text \<open>\<open>json.dumps(payload, sort_keys=True, separators=(",", ":"))\<close>\<close>

definition canonical :: "'d codec \<Rightarrow> string \<Rightarrow> string \<Rightarrow> string \<Rightarrow> string option \<Rightarrow> 'd \<Rightarrow> string" where
  "canonical c ts actor act target detail =
     ''{'' @ quote c ''action'' @ '':'' @ quote c act @ '','' @ quote c ''actor'' @ '':'' @ quote c actor @
     '','' @ quote c ''detail'' @ '':'' @ dumps_compact c detail @
     '','' @ quote c ''target'' @ '':'' @ (case target of None \<Rightarrow> ''null'' | Some t \<Rightarrow> quote c t) @
     '','' @ quote c ''ts'' @ '':'' @ quote c ts @ ''}''"

definition row_hash :: "'d codec \<Rightarrow> string \<Rightarrow> string \<Rightarrow> string" where
  "row_hash c prev_hash canon = sha256 c (prev_hash @ canon)"

record audit_row =
  au_id :: nat
  au_ts :: string
  au_actor :: string
  au_action :: string
  au_target :: "string option"
  au_detail :: string
  au_prev_hash :: string
  au_hash :: string

record 'd audit_event =
  ae_id :: nat
  ae_ts :: string
  ae_actor :: string
  ae_action :: string
  ae_target :: "string option"
  ae_detail :: 'd
  ae_prev_hash :: string
  ae_hash :: string

record verify_result =
  vr_ok :: bool
  vr_count :: nat
  vr_first_bad_id :: "nat option"

definition last_hash :: "audit_row list \<Rightarrow> string" where
  "last_hash t = (if t = [] then GENESIS_HASH else au_hash (last t))"

definition insert_event ::
  "'d codec \<Rightarrow> nat \<Rightarrow> string \<Rightarrow> string \<Rightarrow> string \<Rightarrow> string \<Rightarrow> string option \<Rightarrow> 'd \<Rightarrow> audit_row list \<Rightarrow> 'd audit_event \<times> audit_row list" where
  "insert_event c new_id prev_hash ts act actor target detail t =
     (let h = row_hash c prev_hash (canonical c ts actor act target detail)
      in (\<lparr>ae_id = new_id, ae_ts = ts, ae_actor = actor, ae_action = act, ae_target = target, ae_detail = detail,
           ae_prev_hash = prev_hash, ae_hash = h\<rparr>,
          t @ [\<lparr>au_id = new_id, au_ts = ts, au_actor = actor, au_action = act, au_target = target,
                au_detail = dumps c detail, au_prev_hash = prev_hash, au_hash = h\<rparr>]))"

text \<open>\<open>new_id\<close> is the AUTOINCREMENT id; a missing detail is the empty dictionary \<open>empty_detail\<close>.\<close>

definition record_event ::
  "'d codec \<Rightarrow> 'd \<Rightarrow> nat \<Rightarrow> string \<Rightarrow> string \<Rightarrow> string \<Rightarrow> string option \<Rightarrow> 'd option \<Rightarrow> audit_row list
    \<Rightarrow> 'd audit_event \<times> audit_row list" where
  "record_event c empty_detail new_id ts act actor target detail t =
     insert_event c new_id (last_hash t) ts act actor target (case detail of None \<Rightarrow> empty_detail | Some d \<Rightarrow> d) t"

text \<open>Reading a row back; \<open>None\<close> is the \<open>JSONDecodeError\<close> of a detail that is not JSON.\<close>

definition event_of_row :: "'d codec \<Rightarrow> audit_row \<Rightarrow> 'd audit_event option" where
  "event_of_row c r = map_option (\<lambda>d.
     \<lparr>ae_id = au_id r, ae_ts = au_ts r, ae_actor = au_actor r, ae_action = au_action r, ae_target = au_target r,
      ae_detail = d, ae_prev_hash = au_prev_hash r, ae_hash = au_hash r\<rparr>) (loads c (au_detail r))"

definition list_events :: "'d codec \<Rightarrow> int \<Rightarrow> audit_row list \<Rightarrow> 'd audit_event list option" where
  "list_events c lim_rows t = those (map (event_of_row c) (sql_limit lim_rows (order_by_desc au_id t)))"

text \<open>The loop of \<open>verify\<close>; \<open>None\<close> is the exception of an undecodable detail.\<close>

fun verify_rows :: "'d codec \<Rightarrow> string \<Rightarrow> nat \<Rightarrow> audit_row list \<Rightarrow> verify_result option" where
  "verify_rows c prev count [] = Some \<lparr>vr_ok = True, vr_count = count, vr_first_bad_id = None\<rparr>"
| "verify_rows c prev count (r # rows) =
     (case loads c (au_detail r) of
        None \<Rightarrow> None
      | Some d \<Rightarrow>
          let expected = row_hash c prev (canonical c (au_ts r) (au_actor r) (au_action r) (au_target r) d)
          in if au_prev_hash r \<noteq> prev \<or> au_hash r \<noteq> expected
             then Some \<lparr>vr_ok = False, vr_count = Suc count, vr_first_bad_id = Some (au_id r)\<rparr>
             else verify_rows c (au_hash r) (Suc count) rows)"

definition verify_log :: "'d codec \<Rightarrow> audit_row list \<Rightarrow> verify_result option" where
  "verify_log c t = verify_rows c GENESIS_HASH 0 t"

section \<open>The chain\<close>

text \<open>The reference notion: every row commits to its predecessor and its own content.\<close>

definition row_canonical :: "'d codec \<Rightarrow> audit_row \<Rightarrow> string option" where
  "row_canonical c r = map_option (canonical c (au_ts r) (au_actor r) (au_action r) (au_target r)) (loads c (au_detail r))"

definition links :: "'d codec \<Rightarrow> string \<Rightarrow> audit_row \<Rightarrow> bool" where
  "links c prev r \<longleftrightarrow> au_prev_hash r = prev \<and> (\<exists>k. row_canonical c r = Some k \<and> au_hash r = sha256 c (prev @ k))"

fun chain :: "'d codec \<Rightarrow> string \<Rightarrow> audit_row list \<Rightarrow> bool" where
  "chain c prev [] = True"
| "chain c prev (r # rows) = (links c prev r \<and> chain c (au_hash r) rows)"

lemma verify_rows_ok:
  "verify_rows c prev n rows = Some \<lparr>vr_ok = True, vr_count = m, vr_first_bad_id = b\<rparr> \<longleftrightarrow>
     chain c prev rows \<and> m = n + length rows \<and> b = None"
proof (induction rows arbitrary: prev n)
  case Nil
  then show ?case by auto
next
  case (Cons r rows)
  show ?case
    by (cases "loads c (au_detail r)") (auto simp: Cons links_def row_canonical_def row_hash_def Let_def)
qed

text \<open>A log verifies when \<open>verify\<close> returns with \<open>ok\<close>.\<close>

definition verifies :: "'d codec \<Rightarrow> audit_row list \<Rightarrow> bool" where
  "verifies c t \<longleftrightarrow> (case verify_log c t of Some v \<Rightarrow> vr_ok v | None \<Rightarrow> False)"

lemma verifies_chain: "verifies c t \<longleftrightarrow> chain c GENESIS_HASH t"
proof
  assume "verifies c t"
  then obtain v where v: "verify_rows c GENESIS_HASH 0 t = Some v" "vr_ok v"
    by (auto simp: verifies_def verify_log_def split: option.splits)
  then have "v = \<lparr>vr_ok = True, vr_count = vr_count v, vr_first_bad_id = vr_first_bad_id v\<rparr>" by simp
  then show "chain c GENESIS_HASH t" using v(1) verify_rows_ok by metis
next
  assume "chain c GENESIS_HASH t"
  then have "verify_rows c GENESIS_HASH 0 t = Some \<lparr>vr_ok = True, vr_count = length t, vr_first_bad_id = None\<rparr>"
    by (simp add: verify_rows_ok)
  then show "verifies c t" by (simp add: verifies_def verify_log_def)
qed

lemma chain_append: "chain c prev (s @ t) \<longleftrightarrow> chain c prev s \<and> chain c (if s = [] then prev else au_hash (last s)) t"
  by (induction s arbitrary: prev) auto

text \<open>Two chains that end in the same hash agree row by row, or exhibit a collision.\<close>

definition content :: "'d codec \<Rightarrow> audit_row \<Rightarrow> string \<times> string option \<times> string" where
  "content c r = (au_prev_hash r, row_canonical c r, au_hash r)"

definition hashed :: "'d codec \<Rightarrow> audit_row list \<Rightarrow> string set" where
  "hashed c t = {au_prev_hash r @ k | r k. r \<in> set t \<and> row_canonical c r = Some k}"

definition collision :: "'d codec \<Rightarrow> string set \<Rightarrow> bool" where
  "collision c X \<longleftrightarrow> (\<exists>x\<in>X. \<exists>y\<in>X. x \<noteq> y \<and> sha256 c x = sha256 c y) \<or> (\<exists>x\<in>X. sha256 c x = GENESIS_HASH)"

lemma hashed_snoc: "row_canonical c r = Some k \<Longrightarrow> hashed c (t @ [r]) = insert (au_prev_hash r @ k) (hashed c t)"
  by (auto simp: hashed_def)

lemma collision_mono: "collision c X \<Longrightarrow> X \<subseteq> Y \<Longrightarrow> collision c Y"
  by (auto simp: collision_def)

lemma last_hash_length:
  assumes "\<forall>x. length (sha256 c x) = 64" and "chain c GENESIS_HASH u"
  shows "length (last_hash u) = 64"
proof (cases u rule: rev_cases)
  case Nil
  then show ?thesis by (simp add: last_hash_def GENESIS_HASH_def)
next
  case (snoc v x)
  then obtain k where "au_hash x = sha256 c k" using assms(2) by (auto simp: chain_append links_def)
  then show ?thesis using snoc assms(1) by (simp add: last_hash_def)
qed

lemma chain_snoc:
  assumes "chain c GENESIS_HASH (t @ [r])"
  obtains k where "chain c GENESIS_HASH t" "row_canonical c r = Some k" "au_prev_hash r = last_hash t"
    "au_hash r = sha256 c (last_hash t @ k)" "hashed c (t @ [r]) = insert (last_hash t @ k) (hashed c t)"
  using assms hashed_snoc[of c r] by (auto simp: chain_append links_def last_hash_def split: if_splits)

lemma chains_agree:
  assumes "\<forall>x. length (sha256 c x) = 64"
    and "chain c GENESIS_HASH s" and "chain c GENESIS_HASH t" and "last_hash s = last_hash t"
  shows "map (content c) s = map (content c) t \<or> collision c (hashed c s \<union> hashed c t)"
  using assms(2-4)
proof (induction s arbitrary: t rule: rev_induct)
  case Nil
  show ?case
  proof (cases t rule: rev_cases)
    case (snoc t' r)
    obtain k where k: "au_hash r = sha256 c (last_hash t' @ k)" "hashed c t = insert (last_hash t' @ k) (hashed c t')"
      using Nil.prems(2) unfolding snoc by (rule chain_snoc) blast
    moreover have "au_hash r = GENESIS_HASH" using Nil.prems(3) snoc by (simp add: last_hash_def)
    ultimately have "sha256 c (last_hash t' @ k) = GENESIS_HASH" "last_hash t' @ k \<in> hashed c t" by simp_all
    then show ?thesis by (auto simp: collision_def)
  qed simp
next
  case (snoc r s)
  obtain k where k: "chain c GENESIS_HASH s" "row_canonical c r = Some k" "au_prev_hash r = last_hash s"
    "au_hash r = sha256 c (last_hash s @ k)" "hashed c (s @ [r]) = insert (last_hash s @ k) (hashed c s)"
    using chain_snoc[OF snoc.prems(1)] by metis
  show ?case
  proof (cases t rule: rev_cases)
    case Nil
    then have "sha256 c (last_hash s @ k) = GENESIS_HASH" using k snoc.prems(3) by (simp add: last_hash_def)
    then show ?thesis using k(5) by (auto simp: collision_def)
  next
    case t: (snoc t' r')
    obtain k' where k': "chain c GENESIS_HASH t'" "row_canonical c r' = Some k'" "au_prev_hash r' = last_hash t'"
      "au_hash r' = sha256 c (last_hash t' @ k')" "hashed c t = insert (last_hash t' @ k') (hashed c t')"
      using chain_snoc[of c t' r'] snoc.prems(2) t by metis
    have same: "au_hash r = au_hash r'" using snoc.prems(3) t by (simp add: last_hash_def)
    show ?thesis
    proof (cases "last_hash s @ k = last_hash t' @ k'")
      case False
      then show ?thesis using same k(4,5) k'(4,5) by (auto simp: collision_def)
    next
      case True
      then have e: "last_hash s = last_hash t'" "k = k'"
        using last_hash_length[OF assms(1) k(1)] last_hash_length[OF assms(1) k'(1)] by (simp_all add: append_eq_append_conv)
      have sub: "hashed c s \<union> hashed c t' \<subseteq> hashed c (s @ [r]) \<union> hashed c t" using k(5) k'(5) by auto
      from snoc.IH[OF k(1) k'(1) e(1)] show ?thesis
      proof
        assume "map (content c) s = map (content c) t'"
        moreover have "content c r = content c r'" using k k' same e by (simp add: content_def)
        ultimately show ?thesis using t by simp
      next
        assume "collision c (hashed c s \<union> hashed c t')"
        then show ?thesis using collision_mono[OF _ sub] by blast
      qed
    qed
  qed
qed

section \<open>Properties of the audit log\<close>

text \<open>
  Recording extends the chain. Appending an event to a log that verifies gives a log that
  verifies, with one more row, whose earlier rows are untouched; the returned event is the
  stored one. The JSON writer and reader of the detail column are inverse.
\<close>

theorem audit_record_extends:
  assumes "verifies c t" and "\<forall>d. loads c (dumps c d) = Some d"
    and "record_event c e0 i ts act actor tgt detail t = (ev, t')"
  shows "verify_log c t' = Some \<lparr>vr_ok = True, vr_count = Suc (length t), vr_first_bad_id = None\<rparr> \<and>
    take (length t) t' = t \<and> length t' = Suc (length t) \<and> event_of_row c (last t') = Some ev"
proof -
  have t: "chain c GENESIS_HASH t" using assms(1) by (simp add: verifies_chain)
  let ?d = "case detail of None \<Rightarrow> e0 | Some d \<Rightarrow> d"
  obtain r where t': "t' = t @ [r]" and l: "links c (last_hash t) r" and ev: "event_of_row c r = Some ev"
    using assms(2,3)
    by (auto simp: record_event_def insert_event_def Let_def links_def row_canonical_def row_hash_def event_of_row_def)
  have "chain c GENESIS_HASH t'" using t l by (simp add: t' chain_append last_hash_def)
  then have "verify_log c t' = Some \<lparr>vr_ok = True, vr_count = length t', vr_first_bad_id = None\<rparr>"
    by (simp add: verify_log_def verify_rows_ok)
  then show ?thesis using ev by (simp add: t')
qed


text \<open>
  Truncation goes unnoticed by the chain alone: every prefix of a log that verifies
  verifies too, so deleting the newest events is not detected.
\<close>

theorem audit_truncation_verifies:
  assumes "verifies c t"
  shows "verifies c (take n t)"
proof -
  have "chain c GENESIS_HASH (take n t @ drop n t)" using assms by (simp add: verifies_chain)
  then show ?thesis unfolding chain_append by (simp add: verifies_chain)
qed

text \<open>
  Concurrent records break the chain. If two calls of \<open>record\<close> both read the last hash
  before either inserts, the log no longer verifies: the second of the two rows is reported
  as the first bad one, though nobody tampered with the log. (The hash is not a fixed point
  of the first row's content.)
\<close>

theorem audit_concurrent_records_break:
  assumes "verifies c t" and "\<forall>d. loads c (dumps c d) = Some d"
    and "insert_event c i1 (last_hash t) ts1 act1 actor1 tgt1 d1 t = (ev1, t1)"
    and "insert_event c i2 (last_hash t) ts2 act2 actor2 tgt2 d2 t1 = (ev2, t2)"
    and "ae_hash ev1 \<noteq> last_hash t"
  shows "verify_log c t2 = Some \<lparr>vr_ok = False, vr_count = length t + 2, vr_first_bad_id = Some i2\<rparr>"
proof -
  have t: "chain c GENESIS_HASH t" using assms(1) by (simp add: verifies_chain)
  have run: "verify_rows c prev n (u @ v) = verify_rows c (if u = [] then prev else au_hash (last u)) (n + length u) v"
    if "chain c prev u" for u v prev n
    using that
  proof (induction u arbitrary: prev n)
    case (Cons r u)
    then show ?case by (auto simp: links_def row_canonical_def row_hash_def)
  qed simp
  obtain r1 r2 where "t2 = t @ [r1, r2]" and r1: "links c (last_hash t) r1" "au_hash r1 = ae_hash ev1"
    and r2: "au_prev_hash r2 = last_hash t" "au_id r2 = i2" "loads c (au_detail r2) = Some d2"
    using assms(2-4)
    by (auto simp: insert_event_def Let_def links_def row_canonical_def row_hash_def)
  then have t2: "t2 = (t @ [r1]) @ [r2]" by simp
  have "chain c GENESIS_HASH (t @ [r1])" using t r1(1) by (simp add: chain_append last_hash_def)
  from run[OF this, of 0 "[r2]"] show ?thesis
    using r1(2) r2 assms(5) by (simp add: verify_log_def t2)
qed

section \<open>Witnesses\<close>

text \<open>A codec to run the log with: details are strings stored as they are.\<close>

definition sample_codec :: "string codec" where
  "sample_codec = \<lparr>sha256 = (\<lambda>x. replicate 64 (CHR ''a'')), quote = (\<lambda>s. s), dumps_compact = (\<lambda>d. d), dumps = (\<lambda>d. d),
     loads = Some\<rparr>"

lemma sample_empty_ok: "verifies sample_codec []"
  by (simp add: verifies_chain)

theorem audit_record_extends_witness:
  "verify_log sample_codec (snd (record_event sample_codec [] 1 ''t'' ''key.create'' ''cli'' None None []))
     = Some \<lparr>vr_ok = True, vr_count = 1, vr_first_bad_id = None\<rparr>"
  using audit_record_extends[OF sample_empty_ok, of "[]" 1 "''t''" "''key.create''" "''cli''" None None]
  by (simp add: sample_codec_def split: prod.splits) (metis prod.collapse)


theorem audit_truncation_verifies_witness:
  "verifies sample_codec (take 0 [])"
  using audit_truncation_verifies[OF sample_empty_ok, of 0] by simp

theorem audit_concurrent_records_break_witness:
  "\<exists>t2. verify_log sample_codec t2 = Some \<lparr>vr_ok = False, vr_count = 2, vr_first_bad_id = Some 2\<rparr>"
proof -
  obtain ev1 t1 where a: "insert_event sample_codec 1 (last_hash []) ''t'' ''x'' ''cli'' None [] [] = (ev1, t1)" by force
  obtain ev2 t2 where b: "insert_event sample_codec 2 (last_hash []) ''t'' ''y'' ''cli'' None [] t1 = (ev2, t2)" by force
  have "ae_hash ev1 \<noteq> last_hash []"
    using a by (auto simp: insert_event_def Let_def row_hash_def sample_codec_def last_hash_def GENESIS_HASH_def)
  moreover have "\<forall>d. loads sample_codec (dumps sample_codec d) = Some d" by (simp add: sample_codec_def)
  ultimately have "verify_log sample_codec t2 = Some \<lparr>vr_ok = False, vr_count = length [] + 2, vr_first_bad_id = Some 2\<rparr>"
    using audit_concurrent_records_break[OF sample_empty_ok _ a b] by simp
  then show ?thesis by (intro exI[of _ t2]) simp
qed

end
