(* ===== verification/Migrations.thy ===== *)
theory Migrations
  imports PyString
begin

text \<open>
  The migration runner (\<open>engine/store/migrations.py\<close>). A migrations directory is the list of its
  files (name and text). Executing the SQL of a migration is an argument: a function on schemas
  that may fail. The explicit \<open>BEGIN ... COMMIT\<close> script makes a migration and its bookkeeping
  row one transaction, rolled back on any error.
\<close>

record 's mig_db =
  md_schema :: 's
  md_versions :: "(string \<times> string) list"

datatype mig_error = BadFilename string | TransactionKeyword string | SqlError string

definition glob_sql :: "(string \<times> string) list \<Rightarrow> (string \<times> string) list" where
  "glob_sql files = sort_key fst (filter (\<lambda>(name, sql). endswith name ''.sql'') files)"

text \<open>\<open>^(\d{4})_.+\.sql$\<close>\<close>

definition match_filename :: "string \<Rightarrow> string option" where
  "match_filename name =
     (if 10 \<le> length name \<and> list_all is_digit (take 4 name) \<and> name ! 4 = CHR ''_'' \<and> endswith name ''.sql''
         \<and> CHR 0x0A \<notin> set name
      then Some (take 4 name) else None)"

fun discover :: "(string \<times> string) list \<Rightarrow> (mig_error, (string \<times> string \<times> string) list) result" where
  "discover [] = Inr []"
| "discover ((name, sql) # files) =
     (case match_filename name of
        None \<Rightarrow> Inl (BadFilename name)
      | Some v \<Rightarrow> (case discover files of Inl e \<Rightarrow> Inl e | Inr found \<Rightarrow> Inr ((v, name, sql) # found)))"

definition discover_migrations :: "(string \<times> string) list \<Rightarrow> (mig_error, (string \<times> string \<times> string) list) result" where
  "discover_migrations files = discover (glob_sql files)"

text \<open>\<open>\b(BEGIN|COMMIT|ROLLBACK)\b\<close>, ignoring case: one of the text's maximal words is a keyword.\<close>

definition is_word :: "char \<Rightarrow> bool" where
  "is_word c \<longleftrightarrow> is_digit c \<or> c = CHR ''_'' \<or> (65 \<le> code c \<and> code c \<le> 90) \<or> (97 \<le> code c \<and> code c \<le> 122) \<or>
     code c \<in> {170, 178, 179, 181, 185, 186, 188, 189, 190} \<or> (192 \<le> code c \<and> code c \<noteq> 215 \<and> code c \<noteq> 247)"

fun words_acc :: "string \<Rightarrow> string \<Rightarrow> string list" where
  "words_acc w [] = [rev w]"
| "words_acc w (c # cs) = (if is_word c then words_acc (c # w) cs else rev w # words_acc [] cs)"

definition has_txn_keyword :: "string \<Rightarrow> bool" where
  "has_txn_keyword sql = list_ex (\<lambda>w. lower w \<in> {''begin'', ''commit'', ''rollback''}) (words_acc [] sql)"

definition applied_versions :: "'s mig_db \<Rightarrow> string list" where
  "applied_versions db = map fst (md_versions db)"

text \<open>One script: the SQL, then the bookkeeping row with its primary key; all or nothing.\<close>

definition run_script ::
  "(string \<Rightarrow> 's \<Rightarrow> 's option) \<Rightarrow> string \<Rightarrow> string \<Rightarrow> string \<Rightarrow> 's mig_db \<Rightarrow> 's mig_db option" where
  "run_script exec version sql applied_at db =
     (case exec sql (md_schema db) of
        None \<Rightarrow> None
      | Some schema \<Rightarrow>
          if version \<in> set (applied_versions db) then None
          else Some \<lparr>md_schema = schema, md_versions = md_versions db @ [(version, applied_at)]\<rparr>)"

text \<open>The loop; \<open>already\<close> is read once before it. \<open>now\<close> gives the clock reading of each pass.\<close>

fun apply_loop ::
  "(string \<Rightarrow> 's \<Rightarrow> 's option) \<Rightarrow> (nat \<Rightarrow> string) \<Rightarrow> string list \<Rightarrow> (string \<times> string \<times> string) list \<Rightarrow> string list \<Rightarrow> 's mig_db
    \<Rightarrow> (mig_error, string list) result \<times> 's mig_db" where
  "apply_loop exec now already [] newly db = (Inr newly, db)"
| "apply_loop exec now already ((v, name, sql) # ms) newly db =
     (if v \<in> set already then apply_loop exec now already ms newly db
      else if has_txn_keyword sql then (Inl (TransactionKeyword name), db)
      else case run_script exec v sql (now (length ms)) db of
          None \<Rightarrow> (Inl (SqlError name), db)
        | Some db' \<Rightarrow> apply_loop exec now already ms (newly @ [v]) db')"

definition apply_migrations ::
  "(string \<Rightarrow> 's \<Rightarrow> 's option) \<Rightarrow> (nat \<Rightarrow> string) \<Rightarrow> (string \<times> string) list \<Rightarrow> 's mig_db
    \<Rightarrow> (mig_error, string list) result \<times> 's mig_db" where
  "apply_migrations exec now files db =
     (case discover_migrations files of
        Inl e \<Rightarrow> (Inl e, db)
      | Inr ms \<Rightarrow> apply_loop exec now (applied_versions db) ms [] db)"

definition migrations_at_head :: "(string \<times> string) list \<Rightarrow> 's mig_db \<Rightarrow> (mig_error, bool) result" where
  "migrations_at_head files db =
     (case discover_migrations files of
        Inl e \<Rightarrow> Inl e
      | Inr ms \<Rightarrow> Inr (set (map fst ms) \<subseteq> set (applied_versions db)))"

section \<open>The reference: applying a list of scripts\<close>

fun exec_all :: "(string \<Rightarrow> 's \<Rightarrow> 's option) \<Rightarrow> string list \<Rightarrow> 's \<Rightarrow> 's option" where
  "exec_all exec [] s = Some s"
| "exec_all exec (sql # sqls) s = (case exec sql s of None \<Rightarrow> None | Some s' \<Rightarrow> exec_all exec sqls s')"

definition pending_of :: "'s mig_db \<Rightarrow> (string \<times> string \<times> string) list \<Rightarrow> (string \<times> string \<times> string) list" where
  "pending_of db ms = filter (\<lambda>(v, _). v \<notin> set (applied_versions db)) ms"

lemma apply_loop_prefix:
  assumes "apply_loop exec now already ms newly db = (r, db')"
  shows "\<exists>did rest. filter (\<lambda>(v, _). v \<notin> set already) ms = did @ rest \<and>
    exec_all exec (map (\<lambda>(v, n, sql). sql) did) (md_schema db) = Some (md_schema db') \<and>
    applied_versions db' = applied_versions db @ map fst did \<and>
    take (length (md_versions db)) (md_versions db') = md_versions db \<and>
    (case r of Inr vs \<Rightarrow> rest = [] \<and> vs = newly @ map fst did | Inl e \<Rightarrow> rest \<noteq> [])"
  using assms
proof (induction ms arbitrary: newly db)
  case Nil
  then show ?case by auto
next
  case (Cons m ms)
  obtain v name sql where m: "m = (v, name, sql)" by (cases m) auto
  consider (skip) "v \<in> set already" | (txn) "v \<notin> set already" "has_txn_keyword sql"
    | (fail) "v \<notin> set already" "\<not> has_txn_keyword sql" "run_script exec v sql (now (length ms)) db = None"
    | (step) db1 where "v \<notin> set already" "\<not> has_txn_keyword sql" "run_script exec v sql (now (length ms)) db = Some db1"
    by fastforce
  then show ?case
  proof cases
    case skip
    then show ?thesis using Cons.IH[of newly db] Cons.prems by (simp add: m)
  next
    case txn
    then show ?thesis using Cons.prems
      by (intro exI[of _ "[]"] exI[of _ "filter (\<lambda>(v, _). v \<notin> set already) (m # ms)"]) (auto simp: m)
  next
    case fail
    then show ?thesis using Cons.prems
      by (intro exI[of _ "[]"] exI[of _ "filter (\<lambda>(v, _). v \<notin> set already) (m # ms)"]) (auto simp: m)
  next
    case (step db1)
    have ex: "exec sql (md_schema db) = Some (md_schema db1)"
      and vs: "md_versions db1 = md_versions db @ [(v, now (length ms))]"
      using step(3) by (auto simp: run_script_def split: option.splits if_splits)
    have "apply_loop exec now already ms (newly @ [v]) db1 = (r, db')" using Cons.prems step by (simp add: m)
    from Cons.IH[OF this] obtain did rest where IH:
      "filter (\<lambda>(v, _). v \<notin> set already) ms = did @ rest"
      "exec_all exec (map (\<lambda>(v, n, sql). sql) did) (md_schema db1) = Some (md_schema db')"
      "applied_versions db' = applied_versions db1 @ map fst did"
      "take (length (md_versions db1)) (md_versions db') = md_versions db1"
      "case r of Inr vs \<Rightarrow> rest = [] \<and> vs = (newly @ [v]) @ map fst did | Inl e \<Rightarrow> rest \<noteq> []"
      by blast
    have "take (length (md_versions db)) (md_versions db') = md_versions db"
      using arg_cong[OF IH(4), of "take (length (md_versions db))"] vs by (simp add: min_def)
    then show ?thesis using IH ex vs step(1)
      by (intro exI[of _ "(v, name, sql) # did"] exI[of _ rest])
        (auto simp: m applied_versions_def split: sum.splits)
  qed
qed

lemma apply_loop_noop:
  "fst ` set ms \<subseteq> set already \<Longrightarrow> apply_loop exec now already ms newly db = (Inr newly, db)"
proof (induction ms arbitrary: newly)
  case (Cons m ms)
  then show ?case by (cases m) auto
qed simp

section \<open>Properties of the migration runner\<close>

text \<open>
  C33. Migrations are applied in order, atomically, and resume. A run applies a prefix of the
  pending migrations: the schema is exactly the result of their scripts in order, exactly
  their versions are recorded after the earlier ones, and a run that fails stopped before a
  pending migration that left no trace. A run that succeeds applied all of them, is at head,
  and a second run applies nothing and changes nothing.
\<close>

theorem migrations_atomic_resumable:
  assumes "discover_migrations files = Inr ms" and "apply_migrations exec now files db = (r, db')"
  shows "\<exists>did rest. pending_of db ms = did @ rest \<and>
    exec_all exec (map (\<lambda>(v, n, sql). sql) did) (md_schema db) = Some (md_schema db') \<and>
    applied_versions db' = applied_versions db @ map fst did \<and>
    take (length (md_versions db)) (md_versions db') = md_versions db \<and>
    (case r of
       Inl e \<Rightarrow> rest \<noteq> []
     | Inr vs \<Rightarrow> rest = [] \<and> vs = map fst did \<and> migrations_at_head files db' = Inr True \<and>
         apply_migrations exec now' files db' = (Inr [], db'))"
proof -
  have "apply_loop exec now (applied_versions db) ms [] db = (r, db')" using assms by (simp add: apply_migrations_def)
  from apply_loop_prefix[OF this] obtain did rest where p:
    "pending_of db ms = did @ rest" "exec_all exec (map (\<lambda>(v, n, sql). sql) did) (md_schema db) = Some (md_schema db')"
    "applied_versions db' = applied_versions db @ map fst did"
    "take (length (md_versions db)) (md_versions db') = md_versions db"
    "case r of Inr vs \<Rightarrow> rest = [] \<and> vs = [] @ map fst did | Inl e \<Rightarrow> rest \<noteq> []"
    unfolding pending_of_def by blast
  have head: "fst ` set ms \<subseteq> set (applied_versions db')" if "rest = []"
  proof
    fix v assume "v \<in> fst ` set ms"
    then obtain n sql where "(v, n, sql) \<in> set ms" by auto
    then have "v \<in> set (applied_versions db) \<or> (v, n, sql) \<in> set (pending_of db ms)" by (auto simp: pending_of_def)
    then show "v \<in> set (applied_versions db')" using p(1,3) that by force
  qed
  show ?thesis
  proof (cases r)
    case (Inl e)
    then show ?thesis using p by (intro exI[of _ "did"] exI[of _ rest]) simp
  next
    case (Inr vs)
    then have "rest = []" "vs = map fst did" using p(5) by auto
    moreover from this have "apply_migrations exec now' files db' = (Inr [], db')"
      using assms(1) head apply_loop_noop[of ms "applied_versions db'"] by (simp add: apply_migrations_def)
    moreover have "migrations_at_head files db' = Inr True"
      using assms(1) head[OF \<open>rest = []\<close>] by (simp add: migrations_at_head_def)
    ultimately show ?thesis using p Inr by (intro exI[of _ "did"] exI[of _ rest]) simp
  qed
qed

theorem migrations_atomic_resumable_witness:
  "\<exists>db'. apply_migrations (\<lambda>sql s. Some (s @ sql)) (\<lambda>_. ''now'') [(''0001_initial.sql'', ''CREATE'')] \<lparr>md_schema = [], md_versions = []\<rparr>
     = (Inr [''0001''], db') \<and> migrations_at_head [(''0001_initial.sql'', ''CREATE'')] db' = Inr True"
proof -
  let ?files = "[(''0001_initial.sql'', ''CREATE'')]"
  let ?db = "\<lparr>md_schema = [], md_versions = []\<rparr> :: string mig_db"
  have d: "discover_migrations ?files = Inr [(''0001'', ''0001_initial.sql'', ''CREATE'')]"
    by (simp add: discover_migrations_def glob_sql_def endswith_def match_filename_def is_digit_def code_def)
  have k: "\<not> has_txn_keyword ''CREATE''" by code_simp
  obtain db' where a: "apply_migrations (\<lambda>sql s. Some (s @ sql)) (\<lambda>_. ''now'') ?files ?db = (Inr [''0001''], db')"
    using d k by (simp add: apply_migrations_def run_script_def applied_versions_def)
  from migrations_atomic_resumable[OF d a, of "\<lambda>_. ''later''"] a show ?thesis by auto
qed

end
