(* ===== verification/Gguf.thy ===== *)
theory Gguf
  imports PyString "HOL-Library.Word"
begin

text \<open>
  The GGUF header reader of \<open>engine/models/gguf.py\<close>, on the bytes of the file.

  A reader takes the open file and the stream position and returns a value with the new
  position, or the exception it raises. Reads past the end come back short (\<open>EOFError\<close>
  from \<open>_read\<close>), seeks past the end succeed up to the largest offset the file system
  accepts (\<open>f_max_off\<close>; beyond it \<open>lseek\<close> fails with \<open>OSError\<close>), and an
  offset that does not fit \<open>off_t\<close> is a \<open>ValueError\<close>. Decoded text is a list of
  code points, with CPython's UTF-8 decoder and \<open>errors="replace"\<close> written out. A
  floating-point value is kept as its IEEE bytes; \<open>str(float)\<close> is the argument
  \<open>float_str\<close>.
\<close>

type_synonym byte = "8 word"
type_synonym utext = "nat list"

definition text_of :: "string \<Rightarrow> utext" where
  "text_of s = map code s"

record gfile =
  f_bytes :: "byte list"
  f_max_off :: nat

datatype gguf_error = EOFError | ValueError | OSError | KeyError

datatype py_value = PyInt int | PyBool bool | PyFloat "byte list" | PyStr utext

record gguf_info =
  gi_valid :: bool
  gi_arch :: "utext option"
  gi_name :: "utext option"
  gi_quant :: "string option"
  gi_context_length :: "int option"

definition invalid_info :: gguf_info where
  "invalid_info = \<lparr>gi_valid = False, gi_arch = None, gi_name = None, gi_quant = None, gi_context_length = None\<rparr>"

section \<open>Tables\<close>

definition GGUF_MAGIC :: "byte list" where
  "GGUF_MAGIC = [0x47, 0x47, 0x55, 0x46]"

definition T_STRING :: nat where "T_STRING = 8"

definition T_ARRAY :: nat where "T_ARRAY = 9"

text \<open>The sizes in \<open>_SCALAR\<close>.\<close>

definition scalar_size :: "nat \<Rightarrow> nat option" where
  "scalar_size t =
     (if t \<in> {0, 1, 7} then Some 1 else if t \<in> {2, 3} then Some 2 else if t \<in> {4, 5, 6} then Some 4
      else if t \<in> {10, 11, 12} then Some 8 else None)"

definition ftype_quant :: "int \<Rightarrow> string option" where
  "ftype_quant = map_of
     [(0, ''F32''), (1, ''F16''), (2, ''Q4_0''), (3, ''Q4_1''), (7, ''Q8_0''), (8, ''Q5_0''), (9, ''Q5_1''),
      (10, ''Q2_K''), (11, ''Q3_K_S''), (12, ''Q3_K_M''), (13, ''Q3_K_L''), (14, ''Q4_K_S''), (15, ''Q4_K_M''),
      (16, ''Q5_K_S''), (17, ''Q5_K_M''), (18, ''Q6_K''), (19, ''IQ2_XXS''), (20, ''IQ2_XS''), (23, ''IQ3_XXS'')]"

section \<open>Bytes\<close>

text \<open>\<open>struct.unpack\<close> with the little-endian formats.\<close>

fun le_nat :: "byte list \<Rightarrow> nat" where
  "le_nat [] = 0"
| "le_nat (b # bs) = unat b + 256 * le_nat bs"

definition le_int :: "byte list \<Rightarrow> int" where
  "le_int bs = (let n = int (le_nat bs); m = 2 ^ (8 * length bs) in if 2 * n < m then n else n - m)"

definition unpack :: "nat \<Rightarrow> byte list \<Rightarrow> py_value" where
  "unpack t bs =
     (if t \<in> {0, 2, 4, 10} then PyInt (int (le_nat bs))
      else if t \<in> {1, 3, 5, 11} then PyInt (le_int bs)
      else if t = 7 then PyBool (le_nat bs \<noteq> 0)
      else PyFloat bs)"

text \<open>\<open>bytes.decode("utf-8", errors="replace")\<close>: one U+FFFD per maximal invalid part.\<close>

definition cont :: "byte \<Rightarrow> bool" where
  "cont b \<longleftrightarrow> 128 \<le> unat b \<and> unat b \<le> 191"

definition second_ok :: "nat \<Rightarrow> byte \<Rightarrow> bool" where
  "second_ok n b \<longleftrightarrow> cont b \<and> (n = 224 \<longrightarrow> 160 \<le> unat b) \<and> (n = 237 \<longrightarrow> unat b \<le> 159)
     \<and> (n = 240 \<longrightarrow> 144 \<le> unat b) \<and> (n = 244 \<longrightarrow> unat b \<le> 143)"

definition low6 :: "byte \<Rightarrow> nat" where
  "low6 b = unat b - 128"

definition REPLACEMENT :: nat where "REPLACEMENT = 65533"

fun utf8_decode :: "byte list \<Rightarrow> utext" where
  "utf8_decode [] = []"
| "utf8_decode (b # bs) =
     (let n = unat b in
      if n < 128 then n # utf8_decode bs
      else if 194 \<le> n \<and> n \<le> 223 then
        (case bs of
           [] \<Rightarrow> [REPLACEMENT]
         | c # cs \<Rightarrow> if cont c then ((n - 192) * 64 + low6 c) # utf8_decode cs else REPLACEMENT # utf8_decode bs)
      else if 224 \<le> n \<and> n \<le> 239 then
        (case bs of
           [] \<Rightarrow> [REPLACEMENT]
         | c # cs \<Rightarrow>
             if \<not> second_ok n c then REPLACEMENT # utf8_decode bs
             else case cs of
                 [] \<Rightarrow> [REPLACEMENT]
               | d # ds \<Rightarrow>
                   if cont d then ((n - 224) * 4096 + low6 c * 64 + low6 d) # utf8_decode ds
                   else REPLACEMENT # utf8_decode cs)
      else if 240 \<le> n \<and> n \<le> 244 then
        (case bs of
           [] \<Rightarrow> [REPLACEMENT]
         | c # cs \<Rightarrow>
             if \<not> second_ok n c then REPLACEMENT # utf8_decode bs
             else case cs of
                 [] \<Rightarrow> [REPLACEMENT]
               | d # ds \<Rightarrow>
                   if \<not> cont d then REPLACEMENT # utf8_decode cs
                   else case ds of
                       [] \<Rightarrow> [REPLACEMENT]
                     | e # es \<Rightarrow>
                         if cont e then ((n - 240) * 262144 + low6 c * 4096 + low6 d * 64 + low6 e) # utf8_decode es
                         else REPLACEMENT # utf8_decode ds)
      else REPLACEMENT # utf8_decode bs)"

section \<open>Readers\<close>

type_synonym 'a reader = "gfile \<Rightarrow> nat \<Rightarrow> (gguf_error, 'a \<times> nat) result"

definition bind_r :: "'a reader \<Rightarrow> ('a \<Rightarrow> 'b reader) \<Rightarrow> 'b reader" where
  "bind_r m k f pos = (case m f pos of Inl e \<Rightarrow> Inl e | Inr (a, pos') \<Rightarrow> k a f pos')"

definition return_r :: "'a \<Rightarrow> 'a reader" where
  "return_r a f pos = Inr (a, pos)"

definition raise_r :: "gguf_error \<Rightarrow> 'a reader" where
  "raise_r e f pos = Inl e"

definition read_bytes :: "nat \<Rightarrow> byte list reader" where
  "read_bytes n f pos =
     (let data = take n (drop pos (f_bytes f))
      in if length data \<noteq> n then Inl EOFError else Inr (data, pos + n))"

text \<open>\<open>fh.seek(n, 1)\<close>\<close>

definition seek :: "nat \<Rightarrow> unit reader" where
  "seek n f pos =
     (if 2 ^ 63 \<le> n then Inl ValueError else if f_max_off f < pos + n then Inl OSError else Inr ((), pos + n))"

definition read_u32 :: "nat reader" where
  "read_u32 = bind_r (read_bytes 4) (\<lambda>bs. return_r (le_nat bs))"

definition read_u64 :: "nat reader" where
  "read_u64 = bind_r (read_bytes 8) (\<lambda>bs. return_r (le_nat bs))"

definition read_scalar :: "nat \<Rightarrow> py_value reader" where
  "read_scalar vtype =
     (case scalar_size vtype of
        None \<Rightarrow> raise_r KeyError
      | Some sz \<Rightarrow> bind_r (read_bytes sz) (\<lambda>bs. return_r (unpack vtype bs)))"

definition MAX_STRING :: nat where "MAX_STRING = 64 * 1024 * 1024"

definition read_string :: "utext reader" where
  "read_string = bind_r read_u64 (\<lambda>len.
     if MAX_STRING < len then raise_r ValueError
     else bind_r (read_bytes len) (\<lambda>bs. return_r (utf8_decode bs)))"

definition skip_string :: "unit reader" where
  "skip_string = bind_r read_u64 seek"

primrec skip_strings :: "nat \<Rightarrow> unit reader" where
  "skip_strings 0 = return_r ()"
| "skip_strings (Suc n) = bind_r skip_string (\<lambda>_. skip_strings n)"

definition skip_array :: "unit reader" where
  "skip_array = bind_r read_u32 (\<lambda>elem_type. bind_r read_u64 (\<lambda>count.
     case scalar_size elem_type of
       Some sz \<Rightarrow> seek (sz * count)
     | None \<Rightarrow> if elem_type = T_STRING then skip_strings count else raise_r ValueError))"

definition skip_value :: "nat \<Rightarrow> unit reader" where
  "skip_value vtype =
     (case scalar_size vtype of
        Some sz \<Rightarrow> seek sz
      | None \<Rightarrow> if vtype = T_STRING then skip_string else if vtype = T_ARRAY then skip_array else raise_r ValueError)"

definition read_scalar_value :: "nat \<Rightarrow> py_value option reader" where
  "read_scalar_value vtype =
     (if scalar_size vtype \<noteq> None then bind_r (read_scalar vtype) (\<lambda>v. return_r (Some v))
      else if vtype = T_STRING then bind_r read_string (\<lambda>s. return_r (Some (PyStr s)))
      else bind_r (skip_value vtype) (\<lambda>_. return_r None))"

section \<open>Quantisation labels in file names\<close>

definition upper_char :: "char \<Rightarrow> char" where
  "upper_char c = (if 97 \<le> code c \<and> code c \<le> 122 then char_of (code c - 32) else c)"

definition alnum :: "char \<Rightarrow> bool" where
  "alnum c \<longleftrightarrow> is_digit c \<or> (65 \<le> code c \<and> code c \<le> 90) \<or> (97 \<le> code c \<and> code c \<le> 122)"

text \<open>\<open>(?:_[0-9A-Za-z]+)*\<close>, greedily: the length of what it consumes.\<close>

function suffixes :: "string \<Rightarrow> nat" where
  "suffixes s =
     (case s of
        [] \<Rightarrow> 0
      | c # cs \<Rightarrow>
          let w = length (takeWhile alnum cs)
          in if c = CHR ''_'' \<and> 0 < w then Suc w + suffixes (drop w cs) else 0)"
  by pat_completeness auto
termination
  by (relation "measure length") auto

declare suffixes.simps [simp del]

text \<open>A literal, ignoring case; and \<open>lit\d+(?:_[0-9A-Za-z]+)*\<close>.\<close>

definition match_lit :: "string \<Rightarrow> string \<Rightarrow> nat option" where
  "match_lit lit s = (if map upper_char (take (length lit) s) = lit then Some (length lit) else None)"

definition match_numbered :: "string \<Rightarrow> string \<Rightarrow> nat option" where
  "match_numbered lit s =
     (case match_lit lit s of
        None \<Rightarrow> None
      | Some n \<Rightarrow>
          let d = length (takeWhile is_digit (drop n s))
          in if d = 0 then None else Some (n + d + suffixes (drop (n + d) s)))"

definition or_else :: "'a option \<Rightarrow> 'a option \<Rightarrow> 'a option" where
  "or_else x y = (case x of None \<Rightarrow> y | Some _ \<Rightarrow> x)"

definition match_quant :: "string \<Rightarrow> nat option" where
  "match_quant s = or_else (match_numbered ''IQ'' s) (or_else (match_numbered ''Q'' s)
     (or_else (match_lit ''BF16'' s) (or_else (match_lit ''F16'' s) (match_lit ''F32'' s))))"

text \<open>\<open>_QUANT_FROM_NAME.findall\<close>: leftmost matches that do not overlap.\<close>

function find_quants :: "string \<Rightarrow> string list" where
  "find_quants s =
     (case s of
        [] \<Rightarrow> []
      | c # cs \<Rightarrow>
          (case match_quant s of
             None \<Rightarrow> find_quants cs
           | Some n \<Rightarrow> if n = 0 then find_quants cs else take n s # find_quants (drop n s)))"
  by pat_completeness auto
termination
  by (relation "measure length") (auto simp: less_Suc_eq_le)

declare find_quants.simps [simp del]

definition quant_from_filename :: "string \<Rightarrow> string option" where
  "quant_from_filename filename =
     (case find_quants filename of [] \<Rightarrow> None | qs \<Rightarrow> Some (map upper_char (last qs)))"

section \<open>The probe\<close>

text \<open>A Python \<open>dict\<close> in insertion order.\<close>

type_synonym wanted = "(utext \<times> py_value) list"

fun dict_set :: "utext \<Rightarrow> py_value \<Rightarrow> wanted \<Rightarrow> wanted" where
  "dict_set k v [] = [(k, v)]"
| "dict_set k v ((k', v') # d) = (if k' = k then (k, v) # d else (k', v') # dict_set k v d)"

definition text_endswith :: "utext \<Rightarrow> utext \<Rightarrow> bool" where
  "text_endswith s p \<longleftrightarrow> length p \<le> length s \<and> drop (length s - length p) s = p"

definition is_context_key :: "utext \<Rightarrow> bool" where
  "is_context_key k \<longleftrightarrow> text_endswith k (text_of ''.context_length'')"

definition of_interest :: "utext \<Rightarrow> bool" where
  "of_interest k \<longleftrightarrow>
     k \<in> {text_of ''general.architecture'', text_of ''general.name'', text_of ''general.file_type''} \<or> is_context_key k"

text \<open>One iteration of the loop over the key/value pairs, and the loop.\<close>

definition read_kv :: "wanted \<Rightarrow> wanted reader" where
  "read_kv w = bind_r read_string (\<lambda>key. bind_r read_u32 (\<lambda>vtype.
     if of_interest key
     then bind_r (read_scalar_value vtype) (\<lambda>v.
            return_r (case v of None \<Rightarrow> w | Some x \<Rightarrow> dict_set key x w))
     else bind_r (skip_value vtype) (\<lambda>_. return_r w)))"

primrec kv_loop :: "nat \<Rightarrow> wanted \<Rightarrow> wanted reader" where
  "kv_loop 0 w = return_r w"
| "kv_loop (Suc n) w = bind_r (read_kv w) (kv_loop n)"

text \<open>\<open>str(v)\<close>, and the test \<open>isinstance(v, int)\<close> with \<open>int(v)\<close>.\<close>

definition py_str :: "(byte list \<Rightarrow> utext) \<Rightarrow> py_value \<Rightarrow> utext" where
  "py_str float_str v =
     (case v of
        PyInt i \<Rightarrow> text_of (str_of_int i)
      | PyBool b \<Rightarrow> text_of (if b then ''True'' else ''False'')
      | PyFloat bs \<Rightarrow> float_str bs
      | PyStr s \<Rightarrow> s)"

definition as_int :: "py_value \<Rightarrow> int option" where
  "as_int v =
     (case v of PyInt i \<Rightarrow> Some i | PyBool b \<Rightarrow> Some (if b then 1 else 0) | PyFloat _ \<Rightarrow> None | PyStr _ \<Rightarrow> None)"

text \<open>What \<open>probe\<close> makes of the collected values.\<close>

definition context_value :: "utext option \<Rightarrow> wanted \<Rightarrow> py_value option" where
  "context_value arch w =
     or_else
       (case arch of
          Some a \<Rightarrow> if a \<noteq> [] then map_of w (a @ text_of ''.context_length'') else None
        | None \<Rightarrow> None)
       (map_option snd (List.find (\<lambda>(k, v). is_context_key k) w))"

definition info_of :: "(byte list \<Rightarrow> utext) \<Rightarrow> string \<Rightarrow> wanted \<Rightarrow> gguf_info" where
  "info_of float_str filename w =
     (let arch = map_option (py_str float_str) (map_of w (text_of ''general.architecture''))
      in \<lparr>gi_valid = True,
          gi_arch = arch,
          gi_name = map_option (py_str float_str) (map_of w (text_of ''general.name'')),
          gi_quant = or_else (Option.bind (Option.bind (map_of w (text_of ''general.file_type'')) as_int) ftype_quant)
                             (quant_from_filename filename),
          gi_context_length = Option.bind (context_value arch w) as_int\<rparr>)"

definition probe_body :: "(byte list \<Rightarrow> utext) \<Rightarrow> string \<Rightarrow> gguf_info reader" where
  "probe_body float_str filename =
     bind_r (read_bytes 4) (\<lambda>magic.
       if magic \<noteq> GGUF_MAGIC then return_r invalid_info
       else bind_r read_u32 (\<lambda>version. bind_r read_u64 (\<lambda>tensor_count. bind_r read_u64 (\<lambda>kv_count.
         bind_r (kv_loop kv_count []) (\<lambda>w. return_r (info_of float_str filename w))))))"

text \<open>The \<open>except\<close> clause; a file that cannot be opened (\<open>None\<close>) is an \<open>OSError\<close>.\<close>

definition caught :: "gguf_error \<Rightarrow> bool" where
  "caught e \<longleftrightarrow> e \<in> {OSError, EOFError, ValueError}"

definition probe :: "(byte list \<Rightarrow> utext) \<Rightarrow> string \<Rightarrow> gfile option \<Rightarrow> (gguf_error, gguf_info) result" where
  "probe float_str filename file =
     (case (case file of None \<Rightarrow> Inl OSError | Some f \<Rightarrow> map_sum id fst (probe_body float_str filename f 0)) of
        Inr info \<Rightarrow> Inr info
      | Inl e \<Rightarrow> if caught e then Inr invalid_info else Inl e)"

section \<open>Laws of the readers\<close>

lemma map_sum_Inl: "map_sum id g r = Inl e \<longleftrightarrow> r = Inl e"
  by (cases r) auto

lemma map_sum_Inr: "map_sum id g r = Inr b \<longleftrightarrow> (\<exists>a. r = Inr a \<and> b = g a)"
  by (cases r) auto

lemma bind_r_Inr: "bind_r m k f p = Inr (b, q) \<longleftrightarrow> (\<exists>a p'. m f p = Inr (a, p') \<and> k a f p' = Inr (b, q))"
  by (auto simp: bind_r_def split: sum.splits)

lemma bind_r_Inl: "bind_r m k f p = Inl e \<longleftrightarrow> m f p = Inl e \<or> (\<exists>a p'. m f p = Inr (a, p') \<and> k a f p' = Inl e)"
  by (auto simp: bind_r_def split: sum.splits)

lemma bind_r_step: "m f p = Inr (a, p') \<Longrightarrow> bind_r m k f p = k a f p'"
  by (simp add: bind_r_def)

lemma return_r_Inr [simp]: "return_r a f p = Inr (b, q) \<longleftrightarrow> a = b \<and> p = q"
  by (simp add: return_r_def)

lemma return_r_Inl [simp]: "return_r a f p \<noteq> Inl e"
  by (simp add: return_r_def)

lemma raise_r_Inr [simp]: "raise_r e f p \<noteq> Inr x"
  by (simp add: raise_r_def)

lemma raise_r_Inl [simp]: "raise_r e f p = Inl e' \<longleftrightarrow> e = e'"
  by (simp add: raise_r_def)

lemma read_bytes_Inr:
  "read_bytes n f p = Inr (bs, q) \<longleftrightarrow> bs = take n (drop p (f_bytes f)) \<and> q = p + n \<and> (n = 0 \<or> p + n \<le> length (f_bytes f))"
  by (auto simp: read_bytes_def Let_def)

lemma seek_Inr: "seek n f p = Inr (u, q) \<Longrightarrow> q = p + n"
  by (auto simp: seek_def split: if_splits)

lemmas reader_Inr = bind_r_Inr read_bytes_Inr read_u32_def read_u64_def read_scalar_def read_string_def skip_string_def
  skip_array_def skip_value_def read_scalar_value_def

text \<open>A reader only moves forward, and raises nothing but what \<open>probe\<close> catches.\<close>

definition forward :: "'a reader \<Rightarrow> bool" where
  "forward m \<longleftrightarrow> (\<forall>f p a q. m f p = Inr (a, q) \<longrightarrow> p \<le> q) \<and> (\<forall>f p e. m f p = Inl e \<longrightarrow> caught e)"

named_theorems forward_intros \<open>readers that only move forward and raise only what is caught\<close>

lemma forward_bind [forward_intros]:
  assumes "forward m" and "\<And>a. forward (k a)"
  shows "forward (bind_r m k)"
  unfolding forward_def
proof (intro conjI allI impI)
  fix f p b q assume "bind_r m k f p = Inr (b, q)"
  then obtain a p' where "m f p = Inr (a, p')" "k a f p' = Inr (b, q)" by (auto simp: bind_r_Inr)
  then have "p \<le> p'" "p' \<le> q" using assms unfolding forward_def by blast+
  then show "p \<le> q" by simp
next
  fix f p e assume "bind_r m k f p = Inl e"
  then show "caught e" using assms unfolding forward_def bind_r_Inl by blast
qed

lemma forward_return [forward_intros]: "forward (return_r a)"
  by (simp add: forward_def)

lemma forward_raise [forward_intros]: "caught e \<Longrightarrow> forward (raise_r e)"
  by (simp add: forward_def)

lemma forward_read_bytes [forward_intros]: "forward (read_bytes n)"
  by (auto simp: forward_def read_bytes_Inr caught_def read_bytes_def Let_def split: if_splits)

lemma forward_seek [forward_intros]: "forward (seek n)"
  by (auto simp: forward_def seek_def caught_def split: if_splits)

lemma caught_simps [simp]: "caught EOFError" "caught ValueError" "caught OSError" "\<not> caught KeyError"
  by (simp_all add: caught_def)

lemma forward_u32 [forward_intros]: "forward read_u32"
  unfolding read_u32_def by (intro forward_intros)

lemma forward_u64 [forward_intros]: "forward read_u64"
  unfolding read_u64_def by (intro forward_intros)

lemma forward_scalar [forward_intros]: "scalar_size t \<noteq> None \<Longrightarrow> forward (read_scalar t)"
  unfolding read_scalar_def by (auto intro!: forward_intros)

lemma forward_string [forward_intros]: "forward read_string"
  unfolding read_string_def by (auto intro!: forward_intros)

lemma forward_skip_string [forward_intros]: "forward skip_string"
  unfolding skip_string_def by (intro forward_intros)

lemma forward_skip_strings [forward_intros]: "forward (skip_strings n)"
  by (induction n) (auto intro!: forward_intros)

lemma forward_skip_array [forward_intros]: "forward skip_array"
  unfolding skip_array_def by (auto intro!: forward_intros split: option.splits)

lemma forward_skip_value [forward_intros]: "forward (skip_value t)"
  unfolding skip_value_def by (auto intro!: forward_intros split: option.splits)

lemma forward_scalar_value [forward_intros]: "forward (read_scalar_value t)"
  unfolding read_scalar_value_def by (auto intro!: forward_intros)

lemma forward_kv [forward_intros]: "forward (read_kv w)"
  unfolding read_kv_def by (auto intro!: forward_intros)

lemma forward_kv_loop [forward_intros]: "forward (kv_loop n w)"
  by (induction n arbitrary: w) (auto intro!: forward_intros)

lemma forward_probe_body: "forward (probe_body fs name)"
  unfolding probe_body_def by (auto intro!: forward_intros)

section \<open>The loop is bounded by the file\<close>

lemma read_u64_Inr: "read_u64 f p = Inr (n, q) \<Longrightarrow> q = p + 8 \<and> p + 8 \<le> length (f_bytes f)"
  by (auto simp: read_u64_def bind_r_Inr read_bytes_Inr)

lemma read_u32_Inr: "read_u32 f p = Inr (n, q) \<Longrightarrow> q = p + 4 \<and> p + 4 \<le> length (f_bytes f)"
  by (auto simp: read_u32_def bind_r_Inr read_bytes_Inr)

lemma read_string_Inr: "read_string f p = Inr (s, q) \<Longrightarrow> p + 8 \<le> q"
  by (auto simp: read_string_def bind_r_Inr read_bytes_Inr dest!: read_u64_Inr split: if_splits)

lemma read_kv_Inr:
  assumes "read_kv w f p = Inr (w', q)"
  shows "p + 12 \<le> q \<and> p + 12 \<le> length (f_bytes f)"
proof -
  obtain key p1 vtype p2 where k: "read_string f p = Inr (key, p1)" "read_u32 f p1 = Inr (vtype, p2)"
    and v: "(if of_interest key
       then bind_r (read_scalar_value vtype) (\<lambda>v. return_r (case v of None \<Rightarrow> w | Some x \<Rightarrow> dict_set key x w))
       else bind_r (skip_value vtype) (\<lambda>_. return_r w)) f p2 = Inr (w', q)"
    using assms by (auto simp: read_kv_def bind_r_Inr)
  have "forward (if of_interest key
       then bind_r (read_scalar_value vtype) (\<lambda>v. return_r (case v of None \<Rightarrow> w | Some x \<Rightarrow> dict_set key x w))
       else bind_r (skip_value vtype) (\<lambda>_. return_r w))"
    by (auto intro!: forward_intros)
  then have "p2 \<le> q" using v unfolding forward_def by blast
  then show ?thesis using read_string_Inr[OF k(1)] read_u32_Inr[OF k(2)] by linarith
qed

lemma kv_loop_Inr: "kv_loop n w f p = Inr (w', q) \<Longrightarrow> 0 < n \<Longrightarrow> p + 12 * n \<le> length (f_bytes f)"
proof (induction n arbitrary: w p)
  case (Suc n)
  then obtain w1 p1 where 1: "read_kv w f p = Inr (w1, p1)" and 2: "kv_loop n w1 f p1 = Inr (w', q)"
    by (auto simp: bind_r_Inr)
  show ?case
  proof (cases "n = 0")
    case True
    then show ?thesis using read_kv_Inr[OF 1] by simp
  next
    case False
    then show ?thesis using read_kv_Inr[OF 1] Suc.IH[OF 2] by simp
  qed
qed simp

lemma kv_loop_fails_early: "kv_loop m w f p = Inl e \<Longrightarrow> m \<le> n \<Longrightarrow> kv_loop n w f p = Inl e"
proof (induction m arbitrary: n w p)
  case (Suc m)
  then obtain n' where "n = Suc n'" "m \<le> n'" by (cases n) auto
  with Suc show ?case by (auto simp: bind_r_Inl)
qed simp

lemma kv_loop_capped:
  assumes "length (f_bytes f) div 12 < n"
  shows "kv_loop n w f p = kv_loop (Suc (length (f_bytes f) div 12)) w f p"
proof -
  let ?m = "Suc (length (f_bytes f) div 12)"
  have "length (f_bytes f) < 12 * ?m" by (metis dividend_less_times_div mult_Suc_right zero_less_numeral)
  then have "\<not> (\<exists>w' q. kv_loop ?m w f p = Inr (w', q))" using kv_loop_Inr[of ?m] by fastforce
  then obtain e where e: "kv_loop ?m w f p = Inl e" by (metis surj_pair sum.exhaust)
  then show ?thesis using kv_loop_fails_early[OF e, of n] assms by simp
qed



section \<open>The format, and reading back what was written\<close>

text \<open>
  The GGUF metadata values as data, and the writer the format documents: the reference the
  reader is compared with.
\<close>

datatype gguf_value =
    GScalar nat "byte list"
  | GString "byte list"
  | GScalarArray nat nat "byte list"
  | GStringArray "byte list list"

fun le_bytes :: "nat \<Rightarrow> nat \<Rightarrow> byte list" where
  "le_bytes 0 n = []"
| "le_bytes (Suc k) n = word_of_nat (n mod 256) # le_bytes k (n div 256)"

definition enc_string :: "byte list \<Rightarrow> byte list" where
  "enc_string s = le_bytes 8 (length s) @ s"

primrec value_type :: "gguf_value \<Rightarrow> nat" where
  "value_type (GScalar t bs) = t"
| "value_type (GString s) = T_STRING"
| "value_type (GScalarArray t n bs) = T_ARRAY"
| "value_type (GStringArray ss) = T_ARRAY"

primrec enc_value :: "gguf_value \<Rightarrow> byte list" where
  "enc_value (GScalar t bs) = bs"
| "enc_value (GString s) = enc_string s"
| "enc_value (GScalarArray t n bs) = le_bytes 4 t @ le_bytes 8 n @ bs"
| "enc_value (GStringArray ss) = le_bytes 4 T_STRING @ le_bytes 8 (length ss) @ concat (map enc_string ss)"

definition enc_kv :: "byte list \<times> gguf_value \<Rightarrow> byte list" where
  "enc_kv kv = enc_string (fst kv) @ le_bytes 4 (value_type (snd kv)) @ enc_value (snd kv)"

definition enc_header :: "nat \<Rightarrow> nat \<Rightarrow> (byte list \<times> gguf_value) list \<Rightarrow> byte list" where
  "enc_header version tensors kvs =
     GGUF_MAGIC @ le_bytes 4 version @ le_bytes 8 tensors @ le_bytes 8 (length kvs) @ concat (map enc_kv kvs)"

text \<open>Values the format allows: sizes that match the type, and strings the reader accepts.\<close>

primrec wf_value :: "gguf_value \<Rightarrow> bool" where
  "wf_value (GScalar t bs) = (scalar_size t = Some (length bs))"
| "wf_value (GString s) = (length s \<le> MAX_STRING)"
| "wf_value (GScalarArray t n bs) = (n < 2 ^ 64 \<and> (case scalar_size t of None \<Rightarrow> False | Some sz \<Rightarrow> length bs = sz * n))"
| "wf_value (GStringArray ss) = (length ss < 2 ^ 64 \<and> (\<forall>s\<in>set ss. length s < 2 ^ 64))"

definition wf_kv :: "byte list \<times> gguf_value \<Rightarrow> bool" where
  "wf_kv kv \<longleftrightarrow> length (fst kv) \<le> MAX_STRING \<and> wf_value (snd kv)"

text \<open>What the header says: the values of the keys of interest, later ones replacing earlier ones.\<close>

primrec scalar_value :: "gguf_value \<Rightarrow> py_value option" where
  "scalar_value (GScalar t bs) = Some (unpack t bs)"
| "scalar_value (GString s) = Some (PyStr (utf8_decode s))"
| "scalar_value (GScalarArray t n bs) = None"
| "scalar_value (GStringArray ss) = None"

definition note_kv :: "wanted \<Rightarrow> byte list \<times> gguf_value \<Rightarrow> wanted" where
  "note_kv w kv =
     (let key = utf8_decode (fst kv)
      in if of_interest key then (case scalar_value (snd kv) of None \<Rightarrow> w | Some x \<Rightarrow> dict_set key x w) else w)"

text \<open>A file as a file system stores it.\<close>

definition regular :: "gfile \<Rightarrow> bool" where
  "regular f \<longleftrightarrow> length (f_bytes f) \<le> f_max_off f \<and> f_max_off f < 2 ^ 63"

definition holds_at :: "gfile \<Rightarrow> nat \<Rightarrow> byte list \<Rightarrow> bool" where
  "holds_at f p bs \<longleftrightarrow> p + length bs \<le> length (f_bytes f) \<and> take (length bs) (drop p (f_bytes f)) = bs"

definition parses :: "'a reader \<Rightarrow> byte list \<Rightarrow> 'a \<Rightarrow> bool" where
  "parses m bs a \<longleftrightarrow> (\<forall>f p. regular f \<longrightarrow> holds_at f p bs \<longrightarrow> m f p = Inr (a, p + length bs))"

named_theorems parses_intros \<open>readers that read back what the format writes\<close>

lemma holds_at_append: "holds_at f p (bs @ cs) \<longleftrightarrow> holds_at f p bs \<and> holds_at f (p + length bs) cs"
  by (auto simp: holds_at_def take_add drop_drop add.commute add.assoc append_eq_append_conv)

lemma parses_bind: "parses m bs a \<Longrightarrow> parses (k a) cs b \<Longrightarrow> parses (bind_r m k) (bs @ cs) b"
  by (auto simp: parses_def bind_r_def holds_at_append add.assoc)

lemma parses_bind_last: "parses m bs a \<Longrightarrow> parses (k a) [] b \<Longrightarrow> parses (bind_r m k) bs b"
  using parses_bind[of m bs a k "[]" b] by simp

lemma parses_return [parses_intros]: "parses (return_r a) [] a"
  by (simp add: parses_def)

lemma parses_read_bytes [parses_intros]: "length bs = n \<Longrightarrow> parses (read_bytes n) bs bs"
  by (auto simp: parses_def holds_at_def read_bytes_def Let_def)

lemma parses_seek [parses_intros]: "length bs = n \<Longrightarrow> parses (seek n) bs ()"
  by (auto simp: parses_def holds_at_def seek_def regular_def)

lemma length_le_bytes [simp]: "length (le_bytes k n) = k"
  by (induction k arbitrary: n) auto

lemma le_nat_le_bytes: "n < 256 ^ k \<Longrightarrow> le_nat (le_bytes k n) = n"
proof (induction k arbitrary: n)
  case (Suc k)
  have "n div 256 < 256 ^ k" using Suc.prems by (simp add: less_mult_imp_div_less mult.commute)
  then have "le_nat (le_bytes k (n div 256)) = n div 256" by (rule Suc.IH)
  moreover have "unat (word_of_nat (n mod 256) :: byte) = n mod 256" by (simp add: unat_of_nat)
  ultimately show ?case by simp
qed simp

lemma parses_u32 [parses_intros]: "n < 2 ^ 32 \<Longrightarrow> parses read_u32 (le_bytes 4 n) n"
  unfolding read_u32_def using le_nat_le_bytes[of n 4]
  by (intro parses_bind_last[OF parses_read_bytes]) (simp_all add: parses_return)

lemma parses_u64 [parses_intros]: "n < 2 ^ 64 \<Longrightarrow> parses read_u64 (le_bytes 8 n) n"
  unfolding read_u64_def using le_nat_le_bytes[of n 8]
  by (intro parses_bind_last[OF parses_read_bytes]) (simp_all add: parses_return)

lemma parses_scalar [parses_intros]:
  "scalar_size t = Some (length bs) \<Longrightarrow> parses (read_scalar t) bs (unpack t bs)"
  unfolding read_scalar_def by (auto intro!: parses_bind_last[OF parses_read_bytes] parses_return)

lemma parses_string [parses_intros]:
  assumes "length s \<le> MAX_STRING"
  shows "parses read_string (enc_string s) (utf8_decode s)"
proof -
  have "length s < 2 ^ 64" using assms by (simp add: MAX_STRING_def)
  then show ?thesis unfolding read_string_def enc_string_def using assms
    by (intro parses_bind[OF parses_u64]) (auto intro!: parses_bind_last[OF parses_read_bytes] parses_return)
qed

lemma parses_skip_string [parses_intros]: "length s < 2 ^ 64 \<Longrightarrow> parses skip_string (enc_string s) ()"
  unfolding skip_string_def enc_string_def by (intro parses_bind[OF parses_u64] parses_seek) auto

lemma parses_skip_strings [parses_intros]:
  "\<forall>s\<in>set ss. length s < 2 ^ 64 \<Longrightarrow> parses (skip_strings (length ss)) (concat (map enc_string ss)) ()"
proof (induction ss)
  case (Cons s ss)
  then have s: "length s < 2 ^ 64" and "parses (skip_strings (length ss)) (concat (map enc_string ss)) ()" by auto
  from parses_bind[OF parses_skip_string[OF s] this(2)] show ?case by simp
qed (simp add: parses_return)

lemma scalar_size_not [simp]: "scalar_size T_STRING = None" "scalar_size T_ARRAY = None" "T_ARRAY \<noteq> T_STRING"
  by (simp_all add: scalar_size_def T_STRING_def T_ARRAY_def)

lemma T_STRING_small: "T_STRING < 4294967296"
  by (simp add: T_STRING_def)

lemma scalar_size_small: "scalar_size t = Some n \<Longrightarrow> t < 2 ^ 32"
  by (auto simp: scalar_size_def split: if_splits)

lemma parses_skip_array_scalar:
  "wf_value (GScalarArray t n bs) \<Longrightarrow> parses skip_array (enc_value (GScalarArray t n bs)) ()"
  unfolding skip_array_def
  by (auto split: option.splits intro!: parses_bind[OF parses_u32] parses_bind[OF parses_u64] parses_seek
      dest: scalar_size_small)

lemma parses_skip_array_string:
  "wf_value (GStringArray ss) \<Longrightarrow> parses skip_array (enc_value (GStringArray ss)) ()"
  unfolding skip_array_def
  by (auto intro!: parses_bind[OF parses_u32] parses_bind[OF parses_u64] parses_skip_strings simp: T_STRING_small)

lemma parses_skip_value [parses_intros]:
  assumes "wf_value v"
  shows "parses (skip_value (value_type v)) (enc_value v) ()"
proof (cases v)
  case (GString s)
  with assms have "length s < 2 ^ 64" by (simp add: MAX_STRING_def)
  then show ?thesis using GString by (simp add: skip_value_def parses_skip_string)
qed (use assms in \<open>auto simp: skip_value_def parses_seek parses_skip_array_scalar parses_skip_array_string
       simp del: enc_value.simps(3,4) wf_value.simps(3,4)\<close>)

lemma parses_scalar_value [parses_intros]:
  assumes "wf_value v"
  shows "parses (read_scalar_value (value_type v)) (enc_value v) (scalar_value v)"
proof (cases v)
  case (GScalar t bs)
  with assms show ?thesis
    by (auto simp: read_scalar_value_def intro!: parses_bind_last[OF parses_scalar] parses_return)
next
  case (GString s)
  with assms show ?thesis
    by (auto simp: read_scalar_value_def intro!: parses_bind_last[OF parses_string] parses_return)
next
  case (GScalarArray t n bs)
  with assms parses_skip_value[OF assms] show ?thesis
    by (auto simp: read_scalar_value_def intro!: parses_bind_last[of _ _ "()"] parses_return)
next
  case (GStringArray ss)
  with assms parses_skip_value[OF assms] show ?thesis
    by (auto simp: read_scalar_value_def intro!: parses_bind_last[of _ _ "()"] parses_return)
qed

lemma value_type_small: "wf_value v \<Longrightarrow> value_type v < 2 ^ 32"
  by (cases v) (auto simp: T_STRING_def T_ARRAY_def dest: scalar_size_small)

lemma parses_kv [parses_intros]:
  assumes "wf_kv kv"
  shows "parses (read_kv w) (enc_kv kv) (note_kv w kv)"
proof -
  obtain k v where kv: "kv = (k, v)" by (cases kv)
  have k: "length k \<le> MAX_STRING" and v: "wf_value v" using assms by (auto simp: wf_kv_def kv)
  have "parses (if of_interest (utf8_decode k)
       then bind_r (read_scalar_value (value_type v)) (\<lambda>x. return_r (case x of None \<Rightarrow> w | Some x \<Rightarrow> dict_set (utf8_decode k) x w))
       else bind_r (skip_value (value_type v)) (\<lambda>_. return_r w)) (enc_value v) (note_kv w kv)"
  proof (cases "of_interest (utf8_decode k)")
    case True
    then show ?thesis using parses_bind_last[OF parses_scalar_value[OF v] parses_return]
      by (simp add: note_kv_def kv Let_def)
  next
    case False
    then show ?thesis using parses_bind_last[OF parses_skip_value[OF v] parses_return]
      by (simp add: note_kv_def kv Let_def)
  qed
  then show ?thesis
    unfolding read_kv_def enc_kv_def kv fst_conv snd_conv
    by (intro parses_bind[OF parses_string[OF k]] parses_bind[OF parses_u32[OF value_type_small[OF v]]])
qed

lemma parses_kv_loop [parses_intros]:
  "\<forall>kv\<in>set kvs. wf_kv kv \<Longrightarrow> parses (kv_loop (length kvs) w) (concat (map enc_kv kvs)) (foldl note_kv w kvs)"
proof (induction kvs arbitrary: w)
  case (Cons kv kvs)
  then have kv: "wf_kv kv" and "parses (kv_loop (length kvs) (note_kv w kv)) (concat (map enc_kv kvs))
      (foldl note_kv (note_kv w kv) kvs)" by auto
  from parses_bind[where m = "read_kv w" and k = "kv_loop (length kvs)", OF parses_kv[OF kv] this(2)] show ?case by simp
qed (simp add: parses_return)

text \<open>The key/value pairs that carry a scalar or string under a key of interest, in file order.\<close>

definition noted :: "(byte list \<times> gguf_value) list \<Rightarrow> wanted" where
  "noted kvs = List.map_filter (\<lambda>(k, v).
     if of_interest (utf8_decode k) then map_option (Pair (utf8_decode k)) (scalar_value v) else None) kvs"

lemma map_of_dict_set: "map_of (dict_set k v w) = (map_of w)(k \<mapsto> v)"
  by (induction k v w rule: dict_set.induct) (auto simp: fun_upd_twist)

lemma map_of_note_kv: "map_of (note_kv w kv) = map_of w ++ map_of (noted [kv])"
  by (cases kv) (auto simp: note_kv_def noted_def List.map_filter_def Let_def map_of_dict_set split: option.splits)

lemma noted_Cons: "noted (kv # kvs) = noted [kv] @ noted kvs"
  by (simp add: noted_def List.map_filter_def)

lemma map_of_noted_single: "map_of (rev (noted [kv])) = map_of (noted [kv])"
  by (cases kv) (auto simp: noted_def List.map_filter_def)

lemma map_of_foldl_note_kv: "map_of (foldl note_kv w kvs) = map_of w ++ map_of (rev (noted kvs))"
proof (induction kvs arbitrary: w)
  case Nil
  then show ?case by (simp add: noted_def List.map_filter_def)
next
  case (Cons kv kvs)
  then show ?case by (subst noted_Cons) (simp add: map_of_note_kv map_of_noted_single map_add_assoc)
qed

text \<open>
  C22. The reader reads the format: of a file that starts with the header of a list of
  well-formed key/value pairs (scalars of every type, strings, arrays of scalars and of
  strings in any order, any bytes after the header), \<open>probe\<close> reports valid and what
  the pairs say. Arrays and keys of no interest are skipped over exactly, and of several
  pairs with the same key the last one counts.
\<close>

theorem gguf_probe_roundtrip:
  assumes "regular f" and "f_bytes f = enc_header version tensors kvs @ rest"
    and "version < 2 ^ 32" and "tensors < 2 ^ 64" and "length kvs < 2 ^ 64" and "\<forall>kv\<in>set kvs. wf_kv kv"
  shows "probe float_str filename (Some f) = Inr (info_of float_str filename (foldl note_kv [] kvs)) \<and>
    map_of (foldl note_kv [] kvs) = map_of (rev (noted kvs))"
proof -
  let ?w = "foldl note_kv [] kvs"
  have "parses (probe_body float_str filename) (enc_header version tensors kvs) (info_of float_str filename ?w)"
    unfolding probe_body_def enc_header_def
    by (rule parses_bind[OF parses_read_bytes], simp add: GGUF_MAGIC_def)
      (use assms(3-6) in \<open>auto intro!: parses_bind[OF parses_u32] parses_bind[OF parses_u64]
         parses_bind_last[OF parses_kv_loop] parses_return\<close>)
  moreover have "holds_at f 0 (enc_header version tensors kvs)" using assms(2) by (simp add: holds_at_def)
  ultimately have "probe_body float_str filename f 0 = Inr (info_of float_str filename ?w, length (enc_header version tensors kvs))"
    using assms(1) unfolding parses_def by fastforce
  then have "probe float_str filename (Some f) = Inr (info_of float_str filename ?w)"
    by (simp add: probe_def)
  then show ?thesis using map_of_foldl_note_kv[of "[]" kvs] by auto
qed

lemma utf8_ascii: "\<forall>b\<in>set bs. unat b < 128 \<Longrightarrow> utf8_decode bs = map unat bs"
  by (induction bs) (auto simp: Let_def)

definition sample_kvs :: "(byte list \<times> gguf_value) list" where
  "sample_kvs = [(map (word_of_nat \<circ> code) ''general.architecture'', GString (map (word_of_nat \<circ> code) ''llama'')),
     (map (word_of_nat \<circ> code) ''tokens'', GStringArray [[], [1, 2]])]"

theorem gguf_probe_roundtrip_witness:
  "probe (\<lambda>_. []) ''m.gguf'' (Some \<lparr>f_bytes = enc_header 3 0 sample_kvs, f_max_off = 2 ^ 62\<rparr>)
     = Inr (info_of (\<lambda>_. []) ''m.gguf'' (foldl note_kv [] sample_kvs)) \<and>
   map_of (foldl note_kv [] sample_kvs) = map_of (rev (noted sample_kvs))"
  by (rule gguf_probe_roundtrip[of _ 3 0 sample_kvs "[]"])
    (auto simp: regular_def enc_header_def sample_kvs_def wf_kv_def enc_kv_def enc_string_def GGUF_MAGIC_def MAX_STRING_def)

end
