(* ===== verification/Model_Registry.thy ===== *)
theory Model_Registry
  imports Gguf
begin

text \<open>
  The model registry of \<open>engine/models/registry.py\<close>: the table \<open>models\<close> with its
  primary key and its partial unique index (at most one row with \<open>active = 1\<close>), and
  every operation of \<open>ModelRegistry\<close>. Text that comes out of a GGUF header (\<open>name\<close>,
  \<open>arch\<close>) is a list of code points. \<open>update(**fields)\<close> takes a list of column
  assignments, for every column but the primary key.
\<close>

definition DOWNLOADING :: string where "DOWNLOADING = ''downloading''"
definition VERIFYING :: string where "VERIFYING = ''verifying''"
definition READY :: string where "READY = ''ready''"
definition ERROR :: string where "ERROR = ''error''"
definition CANCELLED :: string where "CANCELLED = ''cancelled''"

lemmas status_defs = DOWNLOADING_def VERIFYING_def READY_def ERROR_def CANCELLED_def

record model_record =
  mo_id :: string
  mo_name :: utext
  mo_filename :: string
  mo_path :: string
  mo_source_type :: string
  mo_source_ref :: "string option"
  mo_sha256 :: "string option"
  mo_expected_sha256 :: "string option"
  mo_size_bytes :: "int option"
  mo_downloaded_bytes :: int
  mo_quant :: "string option"
  mo_arch :: "utext option"
  mo_context_length :: "int option"
  mo_status :: string
  mo_error :: "string option"
  mo_active :: bool
  mo_added_at :: iso_time
  mo_updated_at :: "iso_time option"

type_synonym models = "model_record list"

definition model_progress :: "model_record \<Rightarrow> real option" where
  "model_progress m =
     (case mo_size_bytes m of
        None \<Rightarrow> None
      | Some n \<Rightarrow> if n = 0 then None else Some (min 1 (of_int (mo_downloaded_bytes m) / of_int n)))"

section \<open>The table's constraints\<close>

definition actives :: "models \<Rightarrow> string list" where
  "actives t = map mo_id (filter mo_active t)"

definition models_ok :: "models \<Rightarrow> bool" where
  "models_ok t \<longleftrightarrow> unique_on mo_id t \<and> length (actives t) \<le> 1"

text \<open>A statement that would break a constraint fails and leaves the table as it was.\<close>

definition checked :: "models \<Rightarrow> models \<Rightarrow> (db_error, models) result" where
  "checked old new = (if models_ok new then Inr new else Inl IntegrityError)"

section \<open>Operations\<close>

definition model_get :: "string \<Rightarrow> models \<Rightarrow> model_record option" where
  "model_get i t = fetchone (\<lambda>m. mo_id m = i) t"

definition insert_model :: "model_record \<Rightarrow> models \<Rightarrow> (db_error, models) result" where
  "insert_model m t =
     (if mo_id m \<in> mo_id ` set t \<or> (mo_active m \<and> actives t \<noteq> []) then Inl IntegrityError else Inr (t @ [m]))"

definition model_create ::
  "string \<Rightarrow> iso_time \<Rightarrow> utext \<Rightarrow> string \<Rightarrow> string \<Rightarrow> string \<Rightarrow> string option \<Rightarrow> string \<Rightarrow> string option \<Rightarrow> string option
    \<Rightarrow> int option \<Rightarrow> string option \<Rightarrow> utext option \<Rightarrow> int option \<Rightarrow> models \<Rightarrow> (db_error, model_record \<times> models) result" where
  "model_create model_id now name filename path source_type source_ref status expected_sha256 sha size_bytes quant arch
     context_length t =
     (let m = \<lparr>mo_id = model_id, mo_name = name, mo_filename = filename, mo_path = path, mo_source_type = source_type,
               mo_source_ref = source_ref, mo_sha256 = sha, mo_expected_sha256 = expected_sha256, mo_size_bytes = size_bytes,
               mo_downloaded_bytes = 0, mo_quant = quant, mo_arch = arch, mo_context_length = context_length,
               mo_status = status, mo_error = None, mo_active = False, mo_added_at = now, mo_updated_at = Some now\<rparr>
      in map_sum id (\<lambda>t'. (m, t')) (insert_model m t))"

text \<open>The assignments of \<open>update(model_id, column=value, ...)\<close>.\<close>

datatype model_field =
    FName utext | FFilename string | FPath string | FSourceType string | FSourceRef "string option"
  | FSha256 "string option" | FExpectedSha256 "string option" | FSizeBytes "int option" | FDownloadedBytes int
  | FQuant "string option" | FArch "utext option" | FContextLength "int option" | FStatus string
  | FError "string option" | FActive bool | FAddedAt iso_time

primrec assign :: "model_field \<Rightarrow> model_record \<Rightarrow> model_record" where
  "assign (FName x) m = m\<lparr>mo_name := x\<rparr>"
| "assign (FFilename x) m = m\<lparr>mo_filename := x\<rparr>"
| "assign (FPath x) m = m\<lparr>mo_path := x\<rparr>"
| "assign (FSourceType x) m = m\<lparr>mo_source_type := x\<rparr>"
| "assign (FSourceRef x) m = m\<lparr>mo_source_ref := x\<rparr>"
| "assign (FSha256 x) m = m\<lparr>mo_sha256 := x\<rparr>"
| "assign (FExpectedSha256 x) m = m\<lparr>mo_expected_sha256 := x\<rparr>"
| "assign (FSizeBytes x) m = m\<lparr>mo_size_bytes := x\<rparr>"
| "assign (FDownloadedBytes x) m = m\<lparr>mo_downloaded_bytes := x\<rparr>"
| "assign (FQuant x) m = m\<lparr>mo_quant := x\<rparr>"
| "assign (FArch x) m = m\<lparr>mo_arch := x\<rparr>"
| "assign (FContextLength x) m = m\<lparr>mo_context_length := x\<rparr>"
| "assign (FStatus x) m = m\<lparr>mo_status := x\<rparr>"
| "assign (FError x) m = m\<lparr>mo_error := x\<rparr>"
| "assign (FActive x) m = m\<lparr>mo_active := x\<rparr>"
| "assign (FAddedAt x) m = m\<lparr>mo_added_at := x\<rparr>"

definition model_update :: "string \<Rightarrow> iso_time \<Rightarrow> model_field list \<Rightarrow> models \<Rightarrow> (db_error, models) result" where
  "model_update model_id now fs t =
     (if fs = [] then Inr t
      else checked t (upd_where (\<lambda>m. mo_id m = model_id)
             (\<lambda>m. (fold assign fs m)\<lparr>mo_updated_at := Some now\<rparr>) t))"

definition add_progress :: "string \<Rightarrow> iso_time \<Rightarrow> int \<Rightarrow> models \<Rightarrow> models" where
  "add_progress model_id now n t =
     upd_where (\<lambda>m. mo_id m = model_id) (\<lambda>m. m\<lparr>mo_downloaded_bytes := n, mo_updated_at := Some now\<rparr>) t"

definition model_list :: "models \<Rightarrow> models" where
  "model_list t = order_by mo_added_at t"

definition get_active :: "models \<Rightarrow> model_record option" where
  "get_active t = fetchone mo_active t"

definition find_by_path :: "string \<Rightarrow> models \<Rightarrow> model_record option" where
  "find_by_path p t = fetchone (\<lambda>m. mo_path m = p) t"

definition clear_active :: "models \<Rightarrow> models" where
  "clear_active t = upd_where mo_active (\<lambda>m. m\<lparr>mo_active := False\<rparr>) t"

definition set_active :: "string \<Rightarrow> iso_time \<Rightarrow> models \<Rightarrow> (db_error, models) result" where
  "set_active model_id now t =
     checked t (upd_where (\<lambda>m. mo_id m = model_id) (\<lambda>m. m\<lparr>mo_active := True, mo_updated_at := Some now\<rparr>)
       (clear_active t))"

definition model_delete :: "string \<Rightarrow> models \<Rightarrow> bool \<times> models" where
  "model_delete model_id t = (0 < rowcount (\<lambda>m. mo_id m = model_id) t, del_where (\<lambda>m. mo_id m = model_id) t)"

definition mark_interrupted :: "string \<Rightarrow> iso_time \<Rightarrow> string list \<Rightarrow> string \<Rightarrow> models \<Rightarrow> bool \<times> models" where
  "mark_interrupted model_id now from_statuses err t =
     (let p = (\<lambda>m. mo_id m = model_id \<and> mo_status m \<in> set from_statuses)
      in (0 < rowcount p t,
          upd_where p (\<lambda>m. m\<lparr>mo_status := ERROR, mo_error := Some err, mo_updated_at := Some now\<rparr>) t))"

section \<open>The constraints hold after every operation\<close>

named_theorems models_ok_intros \<open>operations that keep the table's constraints\<close>

lemma fold_assign_id [simp]: "mo_id (fold assign fs m) = mo_id m"
proof (induction fs arbitrary: m)
  case (Cons a fs)
  then show ?case by (cases a) auto
qed simp

lemma actives_append [simp]: "actives (s @ t) = actives s @ actives t"
  by (simp add: actives_def)

lemma actives_upd:
  assumes "\<And>m. mo_active (f m) = mo_active m" and "\<And>m. mo_id (f m) = mo_id m"
  shows "actives (upd_where p f t) = actives t"
  by (induction t) (auto simp: actives_def assms)

lemma models_ok_upd:
  assumes "models_ok t" and "\<And>m. mo_active (f m) = mo_active m" and "\<And>m. mo_id (f m) = mo_id m"
  shows "models_ok (upd_where p f t)"
  using assms(1) unfolding models_ok_def by (auto simp: actives_upd assms(2,3) intro: unique_on_upd)

lemma models_ok_insert [models_ok_intros]: "models_ok t \<Longrightarrow> insert_model m t = Inr t' \<Longrightarrow> models_ok t'"
  by (auto simp: insert_model_def models_ok_def actives_def intro: unique_on_snoc split: if_splits)

lemma models_ok_create [models_ok_intros]:
  assumes "models_ok t" and "model_create i now a b c d e f g h j k l n t = Inr (m, t')"
  shows "models_ok t'"
  using assms(2) models_ok_insert[OF assms(1)] by (auto simp: model_create_def Let_def map_sum_Inr)

lemma models_ok_update [models_ok_intros]: "models_ok t \<Longrightarrow> model_update i now fs t = Inr t' \<Longrightarrow> models_ok t'"
  by (auto simp: model_update_def checked_def split: if_splits)

lemma models_ok_progress [models_ok_intros]: "models_ok t \<Longrightarrow> models_ok (add_progress i now n t)"
  unfolding add_progress_def by (rule models_ok_upd) auto

lemma actives_clear: "actives (clear_active t) = []"
  by (induction t) (auto simp: actives_def clear_active_def)

lemma models_ok_clear [models_ok_intros]: "models_ok t \<Longrightarrow> models_ok (clear_active t)"
  using actives_clear[of t] unfolding models_ok_def clear_active_def by (auto intro: unique_on_upd)

lemma models_ok_delete [models_ok_intros]: "models_ok t \<Longrightarrow> models_ok (snd (model_delete i t))"
proof -
  assume ok: "models_ok t"
  have "length (actives (del_where p t)) \<le> length (actives t)" for p
    by (induction t) (auto simp: actives_def)
  then show ?thesis using ok by (auto simp: models_ok_def model_delete_def intro: unique_on_del le_trans)
qed

lemma models_ok_mark [models_ok_intros]: "models_ok t \<Longrightarrow> models_ok (snd (mark_interrupted i now ss e t))"
  unfolding mark_interrupted_def Let_def snd_conv by (rule models_ok_upd) auto

interpretation models_tbl: keyed_table mo_id insert_model model_get
  by unfold_locales (auto simp: model_get_def insert_model_def split: if_splits)

text \<open>Activating a row of the table succeeds, as the unique index sees one active row.\<close>

lemma actives_set_one:
  assumes "unique_on mo_id t" and "actives t = []"
  shows "actives (upd_where (\<lambda>m. mo_id m = i) (\<lambda>m. m\<lparr>mo_active := True, mo_updated_at := x\<rparr>) t)
    = (if i \<in> mo_id ` set t then [i] else [])"
  using assms
proof (induction t)
  case (Cons m t)
  have m: "\<not> mo_active m" and t: "actives t = []" using Cons.prems(2) by (auto simp: actives_def split: if_splits)
  have u: "unique_on mo_id t" and fresh: "mo_id m \<notin> mo_id ` set t" using Cons.prems(1) by (auto simp: unique_on_def)
  show ?case using Cons.IH[OF u t] fresh m by (auto simp: actives_def)
qed (simp add: actives_def)

lemma set_active_result:
  assumes "models_ok t"
  shows "set_active i now t = Inr (upd_where (\<lambda>m. mo_id m = i) (\<lambda>m. m\<lparr>mo_active := True, mo_updated_at := Some now\<rparr>) (clear_active t))"
proof -
  have u: "unique_on mo_id (clear_active t)" using models_ok_clear[OF assms] by (simp add: models_ok_def)
  have "models_ok (upd_where (\<lambda>m. mo_id m = i) (\<lambda>m. m\<lparr>mo_active := True, mo_updated_at := Some now\<rparr>) (clear_active t))"
    using actives_set_one[OF u actives_clear] u unfolding models_ok_def by (auto intro: unique_on_upd)
  then show ?thesis by (simp add: set_active_def checked_def)
qed
text \<open>The table as the registry's operations change it, a failed statement changing nothing.\<close>

inductive registry_step :: "models \<Rightarrow> models \<Rightarrow> bool" where
  step_create: "model_create i now a b c d e f g h j k l n t = Inr (m, t') \<Longrightarrow> registry_step t t'"
| step_update: "model_update i now fs t = Inr t' \<Longrightarrow> registry_step t t'"
| step_progress: "registry_step t (add_progress i now n t)"
| step_set_active: "set_active i now t = Inr t' \<Longrightarrow> registry_step t t'"
| step_clear: "registry_step t (clear_active t)"
| step_delete: "registry_step t (snd (model_delete i t))"
| step_mark: "registry_step t (snd (mark_interrupted i now ss err t))"

lemma models_ok_step: "registry_step t t' \<Longrightarrow> models_ok t \<Longrightarrow> models_ok t'"
  by (induction rule: registry_step.induct)
    (auto intro: models_ok_intros simp: set_active_def checked_def split: if_splits)

lemma models_ok_reach: "registry_step\<^sup>*\<^sup>* [] t \<Longrightarrow> models_ok t"
proof (induction rule: rtranclp_induct)
  case base
  show ?case by (simp add: models_ok_def actives_def)
qed (rule models_ok_step)

lemma get_active_of: "actives t = [i] \<Longrightarrow> map_option mo_id (get_active t) = Some i"
  unfolding get_active_def by (induction t) (auto simp: actives_def split: if_splits)

lemma get_active_none: "actives t = [] \<Longrightarrow> get_active t = None"
  by (auto simp: actives_def get_active_def fetchone_None filter_empty_conv)

lemma clear_active_ids: "map mo_id (clear_active t) = map mo_id t"
  unfolding clear_active_def by (rule map_upd_where_same) auto

text \<open>
  C32. After every sequence of registry operations the ids are unique and at most one model is
  active. In such a table \<open>set_active\<close> never runs into the unique index: it makes a model
  of the table the sole active one, and with an id that is not in the table it leaves no
  model active; it changes nothing else but \<open>updated_at\<close>.
\<close>

theorem model_registry_one_active:
  assumes "registry_step\<^sup>*\<^sup>* [] t"
  shows "unique_on mo_id t \<and> length (filter mo_active t) \<le> 1 \<and>
    (\<exists>t'. set_active i now t = Inr t' \<and>
       map_option mo_id (get_active t') = (if i \<in> mo_id ` set t then Some i else None) \<and>
       length (filter mo_active t') = (if i \<in> mo_id ` set t then 1 else 0) \<and>
       map (\<lambda>m. m\<lparr>mo_active := False, mo_updated_at := None\<rparr>) t' = map (\<lambda>m. m\<lparr>mo_active := False, mo_updated_at := None\<rparr>) t)"
proof -
  have ok: "models_ok t" using assms by (rule models_ok_reach)
  let ?t = "upd_where (\<lambda>m. mo_id m = i) (\<lambda>m. m\<lparr>mo_active := True, mo_updated_at := Some now\<rparr>) (clear_active t)"
  have u: "unique_on mo_id (clear_active t)" using models_ok_clear[OF ok] by (simp add: models_ok_def)
  have ids: "mo_id ` set (clear_active t) = mo_id ` set t" using clear_active_ids[of t] by (metis set_map)
  have a: "actives ?t = (if i \<in> mo_id ` set t then [i] else [])"
    using actives_set_one[OF u actives_clear] by (simp add: ids)
  then have "map_option mo_id (get_active ?t) = (if i \<in> mo_id ` set t then Some i else None)"
    using get_active_of[of ?t i] get_active_none[of ?t] by (auto split: if_splits)
  moreover have "length (filter mo_active ?t) = (if i \<in> mo_id ` set t then 1 else 0)"
    using arg_cong[OF a, of length] by (simp add: actives_def)
  moreover have "map (\<lambda>m. m\<lparr>mo_active := False, mo_updated_at := None\<rparr>) ?t = map (\<lambda>m. m\<lparr>mo_active := False, mo_updated_at := None\<rparr>) t"
    by (simp add: clear_active_def upd_where_def)
  ultimately show ?thesis using ok set_active_result[OF ok] by (auto simp: models_ok_def actives_def)
qed

definition sample_model :: "string \<Rightarrow> model_record" where
  "sample_model i = \<lparr>mo_id = i, mo_name = [], mo_filename = ''m.gguf'', mo_path = ''/m.gguf'', mo_source_type = ''import'',
     mo_source_ref = None, mo_sha256 = None, mo_expected_sha256 = None, mo_size_bytes = None, mo_downloaded_bytes = 0,
     mo_quant = None, mo_arch = None, mo_context_length = None, mo_status = READY, mo_error = None, mo_active = False,
     mo_added_at = ''now'', mo_updated_at = Some ''now''\<rparr>"

theorem model_registry_one_active_witness:
  "\<exists>t'. set_active ''a'' ''later'' [sample_model ''a''] = Inr t' \<and> map_option mo_id (get_active t') = Some ''a''"
proof -
  have "registry_step [] [sample_model ''a'']"
    by (rule step_create[where m = "sample_model ''a''", of "''a''" "''now''" "[]" "''m.gguf''" "''/m.gguf''" "''import''" None READY None None None None None None])
      (simp add: model_create_def insert_model_def sample_model_def Let_def)
  then have "registry_step\<^sup>*\<^sup>* [] [sample_model ''a'']" by blast
  from model_registry_one_active[OF this, of "''a''" "''later''"]
  show ?thesis by (auto simp: sample_model_def)
qed

end
