(* ===== verification/Downloader.thy ===== *)
theory Downloader
  imports Gguf "HOL-Library.Sublist"
begin

text \<open>
  Resumable, checksum-verified downloads (\<open>engine/models/downloader.py\<close>).

  The state is the two files a download touches, \<open><dest>.part\<close> and \<open><dest>\<close>, the
  number of looks it has taken at the cancel flag, and the progress calls it has made. The
  flag is set by another thread: \<open>cancelled k\<close> says whether the \<open>k\<close>-th look finds
  it set. The network is an argument: what \<open>urlopen\<close> does for the \<open>n\<close>-th request
  with a given resume offset, and what each \<open>response.read\<close> returns. Local file
  operations succeed. \<open>hashlib.sha256\<close> is the argument \<open>sha\<close>.
\<close>

datatype dl_error =
    DownloadCancelled | ChecksumMismatch | InvalidUrl | HttpStatus int | NetworkError | ReadError
  | TooLarge | BadContentLength

datatype read_result = Chunk "byte list" | ReadFails

record response =
  rs_status :: int
  rs_content_length :: "string option"
  rs_reads :: "read_result list"

datatype open_result = BadUrl | HttpError int | Unreachable | Opened response

record dl_files =
  df_part :: "byte list option"
  df_dest :: "byte list option"
  df_looks :: nat
  df_progress :: "(nat \<times> nat option) list"

type_synonym flag = "nat \<Rightarrow> bool"
type_synonym 'a dl_action = "dl_files \<Rightarrow> (dl_error, 'a) result \<times> dl_files"

definition bind_d :: "'a dl_action \<Rightarrow> ('a \<Rightarrow> 'b dl_action) \<Rightarrow> 'b dl_action" where
  "bind_d m k s = (case m s of (Inl e, s') \<Rightarrow> (Inl e, s') | (Inr a, s') \<Rightarrow> k a s')"

definition raise_d :: "dl_error \<Rightarrow> 'a dl_action" where
  "raise_d e s = (Inl e, s)"

definition return_d :: "'a \<Rightarrow> 'a dl_action" where
  "return_d a s = (Inr a, s)"

definition modify_d :: "(dl_files \<Rightarrow> dl_files) \<Rightarrow> unit dl_action" where
  "modify_d f s = (Inr (), f s)"

section \<open>The cancel flag\<close>

text \<open>\<open>_check\<close>\<close>

definition check_cancel :: "flag \<Rightarrow> unit dl_action" where
  "check_cancel cancelled s =
     (if cancelled (df_looks s) then Inl DownloadCancelled else Inr (), s\<lparr>df_looks := Suc (df_looks s)\<rparr>)"

text \<open>\<open>CancelEvent\<close>: a flag with a commit point. Each method runs under the event's lock.\<close>

record cancel_event =
  ce_set :: bool
  ce_committed :: bool

definition new_cancel_event :: cancel_event where
  "new_cancel_event = \<lparr>ce_set = False, ce_committed = False\<rparr>"

definition cancel_request :: "cancel_event \<Rightarrow> bool \<times> cancel_event" where
  "cancel_request c = (if ce_committed c then (False, c) else (True, c\<lparr>ce_set := True\<rparr>))"

definition cancel_commit :: "('s \<Rightarrow> 's) \<Rightarrow> cancel_event \<Rightarrow> 's \<Rightarrow> bool \<times> cancel_event \<times> 's" where
  "cancel_commit promote c s = (if ce_set c then (False, c, s) else (True, c\<lparr>ce_committed := True\<rparr>, promote s))"

section \<open>Addresses, lengths and checksums\<close>

definition rstrip_slash :: "string \<Rightarrow> string" where
  "rstrip_slash s = rev (dropWhile (\<lambda>c. c = CHR ''/'') (rev s))"

definition hf_url :: "string \<Rightarrow> string \<Rightarrow> string \<Rightarrow> string \<Rightarrow> string" where
  "hf_url endpoint repo filename revision =
     rstrip_slash endpoint @ ''/'' @ repo @ ''/resolve/'' @ revision @ ''/'' @ filename"

text \<open>\<open>str.isdigit\<close> on Latin-1 text: also the superscripts, which \<open>int\<close> rejects.\<close>

definition isdigit :: "string \<Rightarrow> bool" where
  "isdigit s \<longleftrightarrow> s \<noteq> [] \<and> list_all (\<lambda>c. is_digit c \<or> code c \<in> {178, 179, 185}) s"

text \<open>The expected size of the finished file; \<open>Inl\<close> is the \<open>ValueError\<close> of \<open>int(length)\<close>.\<close>

definition total_bytes :: "response \<Rightarrow> nat \<Rightarrow> (dl_error, nat option) result" where
  "total_bytes r resume_from =
     (case rs_content_length r of
        None \<Rightarrow> Inr None
      | Some len \<Rightarrow>
          if isdigit len
          then (case py_int len of
                  None \<Rightarrow> Inl BadContentLength
                | Some n \<Rightarrow> Inr (Some (nat n + (if rs_status r = 206 then resume_from else 0))))
          else Inr None)"

text \<open>\<open>sha256_file\<close>: the loop over chunks of the file, which gathers what is hashed.\<close>

function sha_loop :: "flag \<Rightarrow> nat \<Rightarrow> byte list \<Rightarrow> byte list \<Rightarrow> byte list dl_action" where
  "sha_loop cancelled chunk_bytes hashed rest =
     bind_d (check_cancel cancelled) (\<lambda>_.
       let chunk = take chunk_bytes rest
       in if chunk = [] then return_d hashed else sha_loop cancelled chunk_bytes (hashed @ chunk) (drop chunk_bytes rest))"
  by pat_completeness auto
termination
  by (relation "measure (\<lambda>(c, n, h, rest). length rest)") auto

declare sha_loop.simps [simp del]

definition part_bytes :: "dl_files \<Rightarrow> byte list" where
  "part_bytes s = (case df_part s of None \<Rightarrow> [] | Some bs \<Rightarrow> bs)"

definition sha256_file :: "(byte list \<Rightarrow> string) \<Rightarrow> flag \<Rightarrow> nat \<Rightarrow> string dl_action" where
  "sha256_file sha cancelled chunk_bytes s =
     bind_d (sha_loop cancelled chunk_bytes [] (part_bytes s)) (\<lambda>data. return_d (sha data)) s"

section \<open>The transfer\<close>

definition append_part :: "byte list \<Rightarrow> dl_files \<Rightarrow> dl_files" where
  "append_part bs s = s\<lparr>df_part := Some (part_bytes s @ bs)\<rparr>"

text \<open>The loop that copies the body to the part file; the end of the list is the end of the body.\<close>

fun copy_loop :: "flag \<Rightarrow> nat \<Rightarrow> nat option \<Rightarrow> nat \<Rightarrow> read_result list \<Rightarrow> unit dl_action" where
  "copy_loop cancelled max_bytes tot downloaded [] =
     bind_d (check_cancel cancelled) (\<lambda>_. check_cancel cancelled)"
| "copy_loop cancelled max_bytes tot downloaded (ReadFails # reads) =
     bind_d (check_cancel cancelled) (\<lambda>_. raise_d ReadError)"
| "copy_loop cancelled max_bytes tot downloaded (Chunk bs # reads) =
     bind_d (check_cancel cancelled) (\<lambda>_.
     bind_d (check_cancel cancelled) (\<lambda>_.
       if bs = [] then return_d ()
       else bind_d (modify_d (append_part bs)) (\<lambda>_.
            let downloaded' = downloaded + length bs
            in if 0 < max_bytes \<and> max_bytes < downloaded' then raise_d TooLarge
               else bind_d (check_cancel cancelled) (\<lambda>_.
                    bind_d (modify_d (\<lambda>s. s\<lparr>df_progress := df_progress s @ [(downloaded', tot)]\<rparr>)) (\<lambda>_.
                      copy_loop cancelled max_bytes tot downloaded' reads)))))"

text \<open>\<open>_promote\<close> with a \<open>CancelEvent\<close>: the rename happens unless the flag is found set.\<close>

definition promote :: "flag \<Rightarrow> unit dl_action" where
  "promote cancelled =
     bind_d (check_cancel cancelled) (\<lambda>_. modify_d (\<lambda>s. s\<lparr>df_dest := Some (part_bytes s), df_part := None\<rparr>))"

text \<open>After the last chunk: hash the part file, compare, and rename it into place.\<close>

definition verify_promote :: "(byte list \<Rightarrow> string) \<Rightarrow> flag \<Rightarrow> string option \<Rightarrow> nat \<Rightarrow> string dl_action" where
  "verify_promote sha cancelled expected chunk_bytes =
     bind_d (check_cancel cancelled) (\<lambda>_.
     bind_d (sha256_file sha cancelled chunk_bytes) (\<lambda>digest.
       if (case expected of None \<Rightarrow> False | Some x \<Rightarrow> x \<noteq> [] \<and> lower digest \<noteq> lower x) then raise_d ChecksumMismatch
       else bind_d (promote cancelled) (\<lambda>_. return_d digest)))"

text \<open>From an open response to the promoted file.\<close>

definition receive ::
  "(byte list \<Rightarrow> string) \<Rightarrow> flag \<Rightarrow> string option \<Rightarrow> nat \<Rightarrow> nat \<Rightarrow> nat \<Rightarrow> response \<Rightarrow> string dl_action" where
  "receive sha cancelled expected chunk_bytes max_bytes resume_from r =
     bind_d (check_cancel cancelled) (\<lambda>_.
       let partial = (rs_status r = 206);
           start_over = (0 < resume_from \<and> \<not> partial);
           from = (if start_over then 0 else resume_from)
       in bind_d (modify_d (\<lambda>s. if start_over then s\<lparr>df_part := None\<rparr> else s)) (\<lambda>_.
          case total_bytes r from of
            Inl e \<Rightarrow> raise_d e
          | Inr tot \<Rightarrow>
              if 0 < max_bytes \<and> (case tot of None \<Rightarrow> False | Some n \<Rightarrow> max_bytes < n) then raise_d TooLarge
              else bind_d (modify_d (\<lambda>s. if 0 < from \<and> partial then s else s\<lparr>df_part := Some []\<rparr>)) (\<lambda>_.
                   bind_d (copy_loop cancelled max_bytes tot from (rs_reads r)) (\<lambda>_.
                     verify_promote sha cancelled expected chunk_bytes))))"

definition resume_offset :: "dl_files \<Rightarrow> nat" where
  "resume_offset s = length (part_bytes s)"

function download ::
  "(byte list \<Rightarrow> string) \<Rightarrow> flag \<Rightarrow> (nat \<Rightarrow> nat \<Rightarrow> open_result) \<Rightarrow> string option \<Rightarrow> nat \<Rightarrow> nat \<Rightarrow> nat \<Rightarrow> string dl_action" where
  "download sha cancelled net expected chunk_bytes max_bytes attempt s =
     (let resume_from = resume_offset s
      in case check_cancel cancelled s of
           (Inl e, s1) \<Rightarrow> (Inl e, s1)
         | (Inr _, s1) \<Rightarrow>
             (case net attempt resume_from of
                BadUrl \<Rightarrow> (Inl InvalidUrl, s1)
              | HttpError status \<Rightarrow>
                  if 0 < resume_from \<and> status = 416
                  then download sha cancelled net expected chunk_bytes max_bytes (Suc attempt) (s1\<lparr>df_part := None\<rparr>)
                  else (Inl (HttpStatus status), s1)
              | Unreachable \<Rightarrow> (Inl NetworkError, s1)
              | Opened r \<Rightarrow> receive sha cancelled expected chunk_bytes max_bytes resume_from r s1))"
  by pat_completeness auto
termination
  by (relation "measure (\<lambda>(sha, c, net, e, n, m, a, s). resume_offset s)") (auto simp: resume_offset_def part_bytes_def)

declare download.simps [simp del]
section \<open>Triples\<close>

text \<open>
  What holds after an action: \<open>Q\<close> of its result and the state when it returns, \<open>E\<close>
  of the state when it raises.
\<close>

definition triple :: "(dl_files \<Rightarrow> bool) \<Rightarrow> 'a dl_action \<Rightarrow> ('a \<Rightarrow> dl_files \<Rightarrow> bool) \<Rightarrow> (dl_files \<Rightarrow> bool) \<Rightarrow> bool" where
  "triple P m Q E \<longleftrightarrow> (\<forall>s. P s \<longrightarrow> (case m s of (Inr a, s') \<Rightarrow> Q a s' | (Inl e, s') \<Rightarrow> E s'))"

named_theorems triples \<open>rules of the triples\<close>

lemma tripleI:
  "(\<And>s a s'. P s \<Longrightarrow> m s = (Inr a, s') \<Longrightarrow> Q a s') \<Longrightarrow> (\<And>s e s'. P s \<Longrightarrow> m s = (Inl e, s') \<Longrightarrow> E s') \<Longrightarrow> triple P m Q E"
  by (auto simp: triple_def split: prod.splits sum.splits)

lemma triple_Inr: "triple P m Q E \<Longrightarrow> P s \<Longrightarrow> m s = (Inr a, s') \<Longrightarrow> Q a s'"
  by (auto simp: triple_def)

lemma triple_Inl: "triple P m Q E \<Longrightarrow> P s \<Longrightarrow> m s = (Inl e, s') \<Longrightarrow> E s'"
  by (force simp: triple_def)

lemma triple_bind [triples]:
  assumes "triple P m R E" and "\<And>a. triple (R a) (k a) Q E"
  shows "triple P (bind_d m k) Q E"
proof (rule tripleI)
  fix s b s'' assume s: "P s" and r: "bind_d m k s = (Inr b, s'')"
  then obtain a s' where m: "m s = (Inr a, s')" and k: "k a s' = (Inr b, s'')"
    by (auto simp: bind_d_def split: prod.splits sum.splits)
  show "Q b s''" by (rule triple_Inr[OF assms(2) triple_Inr[OF assms(1) s m] k])
next
  fix s e s'' assume s: "P s" and r: "bind_d m k s = (Inl e, s'')"
  then consider "m s = (Inl e, s'')" | a s' where "m s = (Inr a, s')" "k a s' = (Inl e, s'')"
    by (auto simp: bind_d_def split: prod.splits sum.splits)
  then show "E s''"
  proof cases
    case 1 then show ?thesis by (rule triple_Inl[OF assms(1) s])
  next
    case 2 then show ?thesis by (blast intro: triple_Inl[OF assms(2)] triple_Inr[OF assms(1) s])
  qed
qed

lemma triple_return [triples]: "(\<And>s. P s \<Longrightarrow> Q a s) \<Longrightarrow> triple P (return_d a) Q E"
  by (simp add: triple_def return_d_def)

lemma triple_raise [triples]: "(\<And>s. P s \<Longrightarrow> E s) \<Longrightarrow> triple P (raise_d e) Q E"
  by (simp add: triple_def raise_d_def)

lemma triple_modify [triples]: "(\<And>s. P s \<Longrightarrow> Q () (f s)) \<Longrightarrow> triple P (modify_d f) Q E"
  by (simp add: triple_def modify_d_def)

lemma triple_if: "(b \<Longrightarrow> triple P m Q E) \<Longrightarrow> (\<not> b \<Longrightarrow> triple P m' Q E) \<Longrightarrow> triple P (if b then m else m') Q E"
  by simp

lemma triple_sum_case:
  "(\<And>e. r = Inl e \<Longrightarrow> triple P (f e) Q E) \<Longrightarrow> (\<And>a. r = Inr a \<Longrightarrow> triple P (g a) Q E)
    \<Longrightarrow> triple P (case r of Inl e \<Rightarrow> f e | Inr a \<Rightarrow> g a) Q E"
  by (cases r) auto

text \<open>A predicate of the two files only.\<close>

definition on_files :: "(byte list option \<Rightarrow> byte list option \<Rightarrow> bool) \<Rightarrow> dl_files \<Rightarrow> bool" where
  "on_files F s = F (df_part s) (df_dest s)"

lemma on_files_looks [simp]: "on_files F (s\<lparr>df_looks := n\<rparr>) = on_files F s"
  by (simp add: on_files_def)

lemma on_files_progress [simp]: "on_files F (s\<lparr>df_progress := x\<rparr>) = on_files F s"
  by (simp add: on_files_def)

lemma triple_check_files [triples]:
  "(\<And>p d. F p d \<Longrightarrow> G p d) \<Longrightarrow> triple (on_files F) (check_cancel c) (\<lambda>_. on_files F) (on_files G)"
  by (auto simp: triple_def check_cancel_def on_files_def)

text \<open>Hashing leaves the files alone, and hashes the whole part file.\<close>

lemma triple_sha_loop:
  assumes "0 < n" and "\<And>p d. F p d \<Longrightarrow> G p d"
  shows "triple (on_files F) (sha_loop c n hashed rest) (\<lambda>data s. on_files F s \<and> data = hashed @ rest) (on_files G)"
  using assms(1)
proof (induction c n hashed rest rule: sha_loop.induct)
  case (1 c n hashed rest)
  show ?case
    by (subst sha_loop.simps, intro triple_bind[OF triple_check_files[OF assms(2)]])
      (use 1 in \<open>auto simp: Let_def intro!: triple_return\<close>)
qed

lemma triple_sha256_file:
  assumes "0 < n" and "\<And>p d. F p d \<Longrightarrow> G p d"
  shows "triple (on_files F) (sha256_file sha c n) (\<lambda>d s. on_files F s \<and> d = sha (part_bytes s)) (on_files G)"
proof (rule tripleI)
  fix s d s' assume s: "on_files F s" and "sha256_file sha c n s = (Inr d, s')"
  then obtain x where l: "sha_loop c n [] (part_bytes s) s = (Inr x, s')" and d: "d = sha x"
    by (auto simp: sha256_file_def bind_d_def return_d_def split: prod.splits sum.splits)
  let ?F = "\<lambda>p d. F p d \<and> p = df_part s"
  have "triple (on_files ?F) (sha_loop c n [] (part_bytes s)) (\<lambda>data s'. on_files ?F s' \<and> data = [] @ part_bytes s) (on_files G)"
    by (rule triple_sha_loop) (use assms in auto)
  from triple_Inr[OF this _ l] s d show "on_files F s' \<and> d = sha (part_bytes s')" by (auto simp: part_bytes_def on_files_def)
next
  fix s e s' assume s: "on_files F s" and "sha256_file sha c n s = (Inl e, s')"
  then have l: "sha_loop c n [] (part_bytes s) s = (Inl e, s')"
    by (auto simp: sha256_file_def bind_d_def return_d_def split: prod.splits sum.splits)
  show "on_files G s'" by (rule triple_Inl[OF triple_sha_loop[OF assms] s l])
qed

section \<open>What a transfer leaves behind\<close>

text \<open>The bytes a body delivers before it ends or fails, and whether it ends.\<close>

fun delivered :: "read_result list \<Rightarrow> byte list" where
  "delivered [] = []"
| "delivered (ReadFails # reads) = []"
| "delivered (Chunk bs # reads) = (if bs = [] then [] else bs @ delivered reads)"

fun ends :: "read_result list \<Rightarrow> bool" where
  "ends [] = True"
| "ends (ReadFails # reads) = False"
| "ends (Chunk bs # reads) = (bs = [] \<or> ends reads)"

definition kept :: "byte list option \<Rightarrow> byte list \<Rightarrow> byte list \<Rightarrow> byte list option \<Rightarrow> byte list option \<Rightarrow> bool" where
  "kept d0 base body p d \<longleftrightarrow> d = d0 \<and> (\<exists>k. prefix k body \<and> p = Some (base @ k))"

definition holds :: "byte list option \<Rightarrow> byte list \<Rightarrow> byte list option \<Rightarrow> byte list option \<Rightarrow> bool" where
  "holds d0 bs p d \<longleftrightarrow> d = d0 \<and> p = Some bs"

definition within_limit :: "nat \<Rightarrow> byte list \<Rightarrow> byte list \<Rightarrow> bool" where
  "within_limit m base body \<longleftrightarrow> 0 < m \<longrightarrow> body = [] \<or> length (base @ body) \<le> m"

lemma kept_holds: "prefix k body \<Longrightarrow> holds d0 (base @ k) p d \<Longrightarrow> kept d0 base body p d"
  by (auto simp: kept_def holds_def)

lemma kept_shift: "kept d0 (base @ bs) body p d \<Longrightarrow> kept d0 base (bs @ body) p d"
  by (auto simp: kept_def)

lemma triple_weaken:
  "triple P m Q E \<Longrightarrow> (\<And>s. P' s \<Longrightarrow> P s) \<Longrightarrow> (\<And>a s. Q a s \<Longrightarrow> Q' a s) \<Longrightarrow> (\<And>s. E s \<Longrightarrow> E' s) \<Longrightarrow> triple P' m Q' E'"
  by (rule tripleI) (blast dest: triple_Inr triple_Inl)+

lemma triple_pure: "(\<And>s. P s \<Longrightarrow> B) \<Longrightarrow> (B \<Longrightarrow> triple P m Q E) \<Longrightarrow> triple P m Q E"
  by (force simp: triple_def)

lemma triple_copy_loop:
  assumes "dl = length base"
  shows "triple (on_files (holds d0 base)) (copy_loop c m tot dl reads)
    (\<lambda>_ s. on_files (holds d0 (base @ delivered reads)) s \<and> ends reads \<and> within_limit m base (delivered reads))
    (on_files (kept d0 base (delivered reads)))"
  using assms
proof (induction c m tot dl reads arbitrary: base rule: copy_loop.induct)
  case (1 c m tot dl)
  have k: "kept d0 base [] p d" if "holds d0 base p d" for p d
    using kept_holds[of "[]" "[]" d0 base] that by simp
  show ?case
    unfolding copy_loop.simps delivered.simps ends.simps
    by (rule triple_bind[OF triple_check_files[OF k] triple_weaken[OF triple_check_files[OF k]]])
      (auto simp: within_limit_def)
next
  case (2 c m tot dl reads)
  have k: "kept d0 base [] p d" if "holds d0 base p d" for p d
    using kept_holds[of "[]" "[]" d0 base] that by simp
  show ?case
    unfolding copy_loop.simps delivered.simps ends.simps
    by (rule triple_bind[OF triple_check_files[OF k] triple_raise]) (auto simp: on_files_def k)
next
  case (3 c m tot dl bs reads)
  let ?E = "on_files (kept d0 base (delivered (Chunk bs # reads)))"
  have k: "kept d0 base (delivered (Chunk bs # reads)) p d" if "holds d0 base p d" for p d
    using kept_holds[of "[]" _ d0 base] that by simp
  have rest: "triple (on_files (holds d0 base))
     (bind_d (modify_d (append_part bs)) (\<lambda>_.
            let downloaded' = dl + length bs
            in if 0 < m \<and> m < downloaded' then raise_d TooLarge
               else bind_d (check_cancel c) (\<lambda>_.
                    bind_d (modify_d (\<lambda>s. s\<lparr>df_progress := df_progress s @ [(downloaded', tot)]\<rparr>)) (\<lambda>_.
                      copy_loop c m tot downloaded' reads))))
     (\<lambda>_ s. on_files (holds d0 (base @ delivered (Chunk bs # reads))) s \<and> ends (Chunk bs # reads)
        \<and> within_limit m base (delivered (Chunk bs # reads))) ?E" if bs: "bs \<noteq> []"
  proof -
    have k2: "kept d0 base (delivered (Chunk bs # reads)) p d" if "holds d0 (base @ bs) p d" for p d
      using kept_holds[of bs _ d0 base] that bs by simp
    have "triple (on_files (holds d0 (base @ bs))) (copy_loop c m tot (dl + length bs) reads)
       (\<lambda>_ s. on_files (holds d0 (base @ delivered (Chunk bs # reads))) s \<and> ends (Chunk bs # reads)
          \<and> within_limit m base (delivered (Chunk bs # reads))) ?E" if ok: "\<not> (0 < m \<and> m < dl + length bs)"
      by (rule triple_weaken[OF "3.IH"[OF bs refl ok, of "base @ bs"]])
        (use bs ok "3.prems" in \<open>auto simp: on_files_def within_limit_def kept_shift\<close>)
    then show ?thesis using k2
      by (auto simp: Let_def on_files_def append_part_def part_bytes_def holds_def
          intro!: triple_bind[OF triple_modify[where Q = "\<lambda>_. on_files (holds d0 (base @ bs))"]]
            triple_bind[OF triple_check_files] triple_raise)
  qed
  show ?case
  proof (cases "bs = []")
    case True
    then show ?thesis using k
      by (auto simp: within_limit_def intro!: triple_bind[OF triple_check_files] triple_return)
  next
    case False
    then show ?thesis using k rest by (auto simp del: delivered.simps ends.simps intro!: triple_bind[OF triple_check_files])
  qed
qed

text \<open>The part of the old part file a response continues.\<close>

definition continued :: "byte list \<Rightarrow> response \<Rightarrow> byte list" where
  "continued base0 r = (if rs_status r = 206 then base0 else [])"

definition matches_expected :: "string option \<Rightarrow> string \<Rightarrow> bool" where
  "matches_expected expected digest \<longleftrightarrow> (case expected of None \<Rightarrow> True | Some x \<Rightarrow> x = [] \<or> lower digest = lower x)"

definition promoted :: "byte list \<Rightarrow> byte list option \<Rightarrow> byte list option \<Rightarrow> bool" where
  "promoted bs p d \<longleftrightarrow> p = None \<and> d = Some bs"

definition left_over :: "byte list option \<Rightarrow> byte list \<Rightarrow> response \<Rightarrow> byte list option \<Rightarrow> byte list option \<Rightarrow> bool" where
  "left_over d0 base0 r p d \<longleftrightarrow>
     d = d0 \<and> ((case p of None \<Rightarrow> [] | Some x \<Rightarrow> x) = base0 \<or> p = None \<or> kept d0 (continued base0 r) (delivered (rs_reads r)) p d)"

definition resting :: "byte list option \<Rightarrow> byte list \<Rightarrow> byte list option \<Rightarrow> byte list option \<Rightarrow> bool" where
  "resting d0 base0 p d \<longleftrightarrow> d = d0 \<and> (case p of None \<Rightarrow> [] | Some x \<Rightarrow> x) = base0"

lemma triple_promote:
  "triple (on_files (holds d0 bs)) (promote c) (\<lambda>_. on_files (promoted bs)) (on_files (holds d0 bs))"
  unfolding promote_def
  by (rule triple_bind[OF triple_check_files triple_modify]) (auto simp: on_files_def holds_def promoted_def part_bytes_def)

lemma triple_verify_promote:
  assumes "0 < n"
  shows "triple (on_files (holds d0 bs)) (verify_promote sha c expected n)
    (\<lambda>digest s. on_files (promoted bs) s \<and> digest = sha bs \<and> matches_expected expected digest)
    (on_files (holds d0 bs))"
  unfolding verify_promote_def
proof (rule triple_bind[OF triple_check_files triple_bind[OF triple_sha256_file[OF assms]]])
  fix digest
  let ?bad = "case expected of None \<Rightarrow> False | Some x \<Rightarrow> x \<noteq> [] \<and> lower digest \<noteq> lower x"
  let ?P = "\<lambda>s. on_files (holds d0 bs) s \<and> digest = sha (part_bytes s)"
  have sha: "digest = sha bs" if "?P s" for s using that by (auto simp: on_files_def holds_def part_bytes_def)
  have "triple ?P (bind_d (promote c) (\<lambda>_. return_d digest))
     (\<lambda>digest s. on_files (promoted bs) s \<and> digest = sha bs \<and> matches_expected expected digest) (on_files (holds d0 bs))"
    if "\<not> ?bad"
  proof (rule triple_pure[OF sha])
    assume d: "digest = sha bs"
    have "triple (on_files (holds d0 bs)) (bind_d (promote c) (\<lambda>_. return_d digest))
      (\<lambda>digest s. on_files (promoted bs) s \<and> digest = sha bs \<and> matches_expected expected digest) (on_files (holds d0 bs))"
      by (rule triple_bind[OF triple_promote triple_return])
        (use d that in \<open>auto simp: matches_expected_def split: option.splits\<close>)
    then show "triple ?P (bind_d (promote c) (\<lambda>_. return_d digest))
      (\<lambda>digest s. on_files (promoted bs) s \<and> digest = sha bs \<and> matches_expected expected digest) (on_files (holds d0 bs))"
      by (rule triple_weaken) auto
  qed
  then show "triple ?P (if ?bad then raise_d ChecksumMismatch else bind_d (promote c) (\<lambda>_. return_d digest))
     (\<lambda>digest s. on_files (promoted bs) s \<and> digest = sha bs \<and> matches_expected expected digest) (on_files (holds d0 bs))"
    by (auto intro: triple_raise)
qed auto

lemma triple_receive:
  assumes "0 < n" and "resume_from = length base0"
  shows "triple (on_files (resting d0 base0)) (receive sha c expected n m resume_from r)
    (\<lambda>digest s. on_files (promoted (continued base0 r @ delivered (rs_reads r))) s \<and> ends (rs_reads r) \<and>
       digest = sha (continued base0 r @ delivered (rs_reads r)) \<and> matches_expected expected digest \<and>
       within_limit m (continued base0 r) (delivered (rs_reads r)))
    (on_files (left_over d0 base0 r))"
proof -
  let ?base = "continued base0 r" and ?body = "delivered (rs_reads r)"
  let ?over = "0 < resume_from \<and> rs_status r \<noteq> 206"
  let ?from = "if ?over then 0 else resume_from"
  let ?Q = "\<lambda>digest s. on_files (promoted (?base @ ?body)) s \<and> ends (rs_reads r) \<and>
       digest = sha (?base @ ?body) \<and> matches_expected expected digest \<and> within_limit m ?base ?body"
  have off: "?from = length ?base" using assms(2) by (auto simp: continued_def)
  have lo: "left_over d0 base0 r p d" if "kept d0 ?base ?body p d" for p d
    using that by (auto simp: left_over_def kept_def)
  have h: "kept d0 ?base ?body p d" if "holds d0 (?base @ ?body) p d" for p d
    using that by (auto intro: kept_holds)
  let ?P = "\<lambda>s. on_files (holds d0 (?base @ ?body)) s \<and> ends (rs_reads r) \<and> within_limit m ?base ?body"
  have finish: "triple ?P (verify_promote sha c expected n) ?Q (on_files (left_over d0 base0 r))"
  proof (rule triple_pure[where B = "ends (rs_reads r) \<and> within_limit m ?base ?body"])
    assume "ends (rs_reads r) \<and> within_limit m ?base ?body"
    then show "triple ?P (verify_promote sha c expected n) ?Q (on_files (left_over d0 base0 r))"
      by (intro triple_weaken[OF triple_verify_promote[OF assms(1), of d0 "?base @ ?body" sha c expected]])
        (auto simp: on_files_def lo h)
  qed auto
  have copy: "triple (on_files (holds d0 ?base)) (bind_d (copy_loop c m tot ?from (rs_reads r)) (\<lambda>_.
      verify_promote sha c expected n)) ?Q (on_files (left_over d0 base0 r))" for tot
  proof -
    have "triple (on_files (holds d0 ?base)) (copy_loop c m tot ?from (rs_reads r)) (\<lambda>_. ?P) (on_files (left_over d0 base0 r))"
      by (rule triple_weaken[OF triple_copy_loop[OF off]]) (auto simp: on_files_def lo)
    then show ?thesis by (rule triple_bind[OF _ finish])
  qed
  let ?R = "on_files (\<lambda>p d. d = d0 \<and> (if ?over then p = None else (case p of None \<Rightarrow> [] | Some x \<Rightarrow> x) = base0))"
  have lr: "on_files (left_over d0 base0 r) s" if "?R s" for s
    using that by (auto simp: on_files_def left_over_def split: if_splits)
  have open_part: "triple ?R (modify_d (\<lambda>s. if 0 < ?from \<and> rs_status r = 206 then s else s\<lparr>df_part := Some []\<rparr>))
     (\<lambda>_. on_files (holds d0 ?base)) (on_files (left_over d0 base0 r))"
    by (rule triple_modify)
      (use assms(2) in \<open>auto simp: on_files_def holds_def continued_def split: option.splits if_splits\<close>)
  have drop_old: "triple (on_files (resting d0 base0)) (modify_d (\<lambda>s. if ?over then s\<lparr>df_part := None\<rparr> else s)) (\<lambda>_. ?R) (on_files (left_over d0 base0 r))"
    by (rule triple_modify) (auto simp: on_files_def resting_def)
  have chk: "triple (on_files (resting d0 base0)) (check_cancel c) (\<lambda>_. on_files (resting d0 base0)) (on_files (left_over d0 base0 r))"
    by (rule triple_check_files) (auto simp: resting_def left_over_def)
  show ?thesis
    unfolding receive_def Let_def
    by (intro triple_bind[OF chk triple_bind[OF drop_old]] triple_sum_case triple_if triple_raise[OF lr]
        triple_bind[OF open_part copy])
qed

section \<open>The outcome of a download\<close>

definition success_of ::
  "(byte list \<Rightarrow> string) \<Rightarrow> (nat \<Rightarrow> nat \<Rightarrow> open_result) \<Rightarrow> string option \<Rightarrow> nat \<Rightarrow> byte list \<Rightarrow> string \<Rightarrow> dl_files \<Rightarrow> bool" where
  "success_of sha net expected m base0 digest s' \<longleftrightarrow>
     (\<exists>a r base. base \<in> {base0, []} \<and> net a (length base) = Opened r \<and> ends (rs_reads r) \<and>
        df_part s' = None \<and> df_dest s' = Some (continued base r @ delivered (rs_reads r)) \<and>
        digest = sha (continued base r @ delivered (rs_reads r)) \<and> matches_expected expected digest \<and>
        within_limit m (continued base r) (delivered (rs_reads r)))"

definition failure_of :: "(nat \<Rightarrow> nat \<Rightarrow> open_result) \<Rightarrow> byte list \<Rightarrow> byte list option \<Rightarrow> dl_files \<Rightarrow> bool" where
  "failure_of net base0 d0 s' \<longleftrightarrow>
     df_dest s' = d0 \<and>
     (part_bytes s' \<in> {base0, []} \<or>
      (\<exists>a r base k. base \<in> {base0, []} \<and> net a (length base) = Opened r \<and> prefix k (delivered (rs_reads r)) \<and>
         part_bytes s' = continued base r @ k))"

lemma receive_outcome:
  assumes "0 < n" and "net a (length (part_bytes s)) = Opened r"
  shows "case receive sha c expected n m (length (part_bytes s)) r s of
      (Inr digest, s') \<Rightarrow> success_of sha net expected m (part_bytes s) digest s'
    | (Inl e, s') \<Rightarrow> failure_of net (part_bytes s) (df_dest s) s'"
proof -
  have at: "on_files (resting (df_dest s) (part_bytes s)) s" by (simp add: on_files_def resting_def part_bytes_def)
  note t = triple_receive[OF assms(1) refl, of "df_dest s" "part_bytes s" sha c expected m r]
  obtain res s' where res: "receive sha c expected n m (length (part_bytes s)) r s = (res, s')" by fastforce
  show ?thesis
  proof (cases res)
    case (Inr digest)
    have "success_of sha net expected m (part_bytes s) digest s'"
      unfolding success_of_def
      by (intro exI[of _ a] exI[of _ r] exI[of _ "part_bytes s"])
        (use triple_Inr[OF t at res[unfolded Inr]] assms(2) in \<open>auto simp: on_files_def promoted_def\<close>)
    then show ?thesis by (simp add: res Inr)
  next
    case (Inl e)
    have l: "on_files (left_over (df_dest s) (part_bytes s) r) s'" by (rule triple_Inl[OF t at res[unfolded Inl]])
    consider "part_bytes s' \<in> {part_bytes s, []}"
      | k where "prefix k (delivered (rs_reads r))" "part_bytes s' = continued (part_bytes s) r @ k"
      using l by (auto simp: on_files_def left_over_def kept_def part_bytes_def split: option.splits)
    moreover have "df_dest s' = df_dest s" using l by (simp add: on_files_def left_over_def)
    ultimately have "failure_of net (part_bytes s) (df_dest s) s'" using assms(2) unfolding failure_of_def by cases blast+
    then show ?thesis by (simp add: res Inl)
  qed
qed

lemma download_outcome:
  assumes "0 < n"
  shows "case download sha c net expected n m a s of
      (Inr digest, s') \<Rightarrow> success_of sha net expected m (part_bytes s) digest s'
    | (Inl e, s') \<Rightarrow> failure_of net (part_bytes s) (df_dest s) s'"
  using assms
proof (induction sha c net expected n m a s rule: download.induct)
  case (1 sha c net expected n m a s)
  let ?s = "s\<lparr>df_looks := Suc (df_looks s)\<rparr>"
  have pb: "part_bytes ?s = part_bytes s" "part_bytes (s\<lparr>df_looks := k, df_part := None\<rparr>) = []" for k by (simp_all add: part_bytes_def)
  have dest: "df_dest ?s = df_dest s" by simp
  have same: "failure_of net (part_bytes s) (df_dest s) ?s" by (simp add: failure_of_def pb)
  show ?case
  proof (cases "c (df_looks s)")
    case True
    then show ?thesis using same by (simp add: download.simps check_cancel_def)
  next
    case False
    then have chk: "check_cancel c s = (Inr (), ?s)" by (simp add: check_cancel_def)
    show ?thesis
    proof (cases "net a (resume_offset s)")
      case (HttpError status)
      show ?thesis
      proof (cases "0 < resume_offset s \<and> status = 416")
        case again: True
        have "case download sha c net expected n m (Suc a) (?s\<lparr>df_part := None\<rparr>) of
            (Inr digest, s') \<Rightarrow> success_of sha net expected m (part_bytes (?s\<lparr>df_part := None\<rparr>)) digest s'
          | (Inl e, s') \<Rightarrow> failure_of net (part_bytes (?s\<lparr>df_part := None\<rparr>)) (df_dest (?s\<lparr>df_part := None\<rparr>)) s'"
          by (rule "1.IH"[OF refl chk[symmetric] refl HttpError again "1.prems"])
        moreover have "success_of sha net expected m [] d s' \<Longrightarrow> success_of sha net expected m (part_bytes s) d s'" for d s'
          unfolding success_of_def by blast
        moreover have "failure_of net [] (df_dest s) s' \<Longrightarrow> failure_of net (part_bytes s) (df_dest s) s'" for s'
          unfolding failure_of_def by blast
        ultimately show ?thesis
          using again HttpError chk by (subst download.simps) (auto simp: Let_def pb split: prod.splits sum.splits)
      qed (use HttpError chk same in \<open>auto simp: download.simps Let_def\<close>)
    next
      case (Opened r)
      then have "case receive sha c expected n m (length (part_bytes ?s)) r ?s of
          (Inr digest, s') \<Rightarrow> success_of sha net expected m (part_bytes ?s) digest s'
        | (Inl e, s') \<Rightarrow> failure_of net (part_bytes ?s) (df_dest ?s) s'"
        by (intro receive_outcome[where a = a] "1.prems") (simp add: resume_offset_def pb)
      then have "case receive sha c expected n m (length (part_bytes s)) r ?s of
          (Inr digest, s') \<Rightarrow> success_of sha net expected m (part_bytes s) digest s'
        | (Inl e, s') \<Rightarrow> failure_of net (part_bytes s) (df_dest s) s'" unfolding pb dest .
      then show ?thesis using Opened chk by (subst download.simps) (simp add: resume_offset_def)
    qed (use chk same in \<open>auto simp: download.simps\<close>)
  qed
qed

text \<open>
  C20. A download never shows a file that was not verified: it returns only after the part
  file was hashed whole, matched the expected SHA-256 (if one is given, ignoring case),
  and was renamed to the destination, and what it returns is the hash of the destination's
  content, within \<open>max_bytes\<close> unless nothing was transferred. When it raises (cancelled,
  checksum mismatch, too large, HTTP or network failure, at any point) the destination is
  what it was before.
\<close>

theorem download_commits_verified:
  assumes "0 < chunk_bytes"
  shows "case download sha cancelled net expected chunk_bytes max_bytes attempt s of
      (Inr digest, s') \<Rightarrow>
        \<exists>content. df_dest s' = Some content \<and> df_part s' = None \<and> digest = sha content \<and>
          (\<forall>x. expected = Some x \<longrightarrow> x \<noteq> [] \<longrightarrow> lower digest = lower x) \<and>
          (0 < max_bytes \<longrightarrow> length content \<le> max (length (part_bytes s)) max_bytes)
    | (Inl e, s') \<Rightarrow> df_dest s' = df_dest s"
proof -
  have "\<exists>content. df_dest s' = Some content \<and> df_part s' = None \<and> digest = sha content \<and>
          (\<forall>x. expected = Some x \<longrightarrow> x \<noteq> [] \<longrightarrow> lower digest = lower x) \<and>
          (0 < max_bytes \<longrightarrow> length content \<le> max (length (part_bytes s)) max_bytes)"
    if ok: "success_of sha net expected max_bytes (part_bytes s) digest s'" for digest s'
  proof -
    obtain r base where b: "base \<in> {part_bytes s, []}" and p: "df_part s' = None"
      and d: "df_dest s' = Some (continued base r @ delivered (rs_reads r))" "digest = sha (continued base r @ delivered (rs_reads r))"
      and e: "matches_expected expected digest" and l: "within_limit max_bytes (continued base r) (delivered (rs_reads r))"
      using ok unfolding success_of_def by blast
    have "length (continued base r) \<le> length (part_bytes s)" using b by (auto simp: continued_def)
    then have "0 < max_bytes \<longrightarrow> length (continued base r @ delivered (rs_reads r)) \<le> max (length (part_bytes s)) max_bytes"
      using l by (auto simp: within_limit_def)
    moreover have "\<forall>x. expected = Some x \<longrightarrow> x \<noteq> [] \<longrightarrow> lower digest = lower x" using e by (auto simp: matches_expected_def)
    ultimately show ?thesis using p d by blast
  qed
  then show ?thesis
    using download_outcome[OF assms, where sha = sha and c = cancelled and net = net and expected = expected and m = max_bytes and a = attempt and s = s]
    by (auto simp: failure_of_def split: prod.splits sum.splits)
qed

section \<open>Resuming\<close>

text \<open>
  A server that serves the content \<open>X\<close>: a 206 response continues at the requested
  offset, any other starts at the beginning; it may fail or be cut short in the middle, and
  ends only at the end of \<open>X\<close>.
\<close>

definition serves :: "byte list \<Rightarrow> nat \<Rightarrow> response \<Rightarrow> bool" where
  "serves X off r \<longleftrightarrow>
     (let from = (if rs_status r = 206 then off else 0)
      in prefix (delivered (rs_reads r)) (drop from X) \<and> (ends (rs_reads r) \<longrightarrow> delivered (rs_reads r) = drop from X))"

lemma prefix_continue:
  assumes "prefix base X" and "serves X (length base) r" and "prefix k (delivered (rs_reads r))"
  shows "prefix (continued base r @ k) X"
proof -
  have "prefix k (drop (length (continued base r)) X)"
    using assms(2,3) by (auto simp: serves_def continued_def Let_def intro: prefix_order.trans split: if_splits)
  moreover have "X = continued base r @ drop (length (continued base r)) X"
    using assms(1) by (auto simp: continued_def prefix_def)
  ultimately show ?thesis by (metis same_prefix_prefix)
qed

lemma complete_continue:
  assumes "prefix base X" and "serves X (length base) r" and "ends (rs_reads r)"
  shows "continued base r @ delivered (rs_reads r) = X"
  using assms by (auto simp: serves_def continued_def prefix_def Let_def)

text \<open>
  Interrupted transfers are resumed, not corrupted: while the server serves the content
  \<open>X\<close> and the part file is a prefix of it, a failed or cancelled download leaves a part
  file that is again a prefix of \<open>X\<close>, whatever was cancelled or cut short when, and a
  download that returns has put exactly \<open>X\<close> in place. So it stays true over any number
  of attempts.
\<close>

theorem download_resumes_prefix:
  assumes "0 < chunk_bytes" and "\<And>a off r. net a off = Opened r \<Longrightarrow> serves X off r" and "prefix (part_bytes s) X"
  shows "case download sha cancelled net expected chunk_bytes max_bytes attempt s of
      (Inr digest, s') \<Rightarrow> df_dest s' = Some X \<and> digest = sha X
    | (Inl e, s') \<Rightarrow> df_dest s' = df_dest s \<and> prefix (part_bytes s') X"
proof -
  have "df_dest s' = Some X \<and> digest = sha X" if ok: "success_of sha net expected max_bytes (part_bytes s) digest s'" for digest s'
  proof -
    obtain a r base where b: "base \<in> {part_bytes s, []}" and n: "net a (length base) = Opened r" and e: "ends (rs_reads r)"
      and d: "df_dest s' = Some (continued base r @ delivered (rs_reads r))" "digest = sha (continued base r @ delivered (rs_reads r))"
      using ok unfolding success_of_def by blast
    have "prefix base X" using b assms(3) by auto
    from complete_continue[OF this assms(2)[OF n] e] d show ?thesis by simp
  qed
  moreover have "prefix (part_bytes s') X" if bad: "failure_of net (part_bytes s) (df_dest s) s'" for s'
  proof -
    consider "part_bytes s' \<in> {part_bytes s, []}"
      | a r base k where "base \<in> {part_bytes s, []}" "net a (length base) = Opened r" "prefix k (delivered (rs_reads r))"
        "part_bytes s' = continued base r @ k"
      using bad unfolding failure_of_def by blast
    then show ?thesis
    proof cases
      case 1 then show ?thesis using assms(3) by auto
    next
      case 2
      then have "prefix base X" using assms(3) by auto
      then show ?thesis using prefix_continue[OF _ assms(2)[OF 2(2)] 2(3)] 2(4) by simp
    qed
  qed
  ultimately show ?thesis
    using download_outcome[OF assms(1), where sha = sha and c = cancelled and net = net and expected = expected and m = max_bytes and a = attempt and s = s]
    by (auto simp: failure_of_def split: prod.splits sum.splits)
qed

definition sample_net :: "nat \<Rightarrow> nat \<Rightarrow> open_result" where
  "sample_net a off = Opened \<lparr>rs_status = 206, rs_content_length = Some ''2'', rs_reads = [Chunk (drop off [1, 2, 3])]\<rparr>"

definition sample_files :: dl_files where
  "sample_files = \<lparr>df_part = Some [1], df_dest = None, df_looks = 0, df_progress = []\<rparr>"

lemmas dl_eval = download.simps receive_def verify_promote_def sha256_file_def sha_loop.simps promote_def bind_d_def
  check_cancel_def modify_d_def return_d_def raise_d_def append_part_def part_bytes_def resume_offset_def total_bytes_def Let_def

theorem download_commits_verified_witness:
  "case download (\<lambda>bs. ''AB'') (\<lambda>k. False) sample_net (Some ''ab'') 2 0 0 sample_files of
      (Inr digest, s') \<Rightarrow> \<exists>content. df_dest s' = Some content \<and> digest = ''AB''
    | (Inl e, s') \<Rightarrow> df_dest s' = None"
  using download_commits_verified[where chunk_bytes = 2 and sha = "\<lambda>bs. ''AB''" and cancelled = "\<lambda>k. False"
      and net = sample_net and expected = "Some ''ab''" and max_bytes = 0 and attempt = 0 and s = sample_files]
  by (auto simp: sample_files_def split: prod.splits sum.splits)

lemma sample_serves: "sample_net a off = Opened r \<Longrightarrow> serves [1, 2, 3] off r"
  by (cases "drop off [1, 2, 3 :: byte] = []") (auto simp: sample_net_def serves_def Let_def)

theorem download_resumes_prefix_witness:
  "case download (\<lambda>bs. ''AB'') (\<lambda>k. k = 3) sample_net None 2 0 0 sample_files of
      (Inr digest, s') \<Rightarrow> df_dest s' = Some [1, 2, 3] \<and> digest = ''AB''
    | (Inl e, s') \<Rightarrow> df_dest s' = None \<and> prefix (part_bytes s') [1, 2, 3]"
  using download_resumes_prefix[where chunk_bytes = 2 and sha = "\<lambda>bs. ''AB''" and cancelled = "\<lambda>k. k = 3"
      and net = sample_net and expected = None and max_bytes = 0 and attempt = 0 and s = sample_files, OF _ sample_serves]
  by (auto simp: sample_files_def part_bytes_def split: prod.splits sum.splits)

text \<open>Both outcomes occur: undisturbed the download resumes and returns, cancelled at its fourth look it stops.\<close>

lemma sample_download_returns:
  "\<exists>s'. download (\<lambda>bs. ''AB'') (\<lambda>k. False) sample_net None 2 0 0 sample_files = (Inr ''AB'', s') \<and> df_dest s' = Some [1, 2, 3]"
  by (simp add: dl_eval sample_net_def sample_files_def isdigit_def is_digit_def code_def py_int_def strip_def lstrip_def is_space_def)

lemma sample_download_cancelled:
  "\<exists>s'. download (\<lambda>bs. ''AB'') (\<lambda>k. k = 3) sample_net None 2 0 0 sample_files = (Inl DownloadCancelled, s') \<and> df_dest s' = None"
  by (simp add: dl_eval sample_net_def sample_files_def isdigit_def is_digit_def code_def py_int_def strip_def lstrip_def is_space_def)

text \<open>
  The length the server announced is not compared with what arrived: a body cut short (an
  orderly close, which \<open>response.read(n)\<close> reports as the end) is hashed and promoted as
  the whole file when no checksum was given.
\<close>

theorem download_accepts_truncation:
  assumes "body \<noteq> []" and "isdigit len" and "py_int len = Some (int n)" and "length body < n" and "0 < chunk_bytes"
    and "net attempt 0 = Opened \<lparr>rs_status = 200, rs_content_length = Some len, rs_reads = [Chunk body]\<rparr>"
    and "df_part s = None"
  shows "\<exists>s'. download sha (\<lambda>k. False) net None chunk_bytes 0 attempt s = (Inr (sha body), s') \<and> df_dest s' = Some body"
proof -
  have hash: "\<exists>s'. sha_loop (\<lambda>k. False) chunk_bytes h rest s = (Inr (h @ rest), s') \<and> df_part s' = df_part s \<and> df_dest s' = df_dest s" for h rest s
    using assms(5)
  proof (induction "\<lambda>k :: nat. False" chunk_bytes h rest arbitrary: s rule: sha_loop.induct)
    case (1 n h rest)
    show ?case
    proof (cases "take n rest = []")
      case True
      then show ?thesis using "1.prems" by (subst sha_loop.simps) (auto simp: bind_d_def check_cancel_def return_d_def)
    next
      case False
      then show ?thesis using "1.hyps"[OF refl False "1.prems", of "s\<lparr>df_looks := Suc (df_looks s)\<rparr>"]
        by (subst sha_loop.simps) (auto simp: bind_d_def check_cancel_def)
    qed
  qed
  let ?s = "s\<lparr>df_part := Some body, df_progress := df_progress s @ [(length body, Some n)],
    df_looks := Suc (Suc (Suc (Suc (Suc (Suc (Suc (Suc (df_looks s))))))))\<rparr>"
  obtain s' where "sha_loop (\<lambda>k. False) chunk_bytes [] body ?s = (Inr body, s')" "df_part s' = Some body"
    using hash[of "[]" body ?s] by auto
  then show ?thesis using assms
    by (simp add: download.simps resume_offset_def part_bytes_def check_cancel_def receive_def bind_d_def modify_d_def
        total_bytes_def append_part_def verify_promote_def sha256_file_def promote_def return_d_def Let_def)
qed

section \<open>Cancelling against committing\<close>

datatype cancel_op = Request | Commit

text \<open>The calls on one event in the order of its lock: each call's answer, and how often the file was promoted.\<close>

fun run_cancel :: "cancel_op list \<Rightarrow> cancel_event \<Rightarrow> nat \<Rightarrow> (cancel_op \<times> bool) list \<times> cancel_event \<times> nat" where
  "run_cancel [] c n = ([], c, n)"
| "run_cancel (Request # ops) c n =
     (let (ok, c') = cancel_request c; (tr, c'', n') = run_cancel ops c' n in ((Request, ok) # tr, c'', n'))"
| "run_cancel (Commit # ops) c n =
     (let (ok, c', n') = cancel_commit Suc c n; (tr, c'', n'') = run_cancel ops c' n' in ((Commit, ok) # tr, c'', n''))"

lemma run_cancel_set:
  "ce_set c \<Longrightarrow> \<not> ce_committed c \<Longrightarrow> run_cancel ops c n = (map (\<lambda>x. (x, x = Request)) ops, c, n)"
  by (induction ops c n rule: run_cancel.induct) (auto simp: cancel_request_def cancel_commit_def)

lemma run_cancel_committed:
  "ce_committed c \<Longrightarrow> \<not> ce_set c \<Longrightarrow>
     run_cancel ops c n = (map (\<lambda>x. (x, x = Commit)) ops, c, n + length (filter (\<lambda>x. x = Commit) ops))"
  by (induction ops c n rule: run_cancel.induct) (auto simp: cancel_request_def cancel_commit_def)

text \<open>
  A cancel request and the commit of a download exclude each other, in whatever order
  the threads get the event's lock: the first call decides. If a request comes first, it is
  accepted and the file is never promoted; if the commit comes first, the file is promoted
  and every later request is refused.
\<close>

theorem cancel_commit_exclusive:
  "run_cancel (Request # ops) new_cancel_event 0
     = ((Request, True) # map (\<lambda>x. (x, x = Request)) ops, \<lparr>ce_set = True, ce_committed = False\<rparr>, 0) \<and>
   run_cancel (Commit # ops) new_cancel_event 0
     = ((Commit, True) # map (\<lambda>x. (x, x = Commit)) ops, \<lparr>ce_set = False, ce_committed = True\<rparr>,
        Suc (length (filter (\<lambda>x. x = Commit) ops)))"
  by (simp add: new_cancel_event_def cancel_request_def cancel_commit_def run_cancel_set run_cancel_committed)

end
