(* ===== verification/Model_Service.thy ===== *)
theory Model_Service
  imports Model_Registry Downloader
begin

text \<open>
  Model lifecycle orchestration (\<open>engine/models/service.py\<close>) and the host check of
  \<open>engine/models/compat.py\<close>.

  The state of the service is the registry's table, the files on disk, and the in-memory
  ownership: the running downloads with their destinations and cancel events, the models held
  by an operation, and the paths being imported. A coroutine is split where it awaits:
  \<open>import_local\<close> reserves and checks, hashes in a thread, and then records;
  \<open>start_download\<close> creates the row and the task, and the task ends in one of the
  outcomes of \<open>_run_download\<close>. Between those steps any other operation may run.

  \<open>key\<close> stands for \<open>_path_key\<close> (\<open>Path.resolve\<close>): the files are those of
  resolved paths. Generated identifiers and clock readings are arguments.
\<close>

section \<open>Host compatibility\<close>

datatype compat = COMPAT_OK | NEEDS_BACKEND | TOO_LARGE | COMPAT_UNKNOWN

text \<open>
  \<open>assess\<close>: whether \<open>llama_cpp\<close> is installed, the SIMD flags and the memory of the
  host are arguments. \<open>int(total_ram * 0.9)\<close> is the exact value.
\<close>

definition assess :: "bool \<Rightarrow> string list \<Rightarrow> int option \<Rightarrow> int option \<Rightarrow> bool \<Rightarrow> compat" where
  "assess backend_available simd_flags memory_total size_bytes valid_gguf =
     (if \<not> valid_gguf then COMPAT_UNKNOWN
      else if \<not> backend_available then NEEDS_BACKEND
      else if simd_flags \<noteq> [] \<and> ''avx2'' \<notin> set simd_flags \<and> ''avx512f'' \<notin> set simd_flags then NEEDS_BACKEND
      else case size_bytes of
          None \<Rightarrow> COMPAT_UNKNOWN
        | Some n \<Rightarrow>
            if n \<noteq> 0 \<and> (case memory_total of None \<Rightarrow> False | Some m \<Rightarrow> 0 < m \<and> m * 9 div 10 < n) then TOO_LARGE
            else if n = 0 then COMPAT_UNKNOWN else COMPAT_OK)"

definition compat_for :: "bool \<Rightarrow> string list \<Rightarrow> int option \<Rightarrow> model_record \<Rightarrow> compat" where
  "compat_for backend_available simd_flags memory_total m =
     assess backend_available simd_flags memory_total (mo_size_bytes m) (mo_status m = READY \<or> mo_arch m \<noteq> None)"

section \<open>File names\<close>

text \<open>\<open>Path(name).name\<close>: the last component, empty and \<open>.\<close> components ignored.\<close>

definition path_name :: "string \<Rightarrow> string" where
  "path_name p =
     (case rev (filter (\<lambda>w. w \<noteq> [] \<and> w \<noteq> ''.'') (split_on (CHR ''/'') p)) of [] \<Rightarrow> [] | w # _ \<Rightarrow> w)"

text \<open>\<open>Path(name).stem\<close> of a last component.\<close>

definition stem :: "string \<Rightarrow> string" where
  "stem name =
     (let after = takeWhile (\<lambda>c. c \<noteq> CHR ''.'') (rev name);
          i = length name - Suc (length after)
      in if length after < length name \<and> 0 < i \<and> after \<noteq> [] then take i name else name)"

definition safe_filename :: "string \<Rightarrow> string" where
  "safe_filename name = (let base = path_name name in if base = [] then ''model.gguf'' else base)"

text \<open>\<open>[A-Za-z0-9][A-Za-z0-9._-]{0,127}\<close>, the whole string\<close>

definition operator_filename :: "string \<Rightarrow> bool" where
  "operator_filename s \<longleftrightarrow>
     (case s of [] \<Rightarrow> False | c # cs \<Rightarrow> alnum c \<and> length cs \<le> 127 \<and>
        list_all (\<lambda>x. alnum x \<or> x \<in> {CHR ''.'', CHR ''_'', CHR ''-''}) cs)"

datatype service_error = ModelServiceError | ModelBusyError | ModelDeleteError | OsError | StoreError db_error

definition url_download_filename :: "string \<Rightarrow> string option \<Rightarrow> (service_error, string) result" where
  "url_download_filename uuid_hex filename =
     (case filename of
        None \<Rightarrow> Inr (''download-'' @ take 12 uuid_hex @ ''.gguf'')
      | Some f \<Rightarrow> if f = [] then Inr (''download-'' @ take 12 uuid_hex @ ''.gguf'')
                 else if operator_filename f then Inr f else Inl ModelServiceError)"

section \<open>State\<close>

record service =
  sv_rows :: models
  sv_files :: "string \<Rightarrow> byte list option"
  sv_tasks :: "string list"
  sv_cancels :: "string \<Rightarrow> cancel_event option"
  sv_download_paths :: "string \<Rightarrow> string option"
  sv_operations :: "string list"
  sv_import_paths :: "string list"

definition part_of :: "string \<Rightarrow> string" where
  "part_of path = path @ ''.part''"

definition is_busy :: "(string \<Rightarrow> string) \<Rightarrow> service \<Rightarrow> model_record \<Rightarrow> bool" where
  "is_busy key sv m \<longleftrightarrow>
     mo_id m \<in> set (sv_tasks sv) \<or> mo_id m \<in> set (sv_operations sv) \<or> key (mo_path m) \<in> set (sv_import_paths sv)"

definition owns_work :: "service \<Rightarrow> bool" where
  "owns_work sv \<longleftrightarrow> sv_tasks sv \<noteq> []"

section \<open>Import\<close>

text \<open>Up to the \<open>await\<close>: the path is reserved, or the reservation is given back with the error.\<close>

definition import_begin ::
  "(string \<Rightarrow> string) \<Rightarrow> (string \<Rightarrow> byte list \<Rightarrow> gguf_info) \<Rightarrow> string \<Rightarrow> service \<Rightarrow> (service_error, gguf_info) result \<times> service" where
  "import_begin key probe_file path sv =
     (if key path \<in> set (sv_import_paths sv) \<or> key path \<in> ran (sv_download_paths sv) then (Inl ModelBusyError, sv)
      else case sv_files sv (key path) of
          None \<Rightarrow> (Inl ModelServiceError, sv)
        | Some bytes \<Rightarrow>
            if gi_valid (probe_file path bytes)
            then (Inr (probe_file path bytes), sv\<lparr>sv_import_paths := key path # sv_import_paths sv\<rparr>)
            else (Inl ModelServiceError, sv))"

text \<open>
  After the hash: the row is created and the reservation ends, in any case. \<open>None\<close> as
  the digest is an \<open>OSError\<close> while hashing (the file vanished).
\<close>

definition import_finish ::
  "(string \<Rightarrow> string) \<Rightarrow> string \<Rightarrow> iso_time \<Rightarrow> string \<Rightarrow> utext option \<Rightarrow> gguf_info \<Rightarrow> string option \<Rightarrow> service
    \<Rightarrow> (service_error, model_record) result \<times> service" where
  "import_finish key model_id now path name info digest sv =
     (let sv' = sv\<lparr>sv_import_paths := removeAll (key path) (sv_import_paths sv)\<rparr>
      in case digest of
           None \<Rightarrow> (Inl OsError, sv')
         | Some d \<Rightarrow>
             (case sv_files sv (key path) of
                None \<Rightarrow> (Inl OsError, sv')
              | Some bytes \<Rightarrow>
                  (case model_create model_id now
                     (case name of Some (c # cs) \<Rightarrow> c # cs
                      | _ \<Rightarrow> (case gi_name info of Some (c # cs) \<Rightarrow> c # cs | _ \<Rightarrow> text_of (stem (path_name path))))
                     (path_name path) path ''import'' (Some path) READY None (Some d) (Some (int (length bytes)))
                     (gi_quant info) (gi_arch info) (gi_context_length info) (sv_rows sv) of
                     Inl e \<Rightarrow> (Inl (StoreError e), sv')
                   | Inr (m, rows) \<Rightarrow> (Inr m, sv'\<lparr>sv_rows := rows\<rparr>))))"

definition register_configured ::
  "(string \<Rightarrow> string) \<Rightarrow> (string \<Rightarrow> byte list \<Rightarrow> gguf_info) \<Rightarrow> string \<Rightarrow> iso_time \<Rightarrow> string \<Rightarrow> utext \<Rightarrow> service
    \<Rightarrow> (service_error, model_record option) result \<times> service" where
  "register_configured key probe_file model_id now path name sv =
     (case sv_files sv (key path) of
        None \<Rightarrow> (Inr None, sv)
      | Some bytes \<Rightarrow>
          (case find_by_path path (sv_rows sv) of
             Some m \<Rightarrow> (Inr (Some m), sv)
           | None \<Rightarrow>
               let info = probe_file path bytes
               in case model_create model_id now name (path_name path) path ''import'' (Some path) READY None None
                         (Some (int (length bytes))) (gi_quant info) (gi_arch info) (gi_context_length info) (sv_rows sv) of
                    Inl e \<Rightarrow> (Inl (StoreError e), sv)
                  | Inr (m, rows) \<Rightarrow>
                      (case set_active (mo_id m) now rows of
                         Inl e \<Rightarrow> (Inl (StoreError e), sv\<lparr>sv_rows := rows\<rparr>)
                       | Inr rows' \<Rightarrow> (Inr (Some m), sv\<lparr>sv_rows := rows'\<rparr>))))"

section \<open>Downloads\<close>

definition URL_SOURCE_DESCRIPTOR :: string where
  "URL_SOURCE_DESCRIPTOR = ''address not stored''"

text \<open>The name of the file and the recorded source, by the kind of source.\<close>

definition download_source ::
  "string \<Rightarrow> string \<Rightarrow> string option \<Rightarrow> string option \<Rightarrow> string \<Rightarrow> string option \<Rightarrow> (service_error, string \<times> string) result" where
  "download_source uuid_hex source_type repo filename revision url =
     (if source_type = ''huggingface'' then
        (case (repo, filename) of
           (Some (r # rs), Some (f # fs)) \<Rightarrow>
             Inr ((r # rs) @ ''/'' @ (f # fs) @ ''@'' @ revision, safe_filename (f # fs))
         | _ \<Rightarrow> Inl ModelServiceError)
      else if source_type = ''url'' then
        (case url of
           Some (u # us) \<Rightarrow> map_sum id (Pair URL_SOURCE_DESCRIPTOR) (url_download_filename uuid_hex filename)
         | _ \<Rightarrow> Inl ModelServiceError)
      else Inl ModelServiceError)"

definition with_gguf :: "string \<Rightarrow> string" where
  "with_gguf base = (if endswith base ''.gguf'' then base else base @ ''.gguf'')"

definition start_download ::
  "(string \<Rightarrow> string) \<Rightarrow> string \<Rightarrow> string \<Rightarrow> string \<Rightarrow> iso_time \<Rightarrow> string \<Rightarrow> utext option \<Rightarrow> string option \<Rightarrow> string option \<Rightarrow> string
    \<Rightarrow> string option \<Rightarrow> string option \<Rightarrow> service \<Rightarrow> (service_error, model_record) result \<times> service" where
  "start_download key models_dir uuid_hex model_id now source_type name repo filename revision url expected_sha256 sv =
     (case download_source uuid_hex source_type repo filename revision url of
        Inl e \<Rightarrow> (Inl e, sv)
      | Inr (source_ref, base0) \<Rightarrow>
          let base = with_gguf base0; dest = models_dir @ ''/'' @ base
          in if key dest \<in> set (sv_import_paths sv) then (Inl ModelBusyError, sv)
             else if sv_files sv (key dest) \<noteq> None \<or> find_by_path dest (sv_rows sv) \<noteq> None then (Inl ModelServiceError, sv)
             else case model_create model_id now (case name of Some (c # cs) \<Rightarrow> c # cs | _ \<Rightarrow> text_of (stem base)) base dest
                         source_type (Some source_ref) DOWNLOADING expected_sha256 None None None None None (sv_rows sv) of
                 Inl e \<Rightarrow> (Inl (StoreError e), sv)
               | Inr (m, rows) \<Rightarrow>
                   (Inr m, sv\<lparr>sv_rows := rows,
                              sv_cancels := (sv_cancels sv)(mo_id m \<mapsto> new_cancel_event),
                              sv_download_paths := (sv_download_paths sv)(mo_id m \<mapsto> key dest),
                              sv_tasks := mo_id m # sv_tasks sv\<rparr>))"
text \<open>
  The progress callback: nothing after a cancel, the size once it is known, and the byte count
  at most every half second. \<open>last\<close> and \<open>seen_total\<close> are the closure's variables.
\<close>

definition progress_cb ::
  "string \<Rightarrow> iso_time \<Rightarrow> real \<Rightarrow> nat \<Rightarrow> nat option \<Rightarrow> real \<times> bool \<Rightarrow> service \<Rightarrow> (service_error, real \<times> bool) result \<times> service" where
  "progress_cb model_id now monotonic done_bytes tot st sv =
     (case st of (last_write, seen_total) \<Rightarrow>
      if (case sv_cancels sv model_id of None \<Rightarrow> False | Some c \<Rightarrow> ce_set c) then (Inr (last_write, seen_total), sv)
      else case (if tot \<noteq> None \<and> \<not> seen_total then model_update model_id now [FSizeBytes (map_option int tot)] (sv_rows sv)
                 else Inr (sv_rows sv)) of
          Inl e \<Rightarrow> (Inl (StoreError e), sv)
        | Inr rows \<Rightarrow>
            let seen = (seen_total \<or> tot \<noteq> None)
            in if 1 / 2 \<le> monotonic - last_write
               then (Inr (monotonic, seen), sv\<lparr>sv_rows := add_progress model_id now (int done_bytes) rows\<rparr>)
               else (Inr (last_write, seen), sv\<lparr>sv_rows := rows\<rparr>))"

text \<open>\<open>_release\<close>\<close>

definition release_download :: "string \<Rightarrow> service \<Rightarrow> service" where
  "release_download model_id sv =
     sv\<lparr>sv_cancels := (sv_cancels sv)(model_id := None), sv_tasks := removeAll model_id (sv_tasks sv),
        sv_download_paths := (sv_download_paths sv)(model_id := None)\<rparr>"

text \<open>
  \<open>_persist_terminal\<close>: one attempt; \<open>store_ok\<close> says whether the store takes it. A
  failure is logged and swallowed.
\<close>

definition persist_terminal :: "bool \<Rightarrow> string \<Rightarrow> iso_time \<Rightarrow> string \<Rightarrow> model_field list \<Rightarrow> service \<Rightarrow> bool \<times> service" where
  "persist_terminal store_ok model_id now status fs sv =
     (if store_ok
      then (case model_update model_id now (FStatus status # fs) (sv_rows sv) of
              Inl e \<Rightarrow> (False, sv)
            | Inr rows \<Rightarrow> (True, sv\<lparr>sv_rows := rows\<rparr>))
      else (False, sv))"

text \<open>How the transfer ended: the digest, a cancellation, a \<open>DownloadError\<close> with its safe message, or another exception's type.\<close>

datatype dl_outcome = Fetched string | WasCancelled | SafeError string | OtherError string

definition outcome_of :: "(dl_error \<Rightarrow> string) \<Rightarrow> (dl_error, string) result \<Rightarrow> dl_outcome" where
  "outcome_of safe_text r =
     (case r of
        Inr digest \<Rightarrow> Fetched digest
      | Inl DownloadCancelled \<Rightarrow> WasCancelled
      | Inl BadContentLength \<Rightarrow> OtherError ''ValueError''
      | Inl e \<Rightarrow> SafeError (safe_text e))"

definition failure_label :: "string \<Rightarrow> string \<Rightarrow> string" where
  "failure_label stage ty = ''download failed during '' @ stage @ '' ('' @ ty @ '')''"

definition record_failure :: "bool \<Rightarrow> string \<Rightarrow> iso_time \<Rightarrow> string \<Rightarrow> service \<Rightarrow> service" where
  "record_failure store_ok model_id now message sv = snd (persist_terminal store_ok model_id now ERROR [FError (Some message)] sv)"

definition record_cancelled :: "bool \<Rightarrow> string \<Rightarrow> iso_time \<Rightarrow> service \<Rightarrow> service" where
  "record_cancelled store_ok model_id now sv = snd (persist_terminal store_ok model_id now CANCELLED [] sv)"

text \<open>
  \<open>_run_download\<close> from the end of the transfer: a fetched file is probed and recorded as
  ready; a failing store or a file that vanished goes through the failure path; the ownership
  is released in any case. \<open>ok1\<close> and \<open>ok2\<close> say whether the store takes the first and
  the second write.
\<close>

definition record_ready ::
  "(string \<Rightarrow> byte list \<Rightarrow> gguf_info) \<Rightarrow> bool \<Rightarrow> string \<Rightarrow> iso_time \<Rightarrow> string \<Rightarrow> string \<Rightarrow> byte list \<Rightarrow> service \<Rightarrow> (db_error, models) result" where
  "record_ready probe_file store_ok model_id now dest digest bytes sv =
     (if store_ok
      then model_update model_id now
        [FStatus READY, FSha256 (Some digest), FSizeBytes (Some (int (length bytes))), FDownloadedBytes (int (length bytes)),
         FQuant (gi_quant (probe_file dest bytes)), FArch (gi_arch (probe_file dest bytes)),
         FContextLength (gi_context_length (probe_file dest bytes)), FError None] (sv_rows sv)
      else Inl ProgrammingError)"

definition record_outcome ::
  "(string \<Rightarrow> string) \<Rightarrow> (string \<Rightarrow> byte list \<Rightarrow> gguf_info) \<Rightarrow> bool \<Rightarrow> bool \<Rightarrow> string \<Rightarrow> iso_time \<Rightarrow> string \<Rightarrow> dl_outcome \<Rightarrow> service \<Rightarrow> service" where
  "record_outcome key probe_file ok1 ok2 model_id now dest outcome sv =
     (case outcome of
        Fetched digest \<Rightarrow>
          (case sv_files sv (key dest) of
             None \<Rightarrow> record_failure ok1 model_id now (failure_label ''finalize'' ''FileNotFoundError'') sv
           | Some bytes \<Rightarrow>
               (case record_ready probe_file ok1 model_id now dest digest bytes sv of
                  Inl e \<Rightarrow> record_failure ok2 model_id now (failure_label ''finalize'' ''OperationalError'') sv
                | Inr rows \<Rightarrow> sv\<lparr>sv_rows := rows\<rparr>))
      | WasCancelled \<Rightarrow> record_cancelled ok1 model_id now sv
      | SafeError message \<Rightarrow> record_failure ok1 model_id now message sv
      | OtherError ty \<Rightarrow> record_failure ok1 model_id now (failure_label ''download'' ty) sv)"

definition end_download ::
  "(string \<Rightarrow> string) \<Rightarrow> (string \<Rightarrow> byte list \<Rightarrow> gguf_info) \<Rightarrow> bool \<Rightarrow> bool \<Rightarrow> string \<Rightarrow> iso_time \<Rightarrow> string \<Rightarrow> dl_outcome \<Rightarrow> service \<Rightarrow> service" where
  "end_download key probe_file ok1 ok2 model_id now dest outcome sv =
     release_download model_id (record_outcome key probe_file ok1 ok2 model_id now dest outcome sv)"

definition cancel_download :: "string \<Rightarrow> service \<Rightarrow> bool \<times> service" where
  "cancel_download model_id sv =
     (case sv_cancels sv model_id of
        None \<Rightarrow> (False, sv)
      | Some c \<Rightarrow> (case cancel_request c of (ok, c') \<Rightarrow> (ok, sv\<lparr>sv_cancels := (sv_cancels sv)(model_id \<mapsto> c')\<rparr>)))"

section \<open>Recovery at startup\<close>

definition INTERRUPTED :: string where
  "INTERRUPTED = ''download interrupted: the engine stopped before it finished. Delete this model '' @
     ''(which removes any file it kept) and download it again.''"

definition running_statuses :: "string list" where
  "running_statuses = [DOWNLOADING, VERIFYING]"

fun reconcile_loop :: "iso_time \<Rightarrow> string list \<Rightarrow> model_record list \<Rightarrow> nat \<Rightarrow> models \<Rightarrow> nat \<times> models" where
  "reconcile_loop now tasks [] changed rows = (changed, rows)"
| "reconcile_loop now tasks (m # ms) changed rows =
     (if mo_status m \<notin> set running_statuses \<or> mo_id m \<in> set tasks then reconcile_loop now tasks ms changed rows
      else case mark_interrupted (mo_id m) now running_statuses INTERRUPTED rows of
          (ok, rows') \<Rightarrow> reconcile_loop now tasks ms (if ok then Suc changed else changed) rows')"

definition reconcile_interrupted :: "iso_time \<Rightarrow> service \<Rightarrow> nat \<times> service" where
  "reconcile_interrupted now sv =
     (case reconcile_loop now (sv_tasks sv) (model_list (sv_rows sv)) 0 (sv_rows sv) of
        (n, rows) \<Rightarrow> (n, sv\<lparr>sv_rows := rows\<rparr>))"

section \<open>Loads, deletes and shutdown\<close>

definition operation_enter :: "(string \<Rightarrow> string) \<Rightarrow> model_record \<Rightarrow> service \<Rightarrow> (service_error, unit) result \<times> service" where
  "operation_enter key m sv =
     (if is_busy key sv m then (Inl ModelBusyError, sv)
      else (Inr (), sv\<lparr>sv_operations := mo_id m # sv_operations sv\<rparr>))"

definition operation_exit :: "model_record \<Rightarrow> service \<Rightarrow> service" where
  "operation_exit m sv = sv\<lparr>sv_operations := removeAll (mo_id m) (sv_operations sv)\<rparr>"

definition within_models_dir :: "(string \<Rightarrow> string) \<Rightarrow> string \<Rightarrow> string \<Rightarrow> bool" where
  "within_models_dir key models_dir path \<longleftrightarrow> key path = key models_dir \<or> startswith (key path) (key models_dir @ ''/'')"

text \<open>\<open>fails p\<close> says that unlinking \<open>p\<close> raises; a missing file does not (\<open>missing_ok\<close>).\<close>

definition delete_files ::
  "(string \<Rightarrow> string) \<Rightarrow> string \<Rightarrow> (string \<Rightarrow> bool) \<Rightarrow> model_record \<Rightarrow> service \<Rightarrow> (service_error, unit) result \<times> service" where
  "delete_files key models_dir fails m sv =
     (if mo_source_type m \<noteq> ''import'' \<or> within_models_dir key models_dir (mo_path m)
      then if fails (mo_path m) then (Inl OsError, sv)
           else let sv1 = sv\<lparr>sv_files := (sv_files sv)(key (mo_path m) := None)\<rparr>
                in if fails (part_of (mo_path m)) then (Inl OsError, sv1)
                   else (Inr (), sv1\<lparr>sv_files := (sv_files sv1)(part_of (key (mo_path m)) := None)\<rparr>)
      else (Inr (), sv))"

definition delete_model ::
  "(string \<Rightarrow> string) \<Rightarrow> string \<Rightarrow> (string \<Rightarrow> bool) \<Rightarrow> bool \<Rightarrow> model_record \<Rightarrow> service \<Rightarrow> (service_error, unit) result \<times> service" where
  "delete_model key models_dir fails store_ok m sv =
     (if is_busy key sv m then (Inl ModelBusyError, sv)
      else case delete_files key models_dir fails m sv of
          (Inl e, sv') \<Rightarrow> (Inl ModelDeleteError, sv')
        | (Inr _, sv') \<Rightarrow>
            if store_ok then (Inr (), sv'\<lparr>sv_rows := snd (model_delete (mo_id m) (sv_rows sv'))\<rparr>)
            else (Inl ModelDeleteError, sv'))"

text \<open>One round of \<open>shutdown\<close>: every cancel event is set, and the tasks that are done are released.\<close>

definition shutdown_signal :: "service \<Rightarrow> service" where
  "shutdown_signal sv = sv\<lparr>sv_cancels := (\<lambda>i. map_option (\<lambda>c. snd (cancel_request c)) (sv_cancels sv i))\<rparr>"

definition shutdown_reap :: "(string \<Rightarrow> bool) \<Rightarrow> service \<Rightarrow> service" where
  "shutdown_reap is_done sv = fold release_download (filter is_done (sv_tasks sv)) sv"

section \<open>Where downloads go, and what is recorded of them\<close>

lemma split_on_no_sep: "w \<in> set (split_on c s) \<Longrightarrow> c \<notin> set w"
proof (induction c s arbitrary: w rule: split_on.induct)
  case (2 c x xs)
  then show ?case by (cases "split_on c xs") (auto split: if_splits)
qed simp

lemma path_name_no_slash: "CHR ''/'' \<notin> set (path_name p)"
proof (cases "rev (filter (\<lambda>w. w \<noteq> [] \<and> w \<noteq> ''.'') (split_on (CHR ''/'') p))")
  case Nil
  then show ?thesis by (simp add: path_name_def)
next
  case (Cons w ws)
  have "w \<in> set (rev (filter (\<lambda>w. w \<noteq> [] \<and> w \<noteq> ''.'') (split_on (CHR ''/'') p)))" unfolding Cons by simp
  then have "w \<in> set (split_on (CHR ''/'') p)" by simp
  with Cons show ?thesis using split_on_no_sep by (simp add: path_name_def)
qed

lemma alnum_not_slash: "alnum c \<Longrightarrow> c \<noteq> CHR ''/''"
  by (auto simp: alnum_def is_digit_def code_def)

lemma operator_filename_no_slash: "operator_filename s \<Longrightarrow> CHR ''/'' \<notin> set s"
  by (auto simp: operator_filename_def list_all_iff dest: alnum_not_slash split: list.splits)

lemma url_filename_no_slash:
  "CHR ''/'' \<notin> set uuid_hex \<Longrightarrow> url_download_filename uuid_hex f = Inr base \<Longrightarrow> CHR ''/'' \<notin> set base"
  by (auto simp: url_download_filename_def operator_filename_no_slash split: option.splits if_splits dest: in_set_takeD)

lemma download_source_no_slash:
  assumes "CHR ''/'' \<notin> set uuid_hex" and "download_source uuid_hex st repo f rv url = Inr (ref, base)"
  shows "CHR ''/'' \<notin> set base"
proof -
  have "CHR ''/'' \<notin> set (safe_filename x)" for x
    using path_name_no_slash[of x] by (auto simp: safe_filename_def Let_def)
  then show ?thesis using assms url_filename_no_slash[OF assms(1)]
    by (auto simp: download_source_def map_sum_Inr split: option.splits list.splits if_splits)
qed

lemma endswith_with_gguf: "endswith (with_gguf b) ''.gguf''"
  by (simp add: with_gguf_def)

lemma start_download_Inr:
  assumes "start_download key md uuid i now st name repo f rv url e sv = (Inr m, sv')"
  shows "\<exists>ref base rows. download_source uuid st repo f rv url = Inr (ref, base) \<and> mo_path m = md @ ''/'' @ with_gguf base \<and>
    mo_id m = i \<and> mo_status m = DOWNLOADING \<and> mo_source_ref m = Some ref \<and> \<not> mo_active m \<and>
    insert_model m (sv_rows sv) = Inr rows \<and>
    key (mo_path m) \<notin> set (sv_import_paths sv) \<and> sv_files sv (key (mo_path m)) = None \<and>
    find_by_path (mo_path m) (sv_rows sv) = None \<and>
    sv' = sv\<lparr>sv_rows := rows, sv_cancels := (sv_cancels sv)(i \<mapsto> new_cancel_event),
             sv_download_paths := (sv_download_paths sv)(i \<mapsto> key (mo_path m)), sv_tasks := i # sv_tasks sv\<rparr>"
  using assms by (auto simp: start_download_def model_create_def Let_def map_sum_Inr map_sum_Inl split: sum.splits prod.splits if_splits)

text \<open>
  A download is confined and does not record its address. Its destination is directly
  inside the models directory, whatever path the request names as its file, and ends in
  \<open>.gguf\<close>; the row starts as downloading, and the file and the row are new. For a URL
  download the outcome of the call (the row and the whole state) does not depend on the
  address, which may carry credentials.
\<close>

theorem start_download_confined:
  assumes "CHR ''/'' \<notin> set uuid_hex"
    and "start_download key models_dir uuid_hex model_id now source_type name repo filename revision url expected sv = (Inr m, sv')"
  shows "(\<exists>base. mo_path m = models_dir @ ''/'' @ base \<and> CHR ''/'' \<notin> set base \<and> endswith base ''.gguf'') \<and>
    mo_status m = DOWNLOADING \<and> sv_files sv (key (mo_path m)) = None \<and> find_by_path (mo_path m) (sv_rows sv) = None \<and>
    model_get model_id (sv_rows sv') = Some m \<and> sv_rows sv' = sv_rows sv @ [m] \<and>
    (source_type = ''url'' \<longrightarrow> (\<forall>c cs. start_download key models_dir uuid_hex model_id now source_type name repo filename revision
       (Some (c # cs)) expected sv = (Inr m, sv')))"
proof (intro conjI impI allI)
  obtain ref base rows where src: "download_source uuid_hex source_type repo filename revision url = Inr (ref, base)"
    and p: "mo_path m = models_dir @ ''/'' @ with_gguf base" and i: "mo_id m = model_id" "mo_status m = DOWNLOADING"
    and ins: "insert_model m (sv_rows sv) = Inr rows" "sv_rows sv' = rows"
    and free: "sv_files sv (key (mo_path m)) = None" "find_by_path (mo_path m) (sv_rows sv) = None"
    using start_download_Inr[OF assms(2)] by auto
  have "CHR ''/'' \<notin> set (with_gguf base)"
    using download_source_no_slash[OF assms(1) src] by (simp add: with_gguf_def)
  then show "\<exists>base. mo_path m = models_dir @ ''/'' @ base \<and> CHR ''/'' \<notin> set base \<and> endswith base ''.gguf''"
    using p endswith_with_gguf by blast
  show "mo_status m = DOWNLOADING" "sv_files sv (key (mo_path m)) = None" "find_by_path (mo_path m) (sv_rows sv) = None"
    using i free by auto
  show "model_get model_id (sv_rows sv') = Some m" using models_tbl.lookup_insert[OF ins(1)] ins(2) i by simp
  show "sv_rows sv' = sv_rows sv @ [m]" using models_tbl.insert_fresh[OF ins(1)] ins(2) by simp
next
  fix c cs assume u: "source_type = ''url''"
  then have "download_source uuid_hex source_type repo filename revision (Some (c # cs))
      = download_source uuid_hex source_type repo filename revision url"
    using assms(2) by (auto simp: start_download_def download_source_def split: option.splits list.splits)
  then show "start_download key models_dir uuid_hex model_id now source_type name repo filename revision
       (Some (c # cs)) expected sv = (Inr m, sv')"
    using assms(2) by (simp add: start_download_def)
qed

definition empty_service :: service where
  "empty_service = \<lparr>sv_rows = [], sv_files = (\<lambda>_. None), sv_tasks = [], sv_cancels = (\<lambda>_. None), sv_download_paths = (\<lambda>_. None),
     sv_operations = [], sv_import_paths = []\<rparr>"

lemma sample_start:
  "\<exists>m sv'. start_download (\<lambda>p. p) ''/models'' ''abc'' ''id1'' ''now'' ''huggingface'' None (Some ''org/repo'') (Some ''../../etc/x'')
     ''main'' None None empty_service = (Inr m, sv') \<and> mo_path m = ''/models/x.gguf''"
  by (simp add: start_download_def download_source_def safe_filename_def path_name_def with_gguf_def endswith_def empty_service_def
      find_by_path_def model_create_def insert_model_def actives_def Let_def)

theorem start_download_confined_witness:
  "\<exists>m sv'. start_download (\<lambda>p. p) ''/models'' ''abc'' ''id1'' ''now'' ''huggingface'' None (Some ''org/repo'') (Some ''../../etc/x'')
     ''main'' None None empty_service = (Inr m, sv') \<and> mo_status m = DOWNLOADING \<and> mo_path m = ''/models/x.gguf''"
proof -
  obtain m sv' where *: "start_download (\<lambda>p. p) ''/models'' ''abc'' ''id1'' ''now'' ''huggingface'' None (Some ''org/repo'')
     (Some ''../../etc/x'') ''main'' None None empty_service = (Inr m, sv')" "mo_path m = ''/models/x.gguf''"
    using sample_start by blast
  from start_download_confined[OF _ *(1)] * show ?thesis by auto
qed

section \<open>Recovery\<close>

definition interrupted :: "iso_time \<Rightarrow> string list \<Rightarrow> model_record \<Rightarrow> model_record" where
  "interrupted now tasks m =
     (if mo_status m \<in> set running_statuses \<and> mo_id m \<notin> set tasks
      then m\<lparr>mo_status := ERROR, mo_error := Some INTERRUPTED, mo_updated_at := Some now\<rparr> else m)"

lemma ERROR_not_running [simp]: "ERROR \<notin> set running_statuses"
  by (simp add: running_statuses_def status_defs)

lemma mark_interrupted_eq:
  "mark_interrupted i now running_statuses INTERRUPTED rows =
     (\<exists>m\<in>set rows. mo_id m = i \<and> mo_status m \<in> set running_statuses,
      map (\<lambda>m. if mo_id m = i then interrupted now [] m else m) rows)"
  by (auto simp: mark_interrupted_def Let_def rowcount_pos upd_where_def interrupted_def)

lemma interrupted_id [simp]: "mo_id (interrupted now tasks m) = mo_id m"
  by (simp add: interrupted_def)

text \<open>The loop marks the rows of the listed ids that run and have no task.\<close>

lemma reconcile_loop_rows:
  assumes "\<forall>m\<in>set ms. \<exists>m'\<in>set rows. mo_id m' = mo_id m \<and> (mo_status m' = mo_status m \<or> mo_status m' \<notin> set running_statuses)"
    and "\<forall>m\<in>set ms. \<forall>m'\<in>set rows. mo_id m' = mo_id m \<longrightarrow> mo_status m' \<in> set running_statuses \<longrightarrow> mo_status m \<in> set running_statuses"
  shows "snd (reconcile_loop now tasks ms n rows) = map (\<lambda>m. if mo_id m \<in> mo_id ` set ms then interrupted now tasks m else m) rows"
  using assms
proof (induction ms arbitrary: n rows)
  case Nil
  then show ?case by simp
next
  case (Cons a ms)
  show ?case
  proof (cases "mo_status a \<notin> set running_statuses \<or> mo_id a \<in> set tasks")
    case True
    have "interrupted now tasks m = m" if "m \<in> set rows" "mo_id m = mo_id a" for m
      using Cons.prems(2) that True unfolding interrupted_def by auto
    then show ?thesis using True Cons.IH[of rows n] Cons.prems by (auto intro!: map_cong)
  next
    case False
    let ?rows = "map (\<lambda>m. if mo_id m = mo_id a then interrupted now [] m else m) rows"
    have st: "mo_status (interrupted now [] m) = (if mo_status m \<in> set running_statuses then ERROR else mo_status m)" for m
      by (simp add: interrupted_def)
    have 1: "\<forall>m\<in>set ms. \<exists>m'\<in>set ?rows. mo_id m' = mo_id m \<and> (mo_status m' = mo_status m \<or> mo_status m' \<notin> set running_statuses)"
    proof
      fix m assume "m \<in> set ms"
      then obtain m' where "m' \<in> set rows" "mo_id m' = mo_id m" "mo_status m' = mo_status m \<or> mo_status m' \<notin> set running_statuses"
        using Cons.prems(1) by auto
      then show "\<exists>m'\<in>set ?rows. mo_id m' = mo_id m \<and> (mo_status m' = mo_status m \<or> mo_status m' \<notin> set running_statuses)"
        by (intro bexI[of _ "if mo_id m' = mo_id a then interrupted now [] m' else m'"]) (auto simp: st)
    qed
    have 2: "\<forall>m\<in>set ms. \<forall>m'\<in>set ?rows. mo_id m' = mo_id m \<longrightarrow> mo_status m' \<in> set running_statuses \<longrightarrow> mo_status m \<in> set running_statuses"
      using Cons.prems(2) by (auto simp: st split: if_splits)
    have twice: "interrupted now tasks (interrupted now [] m) = interrupted now [] m"
      "interrupted now tasks (interrupted now tasks m) = interrupted now tasks m" for m
      by (simp_all add: interrupted_def)
    have once: "interrupted now [] m = interrupted now tasks m" if "mo_id m = mo_id a" for m
      using False that by (simp add: interrupted_def)
    show ?thesis using False Cons.IH[OF 1 2] by (auto simp: mark_interrupted_eq twice once)
  qed
qed

lemma reconcile_rows: "sv_rows (snd (reconcile_interrupted now sv)) = map (interrupted now (sv_tasks sv)) (sv_rows sv)"
  if "models_ok (sv_rows sv)"
proof -
  have u: "unique_on mo_id (sv_rows sv)" using that by (simp add: models_ok_def)
  have set: "set (model_list (sv_rows sv)) = set (sv_rows sv)" by (simp add: model_list_def)
  have same: "mo_status m' = mo_status m" if "m \<in> set (sv_rows sv)" "m' \<in> set (sv_rows sv)" "mo_id m' = mo_id m" for m m'
    using unique_on_eq[OF u that(2,1)] that(3) by simp
  have "snd (reconcile_loop now (sv_tasks sv) (model_list (sv_rows sv)) 0 (sv_rows sv))
     = map (\<lambda>m. if mo_id m \<in> mo_id ` set (model_list (sv_rows sv)) then interrupted now (sv_tasks sv) m else m) (sv_rows sv)"
  proof (rule reconcile_loop_rows; unfold set)
    show "\<forall>m\<in>set (sv_rows sv). \<exists>m'\<in>set (sv_rows sv). mo_id m' = mo_id m \<and>
        (mo_status m' = mo_status m \<or> mo_status m' \<notin> set running_statuses)" by blast
    show "\<forall>m\<in>set (sv_rows sv). \<forall>m'\<in>set (sv_rows sv). mo_id m' = mo_id m \<longrightarrow> mo_status m' \<in> set running_statuses \<longrightarrow>
        mo_status m \<in> set running_statuses" using same by metis
  qed
  then show ?thesis by (auto simp: reconcile_interrupted_def set split: prod.splits)
qed

lemma reconcile_loop_count:
  "\<forall>m\<in>set ms. mo_status m \<notin> set running_statuses \<or> mo_id m \<in> set tasks \<Longrightarrow> reconcile_loop now tasks ms n rows = (n, rows)"
  by (induction ms) auto

text \<open>
  After a restart (no download is owned yet) recovery leaves no model downloading or
  verifying: exactly those rows become errors with the fixed message, all other rows and all
  files stay as they are, nothing becomes ready or active, and a second run changes nothing.
\<close>

theorem reconcile_interrupted_complete:
  assumes "models_ok (sv_rows sv)" and "sv_tasks sv = []" and "reconcile_interrupted now sv = (n, sv')"
  shows "map mo_id (sv_rows sv') = map mo_id (sv_rows sv) \<and>
    (\<forall>m\<in>set (sv_rows sv'). mo_status m \<notin> {DOWNLOADING, VERIFYING}) \<and>
    sv_rows sv' = map (\<lambda>m. if mo_status m \<in> {DOWNLOADING, VERIFYING}
       then m\<lparr>mo_status := ERROR, mo_error := Some INTERRUPTED, mo_updated_at := Some now\<rparr> else m) (sv_rows sv) \<and>
    sv' = sv\<lparr>sv_rows := sv_rows sv'\<rparr> \<and>
    reconcile_interrupted later sv' = (0, sv')"
proof (intro conjI)
  have rows: "sv_rows sv' = map (interrupted now []) (sv_rows sv)"
    using reconcile_rows[OF assms(1), of now] assms(2,3) by simp
  then show "map mo_id (sv_rows sv') = map mo_id (sv_rows sv)" by simp
  show "sv_rows sv' = map (\<lambda>m. if mo_status m \<in> {DOWNLOADING, VERIFYING}
       then m\<lparr>mo_status := ERROR, mo_error := Some INTERRUPTED, mo_updated_at := Some now\<rparr> else m) (sv_rows sv)"
    using rows by (simp add: interrupted_def running_statuses_def)
  show stopped: "\<forall>m\<in>set (sv_rows sv'). mo_status m \<notin> {DOWNLOADING, VERIFYING}"
    using rows by (auto simp: interrupted_def running_statuses_def status_defs)
  show sv': "sv' = sv\<lparr>sv_rows := sv_rows sv'\<rparr>"
    using assms(3) by (auto simp: reconcile_interrupted_def split: prod.splits)
  have "reconcile_loop later (sv_tasks sv') (model_list (sv_rows sv')) 0 (sv_rows sv') = (0, sv_rows sv')"
    by (rule reconcile_loop_count) (use stopped in \<open>auto simp: running_statuses_def model_list_def\<close>)
  then show "reconcile_interrupted later sv' = (0, sv')" by (simp add: reconcile_interrupted_def)
qed

lemma sample_rows_ok: "models_ok [(sample_model i)\<lparr>mo_status := st\<rparr>]"
  by (simp add: models_ok_def unique_on_def actives_def sample_model_def)

theorem reconcile_interrupted_complete_witness:
  "\<exists>sv'. snd (reconcile_interrupted ''now'' (empty_service\<lparr>sv_rows := [(sample_model ''a'')\<lparr>mo_status := DOWNLOADING\<rparr>]\<rparr>)) = sv' \<and>
     map mo_status (sv_rows sv') = [ERROR] \<and> reconcile_interrupted ''later'' sv' = (0, sv')"
proof -
  let ?sv = "empty_service\<lparr>sv_rows := [(sample_model ''a'')\<lparr>mo_status := DOWNLOADING\<rparr>]\<rparr>"
  obtain n sv' where r: "reconcile_interrupted ''now'' ?sv = (n, sv')" by fastforce
  have ok: "models_ok (sv_rows ?sv)" and tasks: "sv_tasks ?sv = []" by (simp_all add: sample_rows_ok empty_service_def)
  note c = reconcile_interrupted_complete[OF ok tasks r, of "''later''"]
  have "map mo_status (sv_rows sv') = [ERROR]" using c by simp
  then show ?thesis using c r by simp
qed

section \<open>Ownership of the files\<close>

text \<open>What the ownership is about: which model has which path.\<close>

definition paths_of :: "models \<Rightarrow> (string \<times> string) list" where
  "paths_of rows = map (\<lambda>m. (mo_id m, mo_path m)) rows"

text \<open>
  The invariant. Every download has its row and has reserved its path, which no other row
  has; paths being imported and paths being downloaded are disjoint; and the recorded paths
  are resolved and are not part files.
\<close>

definition plain :: "(string \<Rightarrow> string) \<Rightarrow> string \<Rightarrow> bool" where
  "plain key p \<longleftrightarrow> key p = p \<and> \<not> endswith p ''.part''"

definition owned ::
  "(string \<Rightarrow> string) \<Rightarrow> (string \<times> string) list \<Rightarrow> string list \<Rightarrow> (string \<Rightarrow> string option) \<Rightarrow> string list \<Rightarrow> bool" where
  "owned key ps tasks dp imports \<longleftrightarrow>
     distinct (map fst ps) \<and> (\<forall>i p. (i, p) \<in> set ps \<longrightarrow> plain key p) \<and>
     (\<forall>i\<in>set tasks. \<exists>p. (i, p) \<in> set ps \<and> dp i = Some p) \<and> (\<forall>i. dp i \<noteq> None \<longrightarrow> i \<in> set tasks) \<and>
     (\<forall>i j p. (i, p) \<in> set ps \<longrightarrow> (j, p) \<in> set ps \<longrightarrow> i \<in> set tasks \<longrightarrow> i = j) \<and>
     (\<forall>p\<in>set imports. \<forall>i. dp i \<noteq> Some p)"

definition own_inv :: "(string \<Rightarrow> string) \<Rightarrow> service \<Rightarrow> bool" where
  "own_inv key sv \<longleftrightarrow>
     owned key (paths_of (sv_rows sv)) (sv_tasks sv) (sv_download_paths sv) (sv_import_paths sv) \<and>
     (\<forall>i. sv_cancels sv i \<noteq> None \<longleftrightarrow> i \<in> set (sv_tasks sv))"

lemma owned_distinct: "owned key ps tasks dp imports \<Longrightarrow> distinct (map fst ps)"
  and owned_plain: "owned key ps tasks dp imports \<Longrightarrow> (i, p) \<in> set ps \<Longrightarrow> plain key p"
  and owned_row: "owned key ps tasks dp imports \<Longrightarrow> i \<in> set tasks \<Longrightarrow> \<exists>p. (i, p) \<in> set ps \<and> dp i = Some p"
  and owned_task: "owned key ps tasks dp imports \<Longrightarrow> dp i \<noteq> None \<Longrightarrow> i \<in> set tasks"
  and owned_sole: "owned key ps tasks dp imports \<Longrightarrow> (i, p) \<in> set ps \<Longrightarrow> (j, p) \<in> set ps \<Longrightarrow> i \<in> set tasks \<Longrightarrow> i = j"
  and owned_disjoint: "owned key ps tasks dp imports \<Longrightarrow> p \<in> set imports \<Longrightarrow> dp i \<noteq> Some p"
  unfolding owned_def by blast+

lemma ownedI:
  assumes "distinct (map fst ps)" and "\<And>i p. (i, p) \<in> set ps \<Longrightarrow> plain key p"
    and "\<And>i. i \<in> set tasks \<Longrightarrow> \<exists>p. (i, p) \<in> set ps \<and> dp i = Some p" and "\<And>i. dp i \<noteq> None \<Longrightarrow> i \<in> set tasks"
    and "\<And>i j p. (i, p) \<in> set ps \<Longrightarrow> (j, p) \<in> set ps \<Longrightarrow> i \<in> set tasks \<Longrightarrow> i = j"
    and "\<And>p i. p \<in> set imports \<Longrightarrow> dp i \<noteq> Some p"
  shows "owned key ps tasks dp imports"
  using assms unfolding owned_def by blast

lemma owned_path: "owned key ps tasks dp imports \<Longrightarrow> dp i = Some p \<Longrightarrow> (i, p) \<in> set ps"
  by (metis option.inject option.distinct(1) owned_row owned_task)

lemma owned_path_eq:
  assumes "owned key ps tasks dp imports" and "i \<in> set tasks" and "(i, p) \<in> set ps"
  shows "dp i = Some p"
proof -
  obtain q where q: "(i, q) \<in> set ps" "dp i = Some q" using owned_row[OF assms(1,2)] by blast
  then show ?thesis using eq_key_imp_eq_value[OF owned_distinct[OF assms(1)] q(1) assms(3)] by simp
qed

lemma owned_add:
  assumes "owned key ps tasks dp imports" and "i \<notin> fst ` set ps" and "plain key p" and "\<forall>j. dp j \<noteq> Some p"
  shows "owned key (ps @ [(i, p)]) tasks dp imports"
proof (rule ownedI)
  have t: "i \<notin> set tasks" using owned_row[OF assms(1), of i] assms(2) by force
  show "distinct (map fst (ps @ [(i, p)]))" using owned_distinct[OF assms(1)] assms(2) by simp
  show "plain key q" if "(j, q) \<in> set (ps @ [(i, p)])" for j q using that assms(3) owned_plain[OF assms(1)] by auto
  show "\<exists>q. (j, q) \<in> set (ps @ [(i, p)]) \<and> dp j = Some q" if "j \<in> set tasks" for j
    using owned_row[OF assms(1) that] by auto
  show "j \<in> set tasks" if "dp j \<noteq> None" for j by (rule owned_task[OF assms(1) that])
  show "j = k" if "(j, q) \<in> set (ps @ [(i, p)])" "(k, q) \<in> set (ps @ [(i, p)])" "j \<in> set tasks" for j k q
  proof -
    have j: "(j, q) \<in> set ps" using that(1,3) t by auto
    then have "q \<noteq> p" using owned_path_eq[OF assms(1) that(3)] assms(4) by blast
    then have "(k, q) \<in> set ps" using that(2) by simp
    then show ?thesis using owned_sole[OF assms(1) j] that(3) by blast
  qed
  show "dp j \<noteq> Some q" if "q \<in> set imports" for q j by (rule owned_disjoint[OF assms(1) that])
qed

lemma owned_del:
  assumes "owned key ps tasks dp imports" and "i \<notin> set tasks"
  shows "owned key (filter (\<lambda>x. fst x \<noteq> i) ps) tasks dp imports"
proof -
  have "distinct (map fst (filter (\<lambda>x. fst x \<noteq> i) ps))" using assms(1) by (simp add: owned_def distinct_map_filter)
  moreover have "\<forall>j\<in>set tasks. \<exists>p. (j, p) \<in> set (filter (\<lambda>x. fst x \<noteq> i) ps) \<and> dp j = Some p"
    using assms unfolding owned_def by fastforce
  ultimately show ?thesis using assms unfolding owned_def by auto
qed

lemma owned_release:
  "owned key ps tasks dp imports \<Longrightarrow> owned key ps (removeAll i tasks) (dp(i := None)) imports"
  unfolding owned_def by auto

lemma owned_imports_sub: "owned key ps tasks dp imports \<Longrightarrow> set imports' \<subseteq> set imports \<Longrightarrow> owned key ps tasks dp imports'"
  unfolding owned_def by blast

lemma owned_import: "owned key ps tasks dp imports \<Longrightarrow> p \<notin> ran dp \<Longrightarrow> owned key ps tasks dp (p # imports)"
  unfolding owned_def by (auto simp: ran_def)

lemma owned_start:
  assumes "owned key ps tasks dp imports" and "i \<notin> fst ` set ps" and "plain key p" and "p \<notin> snd ` set ps" and "p \<notin> set imports"
  shows "owned key (ps @ [(i, p)]) (i # tasks) (dp(i \<mapsto> p)) imports"
proof -
  have nd: "dp j \<noteq> Some p" for j using owned_path[OF assms(1), of j p] assms(4) by force
  have t: "i \<notin> set tasks" using owned_row[OF assms(1), of i] assms(2) by force
  have o: "owned key (ps @ [(i, p)]) tasks dp imports" by (rule owned_add[OF assms(1-3)]) (use nd in auto)
  have 1: "\<forall>j\<in>set (i # tasks). \<exists>q. (j, q) \<in> set (ps @ [(i, p)]) \<and> (dp(i \<mapsto> p)) j = Some q"
    using owned_row[OF o] t by auto
  have 2: "\<forall>j k q. (j, q) \<in> set (ps @ [(i, p)]) \<longrightarrow> (k, q) \<in> set (ps @ [(i, p)]) \<longrightarrow> j \<in> set (i # tasks) \<longrightarrow> j = k"
  proof (intro allI impI)
    fix j k q assume a: "(j, q) \<in> set (ps @ [(i, p)])" "(k, q) \<in> set (ps @ [(i, p)])" "j \<in> set (i # tasks)"
    show "j = k"
    proof (cases "j = i")
      case True
      then have "q = p" using a(1) assms(2) by (auto simp: image_iff)
      then have "(k, q) \<notin> set ps" using assms(4) by force
      then show ?thesis using a(2) True by simp
    next
      case False
      then show ?thesis using owned_sole[OF o a(1,2)] a(3) by simp
    qed
  qed
  show ?thesis
  proof (rule ownedI)
    show "j \<in> set (i # tasks)" if "(dp(i \<mapsto> p)) j \<noteq> None" for j using that owned_task[OF o, of j] by (cases "j = i") auto
    show "(dp(i \<mapsto> p)) j \<noteq> Some q" if "q \<in> set imports" for q j
      using that owned_disjoint[OF o that, of j] assms(5) by (cases "j = i") auto
  qed (use owned_distinct[OF o] owned_plain[OF o] 1 2 in blast)+
qed

section \<open>Every operation keeps the ownership\<close>

lemma paths_upd: "(\<And>m. mo_id (f m) = mo_id m \<and> mo_path (f m) = mo_path m) \<Longrightarrow> paths_of (upd_where p f t) = paths_of t"
  by (induction t) (auto simp: paths_of_def)

definition no_path :: "model_field \<Rightarrow> bool" where
  "no_path f \<longleftrightarrow> (case f of FPath _ \<Rightarrow> False | _ \<Rightarrow> True)"

lemma fold_assign_path: "list_all no_path fs \<Longrightarrow> mo_path (fold assign fs m) = mo_path m"
proof (induction fs arbitrary: m)
  case (Cons f fs)
  then show ?case by (cases f) (auto simp: no_path_def)
qed simp

lemma paths_update: "model_update i now fs t = Inr t' \<Longrightarrow> list_all no_path fs \<Longrightarrow> paths_of t' = paths_of t"
  by (auto simp: model_update_def checked_def fold_assign_path intro!: paths_upd split: if_splits)

lemma paths_progress [simp]: "paths_of (add_progress i now n t) = paths_of t"
  unfolding add_progress_def by (rule paths_upd) simp

lemma paths_set_active: "set_active i now t = Inr t' \<Longrightarrow> paths_of t' = paths_of t"
  by (auto simp: set_active_def checked_def clear_active_def paths_upd split: if_splits)

lemma paths_mark [simp]: "paths_of (snd (mark_interrupted i now ss e t)) = paths_of t"
  unfolding mark_interrupted_def Let_def snd_conv by (rule paths_upd) simp

lemma paths_delete: "paths_of (snd (model_delete i t)) = filter (\<lambda>x. fst x \<noteq> i) (paths_of t)"
  by (induction t) (auto simp: model_delete_def paths_of_def)

lemma paths_insert: "insert_model m t = Inr t' \<Longrightarrow> paths_of t' = paths_of t @ [(mo_id m, mo_path m)] \<and> mo_id m \<notin> fst ` set (paths_of t)"
  by (auto simp: paths_of_def image_image dest!: models_tbl.insert_fresh)

lemma model_create_Inr:
  "model_create i now a b c d e f g h j k l n t = Inr (m, t') \<Longrightarrow> insert_model m t = Inr t' \<and> mo_id m = i \<and> mo_path m = c"
  by (auto simp: model_create_def Let_def map_sum_Inr)

lemma find_by_path_None: "find_by_path p t = None \<longleftrightarrow> p \<notin> snd ` set (paths_of t)"
  by (auto simp: find_by_path_def fetchone_None paths_of_def image_image)

lemma paths_reconcile: "paths_of (snd (reconcile_loop now tasks ms n t)) = paths_of t"
proof (induction ms arbitrary: n t)
  case (Cons m ms)
  have "paths_of t' = paths_of t" if "mark_interrupted i now ss e t = (b, t')" for i ss e b t'
    using paths_mark[of i now ss e t] that by simp
  then show ?case using Cons by (auto split: prod.splits)
qed simp

lemma own_inv_rows:
  "own_inv key sv \<Longrightarrow> paths_of rows = paths_of (sv_rows sv) \<Longrightarrow> own_inv key (sv\<lparr>sv_rows := rows\<rparr>)"
  by (simp add: own_inv_def)

lemma own_inv_persist: "own_inv key sv \<Longrightarrow> list_all no_path fs \<Longrightarrow> own_inv key (snd (persist_terminal ok i now st fs sv))"
  by (auto simp: persist_terminal_def no_path_def intro!: own_inv_rows dest!: paths_update split: sum.splits)

lemma own_inv_release: "own_inv key sv \<Longrightarrow> own_inv key (release_download i sv)"
  by (auto simp: own_inv_def release_download_def intro: owned_release)

lemma own_inv_import_begin: "own_inv key sv \<Longrightarrow> own_inv key (snd (import_begin key probe_file path sv))"
  by (auto simp: import_begin_def own_inv_def intro: owned_import split: option.splits)

lemma own_inv_import_finish:
  assumes "own_inv key sv" and "plain key path" and "key path \<in> set (sv_import_paths sv)"
  shows "own_inv key (snd (import_finish key i now path name info digest sv))"
proof -
  let ?sv = "sv\<lparr>sv_import_paths := removeAll (key path) (sv_import_paths sv)\<rparr>"
  have o: "owned key (paths_of (sv_rows sv)) (sv_tasks sv) (sv_download_paths sv) (sv_import_paths sv)"
    using assms(1) by (simp add: own_inv_def)
  have base: "own_inv key ?sv" using assms(1) owned_imports_sub[OF o] by (auto simp: own_inv_def)
  have "own_inv key (?sv\<lparr>sv_rows := rows\<rparr>)" if "insert_model m (sv_rows sv) = Inr rows" "mo_path m = path" for m rows
  proof -
    have "owned key (paths_of (sv_rows sv) @ [(mo_id m, mo_path m)]) (sv_tasks sv) (sv_download_paths sv) (removeAll (key path) (sv_import_paths sv))"
      using base paths_insert[OF that(1)] assms(2,3) owned_disjoint[OF o assms(3)] that(2)
      by (intro owned_add) (auto simp: own_inv_def plain_def)
    then show ?thesis using paths_insert[OF that(1)] base by (auto simp: own_inv_def)
  qed
  then show ?thesis using base
    by (auto simp: import_finish_def Let_def dest!: model_create_Inr split: option.splits sum.splits prod.splits)
qed

lemma endswith_ends: "endswith s p \<Longrightarrow> \<exists>x. s = x @ p"
  unfolding endswith_def by (metis append_take_drop_id)

lemma own_inv_start:
  assumes "own_inv key sv" and "CHR ''/'' \<notin> set uuid_hex"
    and "\<And>base. CHR ''/'' \<notin> set base \<Longrightarrow> key (md @ ''/'' @ base) = md @ ''/'' @ base"
  shows "own_inv key (snd (start_download key md uuid_hex i now st name repo f rv url e sv))"
proof (cases "start_download key md uuid_hex i now st name repo f rv url e sv")
  case (Pair res sv')
  show ?thesis
  proof (cases res)
    case (Inl err)
    then show ?thesis using Pair assms(1)
      by (auto simp: start_download_def Let_def split: sum.splits prod.splits if_splits)
  next
    case (Inr m)
    obtain ref base rows where src: "download_source uuid_hex st repo f rv url = Inr (ref, base)"
      and p: "mo_path m = md @ ''/'' @ with_gguf base" and i: "mo_id m = i" and ins: "insert_model m (sv_rows sv) = Inr rows"
      and imp: "key (mo_path m) \<notin> set (sv_import_paths sv)" and free: "find_by_path (mo_path m) (sv_rows sv) = None"
      and sv': "sv' = sv\<lparr>sv_rows := rows, sv_cancels := (sv_cancels sv)(i \<mapsto> new_cancel_event),
             sv_download_paths := (sv_download_paths sv)(i \<mapsto> key (mo_path m)), sv_tasks := i # sv_tasks sv\<rparr>"
      using start_download_Inr[OF Pair[unfolded Inr]] by blast
    have slash: "CHR ''/'' \<notin> set (with_gguf base)"
      using download_source_no_slash[OF assms(2) src] by (simp add: with_gguf_def)
    have key: "key (mo_path m) = mo_path m" using assms(3)[OF slash] p by simp
    obtain x where "with_gguf base = x @ ''.gguf''" using endswith_ends[OF endswith_with_gguf] by blast
    then have "\<not> endswith (mo_path m) ''.part''" unfolding p endswith_def by simp
    then have "plain key (mo_path m)" using key by (simp add: plain_def)
    then have "owned key (paths_of (sv_rows sv) @ [(i, mo_path m)]) (i # sv_tasks sv) ((sv_download_paths sv)(i \<mapsto> mo_path m)) (sv_import_paths sv)"
      using assms(1) paths_insert[OF ins] imp key free i
      by (intro owned_start) (auto simp: own_inv_def find_by_path_None)
    then show ?thesis using assms(1) paths_insert[OF ins] sv' Pair key i by (auto simp: own_inv_def)
  qed
qed

lemma own_inv_register:
  assumes "own_inv key sv" and "plain key path"
  shows "own_inv key (snd (register_configured key probe_file i now path name sv))"
proof -
  have o: "owned key (paths_of (sv_rows sv)) (sv_tasks sv) (sv_download_paths sv) (sv_import_paths sv)"
    using assms(1) by (simp add: own_inv_def)
  have add: "own_inv key (sv\<lparr>sv_rows := rows'\<rparr>)"
    if "insert_model m (sv_rows sv) = Inr rows" "mo_path m = path" "find_by_path path (sv_rows sv) = None" "paths_of rows' = paths_of rows"
    for m rows rows'
  proof -
    have "sv_download_paths sv j \<noteq> Some path" for j
      using owned_path[OF o, of j path] that(3) by (force simp: find_by_path_None)
    then have "owned key (paths_of (sv_rows sv) @ [(mo_id m, mo_path m)]) (sv_tasks sv) (sv_download_paths sv) (sv_import_paths sv)"
      using paths_insert[OF that(1)] assms(2) that(2) by (intro owned_add[OF o]) auto
    then show ?thesis using paths_insert[OF that(1)] that(4) assms(1) by (simp add: own_inv_def)
  qed
  then show ?thesis using assms(1)
    by (auto simp: register_configured_def Let_def dest!: model_create_Inr dest: paths_set_active split: option.splits sum.splits prod.splits)
qed

lemma own_inv_end: "own_inv key sv \<Longrightarrow> own_inv key (end_download key' probe_file ok1 ok2 i now dest outcome sv)"
  unfolding end_download_def record_outcome_def record_ready_def
  by (intro own_inv_release)
    (auto simp: record_failure_def record_cancelled_def Let_def no_path_def intro!: own_inv_persist own_inv_rows dest!: paths_update
      split: dl_outcome.splits option.splits sum.splits if_splits)

lemma own_inv_progress: "own_inv key sv \<Longrightarrow> own_inv key (snd (progress_cb i now mt n tot st sv))"
  by (auto simp: progress_cb_def Let_def no_path_def intro!: own_inv_rows dest!: paths_update split: prod.splits sum.splits if_splits)

lemma own_inv_cancel: "own_inv key sv \<Longrightarrow> own_inv key (snd (cancel_download i sv))"
  by (auto simp: cancel_download_def own_inv_def split: option.splits prod.splits)

lemma own_inv_delete: "own_inv key sv \<Longrightarrow> own_inv key (snd (delete_model key md fails ok m sv))"
  by (auto simp: delete_model_def delete_files_def is_busy_def own_inv_def paths_delete Let_def intro!: owned_del)

lemma own_inv_reconcile: "own_inv key sv \<Longrightarrow> own_inv key (snd (reconcile_interrupted now sv))"
proof -
  assume a: "own_inv key sv"
  obtain n rows where "reconcile_loop now (sv_tasks sv) (model_list (sv_rows sv)) 0 (sv_rows sv) = (n, rows)" by fastforce
  moreover from this have "paths_of rows = paths_of (sv_rows sv)" by (metis paths_reconcile snd_conv)
  ultimately show ?thesis using own_inv_rows[OF a] by (simp add: reconcile_interrupted_def)
qed

lemma own_inv_reap: "own_inv key sv \<Longrightarrow> own_inv key (shutdown_reap is_done sv)"
proof -
  have "own_inv key s \<Longrightarrow> own_inv key (fold release_download xs s)" for xs s
    by (induction xs arbitrary: s) (auto intro: own_inv_release)
  then show "own_inv key sv \<Longrightarrow> ?thesis" by (simp add: shutdown_reap_def)
qed

text \<open>
  The service as its operations interleave. Files change under it (the workers of running
  downloads, and the outside world). Paths handed to imports are resolved and are not part
  files.
\<close>

inductive service_step ::
  "(string \<Rightarrow> string) \<Rightarrow> (string \<Rightarrow> byte list \<Rightarrow> gguf_info) \<Rightarrow> string \<Rightarrow> service \<Rightarrow> service \<Rightarrow> bool"
  for key probe_file models_dir where
  step_import_begin: "service_step key probe_file models_dir sv (snd (import_begin key probe_file path sv))"
| step_import_finish: "plain key path \<Longrightarrow> key path \<in> set (sv_import_paths sv) \<Longrightarrow>
    service_step key probe_file models_dir sv (snd (import_finish key i now path name info digest sv))"
| step_register: "plain key path \<Longrightarrow>
    service_step key probe_file models_dir sv (snd (register_configured key probe_file i now path nm sv))"
| step_start: "CHR ''/'' \<notin> set uuid_hex \<Longrightarrow> service_step key probe_file models_dir sv
    (snd (start_download key models_dir uuid_hex i now st name repo f rv url expected sv))"
| step_progress: "service_step key probe_file models_dir sv (snd (progress_cb i now mt n tot pst sv))"
| step_end: "service_step key probe_file models_dir sv (end_download key probe_file ok1 ok2 i now dest outcome sv)"
| step_cancel: "service_step key probe_file models_dir sv (snd (cancel_download i sv))"
| step_enter: "service_step key probe_file models_dir sv (snd (operation_enter key m sv))"
| step_exit: "service_step key probe_file models_dir sv (operation_exit m sv)"
| step_delete: "service_step key probe_file models_dir sv (snd (delete_model key models_dir fails ok m sv))"
| step_reconcile: "service_step key probe_file models_dir sv (snd (reconcile_interrupted now sv))"
| step_signal: "service_step key probe_file models_dir sv (shutdown_signal sv)"
| step_reap: "service_step key probe_file models_dir sv (shutdown_reap is_done sv)"
| step_files: "service_step key probe_file models_dir sv (sv\<lparr>sv_files := files\<rparr>)"

lemma own_inv_step:
  assumes "service_step key probe_file md sv sv'" and "own_inv key sv"
    and "\<And>base. CHR ''/'' \<notin> set base \<Longrightarrow> key (md @ ''/'' @ base) = md @ ''/'' @ base"
  shows "own_inv key sv'"
  using assms
  by (induction rule: service_step.induct)
    (simp_all add: own_inv_import_begin own_inv_import_finish own_inv_register own_inv_start own_inv_progress own_inv_end own_inv_cancel
      own_inv_delete own_inv_reconcile own_inv_reap, auto simp: own_inv_def operation_enter_def operation_exit_def shutdown_signal_def)

lemma own_inv_reach:
  assumes "(service_step key probe_file md)\<^sup>*\<^sup>* sv0 sv" and "own_inv key sv0"
    and "\<And>base. CHR ''/'' \<notin> set base \<Longrightarrow> key (md @ ''/'' @ base) = md @ ''/'' @ base"
  shows "own_inv key sv"
  using assms(1,2)
proof (induction rule: rtranclp_induct)
  case (step y z)
  then show ?case using own_inv_step[OF step(2) _ assms(3)] by blast
qed simp

text \<open>The service as \<open>ModelService.__init__\<close> leaves it: nothing owned yet, the table of the last run.\<close>

definition startup :: "(string \<Rightarrow> string) \<Rightarrow> service \<Rightarrow> bool" where
  "startup key sv \<longleftrightarrow> sv_tasks sv = [] \<and> sv_cancels sv = (\<lambda>_. None) \<and> sv_download_paths sv = (\<lambda>_. None) \<and> sv_operations sv = [] \<and>
     sv_import_paths sv = [] \<and> unique_on mo_id (sv_rows sv) \<and> (\<forall>m\<in>set (sv_rows sv). plain key (mo_path m))"

lemma own_inv_startup: "startup key sv \<Longrightarrow> own_inv key sv"
  by (auto simp: startup_def own_inv_def owned_def paths_of_def unique_on_def comp_def)

lemma part_of_inj [simp]: "part_of p = part_of q \<longleftrightarrow> p = q"
  by (simp add: part_of_def)

lemma plain_not_part: "plain key p \<Longrightarrow> p \<noteq> part_of q"
  by (auto simp: plain_def part_of_def)

lemma delete_model_files:
  assumes "delete_model key md fails ok m sv = (r, sv')" and "key (mo_path m) = mo_path m" and "x \<noteq> mo_path m" and "x \<noteq> part_of (mo_path m)"
  shows "sv_files sv' x = sv_files sv x"
  using assms by (auto simp: delete_model_def delete_files_def Let_def split: if_splits sum.splits prod.splits)

lemma delete_model_rows:
  assumes "delete_model key md fails ok m sv = (r, sv')"
  shows "sv_rows sv' \<in> {sv_rows sv, snd (model_delete (mo_id m) (sv_rows sv))} \<and> sv_tasks sv' = sv_tasks sv \<and>
    sv_download_paths sv' = sv_download_paths sv"
  using assms by (auto simp: delete_model_def delete_files_def Let_def split: if_splits sum.splits prod.splits)


section \<open>How a download ends\<close>

definition no_active :: "model_field \<Rightarrow> bool" where
  "no_active f \<longleftrightarrow> (case f of FActive _ \<Rightarrow> False | _ \<Rightarrow> True)"

lemma fold_assign_active: "list_all no_active fs \<Longrightarrow> mo_active (fold assign fs m) = mo_active m"
proof (induction fs arbitrary: m)
  case (Cons f fs)
  then show ?case by (cases f) (auto simp: no_active_def)
qed simp

lemma model_update_ok:
  assumes "models_ok t" and "list_all no_active fs" and "fs \<noteq> []"
  shows "model_update i now fs t = Inr (upd_where (\<lambda>m. mo_id m = i) (\<lambda>m. (fold assign fs m)\<lparr>mo_updated_at := Some now\<rparr>) t)"
proof -
  have "models_ok (upd_where (\<lambda>m. mo_id m = i) (\<lambda>m. (fold assign fs m)\<lparr>mo_updated_at := Some now\<rparr>) t)"
    by (rule models_ok_upd[OF assms(1)]) (auto simp: fold_assign_active[OF assms(2)])
  then show ?thesis using assms(3) by (simp add: model_update_def checked_def)
qed

lemma model_get_update:
  "model_get i (upd_where (\<lambda>m. mo_id m = i) (\<lambda>m. (fold assign fs m)\<lparr>mo_updated_at := x\<rparr>) t)
     = map_option (\<lambda>m. (fold assign fs m)\<lparr>mo_updated_at := x\<rparr>) (model_get i t)"
proof (cases "model_get i t")
  case (Some m)
  then have "mo_id m = i" by (rule models_tbl.lookup_Some[THEN conjunct2])
  then show ?thesis using Some models_tbl.lookup_upd_same[of t "\<lambda>m. mo_id m = i" "\<lambda>m. (fold assign fs m)\<lparr>mo_updated_at := x\<rparr>" i] by simp
qed (use models_tbl.lookup_upd_same[of t "\<lambda>m. mo_id m = i" "\<lambda>m. (fold assign fs m)\<lparr>mo_updated_at := x\<rparr>" i] in simp)

text \<open>What the row says after an outcome, when the store takes the writes.\<close>

definition recorded :: "byte list option \<Rightarrow> dl_outcome \<Rightarrow> model_record \<Rightarrow> bool" where
  "recorded file outcome m \<longleftrightarrow>
     (case outcome of
        Fetched digest \<Rightarrow>
          (case file of
             None \<Rightarrow> mo_status m = ERROR \<and> mo_error m = Some (failure_label ''finalize'' ''FileNotFoundError'')
           | Some bytes \<Rightarrow> mo_status m = READY \<and> mo_sha256 m = Some digest \<and> mo_error m = None \<and>
               mo_size_bytes m = Some (int (length bytes)) \<and> mo_downloaded_bytes m = int (length bytes))
      | WasCancelled \<Rightarrow> mo_status m = CANCELLED
      | SafeError msg \<Rightarrow> mo_status m = ERROR \<and> mo_error m = Some msg
      | OtherError ty \<Rightarrow> mo_status m = ERROR \<and> mo_error m = Some (failure_label ''download'' ty))"

lemma update_row:
  assumes "models_ok t" and "model_get i t = Some m" and "list_all no_active fs" and "fs \<noteq> []"
  shows "\<exists>rows. model_update i now fs t = Inr rows \<and> model_get i rows = Some ((fold assign fs m)\<lparr>mo_updated_at := Some now\<rparr>)"
  using model_update_ok[OF assms(1,3,4)] model_get_update[where i = i and fs = fs and x = "Some now" and t = t] assms(2) by simp

lemma persist_row:
  assumes "models_ok (sv_rows sv)" and "model_get i (sv_rows sv) = Some m" and "list_all no_active fs"
  shows "\<exists>rows. persist_terminal True i now st fs sv = (True, sv\<lparr>sv_rows := rows\<rparr>) \<and>
    model_get i rows = Some ((fold assign (FStatus st # fs) m)\<lparr>mo_updated_at := Some now\<rparr>)"
  using update_row[OF assms(1,2), of "FStatus st # fs" now] assms(3) by (auto simp: persist_terminal_def no_active_def)

lemma record_failure_row:
  assumes "models_ok (sv_rows sv)" and "model_get i (sv_rows sv) = Some m"
  shows "\<exists>rows m'. record_failure ok i now msg sv = sv\<lparr>sv_rows := rows\<rparr> \<and> model_get i rows = Some m' \<and> mo_path m' = mo_path m \<and>
    (ok \<longrightarrow> mo_status m' = ERROR \<and> mo_error m' = Some msg)"
proof (cases ok)
  case True
  then show ?thesis using persist_row[OF assms, of "[FError (Some msg)]" now ERROR] by (auto simp: record_failure_def no_active_def)
next
  case False
  then have "record_failure ok i now msg sv = sv\<lparr>sv_rows := sv_rows sv\<rparr>" by (simp add: record_failure_def persist_terminal_def)
  with False assms(2) show ?thesis by blast
qed

lemma record_cancelled_row:
  assumes "models_ok (sv_rows sv)" and "model_get i (sv_rows sv) = Some m"
  shows "\<exists>rows m'. record_cancelled ok i now sv = sv\<lparr>sv_rows := rows\<rparr> \<and> model_get i rows = Some m' \<and> mo_path m' = mo_path m \<and>
    (ok \<longrightarrow> mo_status m' = CANCELLED)"
proof (cases ok)
  case True
  then show ?thesis using persist_row[OF assms, of "[]" now CANCELLED] by (auto simp: record_cancelled_def)
next
  case False
  then have "record_cancelled ok i now sv = sv\<lparr>sv_rows := sv_rows sv\<rparr>" by (simp add: record_cancelled_def persist_terminal_def)
  with False assms(2) show ?thesis by blast
qed

lemma record_ready_row:
  assumes "models_ok (sv_rows sv)" and "model_get i (sv_rows sv) = Some m"
  shows "\<exists>rows m'. (case record_ready probe_file ok1 i now dest digest bytes sv of
        Inl e \<Rightarrow> record_failure ok2 i now (failure_label ''finalize'' ''OperationalError'') sv
      | Inr rows \<Rightarrow> sv\<lparr>sv_rows := rows\<rparr>) = sv\<lparr>sv_rows := rows\<rparr> \<and> model_get i rows = Some m' \<and> mo_path m' = mo_path m \<and>
      (ok1 \<longrightarrow> recorded (Some bytes) (Fetched digest) m')"
proof (cases ok1)
  case True
  obtain rows m' where "record_ready probe_file ok1 i now dest digest bytes sv = Inr rows" "model_get i rows = Some m'"
    "mo_path m' = mo_path m" "recorded (Some bytes) (Fetched digest) m'"
    using True update_row[OF assms, of "[FStatus READY, FSha256 (Some digest), FSizeBytes (Some (int (length bytes))),
      FDownloadedBytes (int (length bytes)), FQuant (gi_quant (probe_file dest bytes)), FArch (gi_arch (probe_file dest bytes)),
      FContextLength (gi_context_length (probe_file dest bytes)), FError None]" now]
    by (auto simp: record_ready_def no_active_def recorded_def)
  then show ?thesis by auto
next
  case False
  then show ?thesis using record_failure_row[OF assms, of ok2 now "failure_label ''finalize'' ''OperationalError''"]
    by (auto simp: record_ready_def)
qed

lemma record_outcome_row:
  assumes "models_ok (sv_rows sv)" and "model_get i (sv_rows sv) = Some m"
  shows "\<exists>rows m'. record_outcome key probe_file ok1 ok2 i now dest outcome sv = sv\<lparr>sv_rows := rows\<rparr> \<and>
    model_get i rows = Some m' \<and> mo_path m' = mo_path m \<and> (ok1 \<longrightarrow> recorded (sv_files sv (key dest)) outcome m')"
proof (cases outcome)
  case (Fetched digest)
  show ?thesis
  proof (cases "sv_files sv (key dest)")
    case None
    then show ?thesis using Fetched record_failure_row[OF assms, of ok1 now "failure_label ''finalize'' ''FileNotFoundError''"]
      by (simp add: record_outcome_def recorded_def)
  next
    case (Some bytes)
    then show ?thesis using Fetched record_ready_row[OF assms, where probe_file = probe_file and dest = dest and digest = digest and bytes = bytes and now = now]
      by (simp add: record_outcome_def)
  qed
next
  case WasCancelled
  then show ?thesis using record_cancelled_row[OF assms] by (simp add: record_outcome_def recorded_def)
next
  case (SafeError msg)
  then show ?thesis using record_failure_row[OF assms] by (simp add: record_outcome_def recorded_def)
next
  case (OtherError ty)
  then show ?thesis using record_failure_row[OF assms] by (simp add: record_outcome_def recorded_def)
qed

text \<open>
  Every download ends in a terminal state and is released. Whatever happened to the
  transfer, the service no longer owns the model, its path or its cancel event; if the store
  takes the write, the row is ready exactly when the transfer returned and its file is there
  (with the digest and the size of that file and no error), cancelled when it was
  cancelled, and otherwise an error whose text is the safe message or a fixed label.
\<close>

theorem end_download_terminal:
  assumes "models_ok (sv_rows sv)" and "model_get i (sv_rows sv) = Some m"
    and "end_download key probe_file ok1 ok2 i now dest outcome sv = sv'"
  shows "i \<notin> set (sv_tasks sv') \<and> sv_cancels sv' i = None \<and> sv_download_paths sv' i = None \<and> sv_files sv' = sv_files sv \<and>
    (\<exists>m'. model_get i (sv_rows sv') = Some m' \<and> mo_path m' = mo_path m \<and>
       (ok1 \<longrightarrow> recorded (sv_files sv (key dest)) outcome m'))"
proof -
  obtain rows m' where "record_outcome key probe_file ok1 ok2 i now dest outcome sv = sv\<lparr>sv_rows := rows\<rparr>"
    "model_get i rows = Some m'" "mo_path m' = mo_path m" "ok1 \<longrightarrow> recorded (sv_files sv (key dest)) outcome m'"
    using record_outcome_row[OF assms(1,2)] by metis
  then show ?thesis using assms(3) by (auto simp: end_download_def release_download_def)
qed

definition sample_busy :: service where
  "sample_busy = empty_service\<lparr>sv_rows := [(sample_model ''a'')\<lparr>mo_status := DOWNLOADING\<rparr>], sv_tasks := [''a''],
     sv_cancels := [''a'' \<mapsto> new_cancel_event], sv_download_paths := [''a'' \<mapsto> ''/m.gguf'']\<rparr>"

theorem end_download_terminal_witness:
  "\<exists>m'. model_get ''a'' (sv_rows (end_download (\<lambda>p. p) (\<lambda>p b. invalid_info) True True ''a'' ''t'' ''/m.gguf'' WasCancelled sample_busy)) = Some m'
     \<and> mo_status m' = CANCELLED"
proof -
  have ok: "models_ok (sv_rows sample_busy)" by (simp add: sample_busy_def sample_rows_ok)
  have row: "model_get ''a'' (sv_rows sample_busy) = Some ((sample_model ''a'')\<lparr>mo_status := DOWNLOADING\<rparr>)"
    by (simp add: sample_busy_def model_get_def sample_model_def)
  show ?thesis
    using end_download_terminal[OF ok row refl, of "\<lambda>p. p" "\<lambda>p b. invalid_info" True True "''t''" "''/m.gguf''" WasCancelled]
    by (auto simp: recorded_def)
qed

lemma startup_empty: "startup key empty_service"
  by (simp add: startup_def empty_service_def)

text \<open>A download under way, with the row of another model beside it.\<close>

lemma sample_run:
  "\<exists>m sv. (service_step (\<lambda>p. p) (\<lambda>p b. invalid_info) ''/models'')\<^sup>*\<^sup>* empty_service sv \<and> m \<in> set (sv_rows sv) \<and> mo_id m = ''id1'' \<and>
     sv_download_paths sv ''id1'' = Some ''/models/x.gguf''"
proof -
  obtain m sv where s: "start_download (\<lambda>p. p) ''/models'' ''abc'' ''id1'' ''now'' ''huggingface'' None (Some ''org/repo'')
     (Some ''../../etc/x'') ''main'' None None empty_service = (Inr m, sv)" and p: "mo_path m = ''/models/x.gguf''"
    using sample_start by blast
  have "service_step (\<lambda>p. p) (\<lambda>p b. invalid_info) ''/models'' empty_service (snd (start_download (\<lambda>p. p) ''/models'' ''abc'' ''id1''
     ''now'' ''huggingface'' None (Some ''org/repo'') (Some ''../../etc/x'') ''main'' None None empty_service))"
    by (rule step_start) simp
  then have r: "(service_step (\<lambda>p. p) (\<lambda>p b. invalid_info) ''/models'')\<^sup>*\<^sup>* empty_service sv" by (simp add: s r_into_rtranclp)
  obtain rows where "insert_model m (sv_rows empty_service) = Inr rows" "sv_rows sv = rows" "mo_id m = ''id1''"
    "sv_download_paths sv ''id1'' = Some (mo_path m)"
    using start_download_Inr[OF s] by auto
  then show ?thesis using r p models_tbl.insert_fresh[of m "sv_rows empty_service" rows] by auto
qed


section \<open>A way around the reservation\<close>

text \<open>
  The reservation of \<open>import_local\<close> covers a download's destination but not its part file:
  the part file of a running download whose header has arrived is accepted as a model, and
  deleting that model removes the part file while the download is still writing it.
\<close>

theorem import_claims_part_file:
  assumes "sv_download_paths sv d = Some p" and "sv_files sv (part_of p) = Some bytes" and "key (part_of p) = part_of p"
    and "part_of p \<notin> set (sv_import_paths sv)" and "part_of p \<notin> ran (sv_download_paths sv)"
    and "gi_valid (probe_file (part_of p) bytes)" and "i \<notin> mo_id ` set (sv_rows sv)" and "i \<notin> set (sv_tasks sv)" "i \<notin> set (sv_operations sv)"
    and "within_models_dir key models_dir (part_of p)"
  shows "\<exists>info sv1 m sv2 sv3. import_begin key probe_file (part_of p) sv = (Inr info, sv1) \<and>
     import_finish key i now (part_of p) name info (Some digest) sv1 = (Inr m, sv2) \<and> mo_status m = READY \<and>
     delete_model key models_dir (\<lambda>_. False) True m sv2 = (Inr (), sv3) \<and>
     sv_files sv3 (part_of p) = None \<and> sv_download_paths sv3 d = Some p"
  using assms
  by (simp add: import_begin_def import_finish_def model_create_def insert_model_def Let_def delete_model_def is_busy_def delete_files_def
      removeAll_filter_not_eq split: option.splits list.splits)

end
