(* ===== verification/Token_Stream.thy ===== *)
theory Token_Stream
  imports Backend_Registry
begin

text \<open>
  The bridge from a blocking token producer in a worker thread to the event loop
  (\<open>engine/inference/stream.py\<close>) and the backend state machine around it
  (\<open>engine/inference/threaded.py\<close>).

  A stream has three actors: the worker thread running \<open>_run\<close>, the event loop running
  the callbacks the worker posts with \<open>call_soon_threadsafe\<close>, and the consumer
  (\<open>__anext__\<close>, \<open>aclose\<close>). Every point where they can interleave is a step of the
  relation \<open>stream_step\<close>. The producer is the list of tokens it yields and how it ends; once
  cancellation is requested it may end at any point.
\<close>

datatype finish_reason = STOP | LENGTH | CANCELLED_REASON | ERROR_REASON

text \<open>\<open>_Token\<close> and \<open>_Terminal\<close>; the error of a terminal is its text.\<close>

datatype stream_item = Token string | Terminal finish_reason "string option"

datatype callback = PutItem stream_item | OnDone

datatype worker_phase = Looping | Blocked | Reserved | Producing | Ending finish_reason "string option" | Posting | Finished

record gen_result =
  gr_text :: string
  gr_finish :: finish_reason
  gr_prompt_tokens :: nat
  gr_completion_tokens :: nat

record tstream =
  ts_maxsize :: nat
  ts_prompt_tokens :: nat
  ts_script :: "string list"
  ts_ending :: "finish_reason \<times> string option"
  ts_phase :: worker_phase
  ts_capacity :: nat
  ts_cancel :: bool
  ts_posted :: "callback list"
  ts_queue :: "stream_item list"
  ts_dropped :: "stream_item list"
  ts_parts :: "string list"
  ts_backpressure_waits :: nat
  ts_result :: "gen_result option"
  ts_exhausted :: bool
  ts_closed :: bool
  ts_on_done_fired :: bool

definition stream_init :: "nat \<Rightarrow> nat \<Rightarrow> string list \<Rightarrow> finish_reason \<times> string option \<Rightarrow> tstream" where
  "stream_init maxsize prompt_tokens script ending =
     \<lparr>ts_maxsize = maxsize, ts_prompt_tokens = prompt_tokens, ts_script = script, ts_ending = ending, ts_phase = Looping,
      ts_capacity = maxsize, ts_cancel = False, ts_posted = [], ts_queue = [], ts_dropped = [], ts_parts = [],
      ts_backpressure_waits = 0, ts_result = None, ts_exhausted = False, ts_closed = False, ts_on_done_fired = False\<rparr>"

section \<open>The worker thread\<close>

text \<open>\<open>_offer\<close>: the item is handed to the loop.\<close>

definition offer :: "stream_item \<Rightarrow> tstream \<Rightarrow> tstream" where
  "offer item s = s\<lparr>ts_posted := ts_posted s @ [PutItem item]\<rparr>"

text \<open>
  \<open>_run\<close>, from one point of interleaving to the next; \<open>None\<close> when the worker waits for
  capacity or has finished. \<open>early\<close> is how the producer ends when it is asked for the next
  token after a cancel request and chooses to stop.
\<close>

definition worker_step :: "(finish_reason \<times> string option) option \<Rightarrow> tstream \<Rightarrow> tstream option" where
  "worker_step early s =
     (case ts_phase s of
        Looping \<Rightarrow>
          if ts_cancel s then Some (s\<lparr>ts_phase := Ending CANCELLED_REASON None\<rparr>)
          else if 0 < ts_capacity s then Some (s\<lparr>ts_capacity := ts_capacity s - 1, ts_phase := Reserved\<rparr>)
          else Some (s\<lparr>ts_backpressure_waits := Suc (ts_backpressure_waits s), ts_phase := Blocked\<rparr>)
      | Blocked \<Rightarrow>
          if 0 < ts_capacity s then Some (s\<lparr>ts_capacity := ts_capacity s - 1, ts_phase := Reserved\<rparr>) else None
      | Reserved \<Rightarrow>
          if ts_cancel s then Some (s\<lparr>ts_capacity := Suc (ts_capacity s), ts_phase := Ending CANCELLED_REASON None\<rparr>)
          else Some (s\<lparr>ts_phase := Producing\<rparr>)
      | Producing \<Rightarrow>
          (case (if ts_cancel s then early else None) of
             Some (finish, err) \<Rightarrow> Some (s\<lparr>ts_capacity := Suc (ts_capacity s), ts_phase := Ending finish err\<rparr>)
           | None \<Rightarrow>
               (case ts_script s of
                  [] \<Rightarrow> Some (s\<lparr>ts_capacity := Suc (ts_capacity s), ts_phase := Ending (fst (ts_ending s)) (snd (ts_ending s))\<rparr>)
                | tok # toks \<Rightarrow> Some (offer (Token tok) (s\<lparr>ts_script := toks, ts_phase := Looping\<rparr>))))
      | Ending finish err \<Rightarrow> Some (offer (Terminal finish err) (s\<lparr>ts_phase := Posting\<rparr>))
      | Posting \<Rightarrow> Some (s\<lparr>ts_posted := ts_posted s @ [OnDone], ts_phase := Finished\<rparr>)
      | Finished \<Rightarrow> None)"

section \<open>The event loop and the consumer\<close>

definition fire_on_done :: "tstream \<Rightarrow> tstream" where
  "fire_on_done s = s\<lparr>ts_on_done_fired := True\<rparr>"

text \<open>A posted callback runs: \<open>queue.put_nowait\<close> raises \<open>QueueFull\<close> on a full queue, which loses the item.\<close>

definition loop_step :: "tstream \<Rightarrow> tstream option" where
  "loop_step s =
     (case ts_posted s of
        [] \<Rightarrow> None
      | PutItem item # rest \<Rightarrow>
          if length (ts_queue s) < ts_maxsize s
          then Some (s\<lparr>ts_posted := rest, ts_queue := ts_queue s @ [item]\<rparr>)
          else Some (s\<lparr>ts_posted := rest, ts_dropped := ts_dropped s @ [item]\<rparr>)
      | OnDone # rest \<Rightarrow> Some (fire_on_done (s\<lparr>ts_posted := rest\<rparr>)))"

definition result_of :: "finish_reason \<Rightarrow> tstream \<Rightarrow> gen_result" where
  "result_of finish s =
     \<lparr>gr_text = concat (ts_parts s), gr_finish = finish, gr_prompt_tokens = ts_prompt_tokens s,
      gr_completion_tokens = length (ts_parts s)\<rparr>"

definition set_result :: "finish_reason \<Rightarrow> tstream \<Rightarrow> tstream" where
  "set_result finish s = (if ts_result s = None then s\<lparr>ts_result := Some (result_of finish s)\<rparr> else s)"

text \<open>\<open>_finish\<close> (the join waits for a worker that is about to end)\<close>

definition finish_stream :: "finish_reason \<Rightarrow> tstream \<Rightarrow> tstream" where
  "finish_stream finish s = fire_on_done ((set_result finish s)\<lparr>ts_exhausted := True\<rparr>)"

datatype next_outcome = Chunk_out string nat | StopAsyncIteration | GenerationFailed string

text \<open>\<open>__anext__\<close>; \<open>None\<close> while it awaits the queue.\<close>

definition anext :: "tstream \<Rightarrow> (next_outcome \<times> tstream) option" where
  "anext s =
     (if ts_exhausted s then Some (StopAsyncIteration, s)
      else case ts_queue s of
          [] \<Rightarrow> None
        | Token t # rest \<Rightarrow>
            Some (Chunk_out t (length (ts_parts s)),
                  s\<lparr>ts_queue := rest, ts_capacity := Suc (ts_capacity s), ts_parts := ts_parts s @ [t]\<rparr>)
        | Terminal finish err # rest \<Rightarrow>
            Some (case err of None \<Rightarrow> StopAsyncIteration | Some e \<Rightarrow> GenerationFailed e,
                  finish_stream finish (s\<lparr>ts_queue := rest\<rparr>)))"

text \<open>\<open>aclose\<close> up to the join, and after it (the worker has ended, or the join timed out).\<close>

definition aclose_begin :: "tstream \<Rightarrow> tstream" where
  "aclose_begin s =
     (if ts_closed s then s else s\<lparr>ts_closed := True, ts_cancel := True, ts_capacity := Suc (ts_capacity s)\<rparr>)"

definition aclose_end :: "tstream \<Rightarrow> tstream" where
  "aclose_end s = finish_stream CANCELLED_REASON s"

inductive stream_step :: "tstream \<Rightarrow> tstream \<Rightarrow> bool" where
  step_worker: "worker_step early s = Some s' \<Longrightarrow> stream_step s s'"
| step_loop: "loop_step s = Some s' \<Longrightarrow> stream_step s s'"
| step_next: "anext s = Some (r, s') \<Longrightarrow> stream_step s s'"
| step_close_begin: "stream_step s (aclose_begin s)"
| step_close_end: "ts_closed s \<Longrightarrow> stream_step s (aclose_end s)"

section \<open>Invariants\<close>

definition items :: "callback list \<Rightarrow> stream_item list" where
  "items cs = List.map_filter (\<lambda>c. case c of PutItem x \<Rightarrow> Some x | OnDone \<Rightarrow> None) cs"

text \<open>Everything handed over and not yet consumed, in order.\<close>

definition in_flight :: "tstream \<Rightarrow> stream_item list" where
  "in_flight s = ts_queue s @ items (ts_posted s)"

definition holds_slot :: "worker_phase \<Rightarrow> nat" where
  "holds_slot ph = (if ph \<in> {Reserved, Producing} then 1 else 0)"

definition late :: "worker_phase \<Rightarrow> bool" where
  "late ph \<longleftrightarrow> ph \<in> {Posting, Finished}"

text \<open>
  In flight are tokens and at most one terminal behind them; every slot is free, held by the
  worker, or taken by a token in flight; and what was consumed, what is in flight and what the
  producer still has make up the producer's tokens.
\<close>

definition flight_ok :: "nat \<Rightarrow> string list \<Rightarrow> string list \<Rightarrow> stream_item list \<Rightarrow> tstream \<Rightarrow> bool" where
  "flight_ok M sc ts tm s \<longleftrightarrow>
     ts_maxsize s = M \<and> in_flight s = map Token ts @ tm \<and> (tm = [] \<or> (\<exists>f e. tm = [Terminal f e])) \<and>
     ts_cancel s = ts_closed s \<and>
     ts_capacity s + length ts + holds_slot (ts_phase s) = M + (if ts_closed s then 1 else 0) \<and>
     (ts_phase s = Producing \<longrightarrow> length ts < M) \<and> length ts \<le> M \<and>
     ts_parts s @ ts @ ts_script s = sc \<and> (\<not> late (ts_phase s) \<longrightarrow> tm = []) \<and>
     (ts_dropped s \<noteq> [] \<longrightarrow> ts_cancel s) \<and> (\<forall>x\<in>set (ts_dropped s). \<exists>f e. x = Terminal f e)"

text \<open>Until a close is requested the terminal carries the producer's ending and is not lost.\<close>

definition ending_ok :: "nat \<Rightarrow> finish_reason \<times> string option \<Rightarrow> string list \<Rightarrow> stream_item list \<Rightarrow> tstream \<Rightarrow> bool" where
  "ending_ok M en ts tm s \<longleftrightarrow>
     ts_ending s = en \<and>
     (\<not> ts_cancel s \<longrightarrow>
        (\<forall>f e. ts_phase s = Ending f e \<longrightarrow> (f, e) = en \<and> ts_script s = [] \<and> length ts < M) \<and>
        (if late (ts_phase s)
         then ts_script s = [] \<and> length ts < M \<and> (if ts_exhausted s then tm = [] \<and> ts = [] else tm = [Terminal (fst en) (snd en)])
         else \<not> ts_exhausted s))"

definition result_ok :: "finish_reason \<times> string option \<Rightarrow> tstream \<Rightarrow> bool" where
  "result_ok en s \<longleftrightarrow>
     (ts_exhausted s \<longleftrightarrow> ts_result s \<noteq> None) \<and>
     (\<forall>r. ts_result s = Some r \<longrightarrow> gr_text r = concat (ts_parts s) \<and> gr_completion_tokens r = length (ts_parts s) \<and>
        gr_prompt_tokens r = ts_prompt_tokens s \<and> (\<not> ts_cancel s \<longrightarrow> gr_finish r = fst en))"

definition stream_inv :: "nat \<Rightarrow> string list \<Rightarrow> finish_reason \<times> string option \<Rightarrow> tstream \<Rightarrow> bool" where
  "stream_inv M sc en s \<longleftrightarrow> (\<exists>ts tm. flight_ok M sc ts tm s \<and> ending_ok M en ts tm s) \<and> result_ok en s"

lemma items_simps [simp]:
  "items [] = []" "items (PutItem x # cs) = x # items cs" "items (OnDone # cs) = items cs" "items (cs @ ds) = items cs @ items ds"
  by (simp_all add: items_def List.map_filter_def)

lemma stream_inv_init: "stream_inv M sc en (stream_init M pt sc en)"
  unfolding stream_inv_def
  by (intro conjI exI[of _ "[]"]) (simp_all add: flight_ok_def ending_ok_def result_ok_def stream_init_def in_flight_def holds_slot_def late_def)

lemma offer_simps [simp]:
  "in_flight (offer x s) = in_flight s @ [x]" "ts_phase (offer x s) = ts_phase s" "ts_capacity (offer x s) = ts_capacity s"
  "ts_cancel (offer x s) = ts_cancel s" "ts_closed (offer x s) = ts_closed s" "ts_parts (offer x s) = ts_parts s"
  "ts_script (offer x s) = ts_script s" "ts_dropped (offer x s) = ts_dropped s" "ts_maxsize (offer x s) = ts_maxsize s"
  "ts_ending (offer x s) = ts_ending s" "ts_exhausted (offer x s) = ts_exhausted s" "ts_result (offer x s) = ts_result s"
  "ts_prompt_tokens (offer x s) = ts_prompt_tokens s"
  by (simp_all add: offer_def in_flight_def)

lemma in_flight_upd [simp]:
  "in_flight (s\<lparr>ts_phase := a\<rparr>) = in_flight s" "in_flight (s\<lparr>ts_capacity := b\<rparr>) = in_flight s"
  "in_flight (s\<lparr>ts_script := c\<rparr>) = in_flight s" "in_flight (s\<lparr>ts_backpressure_waits := d\<rparr>) = in_flight s"
  "in_flight (s\<lparr>ts_cancel := e\<rparr>) = in_flight s" "in_flight (s\<lparr>ts_closed := e\<rparr>) = in_flight s"
  "in_flight (s\<lparr>ts_exhausted := e\<rparr>) = in_flight s" "in_flight (s\<lparr>ts_on_done_fired := e\<rparr>) = in_flight s"
  "in_flight (s\<lparr>ts_result := f\<rparr>) = in_flight s" "in_flight (s\<lparr>ts_parts := g\<rparr>) = in_flight s"
  "in_flight (s\<lparr>ts_posted := ts_posted s @ [OnDone]\<rparr>) = in_flight s"
  by (simp_all add: in_flight_def)

lemmas inv_defs = flight_ok_def ending_ok_def holds_slot_def late_def

lemma worker_result: "worker_step early s = Some s' \<Longrightarrow> result_ok en s \<Longrightarrow> result_ok en s'"
  by (cases "ts_phase s") (auto simp: worker_step_def result_ok_def split: if_splits option.splits list.splits)

text \<open>A step of the worker that hands nothing over: only its phase, its slot and the wait counter change.\<close>

lemma quiet_step:
  assumes f: "flight_ok M sc ts tm s" and e: "ending_ok M en ts tm s"
    and s': "s' = s\<lparr>ts_phase := ph, ts_capacity := c, ts_backpressure_waits := k\<rparr>"
    and slot: "c + holds_slot ph = ts_capacity s + holds_slot (ts_phase s)" and nl: "\<not> late ph" "\<not> late (ts_phase s)"
    and prod: "ph = Producing \<Longrightarrow> length ts < M"
    and ending: "\<And>a b. ph = Ending a b \<Longrightarrow> ts_cancel s \<or> (a, b) = en \<and> ts_script s = [] \<and> length ts < M"
  shows "flight_ok M sc ts tm s' \<and> ending_ok M en ts tm s'"
proof
  have "c + length ts + holds_slot ph = M + (if ts_closed s then 1 else 0)" using f slot by (simp add: flight_ok_def)
  then show "flight_ok M sc ts tm s'" using f nl prod unfolding flight_ok_def s' by auto
  show "ending_ok M en ts tm s'" using e nl ending unfolding ending_ok_def s' by auto
qed

lemma slots_free: "flight_ok M sc ts tm s \<Longrightarrow> \<not> ts_cancel s \<Longrightarrow> ts_phase s = Reserved \<Longrightarrow> length ts < M"
  by (simp add: flight_ok_def holds_slot_def split: if_splits)

text \<open>The worker, phase by phase.\<close>

lemma worker_flight:
  assumes w: "worker_step early s = Some s'" and f: "flight_ok M sc ts tm s" and e: "ending_ok M en ts tm s"
  shows "\<exists>ts' tm'. flight_ok M sc ts' tm' s' \<and> ending_ok M en ts' tm' s'"
proof (cases "ts_phase s")
  case Looping
  then consider "ts_cancel s" "s' = s\<lparr>ts_phase := Ending CANCELLED_REASON None\<rparr>"
    | "\<not> ts_cancel s" "0 < ts_capacity s" "s' = s\<lparr>ts_capacity := ts_capacity s - 1, ts_phase := Reserved\<rparr>"
    | "\<not> ts_cancel s" "s' = s\<lparr>ts_backpressure_waits := Suc (ts_backpressure_waits s), ts_phase := Blocked\<rparr>"
    using w by (auto simp: worker_step_def split: if_splits)
  then have "flight_ok M sc ts tm s' \<and> ending_ok M en ts tm s'"
    by cases (rule quiet_step[OF f e, where ph = "ts_phase s'" and c = "ts_capacity s'" and k = "ts_backpressure_waits s'"];
      use Looping in \<open>simp add: holds_slot_def late_def\<close>)+
  then show ?thesis by blast
next
  case Blocked
  then have "0 < ts_capacity s" "s' = s\<lparr>ts_capacity := ts_capacity s - 1, ts_phase := Reserved\<rparr>"
    using w by (auto simp: worker_step_def split: if_splits)
  then have "flight_ok M sc ts tm s' \<and> ending_ok M en ts tm s'"
    by (intro quiet_step[OF f e, where ph = "ts_phase s'" and c = "ts_capacity s'" and k = "ts_backpressure_waits s'"])
      (use Blocked in \<open>simp_all add: holds_slot_def late_def\<close>)
  then show ?thesis by blast
next
  case Reserved
  then consider "ts_cancel s" "s' = s\<lparr>ts_capacity := Suc (ts_capacity s), ts_phase := Ending CANCELLED_REASON None\<rparr>"
    | "\<not> ts_cancel s" "s' = s\<lparr>ts_phase := Producing\<rparr>"
    using w by (auto simp: worker_step_def split: if_splits)
  then have "flight_ok M sc ts tm s' \<and> ending_ok M en ts tm s'"
    by cases (rule quiet_step[OF f e, where ph = "ts_phase s'" and c = "ts_capacity s'" and k = "ts_backpressure_waits s'"];
      use Reserved slots_free[OF f] in \<open>simp add: holds_slot_def late_def\<close>)+
  then show ?thesis by blast
next
  case Producing
  have tm: "tm = []" and room: "length ts < M" using f Producing by (simp_all add: flight_ok_def late_def)
  have en: "ts_ending s = en" "\<not> ts_cancel s \<Longrightarrow> \<not> ts_exhausted s" using e Producing by (simp_all add: ending_ok_def late_def)
  have stop: "\<exists>ts' tm'. flight_ok M sc ts' tm' s' \<and> ending_ok M en ts' tm' s'"
    if "s' = s\<lparr>ts_capacity := Suc (ts_capacity s), ts_phase := Ending a b\<rparr>" "ts_cancel s \<or> (a, b) = en \<and> ts_script s = []" for a b
  proof -
    have "flight_ok M sc ts tm s' \<and> ending_ok M en ts tm s'"
      by (rule quiet_step[OF f e, where ph = "ts_phase s'" and c = "ts_capacity s'" and k = "ts_backpressure_waits s'"])
        (use that Producing room in \<open>simp_all add: holds_slot_def late_def\<close>)
    then show ?thesis by blast
  qed
  have tok: "\<exists>ts' tm'. flight_ok M sc ts' tm' s' \<and> ending_ok M en ts' tm' s'"
    if s': "s' = offer (Token t) (s\<lparr>ts_script := toks, ts_phase := Looping\<rparr>)" and sc: "ts_script s = t # toks" for t toks
  proof -
    have "flight_ok M sc (ts @ [t]) [] s'" using f sc Producing tm room unfolding s' by (auto simp: flight_ok_def holds_slot_def late_def)
    moreover have "ending_ok M en (ts @ [t]) [] s'" using en unfolding s' by (simp add: ending_ok_def late_def)
    ultimately show ?thesis by blast
  qed
  show ?thesis
  proof (cases "if ts_cancel s then early else None")
    case None
    show ?thesis
    proof (cases "ts_script s")
      case Nil
      then have "s' = s\<lparr>ts_capacity := Suc (ts_capacity s), ts_phase := Ending (fst en) (snd en)\<rparr>"
        using w Producing None en by (simp add: worker_step_def)
      then show ?thesis by (rule stop) (simp add: Nil)
    next
      case (Cons t toks)
      then show ?thesis using w Producing None by (intro tok) (simp_all add: worker_step_def)
    qed
  next
    case (Some x)
    then have "ts_cancel s" by (auto split: if_splits)
    moreover obtain a b where "x = (a, b)" by (cases x)
    ultimately show ?thesis using w Producing Some by (intro stop[of a b]) (simp_all add: worker_step_def)
  qed
next
  case (Ending a b)
  have tm: "tm = []" using f Ending by (simp add: flight_ok_def late_def)
  have s': "s' = offer (Terminal a b) (s\<lparr>ts_phase := Posting\<rparr>)" using w Ending by (simp add: worker_step_def)
  have en: "\<not> ts_cancel s \<Longrightarrow> fst en = a \<and> snd en = b \<and> ts_script s = [] \<and> length ts < M \<and> \<not> ts_exhausted s"
  proof -
    assume nc: "\<not> ts_cancel s"
    then have "(a, b) = en" "ts_script s = []" "length ts < M" "\<not> ts_exhausted s" using e Ending by (auto simp: ending_ok_def late_def)
    then show ?thesis by (simp flip: \<open>(a, b) = en\<close>)
  qed
  have "flight_ok M sc ts [Terminal a b] s'" using f Ending tm by (auto simp: s' flight_ok_def holds_slot_def late_def)
  moreover have "ending_ok M en ts [Terminal a b] s'" using e en by (simp add: s' ending_ok_def late_def)
  ultimately show ?thesis by blast
next
  case Posting
  then have s': "s' = s\<lparr>ts_posted := ts_posted s @ [OnDone], ts_phase := Finished\<rparr>" using w by (simp add: worker_step_def)
  have "flight_ok M sc ts tm s'" using f Posting unfolding s' by (auto simp: flight_ok_def holds_slot_def late_def)
  moreover have "ending_ok M en ts tm s'" using e Posting unfolding s' by (simp add: ending_ok_def late_def)
  ultimately show ?thesis by blast
next
  case Finished
  then show ?thesis using w by (simp add: worker_step_def)
qed

text \<open>The loop: a token always finds room in the queue, and only a close can make it too full for the terminal.\<close>

lemma put_has_room:
  assumes f: "flight_ok M sc ts tm s" and e: "ending_ok M en ts tm s" and p: "ts_posted s = PutItem x # rest"
    and full: "M \<le> length (ts_queue s)"
  shows "ts_cancel s \<and> (\<exists>a b. x = Terminal a b) \<and> ts_queue s = map Token ts \<and> tm = [x] \<and> items rest = []"
proof -
  have fl: "ts_queue s @ x # items rest = map Token ts @ tm" using f p by (simp add: flight_ok_def in_flight_def)
  have lt: "length ts \<le> M" and tm: "tm = [] \<or> (\<exists>a b. tm = [Terminal a b])" using f by (simp_all add: flight_ok_def)
  have len: "length (ts_queue s) + Suc (length (items rest)) = length ts + length tm" using arg_cong[OF fl, of length] by simp
  moreover have "length tm \<le> 1" using tm by auto
  ultimately have "length (ts_queue s) = length ts" "length (items rest) = 0" "length tm = 1" using full lt by linarith+
  then have eq: "length (ts_queue s) = length ts" "items rest = []" "tm \<noteq> []" by auto
  then have q: "ts_queue s = map Token ts" "[x] = tm" using fl by (simp_all add: append_eq_append_conv)
  have "ts_cancel s"
  proof (rule ccontr)
    assume "\<not> ts_cancel s"
    moreover have "late (ts_phase s)" using f eq(3) by (auto simp: flight_ok_def)
    ultimately have "length ts < M" using e by (simp add: ending_ok_def)
    then show False using full eq(1) by simp
  qed
  then show ?thesis using q eq tm by auto
qed

lemma loop_flight:
  assumes l: "loop_step s = Some s'" and f: "flight_ok M sc ts tm s" and e: "ending_ok M en ts tm s"
  shows "\<exists>ts' tm'. flight_ok M sc ts' tm' s' \<and> ending_ok M en ts' tm' s'"
proof (cases "ts_posted s")
  case Nil
  then show ?thesis using l by (simp add: loop_step_def)
next
  case (Cons c rest)
  show ?thesis
  proof (cases c)
    case (PutItem x)
    show ?thesis
    proof (cases "length (ts_queue s) < M")
      case True
      then have s': "s' = s\<lparr>ts_posted := rest, ts_queue := ts_queue s @ [x]\<rparr>"
        using l Cons PutItem f by (simp add: loop_step_def flight_ok_def)
      have fl: "in_flight s' = in_flight s" unfolding s' by (simp add: in_flight_def Cons PutItem)
      have "flight_ok M sc ts tm s'" using f fl unfolding flight_ok_def by (auto simp: s')
      moreover have "ending_ok M en ts tm s'" using e unfolding ending_ok_def by (simp add: s')
      ultimately show ?thesis by blast
    next
      case False
      then have full: "M \<le> length (ts_queue s)" by simp
      note r = put_has_room[OF f e Cons[unfolded PutItem] full]
      have s': "s' = s\<lparr>ts_posted := rest, ts_dropped := ts_dropped s @ [x]\<rparr>"
        using l Cons PutItem f False by (simp add: loop_step_def flight_ok_def)
      have fl: "in_flight s' = map Token ts" unfolding s' using r by (simp add: in_flight_def)
      have "flight_ok M sc ts [] s'" using f fl r unfolding flight_ok_def by (auto simp: s')
      moreover have "ending_ok M en ts [] s'" using e r unfolding ending_ok_def by (simp add: s')
      ultimately show ?thesis by blast
    qed
  next
    case OnDone
    then have s': "s' = s\<lparr>ts_posted := rest, ts_on_done_fired := True\<rparr>" using l Cons by (simp add: loop_step_def fire_on_done_def)
    have fl: "in_flight s' = in_flight s" unfolding s' by (simp add: in_flight_def Cons OnDone)
    have "flight_ok M sc ts tm s'" using f fl unfolding flight_ok_def by (auto simp: s')
    moreover have "ending_ok M en ts tm s'" using e unfolding ending_ok_def by (simp add: s')
    ultimately show ?thesis by blast
  qed
qed

lemma loop_result: "loop_step s = Some s' \<Longrightarrow> result_ok en s \<Longrightarrow> result_ok en s'"
  by (auto simp: loop_step_def result_ok_def fire_on_done_def split: list.splits callback.splits if_splits)

text \<open>The consumer.\<close>

lemma finish_stream_simps [simp]:
  "in_flight (finish_stream r s) = in_flight s" "ts_phase (finish_stream r s) = ts_phase s" "ts_capacity (finish_stream r s) = ts_capacity s"
  "ts_cancel (finish_stream r s) = ts_cancel s" "ts_closed (finish_stream r s) = ts_closed s" "ts_parts (finish_stream r s) = ts_parts s"
  "ts_script (finish_stream r s) = ts_script s" "ts_dropped (finish_stream r s) = ts_dropped s" "ts_maxsize (finish_stream r s) = ts_maxsize s"
  "ts_ending (finish_stream r s) = ts_ending s" "ts_exhausted (finish_stream r s)" "ts_prompt_tokens (finish_stream r s) = ts_prompt_tokens s"
  "ts_result (finish_stream r s) = (case ts_result s of None \<Rightarrow> Some (result_of r s) | Some x \<Rightarrow> Some x)"
  by (auto simp: finish_stream_def fire_on_done_def set_result_def in_flight_def split: option.splits)

lemma finish_result:
  assumes "result_ok en s" and "\<not> ts_cancel s \<longrightarrow> r = fst en"
  shows "result_ok en (finish_stream r s)"
  using assms by (auto simp: result_ok_def result_of_def split: option.splits)

lemma next_inv:
  assumes n: "anext s = Some (r, s')" and f: "flight_ok M sc ts tm s" and e: "ending_ok M en ts tm s" and res: "result_ok en s"
  shows "(\<exists>ts' tm'. flight_ok M sc ts' tm' s' \<and> ending_ok M en ts' tm' s') \<and> result_ok en s'"
proof (cases "ts_exhausted s")
  case True
  then show ?thesis using n f e res by (auto simp: anext_def)
next
  case False
  obtain x rest where q: "ts_queue s = x # rest" using n False by (auto simp: anext_def split: list.splits)
  have fl: "x # rest @ items (ts_posted s) = map Token ts @ tm" using f q by (simp add: flight_ok_def in_flight_def)
  show ?thesis
  proof (cases x)
    case (Token t)
    then have s': "s' = s\<lparr>ts_queue := rest, ts_capacity := Suc (ts_capacity s), ts_parts := ts_parts s @ [t]\<rparr>"
      using n False q by (simp add: anext_def)
    obtain ts' where ts: "ts = t # ts'" using fl Token f by (cases ts) (auto simp: flight_ok_def)
    have fl': "in_flight s' = map Token ts' @ tm" using fl ts unfolding s' by (simp add: in_flight_def)
    have "flight_ok M sc ts' tm s'" using f fl' ts unfolding flight_ok_def by (auto simp: s')
    moreover have "ending_ok M en ts' tm s'" using e ts False unfolding ending_ok_def by (auto simp: s')
    moreover have "result_ok en s'" using res False unfolding result_ok_def by (simp add: s')
    ultimately show ?thesis by blast
  next
    case (Terminal a b)
    then have s': "s' = finish_stream a (s\<lparr>ts_queue := rest\<rparr>)" using n False q by (simp add: anext_def)
    have ts: "ts = []" "tm = [Terminal a b]" "rest @ items (ts_posted s) = []" using fl Terminal f by (cases ts; auto simp: flight_ok_def)+
    have fl': "in_flight s' = []" unfolding s' finish_stream_simps(1) using ts(3) by (simp add: in_flight_def)
    have lt: "late (ts_phase s)" using f ts by (auto simp: flight_ok_def)
    have "flight_ok M sc [] [] s'" using f fl' ts unfolding flight_ok_def by (auto simp: s')
    moreover have "ending_ok M en [] [] s'" using e ts lt unfolding ending_ok_def by (auto simp: s')
    moreover have "result_ok en s'" unfolding s'
      by (rule finish_result) (use res e lt False ts in \<open>auto simp: result_ok_def ending_ok_def\<close>)
    ultimately show ?thesis by blast
  qed
qed

lemma close_inv: "stream_inv M sc en s \<Longrightarrow> stream_inv M sc en (aclose_begin s)"
proof (cases "ts_closed s")
  case False
  assume "stream_inv M sc en s"
  then obtain ts tm where f: "flight_ok M sc ts tm s" and e: "ending_ok M en ts tm s" and r: "result_ok en s"
    unfolding stream_inv_def by blast
  have "flight_ok M sc ts tm (aclose_begin s)" using f False by (simp add: aclose_begin_def flight_ok_def)
  moreover have "ending_ok M en ts tm (aclose_begin s)" using e False by (simp add: aclose_begin_def ending_ok_def)
  moreover have "result_ok en (aclose_begin s)" using r False by (simp add: aclose_begin_def result_ok_def)
  ultimately show ?thesis unfolding stream_inv_def by blast
qed (simp add: aclose_begin_def)

lemma close_end_inv:
  assumes "stream_inv M sc en s" and "ts_closed s"
  shows "stream_inv M sc en (aclose_end s)"
proof -
  obtain ts tm where f: "flight_ok M sc ts tm s" and e: "ending_ok M en ts tm s" and r: "result_ok en s"
    using assms(1) unfolding stream_inv_def by blast
  have c: "ts_cancel s" using f assms(2) by (simp add: flight_ok_def)
  have "flight_ok M sc ts tm (aclose_end s)" using f by (auto simp: aclose_end_def flight_ok_def)
  moreover have "ending_ok M en ts tm (aclose_end s)" using e c by (simp add: aclose_end_def ending_ok_def)
  moreover have "result_ok en (aclose_end s)" unfolding aclose_end_def by (rule finish_result[OF r]) (simp add: c)
  ultimately show ?thesis unfolding stream_inv_def by blast
qed

lemma stream_inv_step: "stream_step s s' \<Longrightarrow> stream_inv M sc en s \<Longrightarrow> stream_inv M sc en s'"
proof (induction rule: stream_step.induct)
  case (step_worker early s s')
  then show ?case unfolding stream_inv_def using worker_flight worker_result by blast
next
  case (step_loop s s')
  then show ?case unfolding stream_inv_def using loop_flight loop_result by blast
next
  case (step_next s r s')
  then show ?case unfolding stream_inv_def using next_inv by blast
qed (auto intro: close_inv close_end_inv)

lemma stream_inv_reach: "stream_step\<^sup>*\<^sup>* (stream_init M pt sc en) s \<Longrightarrow> stream_inv M sc en s"
  by (induction rule: rtranclp_induct) (auto intro: stream_inv_init stream_inv_step)

section \<open>What the consumer gets\<close>

lemma flight_ok_dropped: "flight_ok M sc ts tm s \<Longrightarrow> Token t \<notin> set (ts_dropped s)"
  by (auto simp: flight_ok_def)

lemma queue_bounded: "stream_step\<^sup>*\<^sup>* (stream_init M pt sc en) s \<Longrightarrow> ts_maxsize s = M \<and> length (ts_queue s) \<le> M"
proof (induction rule: rtranclp_induct)
  case base
  then show ?case by (simp add: stream_init_def)
next
  case (step y z)
  from step(2) step(3) show ?case
  proof cases
    case (step_worker early)
    then show ?thesis using step(3)
      by (cases "ts_phase y") (auto simp: worker_step_def offer_def split: if_splits option.splits list.splits)
  next
    case step_loop
    then show ?thesis using step(3) by (auto simp: loop_step_def fire_on_done_def split: list.splits callback.splits if_splits)
  next
    case (step_next r)
    then show ?thesis using step(3)
      by (auto simp: anext_def finish_stream_def fire_on_done_def set_result_def split: list.splits stream_item.splits if_splits)
  next
    case step_close_begin
    then show ?thesis using step(3) by (auto simp: aclose_begin_def)
  next
    case step_close_end
    then show ?thesis using step(3) by (auto simp: aclose_end_def finish_stream_def fire_on_done_def set_result_def)
  qed
qed

text \<open>
  C15. Whatever the interleaving of the worker thread, the event loop and the consumer: the
  buffers stay within \<open>maxsize\<close>; the consumer has received a prefix of the producer's
  tokens, each once and in order, and no token is ever lost; a result, once there, says
  exactly what was received. Without a close nothing is dropped at all, and an exhausted
  stream has delivered every token and reports the producer's own finish reason.
\<close>

theorem token_stream_faithful:
  assumes "stream_step\<^sup>*\<^sup>* (stream_init M pt script ending) s"
  shows "length (ts_queue s) \<le> M \<and> length (filter (\<lambda>x. case x of Token t \<Rightarrow> True | Terminal f e \<Rightarrow> False) (in_flight s)) \<le> M \<and>
    (\<exists>rest. script = ts_parts s @ rest) \<and> (\<forall>t. Token t \<notin> set (ts_dropped s)) \<and>
    (\<forall>r. ts_result s = Some r \<longrightarrow> gr_text r = concat (ts_parts s) \<and> gr_completion_tokens r = length (ts_parts s)) \<and>
    (\<not> ts_closed s \<longrightarrow> ts_dropped s = [] \<and>
       (ts_exhausted s \<longrightarrow> ts_parts s = script \<and> (\<exists>r. ts_result s = Some r \<and> gr_finish r = fst ending)))"
proof -
  obtain ts tm where f: "flight_ok M script ts tm s" and e: "ending_ok M ending ts tm s" and r: "result_ok ending s"
    using stream_inv_reach[OF assms] unfolding stream_inv_def by blast
  have q: "length (ts_queue s) \<le> M" using queue_bounded[OF assms] by simp
  have "filter (\<lambda>x. case x of Token t \<Rightarrow> True | Terminal f e \<Rightarrow> False) (in_flight s) = map Token ts"
    using f by (auto simp: flight_ok_def filter_map comp_def)
  then have b: "length (filter (\<lambda>x. case x of Token t \<Rightarrow> True | Terminal f e \<Rightarrow> False) (in_flight s)) \<le> M"
    using f by (simp add: flight_ok_def)
  have p: "\<exists>rest. script = ts_parts s @ rest" using f by (auto simp: flight_ok_def)
  have "ts_dropped s = [] \<and> (ts_exhausted s \<longrightarrow> ts_parts s = script \<and> (\<exists>r. ts_result s = Some r \<and> gr_finish r = fst ending))"
    if "\<not> ts_closed s"
  proof (intro conjI impI)
    have nc: "\<not> ts_cancel s" using f that by (simp add: flight_ok_def)
    then show "ts_dropped s = []" using f by (auto simp: flight_ok_def)
    assume x: "ts_exhausted s"
    then have "late (ts_phase s)" "ts_script s = []" "ts = []" using e nc by (auto simp: ending_ok_def split: if_splits)
    then show "ts_parts s = script" using f by (simp add: flight_ok_def)
    show "\<exists>r. ts_result s = Some r \<and> gr_finish r = fst ending" using r x nc by (auto simp: result_ok_def)
  qed
  then show ?thesis using q b p r flight_ok_dropped[OF f] unfolding result_ok_def by blast
qed

section \<open>It ends\<close>

text \<open>The steps the three actors take by themselves while nobody closes the stream.\<close>

definition active_step :: "tstream \<Rightarrow> tstream \<Rightarrow> bool" where
  "active_step s s' \<longleftrightarrow>
     (\<exists>early. worker_step early s = Some s') \<or> loop_step s = Some s' \<or> (\<not> ts_exhausted s \<and> (\<exists>r. anext s = Some (r, s')))"

fun phase_weight :: "worker_phase \<Rightarrow> nat" where
  "phase_weight Looping = 12"
| "phase_weight Blocked = 11"
| "phase_weight Reserved = 10"
| "phase_weight Producing = 9"
| "phase_weight (Ending f e) = 8"
| "phase_weight Posting = 4"
| "phase_weight Finished = 0"

definition remaining_work :: "tstream \<Rightarrow> nat" where
  "remaining_work s = 10 * length (ts_script s) + phase_weight (ts_phase s) + 3 * length (ts_posted s) + 2 * length (ts_queue s)"

lemma active_step_work: "active_step s s' \<Longrightarrow> remaining_work s' < remaining_work s"
proof -
  have w: "remaining_work s' < remaining_work s" if "worker_step early s = Some s'" for early
    using that by (cases "ts_phase s") (auto simp: worker_step_def remaining_work_def offer_def split: if_splits option.splits list.splits)
  have l: "remaining_work s' < remaining_work s" if "loop_step s = Some s'"
    using that by (auto simp: loop_step_def remaining_work_def fire_on_done_def split: list.splits callback.splits if_splits)
  have n: "remaining_work s' < remaining_work s" if "\<not> ts_exhausted s" "anext s = Some (r, s')" for r
    using that by (auto simp: anext_def remaining_work_def finish_stream_def fire_on_done_def set_result_def split: list.splits stream_item.splits)
  show "active_step s s' \<Longrightarrow> ?thesis" using w l n unfolding active_step_def by blast
qed

lemma no_deadlock:
  assumes "stream_inv M sc en s" and "0 < M" and "\<not> ts_closed s" and "\<not> ts_exhausted s"
  shows "\<exists>s'. active_step s s'"
proof (rule ccontr)
  assume stuck: "\<nexists>s'. active_step s s'"
  obtain ts tm where f: "flight_ok M sc ts tm s" and e: "ending_ok M en ts tm s" using assms(1) unfolding stream_inv_def by blast
  have posted: "ts_posted s = []"
    using stuck by (auto simp: active_step_def loop_step_def split: list.splits callback.splits if_splits)
  have queue: "ts_queue s = []"
    using stuck assms(4) by (auto simp: active_step_def anext_def split: list.splits stream_item.splits)
  have worker: "worker_step None s = None" using stuck by (cases "worker_step None s") (auto simp: active_step_def)
  have empty: "ts = []" "tm = []" using f posted queue by (auto simp: flight_ok_def in_flight_def)
  have nc: "\<not> ts_cancel s" using f assms(3) by (simp add: flight_ok_def)
  consider "ts_phase s = Blocked" "ts_capacity s = 0" | "ts_phase s = Finished"
    using worker by (cases "ts_phase s") (auto simp: worker_step_def split: if_splits option.splits list.splits)
  then show False
  proof cases
    case 1
    then show False using f empty assms(2,3) by (simp add: flight_ok_def holds_slot_def)
  next
    case 2
    then show False using e nc empty assms(4) by (simp add: ending_ok_def late_def)
  qed
qed


text \<open>The first token of a stream on its way to the consumer.\<close>

definition sample_stream :: tstream where
  "sample_stream = stream_init 64 3 [''a'', ''b''] (STOP, None)"

definition sample_after_token :: tstream where
  "sample_after_token = sample_stream\<lparr>ts_script := [''b''], ts_parts := [''a'']\<rparr>"

lemma sample_stream_run: "stream_step\<^sup>*\<^sup>* sample_stream sample_after_token"
proof -
  let ?s1 = "sample_stream\<lparr>ts_capacity := 63, ts_phase := Reserved\<rparr>" and ?s2 = "sample_stream\<lparr>ts_capacity := 63, ts_phase := Producing\<rparr>"
  let ?s3 = "sample_stream\<lparr>ts_capacity := 63, ts_script := [''b''], ts_posted := [PutItem (Token ''a'')]\<rparr>"
  let ?s4 = "sample_stream\<lparr>ts_capacity := 63, ts_script := [''b''], ts_queue := [Token ''a'']\<rparr>"
  have "stream_step sample_stream ?s1"
    by (rule step_worker[of None]) (simp add: worker_step_def sample_stream_def stream_init_def)
  moreover have "stream_step ?s1 ?s2"
    by (rule step_worker[of None]) (simp add: worker_step_def sample_stream_def stream_init_def)
  moreover have "stream_step ?s2 ?s3"
    by (rule step_worker[of None]) (simp add: worker_step_def offer_def sample_stream_def stream_init_def)
  moreover have "stream_step ?s3 ?s4" by (rule step_loop) (simp add: loop_step_def sample_stream_def stream_init_def)
  moreover have "stream_step ?s4 sample_after_token"
    by (rule step_next) (simp add: anext_def sample_stream_def stream_init_def sample_after_token_def)
  ultimately show ?thesis by (meson converse_rtranclp_into_rtranclp rtranclp.rtrancl_refl)
qed

theorem token_stream_faithful_witness:
  "\<exists>rest. [''a'', ''b''] = ts_parts sample_after_token @ rest \<and> ts_parts sample_after_token = [''a''] \<and> ts_dropped sample_after_token = []"
  using token_stream_faithful[OF sample_stream_run[unfolded sample_stream_def]]
  by (simp add: sample_after_token_def sample_stream_def stream_init_def)


section \<open>The backend around the stream\<close>

text \<open>
  \<open>ThreadedBackend\<close>: the lifecycle state and the active stream (here, the name of its
  request). Loading and unloading run in an executor; the state is written before and after.
\<close>

record threaded_backend =
  tb_state :: backend_state
  tb_active :: "string option"

datatype threaded_error = BackendBusyError | BackendNotReadyError | ModelLoadError | ProducerError

definition threaded_init :: threaded_backend where
  "threaded_init = \<lparr>tb_state = UNLOADED, tb_active = None\<rparr>"

text \<open>\<open>load\<close> up to the executor (\<open>Inr False\<close>: nothing to do), and after it.\<close>

definition load_begin :: "threaded_backend \<Rightarrow> (threaded_error, bool) result \<times> threaded_backend" where
  "load_begin b =
     (if tb_state b \<in> {READY, GENERATING} then (Inr False, b)
      else if tb_state b = LOADING then (Inl BackendBusyError, b)
      else (Inr True, b\<lparr>tb_state := LOADING\<rparr>))"

definition load_end :: "bool \<Rightarrow> threaded_backend \<Rightarrow> (threaded_error, unit) result \<times> threaded_backend" where
  "load_end ok b = (if ok then (Inr (), b\<lparr>tb_state := READY\<rparr>) else (Inl ModelLoadError, b\<lparr>tb_state := UNLOADED\<rparr>))"

definition on_generation_done :: "threaded_backend \<Rightarrow> threaded_backend" where
  "on_generation_done b =
     (let b' = b\<lparr>tb_active := None\<rparr> in if tb_state b' = GENERATING then b'\<lparr>tb_state := READY\<rparr> else b')"

text \<open>\<open>unload\<close>: the active stream is closed (which fires its \<open>on_done\<close>), then the model is released.\<close>

definition unload :: "threaded_backend \<Rightarrow> threaded_backend" where
  "unload b =
     (let b1 = (case tb_active b of None \<Rightarrow> b | Some _ \<Rightarrow> (on_generation_done b)\<lparr>tb_active := None\<rparr>)
      in b1\<lparr>tb_state := UNLOADED\<rparr>)"

definition generate :: "bool \<Rightarrow> string \<Rightarrow> threaded_backend \<Rightarrow> (threaded_error, unit) result \<times> threaded_backend" where
  "generate counts_tokens request_id b =
     (if tb_state b = GENERATING then (Inl BackendBusyError, b)
      else if tb_state b \<noteq> READY then (Inl BackendNotReadyError, b)
      else if \<not> counts_tokens then (Inl ProducerError, b)
      else (Inr (), b\<lparr>tb_state := GENERATING, tb_active := Some request_id\<rparr>))"

text \<open>One generation at a time: it holds the backend until it is done, and a failed start gives it back.\<close>

definition backend_consistent :: "threaded_backend \<Rightarrow> bool" where
  "backend_consistent b \<longleftrightarrow> (tb_active b \<noteq> None \<longleftrightarrow> tb_state b = GENERATING)"

lemma threaded_backend_consistent:
  "backend_consistent threaded_init"
  "backend_consistent b \<Longrightarrow> backend_consistent (snd (load_begin b))"
  "tb_state b = LOADING \<Longrightarrow> backend_consistent b \<Longrightarrow> backend_consistent (snd (load_end ok b))"
  "backend_consistent b \<Longrightarrow> backend_consistent (snd (generate c i b))"
  "backend_consistent b \<Longrightarrow> backend_consistent (on_generation_done b)"
  "backend_consistent b \<Longrightarrow> backend_consistent (unload b)"
  by (auto simp: backend_consistent_def threaded_init_def load_begin_def load_end_def generate_def on_generation_done_def unload_def Let_def
      split: option.splits)

lemma generate_exclusive:
  assumes "generate c i b = (Inr (), b')"
  shows "tb_state b = READY \<and> generate c' j b' = (Inl BackendBusyError, b') \<and>
    fst (generate True j (on_generation_done b')) = Inr ()"
  using assms by (auto simp: generate_def on_generation_done_def Let_def split: if_splits)

end
