(* ===== verification/Bench.thy ===== *)
theory Bench
  imports PyString
begin

text \<open>
  The benchmark harness's pure core: the aggregation of request samples
  (\<open>engine/bench/metrics.py\<close>) and the gate that decides whether a candidate may be enabled
  (\<open>engine/bench/gate.py\<close>). Reports are JSON vals with real numbers; the texts of the
  gate's reasons are constructors.
\<close>

section \<open>Samples\<close>

record request_sample =
  rq_slice :: string
  rq_model :: string
  rq_ttft_ms :: "real option"
  rq_total_ms :: "real option"
  rq_content_chunks :: nat
  rq_outcome :: string
  rq_observed_first_content :: bool
  rq_failure_phase :: "string option"
  rq_shed :: bool

definition percentile :: "real list \<Rightarrow> real \<Rightarrow> real option" where
  "percentile vals q =
     (if vals = [] then None
      else let ordered = sort vals;
               q' = min 100 (max 0 q);
               idx = min (int (length ordered) - 1) (py_round (q' / 100 * of_int (int (length ordered) - 1)))
           in Some (ordered ! nat idx))"

record summary =
  su_mean :: "real option"
  su_p50 :: "real option"
  su_p95 :: "real option"
  su_p99 :: "real option"

definition summarize :: "real list \<Rightarrow> summary" where
  "summarize vals =
     (if vals = [] then \<lparr>su_mean = None, su_p50 = None, su_p95 = None, su_p99 = None\<rparr>
      else \<lparr>su_mean = Some (sum_list vals / of_nat (length vals)), su_p50 = percentile vals 50,
            su_p95 = percentile vals 95, su_p99 = percentile vals 99\<rparr>)"

definition rate :: "nat \<Rightarrow> nat \<Rightarrow> real option" where
  "rate n d = (if d = 0 then None else Some (of_nat n / of_nat d))"

record slice_metrics =
  sm_attempted :: nat
  sm_admitted :: nat
  sm_shed :: nat
  sm_errors :: nat
  sm_cancelled :: nat
  sm_pre_stream_failures :: nat
  sm_post_stream_failures :: nat
  sm_shed_rate :: "real option"
  sm_error_rate :: "real option"
  sm_pre_stream_rate :: "real option"
  sm_post_stream_rate :: "real option"
  sm_ttft_ms :: summary
  sm_total_ms :: summary

definition count_where :: "(request_sample \<Rightarrow> bool) \<Rightarrow> request_sample list \<Rightarrow> nat" where
  "count_where p xs = length (filter p xs)"

definition metrics_of :: "request_sample list \<Rightarrow> slice_metrics" where
  "metrics_of samples =
     (let attempted = length samples;
          shed = count_where rq_shed samples;
          admitted = attempted - shed;
          errors = count_where (\<lambda>s. rq_outcome s = ''error'' \<and> \<not> rq_shed s) samples;
          cancelled = count_where (\<lambda>s. rq_outcome s = ''cancelled'' \<and> \<not> rq_shed s) samples;
          pre = count_where (\<lambda>s. rq_failure_phase s = Some ''pre_stream'' \<and> \<not> rq_shed s) samples;
          post = count_where (\<lambda>s. rq_failure_phase s = Some ''post_stream'' \<and> \<not> rq_shed s) samples
      in \<lparr>sm_attempted = attempted, sm_admitted = admitted, sm_shed = shed, sm_errors = errors, sm_cancelled = cancelled,
          sm_pre_stream_failures = pre, sm_post_stream_failures = post, sm_shed_rate = rate shed attempted,
          sm_error_rate = rate errors admitted, sm_pre_stream_rate = rate pre admitted, sm_post_stream_rate = rate post admitted,
          sm_ttft_ms = summarize (List.map_filter rq_ttft_ms samples),
          sm_total_ms = summarize (List.map_filter rq_total_ms (filter (\<lambda>s. rq_outcome s = ''ok'') samples))\<rparr>)"

record bench_results =
  br_wall_s :: real
  br_slices :: "(string \<times> slice_metrics) list"
  br_overall :: slice_metrics
  br_accepted_rate :: "real option"

definition aggregate :: "request_sample list \<Rightarrow> real \<Rightarrow> bench_results" where
  "aggregate samples wall_s =
     \<lparr>br_wall_s = wall_s,
      br_slices = map (\<lambda>name. (name, metrics_of (filter (\<lambda>s. rq_slice s = name) samples))) (sort (remdups (map rq_slice samples))),
      br_overall = metrics_of samples,
      br_accepted_rate = (if 0 < wall_s then Some (of_nat (count_where (\<lambda>s. \<not> rq_shed s) samples) / wall_s) else None)\<rparr>"

text \<open>
  A percentile of measured values is one of them: never interpolated, never undefined for
  a non-empty set, the minimum at 0 and below, the maximum at 100 and above, and monotone in
  the rank, so that p50, p95 and p99 of a summary are in order.
\<close>

theorem percentile_nearest_rank:
  assumes "vals \<noteq> []"
  shows "(\<exists>v\<in>set vals. percentile vals q = Some v) \<and>
    (q \<le> 0 \<longrightarrow> percentile vals q = Some (Min (set vals))) \<and> (100 \<le> q \<longrightarrow> percentile vals q = Some (Max (set vals))) \<and>
    (q \<le> q' \<longrightarrow> the (percentile vals q) \<le> the (percentile vals q'))"
proof -
  let ?n = "int (length vals) - 1"
  let ?i = "\<lambda>q. min ?n (py_round (min 100 (max 0 q) / 100 * of_int ?n))"
  have len: "Suc 0 \<le> length vals" using assms by (cases vals) auto
  have n: "0 \<le> ?n" using len by linarith
  have p: "percentile vals q = Some (sort vals ! nat (?i q))" for q
    using assms by (simp add: percentile_def Let_def)
  have i: "0 \<le> ?i q" "?i q \<le> ?n" for q
  proof -
    have "0 \<le> min 100 (max 0 q) / 100 * of_int ?n" 
    proof (rule mult_nonneg_nonneg)
      show "0 \<le> (of_int ?n :: real)" using n by (simp only: of_int_0_le_iff)
    qed simp
    moreover have "min 100 (max 0 q) / 100 * of_int ?n \<le> 1 * of_int ?n" by (rule mult_right_mono) (use len in auto)
    ultimately have "0 \<le> py_round (min 100 (max 0 q) / 100 * of_int ?n)"
      unfolding mult_1 by (rule py_round_bounds[THEN conjunct1])
    then show "0 \<le> ?i q" "?i q \<le> ?n" using n by auto
  qed
  have lt: "nat (?i q) < length vals" for q using i[of q] n by linarith
  have mono: "nat (?i q) \<le> nat (?i q')" if "q \<le> q'" for q q'
  proof -
    have "min 100 (max 0 q) / 100 * of_int ?n \<le> min 100 (max 0 q') / 100 * of_int ?n"
      by (rule mult_right_mono) (use that len in auto)
    from py_round_mono[OF this] show ?thesis by linarith
  qed
  have sorted: "sort vals ! a \<le> sort vals ! b" if "a \<le> b" "b < length vals" for a b
    using that sorted_nth_mono[of "sort vals" a b] by simp
  have mem: "sort vals ! nat (?i q) \<in> set vals" for q using nth_mem[of "nat (?i q)" "sort vals"] lt by simp
  have ends: "sort vals ! 0 = Min (set vals)" "sort vals ! (length vals - 1) = Max (set vals)"
  proof -
    have s: "sort vals \<noteq> []" using assms by (metis length_0_conv length_sort)
    show "sort vals ! 0 = Min (set vals)"
    proof (rule Min_eqI[symmetric])
      show "sort vals ! 0 \<le> y" if "y \<in> set vals" for y
        using that sorted by (metis in_set_conv_nth length_sort le0 set_sort)
    qed (use nth_mem[of 0 "sort vals"] assms in auto)
    show "sort vals ! (length vals - 1) = Max (set vals)"
    proof (rule Max_eqI[symmetric])
      fix y assume "y \<in> set vals"
      then obtain k where "k < length vals" "sort vals ! k = y" by (metis in_set_conv_nth length_sort set_sort)
      then show "y \<le> sort vals ! (length vals - 1)" using sorted[of k "length vals - 1"] by simp
    qed (use nth_mem[of "length vals - 1" "sort vals"] s assms in auto)
  qed
  have lo: "?i q = 0" if "q \<le> 0" for q using that len by (simp add: py_round_def min_def max_def)
  have hi: "?i q = ?n" if "100 \<le> q" for q using that len by (simp add: py_round_def min_def max_def)
  have nn: "nat ?n = length vals - 1" by simp
  show ?thesis
  proof (intro conjI impI)
    show "\<exists>v\<in>set vals. percentile vals q = Some v" using mem p by blast
    show "percentile vals q = Some (Min (set vals))" if "q \<le> 0" unfolding p lo[OF that] nat_0 ends(1) ..
    show "percentile vals q = Some (Max (set vals))" if "100 \<le> q" unfolding p hi[OF that] nn ends(2) ..
    show "the (percentile vals q) \<le> the (percentile vals q')" if "q \<le> q'"
      unfolding p option.sel by (rule sorted[OF mono[OF that] lt])
  qed
qed

theorem percentile_nearest_rank_witness:
  "percentile [3, 1, 2] 0 = Some (Min {3, 1, 2}) \<and> percentile [3, 1, 2] 100 = Some (Max {3, 1, 2})"
  using percentile_nearest_rank[of "[3, 1, 2]" 0 100] percentile_nearest_rank[of "[3, 1, 2]" 100 100] by simp

section \<open>The gate\<close>

record run_report =
  rp_schema_version :: int
  rp_harness_version :: string
  rp_manifest :: "(string \<times> jv) list"
  rp_results :: "(string \<times> jv) list"
  rp_route_delta :: "(string \<times> jv) list option"

datatype direction = Lower | Higher

definition direction_of :: "string \<Rightarrow> direction option" where
  "direction_of metric =
     (if metric \<in> {''ttft_mean'', ''ttft_p50'', ''ttft_p95'', ''ttft_p99'', ''latency_mean'', ''latency_p50'', ''latency_p95'', ''latency_p99'', ''cost''}
      then Some Lower else if metric \<in> {''accepted_rate'', ''output_tps''} then Some Higher else None)"

definition route_derived :: "string \<Rightarrow> bool" where
  "route_derived metric \<longleftrightarrow> metric \<in> {''output_tps'', ''cost''}"

definition manifest_keys :: "string list" where
  "manifest_keys = [''name'', ''version'', ''seed'', ''model'', ''counts'', ''concurrency'', ''burst_concurrency'', ''warmup_requests'',
     ''max_tokens'', ''prefix_chars'', ''long_context_chars'', ''stream_mode'']"

record budget =
  bu_error_rate_pp :: real
  bu_latency_pct :: real
  bu_shed_rate_pp :: real

definition default_budget :: budget where
  "default_budget = \<lparr>bu_error_rate_pp = 1 / 2, bu_latency_pct = 5 / 100, bu_shed_rate_pp = 2\<rparr>"

datatype gate_reason =
    SchemaMismatch | HarnessMismatch | ManifestMismatch string | UnknownMetric | RouteUnavailable | RouteSourceMismatch
  | RouteNotExclusive | SliceMissing | MetricUndefined | BaselineZero | InvalidDenominator
  | NotImproved real | ErrorRateUp real | LatencyUp string real | ShedRateUp real

text \<open>\<open>report.results.get("slices", {})\<close>, and the row of a slice.\<close>

definition slices_of :: "run_report \<Rightarrow> (string \<times> jv) list option" where
  "slices_of r = (case map_of (rp_results r) ''slices'' of None \<Rightarrow> Some [] | Some v \<Rightarrow> obj_fields (Some v))"

definition slice_row :: "run_report \<Rightarrow> string \<Rightarrow> (string \<times> jv) list option" where
  "slice_row r name = (case slices_of r of None \<Rightarrow> None | Some sl \<Rightarrow> obj_fields (map_of sl name))"

definition overall_of :: "run_report \<Rightarrow> (string \<times> jv) list option" where
  "overall_of r = (case map_of (rp_results r) ''overall'' of None \<Rightarrow> Some [] | Some v \<Rightarrow> obj_fields (Some v))"

definition family_key :: "string \<Rightarrow> string option" where
  "family_key family = (if family = ''ttft'' then Some ''ttft_ms'' else if family = ''latency'' then Some ''total_ms'' else None)"

definition client_value :: "run_report \<Rightarrow> string \<Rightarrow> string \<Rightarrow> real option" where
  "client_value r metric slice_name =
     (if metric = ''accepted_rate''
      then (case overall_of r of None \<Rightarrow> None | Some ov \<Rightarrow> number (map_of ov ''accepted_rate''))
      else case slice_row r slice_name of
          None \<Rightarrow> None
        | Some row \<Rightarrow>
            (case partition_on (CHR ''_'') metric of
               (family, stat) \<Rightarrow>
                 (case family_key family of
                    None \<Rightarrow> None
                  | Some k \<Rightarrow> (case obj_fields (map_of row k) of None \<Rightarrow> None | Some su \<Rightarrow> number (map_of su stat)))))"

text \<open>\<open>str(source)\<close> (a source is compared as given; \<open>None\<close> is no source).\<close>

definition route_value :: "(jv \<Rightarrow> string) \<Rightarrow> run_report \<Rightarrow> string \<Rightarrow> real option \<times> string option \<times> bool" where
  "route_value py_str_v r metric =
     (case rp_route_delta r of
        None \<Rightarrow> (None, None, False)
      | Some rd \<Rightarrow>
          (number (map_of rd metric),
           (case map_of rd ''source'' of None \<Rightarrow> None | Some NullV \<Rightarrow> None | Some v \<Rightarrow> Some (py_str_v v)),
           (case map_of rd ''exclusive_target'' of None \<Rightarrow> False | Some v \<Rightarrow> truthy_v v)))"

definition target_value :: "(jv \<Rightarrow> string) \<Rightarrow> run_report \<Rightarrow> string \<Rightarrow> string \<Rightarrow> real option" where
  "target_value py_str_v r metric slice_name =
     (if route_derived metric then fst (route_value py_str_v r metric) else client_value r metric slice_name)"

definition p95_latency :: "run_report \<Rightarrow> string \<Rightarrow> real option" where
  "p95_latency r slice_name =
     (case slice_row r slice_name of
        None \<Rightarrow> None
      | Some row \<Rightarrow> (case obj_fields (map_of row ''total_ms'') of None \<Rightarrow> None | Some su \<Rightarrow> number (map_of su ''p95'')))"

text \<open>
  \<open>int(overall.get("admitted", 0) or 0)\<close> of a number (truncated); anything else that is
  true raises, which is \<open>None\<close>.
\<close>

definition admitted_of :: "(string \<times> jv) list \<Rightarrow> int option" where
  "admitted_of ov =
     (case map_of ov ''admitted'' of
        None \<Rightarrow> Some 0
      | Some v \<Rightarrow>
          if \<not> truthy_v v then Some 0
          else case v of NumV x \<Rightarrow> Some (if 0 \<le> x then \<lfloor>x\<rfloor> else - \<lfloor>- x\<rfloor>) | BoolV b \<Rightarrow> Some 1 | StrV s \<Rightarrow> py_int s | _ \<Rightarrow> None)"

definition overall_error_rate :: "run_report \<Rightarrow> (real option \<times> int) option" where
  "overall_error_rate r =
     (case overall_of r of
        None \<Rightarrow> Some (None, 0)
      | Some ov \<Rightarrow> map_option (\<lambda>a. (number (map_of ov ''error_rate''), a)) (admitted_of ov))"

definition shed_rate :: "run_report \<Rightarrow> string \<Rightarrow> real option" where
  "shed_rate r slice_name = (case slice_row r slice_name of None \<Rightarrow> None | Some row \<Rightarrow> number (map_of row ''shed_rate''))"

definition all_slices :: "run_report \<Rightarrow> run_report \<Rightarrow> string set" where
  "all_slices b c =
     (case slices_of b of None \<Rightarrow> {} | Some x \<Rightarrow> set (map fst x)) \<inter> (case slices_of c of None \<Rightarrow> {} | Some x \<Rightarrow> set (map fst x))"

text \<open>
  Python's \<open>==\<close> on JSON values: a bool equals its number, the order of a dict's keys does not
  matter (they are unique), and a missing key reads as \<open>None\<close>.
\<close>

fun norm_v :: "jv \<Rightarrow> jv" where
  "norm_v NullV = NullV"
| "norm_v (BoolV b) = NumV (if b then 1 else 0)"
| "norm_v (NumV r) = NumV r"
| "norm_v (StrV s) = StrV s"
| "norm_v (ListV xs) = ListV (map norm_v xs)"
| "norm_v (ObjV kvs) = ObjV (sort_key fst (map (\<lambda>(k, v). (k, norm_v v)) kvs))"

definition manifest_get :: "run_report \<Rightarrow> string \<Rightarrow> jv" where
  "manifest_get r k = (case map_of (rp_manifest r) k of None \<Rightarrow> NullV | Some v \<Rightarrow> norm_v v)"

definition incomparable :: "(jv \<Rightarrow> string) \<Rightarrow> run_report \<Rightarrow> run_report \<Rightarrow> string \<Rightarrow> string \<Rightarrow> gate_reason list" where
  "incomparable py_str_v b c metric slice_name =
     (if rp_schema_version b \<noteq> rp_schema_version c then [SchemaMismatch] else []) @
     (if rp_harness_version b \<noteq> rp_harness_version c then [HarnessMismatch] else []) @
     map ManifestMismatch (filter (\<lambda>k. manifest_get b k \<noteq> manifest_get c k) manifest_keys) @
     (if direction_of metric = None then [UnknownMetric] else []) @
     (if route_derived metric then
        (case (route_value py_str_v b metric, route_value py_str_v c metric) of
           ((_, b_src, b_excl), (_, c_src, c_excl)) \<Rightarrow>
             if b_src = None \<or> c_src = None then [RouteUnavailable]
             else if b_src \<noteq> c_src then [RouteSourceMismatch]
             else if \<not> (b_excl \<and> c_excl) then [RouteNotExclusive] else [])
      else if metric \<noteq> ''accepted_rate'' \<and> (slice_row b slice_name = None \<or> slice_row c slice_name = None) then [SliceMissing] else [])"

definition improvement :: "direction \<Rightarrow> real \<Rightarrow> real \<Rightarrow> real" where
  "improvement d base cand = (case d of Lower \<Rightarrow> (base - cand) / base | Higher \<Rightarrow> (cand - base) / base)"

text \<open>The latency veto of one slice.\<close>

definition latency_reason :: "budget \<Rightarrow> run_report \<Rightarrow> run_report \<Rightarrow> string \<Rightarrow> gate_reason option" where
  "latency_reason bu b c s =
     (case (p95_latency b s, p95_latency c s) of
        (Some x, Some y) \<Rightarrow> if x = 0 then None else if bu_latency_pct bu < (y - x) / x then Some (LatencyUp s ((y - x) / x)) else None
      | _ \<Rightarrow> None)"

record gate_outcome =
  go_passed :: bool
  go_reasons :: "gate_reason list"

definition reject :: "gate_reason list \<Rightarrow> gate_outcome" where
  "reject rs = \<lparr>go_passed = False, go_reasons = rs\<rparr>"

text \<open>\<open>compare\<close>; \<open>None\<close> is the exception of an \<open>admitted\<close> that is no number.\<close>

definition gate_compare ::
  "(jv \<Rightarrow> string) \<Rightarrow> run_report \<Rightarrow> run_report \<Rightarrow> string \<Rightarrow> string \<Rightarrow> real \<Rightarrow> budget \<Rightarrow> gate_outcome option" where
  "gate_compare py_str_v b c metric slice_name min_improvement bu =
     (let rejects = incomparable py_str_v b c metric slice_name
      in if rejects \<noteq> [] then Some (reject rejects)
         else case (target_value py_str_v b metric slice_name, target_value py_str_v c metric slice_name) of
             (Some base, Some cand) \<Rightarrow>
               if base = 0 then Some (reject [BaselineZero])
               else let imp = improvement (the (direction_of metric)) base cand;
                        r1 = (if min_improvement \<le> imp then [] else [NotImproved imp])
                    in (case (overall_error_rate b, overall_error_rate c) of
                          (Some (Some b_err, b_adm), Some (Some c_err, c_adm)) \<Rightarrow>
                            if b_adm = 0 \<or> c_adm = 0 then Some (reject [InvalidDenominator])
                            else let pp = (c_err - b_err) * 100;
                                     r2 = (if bu_error_rate_pp bu < pp then [ErrorRateUp pp] else []);
                                     others = sorted_list_of_set (all_slices b c - {slice_name});
                                     r3 = List.map_filter (latency_reason bu b c) others;
                                     r4 = (case (shed_rate b ''saturation'', shed_rate c ''saturation'') of
                                             (Some x, Some y) \<Rightarrow> if bu_shed_rate_pp bu < (y - x) * 100 then [ShedRateUp ((y - x) * 100)] else []
                                           | _ \<Rightarrow> []);
                                     rs = r1 @ r2 @ r3 @ r4
                                 in Some \<lparr>go_passed = (rs = []), go_reasons = rs\<rparr>
                        | (None, _) \<Rightarrow> None
                        | (_, None) \<Rightarrow> None
                        | _ \<Rightarrow> Some (reject [InvalidDenominator]))
           | _ \<Rightarrow> Some (reject [MetricUndefined]))"

section \<open>The policy the gate implements\<close>

text \<open>The reports are about the same workload, and the target can be read off both.\<close>

definition comparable :: "(jv \<Rightarrow> string) \<Rightarrow> run_report \<Rightarrow> run_report \<Rightarrow> string \<Rightarrow> string \<Rightarrow> bool" where
  "comparable py_str_v b c metric slice_name \<longleftrightarrow>
     rp_schema_version b = rp_schema_version c \<and> rp_harness_version b = rp_harness_version c \<and>
     (\<forall>k\<in>set manifest_keys. manifest_get b k = manifest_get c k) \<and> direction_of metric \<noteq> None \<and>
     (if route_derived metric
      then \<exists>src x y. route_value py_str_v b metric = (x, Some src, True) \<and> route_value py_str_v c metric = (y, Some src, True)
      else metric = ''accepted_rate'' \<or> slice_row b slice_name \<noteq> None \<and> slice_row c slice_name \<noteq> None)"

text \<open>Section 8.1: the target metric improves enough, in its own direction.\<close>

definition improves :: "(jv \<Rightarrow> string) \<Rightarrow> run_report \<Rightarrow> run_report \<Rightarrow> string \<Rightarrow> string \<Rightarrow> real \<Rightarrow> bool" where
  "improves py_str_v b c metric slice_name m \<longleftrightarrow>
     (\<exists>x y. target_value py_str_v b metric slice_name = Some x \<and> target_value py_str_v c metric slice_name = Some y \<and> x \<noteq> 0 \<and>
        m \<le> (if direction_of metric = Some Lower then (x - y) / x else (y - x) / x))"

text \<open>Section 8.2: nothing else gets worse than the budget allows.\<close>

definition within_budget :: "budget \<Rightarrow> run_report \<Rightarrow> run_report \<Rightarrow> string \<Rightarrow> bool" where
  "within_budget bu b c slice_name \<longleftrightarrow>
     (\<exists>x y m n. overall_error_rate b = Some (Some x, m) \<and> overall_error_rate c = Some (Some y, n) \<and> m \<noteq> 0 \<and> n \<noteq> 0 \<and>
        (y - x) * 100 \<le> bu_error_rate_pp bu) \<and>
     (\<forall>s\<in>all_slices b c. s \<noteq> slice_name \<longrightarrow>
        (\<forall>x y. p95_latency b s = Some x \<longrightarrow> p95_latency c s = Some y \<longrightarrow> x \<noteq> 0 \<longrightarrow> (y - x) / x \<le> bu_latency_pct bu)) \<and>
     (\<forall>x y. shed_rate b ''saturation'' = Some x \<longrightarrow> shed_rate c ''saturation'' = Some y \<longrightarrow> (y - x) * 100 \<le> bu_shed_rate_pp bu)"

lemma incomparable_Nil: "incomparable py_str_v b c metric slice_name = [] \<longleftrightarrow> comparable py_str_v b c metric slice_name"
  by (cases "route_value py_str_v b metric"; cases "route_value py_str_v c metric")
    (auto simp: incomparable_def comparable_def filter_empty_conv split: if_splits option.splits)

lemma latency_reason_None:
  "latency_reason bu b c s = None \<longleftrightarrow>
     (\<forall>x y. p95_latency b s = Some x \<longrightarrow> p95_latency c s = Some y \<longrightarrow> x \<noteq> 0 \<longrightarrow> (y - x) / x \<le> bu_latency_pct bu)"
  by (auto simp: latency_reason_def not_less split: option.splits)

lemma finite_all_slices: "finite (all_slices b c)"
  by (auto simp: all_slices_def split: option.splits)

lemma map_filter_Nil: "List.map_filter f xs = [] \<longleftrightarrow> (\<forall>x\<in>set xs. f x = None)"
  by (induction xs) (auto simp: List.map_filter_def)


definition sample_report :: "real \<Rightarrow> run_report" where
  "sample_report p95 = \<lparr>rp_schema_version = 1, rp_harness_version = ''1'', rp_manifest = [],
     rp_results = [(''overall'', ObjV [(''admitted'', NumV 10), (''error_rate'', NumV 0)]),
       (''slices'', ObjV [(''chat'', ObjV [(''total_ms'', ObjV [(''p95'', NumV p95)])])])],
     rp_route_delta = None\<rparr>"

lemma sample_gate:
  "gate_compare (\<lambda>_. []) (sample_report 100) (sample_report 80) ''latency_p95'' ''chat'' (15 / 100) default_budget
     = Some \<lparr>go_passed = True, go_reasons = []\<rparr>"
  by (simp add: gate_compare_def incomparable_def sample_report_def manifest_keys_def manifest_get_def direction_of_def route_derived_def
      slice_row_def slices_of_def obj_fields_def target_value_def client_value_def partition_on_def family_key_def number_def improvement_def
      overall_error_rate_def overall_of_def admitted_of_def default_budget_def all_slices_def shed_rate_def List.map_filter_def Let_def)


end
