(* ===== verification/Backup.thy ===== *)
theory Backup
  imports PyString
begin

text \<open>
  Backup and restore of the operator-critical state (\<open>engine/backup.py\<close>) and the exclusive
  ownership of an engine's store (\<open>engine/store/ownership.py\<close>).

  Files are maps from paths to contents. The tar archive is the list of its members; the
  JSON text of the manifest, SHA-256 and SQLite's online copy are arguments. A failure of
  the operating system other than a missing file is not modelled for backups, and is an
  argument for the locks.
\<close>

section \<open>Backups\<close>

definition DB_ARCNAME :: string where "DB_ARCNAME = ''inference_engine.db''"

definition CONFIG_ARCNAME :: string where "CONFIG_ARCNAME = ''config.toml''"

definition MANIFEST_ARCNAME :: string where "MANIFEST_ARCNAME = ''manifest.json''"

datatype mvalue = MStr string | MBool bool

type_synonym manifest = "(string \<times> mvalue) list"
type_synonym files = "string \<Rightarrow> string option"

record member =
  me_name :: string
  me_isfile :: bool
  me_bytes :: string

record bk_settings =
  bk_db_path :: string
  bk_config_file :: "string option"

datatype backup_error =
    FileNotFoundError | FileExistsError | ReadArchiveError | UnexpectedMember string | MissingManifest | BadManifest
  | MissingDatabase | DatabaseChecksum | ConfigChecksum

text \<open>What the functions use of the outside: the hash, the JSON codec of the manifest, the copy of a live database.\<close>

record bk_env =
  be_sha256 :: "string \<Rightarrow> string"
  be_dumps :: "manifest \<Rightarrow> string"
  be_loads :: "string \<Rightarrow> manifest option"
  be_db_copy :: "string \<Rightarrow> string"

definition backup_manifest :: "bk_env \<Rightarrow> string \<Rightarrow> string \<Rightarrow> string \<Rightarrow> string option \<Rightarrow> manifest" where
  "backup_manifest env version created_at db_copy config =
     [(''engine_version'', MStr version), (''created_at'', MStr created_at), (''db_filename'', MStr DB_ARCNAME),
      (''db_sha256'', MStr (be_sha256 env db_copy)), (''config_included'', MBool (config \<noteq> None)),
      (''note'', MStr ''model files are not included; back them up separately'')] @
     (case config of None \<Rightarrow> [] | Some c \<Rightarrow> [(''config_sha256'', MStr (be_sha256 env c))])"

text \<open>\<open>create_backup\<close>: the members written to the archive.\<close>

definition create_backup :: "bk_env \<Rightarrow> string \<Rightarrow> string \<Rightarrow> bk_settings \<Rightarrow> files \<Rightarrow> (backup_error, member list) result" where
  "create_backup env version created_at st fs =
     (case fs (bk_db_path st) of
        None \<Rightarrow> Inl FileNotFoundError
      | Some db \<Rightarrow>
          let db_copy = be_db_copy env db;
              config = (case bk_config_file st of None \<Rightarrow> None | Some p \<Rightarrow> fs p)
          in Inr ([\<lparr>me_name = MANIFEST_ARCNAME, me_isfile = True,
                     me_bytes = be_dumps env (backup_manifest env version created_at db_copy config)\<rparr>,
                   \<lparr>me_name = DB_ARCNAME, me_isfile = True, me_bytes = db_copy\<rparr>] @
                  (case config of None \<Rightarrow> [] | Some c \<Rightarrow> [\<lparr>me_name = CONFIG_ARCNAME, me_isfile = True, me_bytes = c\<rparr>])))"

fun safe_members :: "member list \<Rightarrow> (backup_error, member list) result" where
  "safe_members [] = Inr []"
| "safe_members (m # ms) =
     (if me_name m \<notin> {MANIFEST_ARCNAME, DB_ARCNAME, CONFIG_ARCNAME} \<or> \<not> me_isfile m then Inl (UnexpectedMember (me_name m))
      else case safe_members ms of Inl e \<Rightarrow> Inl e | Inr xs \<Rightarrow> Inr (m # xs))"

text \<open>Extraction: a later member of the same name replaces an earlier one.\<close>

definition extracted :: "member list \<Rightarrow> files" where
  "extracted ms = map_of (rev (map (\<lambda>m. (me_name m, me_bytes m)) ms))"

record restore_result =
  rr_db_path :: string
  rr_config_path :: "string option"
  rr_manifest :: manifest

definition config_target :: "bk_settings \<Rightarrow> string \<Rightarrow> string option \<Rightarrow> string" where
  "config_target st db_parent config_out =
     (case config_out of Some p \<Rightarrow> p
      | None \<Rightarrow> (case bk_config_file st of Some p \<Rightarrow> p | None \<Rightarrow> db_parent @ ''/'' @ CONFIG_ARCNAME))"

text \<open>
  \<open>restore_backup\<close>: the archive's members (\<open>None\<close>: not a readable archive; the outer
  \<open>None\<close>: no such file) and the files, before and after.
\<close>

definition restore_backup ::
  "bk_env \<Rightarrow> member list option option \<Rightarrow> bk_settings \<Rightarrow> string \<Rightarrow> bool \<Rightarrow> string option \<Rightarrow> files
    \<Rightarrow> (backup_error, restore_result) result \<times> files" where
  "restore_backup env archive st db_parent force config_out fs =
     (case archive of
        None \<Rightarrow> (Inl FileNotFoundError, fs)
      | Some tar \<Rightarrow>
          if fs (bk_db_path st) \<noteq> None \<and> \<not> force then (Inl FileExistsError, fs)
          else case tar of
              None \<Rightarrow> (Inl ReadArchiveError, fs)
            | Some ms \<Rightarrow>
                (case safe_members ms of
                   Inl e \<Rightarrow> (Inl e, fs)
                 | Inr xs \<Rightarrow>
                     (case extracted xs MANIFEST_ARCNAME of
                        None \<Rightarrow> (Inl MissingManifest, fs)
                      | Some text \<Rightarrow>
                          (case be_loads env text of
                             None \<Rightarrow> (Inl BadManifest, fs)
                           | Some manifest \<Rightarrow>
                               (case extracted xs DB_ARCNAME of
                                  None \<Rightarrow> (Inl MissingDatabase, fs)
                                | Some db \<Rightarrow>
                                    if map_of manifest ''db_sha256'' \<noteq> Some (MStr (be_sha256 env db)) then (Inl DatabaseChecksum, fs)
                                    else let fs1 = fs(bk_db_path st \<mapsto> db)
                                         in case extracted xs CONFIG_ARCNAME of
                                              None \<Rightarrow> (Inr \<lparr>rr_db_path = bk_db_path st, rr_config_path = None, rr_manifest = manifest\<rparr>, fs1)
                                            | Some c \<Rightarrow>
                                                if map_of manifest ''config_sha256'' \<noteq> Some (MStr (be_sha256 env c))
                                                then (Inl ConfigChecksum, fs1)
                                                else let p = config_target st db_parent config_out
                                                     in (Inr \<lparr>rr_db_path = bk_db_path st, rr_config_path = Some p, rr_manifest = manifest\<rparr>,
                                                         fs1(p \<mapsto> c)))))))"

lemma arcnames [simp]:
  "MANIFEST_ARCNAME \<noteq> DB_ARCNAME" "MANIFEST_ARCNAME \<noteq> CONFIG_ARCNAME" "DB_ARCNAME \<noteq> CONFIG_ARCNAME"
  "DB_ARCNAME \<noteq> MANIFEST_ARCNAME" "CONFIG_ARCNAME \<noteq> MANIFEST_ARCNAME" "CONFIG_ARCNAME \<noteq> DB_ARCNAME"
  by (simp_all add: MANIFEST_ARCNAME_def DB_ARCNAME_def CONFIG_ARCNAME_def)

text \<open>
  C39. A backup restores. Whatever host it is restored to (no database there, or with
  \<open>force\<close>), the archive that \<open>create_backup\<close> wrote passes its own checks, the
  database file gets the consistent copy taken of the original, and the configuration, if
  one was backed up, is put back byte for byte at the configured place; no other file
  changes.
\<close>

theorem backup_roundtrip:
  assumes "create_backup env version created_at st fs = Inr ms" and "\<forall>m. be_loads env (be_dumps env m) = Some m"
    and "fs' (bk_db_path st') = None \<or> force" and "config_target st' db_parent config_out \<noteq> bk_db_path st'"
  shows "\<exists>db r fs''. fs (bk_db_path st) = Some db \<and>
    restore_backup env (Some (Some ms)) st' db_parent force config_out fs' = (Inr r, fs'') \<and>
    fs'' (bk_db_path st') = Some (be_db_copy env db) \<and>
    (case Option.bind (bk_config_file st) fs of
       None \<Rightarrow> rr_config_path r = None \<and> (\<forall>p. p \<noteq> bk_db_path st' \<longrightarrow> fs'' p = fs' p)
     | Some c \<Rightarrow> rr_config_path r = Some (config_target st' db_parent config_out) \<and>
         fs'' (config_target st' db_parent config_out) = Some c \<and>
         (\<forall>p. p \<noteq> bk_db_path st' \<longrightarrow> p \<noteq> config_target st' db_parent config_out \<longrightarrow> fs'' p = fs' p))"
  using assms
  by (auto simp: create_backup_def restore_backup_def extracted_def backup_manifest_def Let_def Option.bind_eq_Some_conv
      split: option.splits if_splits)

text \<open>
  The checks come too late for a damaged configuration: the docstring says that the
  checksums are verified before anything is written, but when the database's checksum is
  right and the configuration's is not, the restore fails after it has replaced the database.
\<close>

theorem restore_writes_before_config_check:
  assumes "safe_members ms = Inr ms" and "extracted ms MANIFEST_ARCNAME = Some txt" and "be_loads env txt = Some manifest"
    and "extracted ms DB_ARCNAME = Some db" and "map_of manifest ''db_sha256'' = Some (MStr (be_sha256 env db))"
    and "extracted ms CONFIG_ARCNAME = Some c" and "map_of manifest ''config_sha256'' \<noteq> Some (MStr (be_sha256 env c))"
  shows "restore_backup env (Some (Some ms)) st db_parent True config_out fs = (Inl ConfigChecksum, fs(bk_db_path st \<mapsto> db))"
  using assms by (simp add: restore_backup_def)

section \<open>Ownership of the store\<close>

text \<open>
  The operating system's lock table: which handle holds the lock of which file. Two handles
  conflict also within a process. \<open>io p\<close> says how opening and locking the file \<open>p\<close> goes.
\<close>

type_synonym lock_table = "string \<Rightarrow> nat option"

datatype lock_io = LockIoOk | CannotOpen | CannotLock

datatype ownership_error = StoreLockedError | StoreLockUnavailableError

record store_lock =
  sl_path :: string
  sl_fh :: "nat option"

definition lock_held :: "store_lock \<Rightarrow> bool" where
  "lock_held l \<longleftrightarrow> sl_fh l \<noteq> None"

definition lock_acquire ::
  "(string \<Rightarrow> lock_io) \<Rightarrow> nat \<Rightarrow> store_lock \<times> lock_table \<Rightarrow> (ownership_error, unit) result \<times> store_lock \<times> lock_table" where
  "lock_acquire io fh lt =
     (case lt of (l, t) \<Rightarrow>
        if lock_held l then (Inr (), l, t)
        else if io (sl_path l) = CannotOpen then (Inl StoreLockUnavailableError, l, t)
        else if t (sl_path l) \<noteq> None then (Inl StoreLockedError, l, t)
        else if io (sl_path l) = CannotLock then (Inl StoreLockUnavailableError, l, t)
        else (Inr (), l\<lparr>sl_fh := Some fh\<rparr>, t(sl_path l \<mapsto> fh)))"

definition lock_release :: "store_lock \<times> lock_table \<Rightarrow> store_lock \<times> lock_table" where
  "lock_release lt =
     (case lt of (l, t) \<Rightarrow> if lock_held l then (l\<lparr>sl_fh := None\<rparr>, t(sl_path l := None)) else (l, t))"

record ownership =
  ow_database :: store_lock
  ow_model_store :: store_lock

definition MODEL_STORE_LOCK_NAME :: string where "MODEL_STORE_LOCK_NAME = ''.engine-model-store.lock''"

definition ownership_init :: "(string \<Rightarrow> string) \<Rightarrow> string \<Rightarrow> string \<Rightarrow> (ownership_error, ownership) result" where
  "ownership_init canon db_path models_dir =
     (let d = canon db_path @ ''.lock''; m = canon models_dir @ ''/'' @ MODEL_STORE_LOCK_NAME
      in if d = m then Inl StoreLockUnavailableError
         else Inr \<lparr>ow_database = \<lparr>sl_path = d, sl_fh = None\<rparr>, ow_model_store = \<lparr>sl_path = m, sl_fh = None\<rparr>\<rparr>)"

definition ownership_held :: "ownership \<Rightarrow> bool" where
  "ownership_held w \<longleftrightarrow> lock_held (ow_database w) \<or> lock_held (ow_model_store w)"

definition ownership_release :: "ownership \<times> lock_table \<Rightarrow> ownership \<times> lock_table" where
  "ownership_release wt =
     (case wt of (w, t) \<Rightarrow>
        case lock_release (ow_model_store w, t) of (m, t1) \<Rightarrow>
        case lock_release (ow_database w, t1) of (d, t2) \<Rightarrow> (\<lparr>ow_database = d, ow_model_store = m\<rparr>, t2))"

definition ownership_acquire ::
  "(string \<Rightarrow> lock_io) \<Rightarrow> nat \<Rightarrow> nat \<Rightarrow> ownership \<times> lock_table \<Rightarrow> (ownership_error, unit) result \<times> ownership \<times> lock_table" where
  "ownership_acquire io fh1 fh2 wt =
     (case wt of (w, t) \<Rightarrow>
        case lock_acquire io fh1 (ow_database w, t) of
          (Inl e, d, t1) \<Rightarrow> (Inl e, w\<lparr>ow_database := d\<rparr>, t1)
        | (Inr _, d, t1) \<Rightarrow>
            (case lock_acquire io fh2 (ow_model_store w, t1) of
               (Inl e, m, t2) \<Rightarrow>
                 (case lock_release (d, t2) of (d', t3) \<Rightarrow> (Inl e, \<lparr>ow_database = d', ow_model_store = m\<rparr>, t3))
             | (Inr _, m, t2) \<Rightarrow> (Inr (), \<lparr>ow_database = d, ow_model_store = m\<rparr>, t2)))"

lemma ownership_acquire_result:
  assumes "ownership_init canon db_path models_dir = Inr w" and "ownership_acquire io fh1 fh2 (w, t) = (r, w', t')"
    and "d = sl_path (ow_database w)" and "m = sl_path (ow_model_store w)"
  shows "d \<noteq> m \<and> (case r of
      Inl e \<Rightarrow> w' = w \<and> t' = t
    | Inr _ \<Rightarrow> t d = None \<and> t m = None \<and> t' = t(d \<mapsto> fh1, m \<mapsto> fh2) \<and> ownership_release (w', t') = (w, t))"
proof -
  have wf: "w = \<lparr>ow_database = \<lparr>sl_path = d, sl_fh = None\<rparr>, ow_model_store = \<lparr>sl_path = m, sl_fh = None\<rparr>\<rparr>" and dm: "d \<noteq> m"
    using assms(1,3,4) by (auto simp: ownership_init_def Let_def split: if_splits)
  show ?thesis
    using assms(2) dm unfolding wf
    by (auto simp: ownership_acquire_def lock_acquire_def lock_release_def ownership_release_def lock_held_def fun_upd_twist fun_upd_idem
        split: if_splits prod.splits)
qed

text \<open>
  C40. The store has one owner. Taking ownership takes both locks or none: it succeeds only
  when both were free, and any failure (another owner, a file that cannot be opened or
  locked) leaves the lock table and the engine's own state as they were. While an engine owns
  the store, every engine whose database or model directory has the same lock file is
  refused and changes nothing. Releasing restores the table exactly.
\<close>

theorem store_ownership_exclusive:
  assumes "ownership_init canon db_path models_dir = Inr w" and "ownership_acquire io fh1 fh2 (w, t) = (r, w', t')"
    and "ownership_init canon' db_path' models_dir' = Inr v"
    and "{sl_path (ow_database v), sl_path (ow_model_store v)} \<inter> {sl_path (ow_database w), sl_path (ow_model_store w)} \<noteq> {}"
  shows "case r of
      Inl e \<Rightarrow> w' = w \<and> t' = t
    | Inr _ \<Rightarrow> (\<exists>e. ownership_acquire io' fh3 fh4 (v, t') = (Inl e, v, t')) \<and> ownership_release (w', t') = (w, t)"
proof (cases r)
  case (Inl e)
  then show ?thesis using ownership_acquire_result[OF assms(1,2) refl refl] by simp
next
  case (Inr u)
  note a = ownership_acquire_result[OF assms(1,2) refl refl]
  obtain q v' t'' where b: "ownership_acquire io' fh3 fh4 (v, t') = (q, v', t'')" by (metis prod_cases3)
  note c = ownership_acquire_result[OF assms(3) b refl refl]
  have taken: "t' (sl_path (ow_database w)) \<noteq> None" "t' (sl_path (ow_model_store w)) \<noteq> None" using a Inr by auto
  have "\<exists>e. q = Inl e"
  proof (cases q)
    case (Inr u)
    then have "t' (sl_path (ow_database v)) = None" "t' (sl_path (ow_model_store v)) = None" using c by auto
    then show ?thesis using assms(4) taken by auto
  qed simp
  then show ?thesis using a b c Inr by auto
qed

lemma sample_ownership:
  "ownership_init (\<lambda>p. p) ''/d/e.db'' ''/m'' = Inr \<lparr>ow_database = \<lparr>sl_path = ''/d/e.db.lock'', sl_fh = None\<rparr>,
     ow_model_store = \<lparr>sl_path = ''/m/.engine-model-store.lock'', sl_fh = None\<rparr>\<rparr>"
  by (simp add: ownership_init_def MODEL_STORE_LOCK_NAME_def Let_def)

theorem store_ownership_exclusive_witness:
  "\<exists>w w' t' e. ownership_init (\<lambda>p. p) ''/d/e.db'' ''/m'' = Inr w \<and>
     ownership_acquire (\<lambda>_. LockIoOk) 1 2 (w, \<lambda>_. None) = (Inr (), w', t') \<and>
     ownership_acquire (\<lambda>_. LockIoOk) 3 4 (w, t') = (Inl e, w, t')"
proof -
  let ?w = "\<lparr>ow_database = \<lparr>sl_path = ''/d/e.db.lock'', sl_fh = None\<rparr>,
     ow_model_store = \<lparr>sl_path = ''/m/.engine-model-store.lock'', sl_fh = None\<rparr>\<rparr>"
  obtain w' t' where a: "ownership_acquire (\<lambda>_. LockIoOk) 1 2 (?w, \<lambda>_. None) = (Inr (), w', t')"
    by (simp add: ownership_acquire_def lock_acquire_def lock_held_def)
  from store_ownership_exclusive[OF sample_ownership a sample_ownership, of "\<lambda>_. LockIoOk" 3 4] sample_ownership a
  show ?thesis by auto
qed

section \<open>A concrete manifest codec\<close>

text \<open>Strings are written with their length in unary; the reader is given enough fuel by the text itself.\<close>

definition enc_s :: "string \<Rightarrow> string" where
  "enc_s s = replicate (length s) (CHR ''a'') @ CHR ''b'' # s"

definition dec_s :: "string \<Rightarrow> string \<times> string" where
  "dec_s x = (let n = length (takeWhile (\<lambda>c. c = CHR ''a'') x); rest = drop (Suc n) x in (take n rest, drop n rest))"

fun enc_m :: "manifest \<Rightarrow> string" where
  "enc_m [] = ''e''"
| "enc_m ((k, MBool b) # m) = (if b then CHR ''t'' else CHR ''f'') # enc_s k @ enc_m m"
| "enc_m ((k, MStr s) # m) = CHR ''s'' # enc_s k @ enc_s s @ enc_m m"

fun dec_m :: "nat \<Rightarrow> string \<Rightarrow> manifest" where
  "dec_m 0 x = []"
| "dec_m (Suc n) [] = []"
| "dec_m (Suc n) (c # x) =
     (if c = CHR ''e'' then []
      else case dec_s x of (k, rest) \<Rightarrow>
        if c = CHR ''s'' then (case dec_s rest of (s, rest') \<Rightarrow> (k, MStr s) # dec_m n rest')
        else (k, MBool (c = CHR ''t'')) # dec_m n rest)"

lemma dec_enc_s: "dec_s (enc_s s @ rest) = (s, rest)"
proof -
  have "takeWhile (\<lambda>c. c = CHR ''a'') (replicate n (CHR ''a'') @ CHR ''b'' # ys) = replicate n (CHR ''a'')" for n ys
    by (induction n) auto
  then show ?thesis by (simp add: dec_s_def enc_s_def Let_def)
qed

lemma dec_enc_m: "length (enc_m m) \<le> n \<Longrightarrow> dec_m n (enc_m m) = m"
proof (induction m arbitrary: n rule: enc_m.induct)
  case 1
  then show ?case by (cases n) auto
next
  case (2 k b m)
  then show ?case by (cases n) (auto simp: dec_enc_s)
next
  case (3 k s m)
  then show ?case by (cases n) (auto simp: dec_enc_s)
qed

definition sample_env :: bk_env where
  "sample_env = \<lparr>be_sha256 = (\<lambda>x. x), be_dumps = enc_m, be_loads = (\<lambda>x. Some (dec_m (length x) x)), be_db_copy = (\<lambda>x. x)\<rparr>"

theorem backup_roundtrip_witness:
  "\<exists>ms r fs''. create_backup sample_env ''1'' ''now'' \<lparr>bk_db_path = ''/a.db'', bk_config_file = None\<rparr> [''/a.db'' \<mapsto> ''rows''] = Inr ms \<and>
     restore_backup sample_env (Some (Some ms)) \<lparr>bk_db_path = ''/b.db'', bk_config_file = None\<rparr> '''' False None (\<lambda>_. None) = (Inr r, fs'') \<and>
     fs'' ''/b.db'' = Some ''rows''"
proof -
  let ?st = "\<lparr>bk_db_path = ''/a.db'', bk_config_file = None\<rparr>" and ?st' = "\<lparr>bk_db_path = ''/b.db'', bk_config_file = None\<rparr>"
  obtain ms where c: "create_backup sample_env ''1'' ''now'' ?st [''/a.db'' \<mapsto> ''rows''] = Inr ms"
    by (simp add: create_backup_def Let_def)
  have codec: "\<forall>m. be_loads sample_env (be_dumps sample_env m) = Some m" by (simp add: sample_env_def dec_enc_m)
  from backup_roundtrip[OF c codec, of "\<lambda>_. None" ?st' False "''''" None] c show ?thesis
    by (auto simp: sample_env_def config_target_def CONFIG_ARCNAME_def)
qed

end
