(* ===== verification/Event_Bus.thy ===== *)
theory Event_Bus
  imports PyString "HOL-Library.Sublist"
begin

text \<open>
  The in-process event bus and the log collector of the telemetry package:
  \<open>engine/telemetry/events.py\<close> (bounded history per channel, a drop-oldest queue per
  subscriber, the \<open>subscribe\<close> generator), the live-feed helpers of
  \<open>engine/telemetry/service.py\<close>, and \<open>engine/telemetry/logbuffer.py\<close> (the ring of recent
  records and the trimmed \<open>log_events\<close> table).

  The bus runs on one event loop, so every operation between two awaits is one step; a
  subscriber waiting in \<open>get\<close> is a step that returns nothing. The channel's set of
  subscribers is the list of its members. A record's data is a parameter type.
\<close>

section \<open>The contract of a drop-oldest buffer\<close>

text \<open>
  The bounded deques of the bus and of the log ring have one contract: a push appends, and
  what exceeds the capacity is dropped at the old end. The client lemma says what is left
  after any number of pushes.
\<close>

definition last_n :: "nat option \<Rightarrow> 'a list \<Rightarrow> 'a list" where
  "last_n c xs = (case c of None \<Rightarrow> xs | Some n \<Rightarrow> drop (length xs - n) xs)"

locale drop_oldest =
  fixes contents :: "'s \<Rightarrow> 'a list"
    and capacity :: "'s \<Rightarrow> nat option"
    and push :: "'a \<Rightarrow> 's \<Rightarrow> 's"
  assumes push_contents:
      "last_n (capacity s) (contents s) = contents s \<Longrightarrow> contents (push x s) = last_n (capacity s) (contents s @ [x])"
    and push_capacity: "capacity (push x s) = capacity s"
begin

definition fits :: "'s \<Rightarrow> bool" where
  "fits s \<longleftrightarrow> last_n (capacity s) (contents s) = contents s"

lemma last_n_idem: "last_n c (last_n c xs) = last_n c xs"
  by (auto simp: last_n_def split: option.splits)

lemma last_n_snoc: "last_n c (last_n c xs @ [x]) = last_n c (xs @ [x])"
proof (cases c)
  case (Some n)
  consider "length xs < n" | "length xs \<ge> n" "n > 0" | "n = 0" by linarith
  then show ?thesis
  proof cases
    case 2
    then have "Suc (length xs) - n \<ge> length xs - n" by simp
    then show ?thesis using 2 Some by (simp add: last_n_def Suc_diff_le)
  qed (use Some in \<open>auto simp: last_n_def\<close>)
qed (simp add: last_n_def)

lemma push_fits: "fits s \<Longrightarrow> fits (push x s)"
  by (simp add: fits_def push_contents push_capacity last_n_idem)

lemma pushes:
  "fits s \<Longrightarrow> contents (fold push xs s) = last_n (capacity s) (contents s @ xs)
     \<and> capacity (fold push xs s) = capacity s \<and> fits (fold push xs s)"
proof (induction xs rule: rev_induct)
  case (snoc x xs)
  have f: "fits (fold push xs s)" using snoc by simp
  have "contents (push x (fold push xs s)) = last_n (capacity s) (last_n (capacity s) (contents s @ xs) @ [x])"
    using snoc f push_contents[of "fold push xs s" x] by (simp add: fits_def)
  then have "contents (push x (fold push xs s)) = last_n (capacity s) (contents s @ xs @ [x])"
    by (simp only: last_n_snoc append_assoc)
  then show ?case using snoc f push_fits push_capacity by simp
qed (simp add: fits_def)

end

text \<open>\<open>deque(maxlen=n).append\<close>.\<close>

definition deque_append :: "nat \<Rightarrow> 'a \<Rightarrow> 'a list \<Rightarrow> 'a list" where
  "deque_append n x q = drop (Suc (length q) - n) (q @ [x])"

interpretation deque: drop_oldest "snd :: nat \<times> 'a list \<Rightarrow> 'a list" "\<lambda>s. Some (fst s)" "\<lambda>x s. (fst s, deque_append (fst s) x (snd s))"
  by unfold_locales (auto simp: deque_append_def last_n_def)

section \<open>Events and subscriptions\<close>

datatype channel = METRICS_CHANNEL | FEED_CHANNEL

datatype event_type = METRICS_EVENT | REQUEST_START | REQUEST_PROGRESS | REQUEST_END | REQUEST_ERROR | REQUEST_REJECTED

record 'd event =
  ev_type :: event_type
  ev_data :: 'd
  ev_ts :: time

record 'd bus_subscription =
  sb_maxsize :: int
  sb_queue :: "'d event list"
  sb_dropped :: nat
  sb_event :: bool

definition new_subscription :: "int \<Rightarrow> 'd bus_subscription" where
  "new_subscription maxsize = \<lparr>sb_maxsize = maxsize, sb_queue = [], sb_dropped = 0, sb_event = False\<rparr>"

definition sub_offer :: "'d event \<Rightarrow> 'd bus_subscription \<Rightarrow> 'd bus_subscription" where
  "sub_offer e s =
     (let s' = (if sb_maxsize s > 0 \<and> int (length (sb_queue s)) \<ge> sb_maxsize s
                then s\<lparr>sb_queue := tl (sb_queue s), sb_dropped := sb_dropped s + 1\<rparr> else s)
      in s'\<lparr>sb_queue := sb_queue s' @ [e], sb_event := True\<rparr>)"

text \<open>One pass of the loop in \<open>get\<close>: an empty queue clears the wakeup and waits.\<close>

definition sub_get :: "'d bus_subscription \<Rightarrow> 'd event option \<times> 'd bus_subscription" where
  "sub_get s = (case sb_queue s of
      [] \<Rightarrow> (None, s\<lparr>sb_event := False\<rparr>)
    | e # q \<Rightarrow> (Some e, s\<lparr>sb_queue := q\<rparr>))"

definition sub_capacity :: "'d bus_subscription \<Rightarrow> nat option" where
  "sub_capacity s = (if sb_maxsize s > 0 then Some (nat (sb_maxsize s)) else None)"

lemma sub_offer_fields [simp]:
  "sb_maxsize (sub_offer e s) = sb_maxsize s" "sb_event (sub_offer e s)"
  by (auto simp: sub_offer_def Let_def)

lemma last_n_fits: "last_n (Some n) xs = xs \<longleftrightarrow> length xs \<le> n"
proof
  assume "last_n (Some n) xs = xs"
  then have "length (drop (length xs - n) xs) = length xs" by (simp add: last_n_def)
  then show "length xs \<le> n" by auto
qed (simp add: last_n_def)

lemma sub_fits: "last_n (sub_capacity s) (sb_queue s) = sb_queue s \<longleftrightarrow> (sb_maxsize s > 0 \<longrightarrow> int (length (sb_queue s)) \<le> sb_maxsize s)"
proof (cases "sb_maxsize s > 0")
  case True
  then show ?thesis by (auto simp: sub_capacity_def last_n_fits)
qed (simp add: sub_capacity_def last_n_def)

interpretation sub: drop_oldest sb_queue sub_capacity sub_offer
proof
  fix s :: "'d bus_subscription" and x
  assume "last_n (sub_capacity s) (sb_queue s) = sb_queue s"
  then have l: "sb_maxsize s > 0 \<longrightarrow> int (length (sb_queue s)) \<le> sb_maxsize s" by (simp only: sub_fits)
  show "sb_queue (sub_offer x s) = last_n (sub_capacity s) (sb_queue s @ [x])"
  proof (cases "sb_maxsize s > 0 \<and> int (length (sb_queue s)) \<ge> sb_maxsize s")
    case True
    then have "nat (sb_maxsize s) = length (sb_queue s)" "sb_queue s \<noteq> []" using l by auto
    then show ?thesis using True by (cases "sb_queue s") (auto simp: sub_offer_def sub_capacity_def last_n_def Let_def)
  next
    case False
    then have "sb_maxsize s > 0 \<Longrightarrow> Suc (length (sb_queue s)) - nat (sb_maxsize s) = 0" by simp
    with False show ?thesis by (auto simp: sub_offer_def sub_capacity_def last_n_def Let_def)
  qed
qed (simp add: sub_capacity_def)

section \<open>The bus\<close>

text \<open>
  A \<open>subscribe\<close> generator holds its subscription and the part of the copied history it has
  not yielded yet; \<open>nat\<close> names the generator object.
\<close>

record 'd generator =
  gn_sub :: "'d bus_subscription"
  gn_replay :: "'d event list"

record 'd event_bus =
  eb_history_size :: nat
  eb_subscriber_queue :: int
  eb_history :: "channel \<Rightarrow> 'd event list"
  eb_subscribers :: "channel \<Rightarrow> (nat \<times> 'd generator) list"

definition bus_init :: "nat \<Rightarrow> int \<Rightarrow> 'd event_bus" where
  "bus_init history subscriber_queue =
     \<lparr>eb_history_size = history, eb_subscriber_queue = subscriber_queue, eb_history = (\<lambda>_. []), eb_subscribers = (\<lambda>_. [])\<rparr>"

definition publish :: "channel \<Rightarrow> 'd event \<Rightarrow> 'd event_bus \<Rightarrow> 'd event_bus" where
  "publish ch e b =
     b\<lparr>eb_history := (eb_history b)(ch := deque_append (eb_history_size b) e (eb_history b ch)),
       eb_subscribers := (eb_subscribers b)(ch := map (\<lambda>(i, g). (i, g\<lparr>gn_sub := sub_offer e (gn_sub g)\<rparr>)) (eb_subscribers b ch))\<rparr>"

definition recent_events :: "channel \<Rightarrow> 'd event_bus \<Rightarrow> 'd event list" where
  "recent_events ch b = eb_history b ch"

definition subscriber_count :: "channel \<Rightarrow> 'd event_bus \<Rightarrow> nat" where
  "subscriber_count ch b = length (eb_subscribers b ch)"

text \<open>The generator's first step up to its first yield: subscribe, and copy the history.\<close>

definition subscribe :: "nat \<Rightarrow> channel \<Rightarrow> bool \<Rightarrow> 'd event_bus \<Rightarrow> 'd event_bus" where
  "subscribe i ch replay_history b =
     b\<lparr>eb_subscribers := (eb_subscribers b)(ch := eb_subscribers b ch @
         [(i, \<lparr>gn_sub = new_subscription (eb_subscriber_queue b), gn_replay = (if replay_history then eb_history b ch else [])\<rparr>)])\<rparr>"

definition gen_next :: "'d generator \<Rightarrow> 'd event option \<times> 'd generator" where
  "gen_next g = (case gn_replay g of
      e # r \<Rightarrow> (Some e, g\<lparr>gn_replay := r\<rparr>)
    | [] \<Rightarrow> (case sub_get (gn_sub g) of (x, s) \<Rightarrow> (x, g\<lparr>gn_sub := s\<rparr>)))"

definition subscribe_next :: "nat \<Rightarrow> channel \<Rightarrow> 'd event_bus \<Rightarrow> 'd event option \<times> 'd event_bus" where
  "subscribe_next i ch b =
     (case map_of (eb_subscribers b ch) i of
        None \<Rightarrow> (None, b)
      | Some g \<Rightarrow> (fst (gen_next g), b\<lparr>eb_subscribers := (eb_subscribers b)(ch :=
            map (\<lambda>(j, h). if j = i then (j, snd (gen_next h)) else (j, h)) (eb_subscribers b ch))\<rparr>))"

definition unsubscribe :: "nat \<Rightarrow> channel \<Rightarrow> 'd event_bus \<Rightarrow> 'd event_bus" where
  "unsubscribe i ch b = b\<lparr>eb_subscribers := (eb_subscribers b)(ch := filter (\<lambda>(j, _). j \<noteq> i) (eb_subscribers b ch))\<rparr>"

datatype 'd bus_op = Publish channel "'d event" | Subscribe nat channel bool | Next nat channel | Close nat channel

primrec bus_step :: "'d bus_op \<Rightarrow> 'd event_bus \<Rightarrow> 'd event_bus" where
  "bus_step (Publish ch e) b = publish ch e b"
| "bus_step (Subscribe i ch rp) b = subscribe i ch rp b"
| "bus_step (Next i ch) b = snd (subscribe_next i ch b)"
| "bus_step (Close i ch) b = unsubscribe i ch b"

definition published :: "channel \<Rightarrow> 'd bus_op list \<Rightarrow> 'd event list" where
  "published ch ops = concat (map (\<lambda>x. case x of Publish c e \<Rightarrow> if c = ch then [e] else [] | _ \<Rightarrow> []) ops)"

text \<open>The events the generator \<open>i\<close> of a channel yields in a run.\<close>

fun delivered :: "nat \<Rightarrow> channel \<Rightarrow> 'd bus_op list \<Rightarrow> 'd event_bus \<Rightarrow> 'd event list" where
  "delivered i ch [] b = []"
| "delivered i ch (x # xs) b =
     (case x of Next j c \<Rightarrow> if j = i \<and> c = ch then (case fst (subscribe_next i ch b) of Some e \<Rightarrow> [e] | None \<Rightarrow> []) else []
      | _ \<Rightarrow> []) @ delivered i ch xs (bus_step x b)"

lemma map_of_map_key: "map_of (map (\<lambda>(j, h). (j, f j h)) xs) i = map_option (f i) (map_of xs i)"
  by (induction xs) auto

lemma map_of_map_at:
  "map_of (map (\<lambda>(j, h). if j = k then (j, f h) else (j, h)) xs) i = map_option (\<lambda>h. if i = k then f h else h) (map_of xs i)"
  by (induction xs) auto

lemma map_of_filter_key: "map_of (filter (\<lambda>(j, _). j \<noteq> k) xs) i = (if i = k then None else map_of xs i)"
  by (induction xs) auto

definition generator_of :: "nat \<Rightarrow> channel \<Rightarrow> 'd event_bus \<Rightarrow> 'd generator option" where
  "generator_of i ch b = map_of (eb_subscribers b ch) i"

lemma generator_step:
  "generator_of i ch (publish c e b) = map_option (\<lambda>g. if c = ch then g\<lparr>gn_sub := sub_offer e (gn_sub g)\<rparr> else g) (generator_of i ch b)"
  "generator_of i ch (snd (subscribe_next j c b)) = map_option (\<lambda>g. if c = ch \<and> j = i then snd (gen_next g) else g) (generator_of i ch b)"
  "generator_of i ch (unsubscribe j c b) = (if j = i \<and> c = ch then None else generator_of i ch b)"
  "generator_of i ch b = Some g \<Longrightarrow> generator_of i ch (subscribe j c rp b) = Some g"
  "generator_of i ch b = None \<Longrightarrow> generator_of i ch (subscribe i ch rp b)
     = Some \<lparr>gn_sub = new_subscription (eb_subscriber_queue b), gn_replay = (if rp then eb_history b ch else [])\<rparr>"
proof -
  show "generator_of i ch (publish c e b) = map_option (\<lambda>g. if c = ch then g\<lparr>gn_sub := sub_offer e (gn_sub g)\<rparr> else g) (generator_of i ch b)"
    by (auto simp: generator_of_def publish_def map_of_map_key option.map_ident)
  show "generator_of i ch (snd (subscribe_next j c b)) = map_option (\<lambda>g. if c = ch \<and> j = i then snd (gen_next g) else g) (generator_of i ch b)"
    by (cases "map_of (eb_subscribers b c) j"; cases "i = j"; cases "c = ch")
       (auto simp: generator_of_def subscribe_next_def map_of_map_at option.map_ident)
qed (auto simp: generator_of_def unsubscribe_def subscribe_def map_of_filter_key map_add_def split: option.splits)

lemma fits_iff: "sub.fits s \<longleftrightarrow> (sb_maxsize s > 0 \<longrightarrow> int (length (sb_queue s)) \<le> sb_maxsize s)"
  unfolding sub.fits_def by (rule sub_fits)

text \<open>
  What a generator has yielded and still holds, against the history \<open>h\<close> it copied and the
  events \<open>ps\<close> published since.
\<close>

definition tracked :: "'d event list \<Rightarrow> 'd event list \<Rightarrow> 'd event list \<Rightarrow> 'd generator \<Rightarrow> bool" where
  "tracked h ps ds g \<longleftrightarrow>
     subseq (ds @ gn_replay g @ sb_queue (gn_sub g)) (h @ ps)
     \<and> length ds + length (gn_replay g) + length (sb_queue (gn_sub g)) + sb_dropped (gn_sub g) = length h + length ps
     \<and> suffix (sb_queue (gn_sub g)) ps \<and> sub.fits (gn_sub g)"

lemma tracked_offer:
  assumes "tracked h ps ds g"
  shows "tracked h (ps @ [e]) ds (g\<lparr>gn_sub := sub_offer e (gn_sub g)\<rparr>)"
proof -
  define q where "q = sb_queue (gn_sub g)"
  have t: "subseq (ds @ gn_replay g @ q) (h @ ps)" "suffix q ps" "sub.fits (gn_sub g)"
    "length ds + length (gn_replay g) + length q + sb_dropped (gn_sub g) = length h + length ps"
    using assms by (auto simp: tracked_def q_def)
  obtain q' where q': "sb_queue (sub_offer e (gn_sub g)) = q' @ [e]" "suffix q' q" and
    len: "length q' + sb_dropped (sub_offer e (gn_sub g)) = length q + sb_dropped (gn_sub g)"
  proof (cases "sb_maxsize (gn_sub g) > 0 \<and> int (length q) \<ge> sb_maxsize (gn_sub g)")
    case True
    then have "q \<noteq> []" by auto
    then show ?thesis using True by (intro that[of "tl q"]) (auto simp: sub_offer_def q_def Let_def neq_Nil_conv)
  next
    case False
    then show ?thesis by (intro that[of q]) (auto simp: sub_offer_def q_def Let_def)
  qed
  have "subseq (ds @ gn_replay g @ q') (ds @ gn_replay g @ q)"
    using q'(2) by (intro list_emb_append_mono suffix_imp_subseq) auto
  then have "subseq (ds @ gn_replay g @ q') (h @ ps)" using t(1) subseq_order.trans by blast
  then have "subseq ((ds @ gn_replay g @ q') @ [e]) ((h @ ps) @ [e])"
    using list_emb_append_mono[of _ "ds @ gn_replay g @ q'" "h @ ps" "[e]" "[e]"] by simp
  moreover have "suffix (q' @ [e]) (ps @ [e])" using q'(2) t(2) suffix_order.trans by (simp add: suffix_def) (metis append_assoc)
  ultimately show ?thesis using t len q'(1) sub.push_fits[OF t(3)] by (simp add: tracked_def)
qed

lemma tracked_next:
  assumes "tracked h ps ds g"
  shows "tracked h ps (ds @ (case fst (gen_next g) of Some e \<Rightarrow> [e] | None \<Rightarrow> [])) (snd (gen_next g))"
proof (cases "gn_replay g")
  case (Cons e r)
  then show ?thesis using assms by (simp add: tracked_def gen_next_def)
next
  case Nil
  show ?thesis
  proof (cases "sb_queue (gn_sub g)")
    case (Cons e q)
    have "sub.fits ((gn_sub g)\<lparr>sb_queue := q\<rparr>)" using assms Cons by (auto simp: tracked_def fits_iff)
    moreover have "suffix q ps" using assms Cons by (auto simp: tracked_def intro: suffix_ConsD)
    ultimately show ?thesis using assms Nil Cons by (simp add: tracked_def gen_next_def sub_get_def)
  qed (use assms Nil in \<open>simp add: tracked_def gen_next_def sub_get_def fits_iff\<close>)
qed

definition keeps_open :: "nat \<Rightarrow> channel \<Rightarrow> 'd bus_op \<Rightarrow> bool" where
  "keeps_open i ch x \<longleftrightarrow> (case x of Close j c \<Rightarrow> \<not> (j = i \<and> c = ch) | _ \<Rightarrow> True)"

lemma tracked_run:
  assumes "generator_of i ch b = Some g" and "tracked h ps ds g" and "list_all (keeps_open i ch) ops"
  shows "\<exists>g'. generator_of i ch (fold bus_step ops b) = Some g' \<and> tracked h (ps @ published ch ops) (ds @ delivered i ch ops b) g'"
  using assms
proof (induction ops arbitrary: b g ps ds)
  case (Cons x xs)
  have "\<exists>g' ps' ds'. generator_of i ch (bus_step x b) = Some g' \<and> tracked h ps' ds' g'
      \<and> ps' @ published ch xs = ps @ published ch (x # xs)
      \<and> ds' @ delivered i ch xs (bus_step x b) = ds @ delivered i ch (x # xs) b"
  proof (cases x)
    case (Publish c e)
    show ?thesis
    proof (cases "c = ch")
      case True
      then show ?thesis using Publish Cons.prems tracked_offer[OF Cons.prems(2), of e]
        by (intro exI[of _ "g\<lparr>gn_sub := sub_offer e (gn_sub g)\<rparr>"] exI[of _ "ps @ [e]"] exI[of _ ds]) (simp add: generator_step published_def)
    next
      case False
      then show ?thesis using Publish Cons.prems
        by (intro exI[of _ g] exI[of _ ps] exI[of _ ds]) (simp add: generator_step published_def)
    qed
  next
    case (Next j c)
    show ?thesis
    proof (cases "j = i \<and> c = ch")
      case True
      have "fst (subscribe_next i ch b) = fst (gen_next g)" using Cons.prems(1) by (simp add: subscribe_next_def generator_of_def)
      then show ?thesis using True Next Cons.prems(1) tracked_next[OF Cons.prems(2)]
        by (intro exI[of _ "snd (gen_next g)"] exI[of _ ps] exI[of _ "ds @ (case fst (gen_next g) of Some e \<Rightarrow> [e] | None \<Rightarrow> [])"])
           (simp add: generator_step published_def)
    next
      case False
      then show ?thesis using Next Cons.prems
        by (intro exI[of _ g] exI[of _ ps] exI[of _ ds]) (auto simp: generator_step published_def)
    qed
  next
    case (Close j c)
    then show ?thesis using Cons.prems
      by (intro exI[of _ g] exI[of _ ps] exI[of _ ds]) (auto simp: generator_step published_def keeps_open_def)
  qed (use Cons.prems in \<open>intro exI[of _ g] exI[of _ ps] exI[of _ ds], simp add: generator_step published_def\<close>)
  then show ?case using Cons.IH Cons.prems(3) by fastforce
qed (simp add: published_def)

lemma generator_maxsize_step:
  assumes "generator_of i ch b = Some g" and "keeps_open i ch x"
  shows "\<exists>g'. generator_of i ch (bus_step x b) = Some g' \<and> sb_maxsize (gn_sub g') = sb_maxsize (gn_sub g)"
proof -
  have "sb_maxsize (gn_sub (snd (gen_next g))) = sb_maxsize (gn_sub g)"
    by (simp add: gen_next_def sub_get_def split: list.splits)
  then show ?thesis using assms by (cases x) (auto simp: generator_step keeps_open_def)
qed

lemma generator_maxsize:
  assumes "generator_of i ch b = Some g" and "list_all (keeps_open i ch) ops" and "generator_of i ch (fold bus_step ops b) = Some g'"
  shows "sb_maxsize (gn_sub g') = sb_maxsize (gn_sub g)"
  using assms
proof (induction ops arbitrary: b g)
  case (Cons x xs)
  then obtain g1 where "generator_of i ch (bus_step x b) = Some g1" "sb_maxsize (gn_sub g1) = sb_maxsize (gn_sub g)"
    using generator_maxsize_step[OF Cons.prems(1), of x] by auto
  then show ?case using Cons by fastforce
qed simp

lemma history_step:
  "eb_history_size (bus_step x b) = eb_history_size b"
  "eb_history (bus_step x b) ch = fold (deque_append (eb_history_size b)) (published ch [x]) (eb_history b ch)"
  by (cases x; simp add: publish_def subscribe_def subscribe_next_def unsubscribe_def published_def split: option.splits)+

lemma history_run:
  "eb_history_size (fold bus_step ops b) = eb_history_size b
   \<and> eb_history (fold bus_step ops b) ch = fold (deque_append (eb_history_size b)) (published ch ops) (eb_history b ch)"
proof (induction ops arbitrary: b)
  case (Cons x xs)
  have "published ch (x # xs) = published ch [x] @ published ch xs" by (simp add: published_def)
  then show ?case using Cons[of "bus_step x b"] by (simp add: history_step)
qed (simp add: published_def)

lemma deque_fold: "fold (\<lambda>x s. (fst s, deque_append (fst s) x (snd s))) xs (n, q) = (n, fold (deque_append n) xs q)"
  by (induction xs arbitrary: q) auto

lemma history_recent:
  assumes "length (eb_history b ch) \<le> eb_history_size b"
  shows "recent_events ch (fold bus_step ops b) = last_n (Some (eb_history_size b)) (eb_history b ch @ published ch ops)"
  using deque.pushes[of "(eb_history_size b, eb_history b ch)" "published ch ops"] assms
  by (simp add: recent_events_def history_run deque_fold deque.fits_def last_n_fits)

text \<open>
  C31. The live feed over every run of the bus: from the moment a client subscribes, its
  generator yields the copied history and then the events published to the channel, in
  publication order and each at most once, whatever other subscribers do. Events are lost
  only at the old end of a full queue, and every loss is counted: yielded, pending and
  dropped events together are the history plus what was published. With nothing dropped the
  client sees exactly that; a pending queue always holds the newest events and never
  exceeds its bound. The channel's history is the newest events published, up to its size.
\<close>

theorem event_bus_delivery:
  fixes b :: "'d event_bus"
  assumes "generator_of i ch b = None" and "list_all (keeps_open i ch) ops" and "length (eb_history b ch) \<le> eb_history_size b"
    and "b' = fold bus_step ops (subscribe i ch rp b)" and "ds = delivered i ch ops (subscribe i ch rp b)"
    and "seen = (if rp then eb_history b ch else []) @ published ch ops"
  shows "\<exists>g. generator_of i ch b' = Some g \<and>
      (let pending = gn_replay g @ sb_queue (gn_sub g); lost = sb_dropped (gn_sub g)
       in subseq (ds @ pending) seen \<and> length ds + length pending + lost = length seen
          \<and> (lost = 0 \<longrightarrow> ds @ pending = seen)
          \<and> suffix (sb_queue (gn_sub g)) (published ch ops)
          \<and> (eb_subscriber_queue b > 0 \<longrightarrow> int (length (sb_queue (gn_sub g))) \<le> eb_subscriber_queue b))
      \<and> recent_events ch b' = last_n (Some (eb_history_size b)) (eb_history b ch @ published ch ops)"
proof -
  let ?h = "if rp then eb_history b ch else []" and ?b = "subscribe i ch rp b"
  let ?g = "\<lparr>gn_sub = new_subscription (eb_subscriber_queue b), gn_replay = ?h\<rparr> :: 'd generator"
  have "tracked ?h [] [] ?g" by (simp add: tracked_def new_subscription_def fits_iff)
  then obtain g where g: "generator_of i ch b' = Some g" "tracked ?h (published ch ops) ds g"
    using tracked_run[OF generator_step(5)[OF assms(1)] _ assms(2), of ?h "[]" "[]"] assms(4,5) by auto
  have mx: "sb_maxsize (gn_sub g) = eb_subscriber_queue b"
    using generator_maxsize[OF generator_step(5)[OF assms(1), of rp] assms(2)] g(1) assms(4) by (simp add: new_subscription_def)
  have "recent_events ch b' = last_n (Some (eb_history_size b)) (eb_history b ch @ published ch ops)"
    using history_recent[of ?b ch ops] assms(3,4) by (simp add: subscribe_def)
  moreover have "sb_dropped (gn_sub g) = 0 \<longrightarrow> ds @ gn_replay g @ sb_queue (gn_sub g) = seen"
    using g(2) assms(6) subseq_same_length by (fastforce simp: tracked_def)
  ultimately show ?thesis using g assms(6) mx by (auto simp: Let_def tracked_def fits_iff)
qed

definition sample_event :: "nat \<Rightarrow> nat event" where
  "sample_event n = \<lparr>ev_type = REQUEST_START, ev_data = n, ev_ts = 0\<rparr>"

definition sample_bus :: "nat event_bus" where
  "sample_bus = publish FEED_CHANNEL (sample_event 1) (bus_init 2 1)"

definition sample_ops :: "nat bus_op list" where
  "sample_ops = [Publish FEED_CHANNEL (sample_event 2), Publish FEED_CHANNEL (sample_event 3), Next 0 FEED_CHANNEL]"

lemma sample_delivered: "delivered 0 FEED_CHANNEL sample_ops (subscribe 0 FEED_CHANNEL True sample_bus) = [sample_event 1]"
  by code_simp

lemma sample_published: "published FEED_CHANNEL sample_ops = [sample_event 2, sample_event 3]"
  by (simp add: published_def sample_ops_def)

theorem event_bus_delivery_witness:
  "\<exists>g. generator_of 0 FEED_CHANNEL (fold bus_step sample_ops (subscribe 0 FEED_CHANNEL True sample_bus)) = Some g
     \<and> subseq ([sample_event 1] @ gn_replay g @ sb_queue (gn_sub g)) [sample_event 1, sample_event 2, sample_event 3]
     \<and> length (sb_queue (gn_sub g)) \<le> 1"
proof -
  have "generator_of 0 FEED_CHANNEL sample_bus = None" "length (eb_history sample_bus FEED_CHANNEL) \<le> eb_history_size sample_bus"
    "eb_history sample_bus FEED_CHANNEL = [sample_event 1]" "eb_subscriber_queue sample_bus = 1"
    by (simp_all add: sample_bus_def publish_def bus_init_def generator_of_def deque_append_def)
  moreover have "list_all (keeps_open 0 FEED_CHANNEL) sample_ops" by (simp add: sample_ops_def keeps_open_def)
  ultimately show ?thesis
    using event_bus_delivery[of 0 FEED_CHANNEL sample_bus sample_ops _ True _ "[sample_event 1, sample_event 2, sample_event 3]"]
    by (auto simp: Let_def sample_delivered sample_published)
qed

section \<open>The live feed\<close>

datatype feed_value = FNull | FStr string | FInt int | FNum real

type_synonym feed_data = "(string \<times> feed_value) list"

definition opt_str :: "string option \<Rightarrow> feed_value" where
  "opt_str x = (case x of None \<Rightarrow> FNull | Some s \<Rightarrow> FStr s)"

definition opt_ms :: "real option \<Rightarrow> feed_value" where
  "opt_ms x = (case x of None \<Rightarrow> FNull | Some t \<Rightarrow> FNum (round_to 1 t))"

definition feed :: "time \<Rightarrow> event_type \<Rightarrow> feed_data \<Rightarrow> feed_data event_bus \<Rightarrow> feed_data event_bus" where
  "feed now t d b = publish FEED_CHANNEL \<lparr>ev_type = t, ev_data = d, ev_ts = now\<rparr> b"

definition request_start :: "time \<Rightarrow> string \<Rightarrow> string \<Rightarrow> string option \<Rightarrow> string \<Rightarrow> feed_data event_bus \<Rightarrow> feed_data event_bus" where
  "request_start now request_id endpoint_name model key_id =
     feed now REQUEST_START [(''request_id'', FStr request_id), (''endpoint'', FStr endpoint_name), (''model'', opt_str model), (''key_id'', FStr key_id)]"

definition request_progress :: "time \<Rightarrow> string \<Rightarrow> int \<Rightarrow> feed_data event_bus \<Rightarrow> feed_data event_bus" where
  "request_progress now request_id tokens = feed now REQUEST_PROGRESS [(''request_id'', FStr request_id), (''tokens'', FInt tokens)]"

definition request_end ::
  "time \<Rightarrow> string \<Rightarrow> string option \<Rightarrow> int \<Rightarrow> int \<Rightarrow> string \<Rightarrow> real option \<Rightarrow> real option \<Rightarrow> feed_data event_bus \<Rightarrow> feed_data event_bus" where
  "request_end now request_id model prompt_tokens completion_tokens finish ttft_ms total_ms =
     feed now REQUEST_END [(''request_id'', FStr request_id), (''model'', opt_str model), (''prompt_tokens'', FInt prompt_tokens),
       (''completion_tokens'', FInt completion_tokens), (''finish_reason'', FStr finish), (''ttft_ms'', opt_ms ttft_ms), (''total_ms'', opt_ms total_ms)]"

definition request_error :: "time \<Rightarrow> string \<Rightarrow> string \<Rightarrow> string \<Rightarrow> string option \<Rightarrow> feed_data event_bus \<Rightarrow> feed_data event_bus" where
  "request_error now request_id category endpoint_name model =
     feed now REQUEST_ERROR [(''request_id'', FStr request_id), (''category'', FStr category), (''endpoint'', FStr endpoint_name), (''model'', opt_str model)]"

definition request_rejected :: "time \<Rightarrow> string \<Rightarrow> string \<Rightarrow> string \<Rightarrow> int \<Rightarrow> feed_data event_bus \<Rightarrow> feed_data event_bus" where
  "request_rejected now request_id endpoint_name reason retry_after_s =
     feed now REQUEST_REJECTED [(''request_id'', FStr request_id), (''endpoint'', FStr endpoint_name), (''reason'', FStr reason), (''retry_after_s'', FInt retry_after_s)]"

end
