(* ===== verification/Log_Buffer.thy ===== *)
theory Log_Buffer
  imports Event_Bus
begin

text \<open>
  The log collector (\<open>engine/telemetry/logbuffer.py\<close>) and the masking of credentials in log
  messages (\<open>redact_secrets\<close> of \<open>engine/logging_setup.py\<close>): the ring of recent records, the
  trimmed \<open>log_events\<close> table, the readers behind the Logs view and the error taxonomy.

  The regular expression of \<open>redact_secrets\<close> is written out as the scanner it denotes: at a
  position with \<open>?\<close> or \<open>&\<close>, the text up to the next \<open>=\<close> must be one of the names (compared
  without case) and a non-empty value must follow. What can go wrong with the database while a
  row is written is an argument. A formatted traceback is an argument; the value of \<open>level\<close> in a
  query is ASCII.
\<close>

section \<open>Masking credentials\<close>

definition secret_names :: "string list" where
  "secret_names = [''api_key'', ''apikey'', ''token'', ''access_token'', ''key'', ''secret'', ''password'']"

definition value_char :: "char \<Rightarrow> bool" where
  "value_char c \<longleftrightarrow> c \<noteq> CHR ''&'' \<and> \<not> is_space c \<and> c \<noteq> CHR 0x22 \<and> c \<noteq> CHR 0x27"

text \<open>A match at the head of the text: what is kept, the value, and the rest.\<close>

definition secret_match :: "string \<Rightarrow> (string \<times> string \<times> string) option" where
  "secret_match s =
     (case s of [] \<Rightarrow> None
      | c # t \<Rightarrow>
          (let name = takeWhile (\<lambda>x. x \<noteq> CHR ''='') t; after = dropWhile (\<lambda>x. x \<noteq> CHR ''='') t;
               val = takeWhile value_char (tl after); rest = dropWhile value_char (tl after)
           in if (c = CHR ''?'' \<or> c = CHR ''&'') \<and> after \<noteq> [] \<and> lower name \<in> set secret_names \<and> val \<noteq> []
              then Some (c # name @ ''='', val, rest) else None))"

lemma dropWhile_length: "length (dropWhile p xs) \<le> length xs"
  by (induction xs) auto

lemma secret_match_split:
  assumes "secret_match s = Some (p, v, rest)"
  shows "s = p @ v @ rest" and "p \<noteq> []" and "v \<noteq> []"
proof -
  obtain c t where s: "s = c # t" using assms by (cases s) (auto simp: secret_match_def)
  let ?a = "dropWhile (\<lambda>x. x \<noteq> CHR ''='') t"
  have a: "?a \<noteq> []" "p = c # takeWhile (\<lambda>x. x \<noteq> CHR ''='') t @ ''=''" "v = takeWhile value_char (tl ?a)"
    "rest = dropWhile value_char (tl ?a)" "v \<noteq> []"
    using assms by (auto simp: s secret_match_def Let_def split: if_splits)
  then have "?a = CHR ''='' # tl ?a" using hd_dropWhile[of "\<lambda>x. x \<noteq> CHR ''=''" t] by (metis list.collapse)
  then have "t = takeWhile (\<lambda>x. x \<noteq> CHR ''='') t @ CHR ''='' # v @ rest"
    using a by (metis takeWhile_dropWhile_id)
  then show "s = p @ v @ rest" using s a(2) by simp
  show "p \<noteq> []" "v \<noteq> []" using a by auto
qed

lemma secret_match_length: "secret_match s = Some (p, v, rest) \<Longrightarrow> length rest < length s"
  using secret_match_split[of s p v rest] by (cases v) auto

function redact_secrets :: "string \<Rightarrow> string" where
  "redact_secrets [] = []"
| "redact_secrets (c # s) =
     (case secret_match (c # s) of
        Some (p, v, rest) \<Rightarrow> p @ ''***'' @ redact_secrets rest
      | None \<Rightarrow> c # redact_secrets s)"
  by pat_completeness auto
termination
  by (relation "measure length") (auto dest: secret_match_length)

lemma secret_match_Cons:
  "secret_match (c # t) =
     (let after = dropWhile (\<lambda>x. x \<noteq> CHR ''='') t
      in if (c = CHR ''?'' \<or> c = CHR ''&'') \<and> after \<noteq> [] \<and> lower (takeWhile (\<lambda>x. x \<noteq> CHR ''='') t) \<in> set secret_names
            \<and> takeWhile value_char (tl after) \<noteq> []
         then Some (c # takeWhile (\<lambda>x. x \<noteq> CHR ''='') t @ ''='', takeWhile value_char (tl after), dropWhile value_char (tl after))
         else None)"
  by (simp add: secret_match_def Let_def)

lemma redact_head: "redact_secrets s = [] \<longleftrightarrow> s = []" "s \<noteq> [] \<Longrightarrow> hd (redact_secrets s) = hd s"
proof -
  have "\<exists>r. redact_secrets (c # t) = c # r" for c t
    by (auto simp: secret_match_Cons Let_def split: option.splits if_splits)
  then show "redact_secrets s = [] \<longleftrightarrow> s = []" "s \<noteq> [] \<Longrightarrow> hd (redact_secrets s) = hd s"
    by (cases s; metis list.sel(1) list.discI redact_secrets.simps(1))+
qed

lemma redact_value_head: "takeWhile value_char (redact_secrets s) = [] \<longleftrightarrow> takeWhile value_char s = []"
  using redact_head[of s] by (cases s; cases "redact_secrets s") auto

text \<open>Masking later text changes nothing a match further left depends on.\<close>

lemma redact_keeps_names:
  fixes N defines "N \<equiv> \<lambda>x. x \<noteq> CHR ''=''"
  shows "takeWhile N (redact_secrets s) = takeWhile N s
    \<and> (dropWhile N (redact_secrets s) = [] \<longleftrightarrow> dropWhile N s = [])
    \<and> (takeWhile value_char (tl (dropWhile N (redact_secrets s))) = [] \<longleftrightarrow> takeWhile value_char (tl (dropWhile N s)) = [])"
proof (induction s rule: redact_secrets.induct)
  case (2 c s)
  show ?case
  proof (cases "secret_match (c # s)")
    case None
    then have r: "redact_secrets (c # s) = c # redact_secrets s" by simp
    show ?thesis
    proof (cases "N c")
      case True
      then show ?thesis using 2(1)[OF None] r by simp
    next
      case False
      then show ?thesis using r by (simp add: redact_value_head)
    qed
  next
    case (Some m)
    obtain p v rest where m: "m = (p, v, rest)" by (cases m)
    have s: "c # s = p @ v @ rest" "v \<noteq> []" using secret_match_split[of "c # s" p v rest] Some m by auto
    obtain n where p: "p = c # n @ ''=''" "N c" "\<forall>x\<in>set n. N x" "value_char (hd v)"
      using Some m by (auto simp: secret_match_Cons Let_def N_def split: if_splits dest: set_takeWhileD hd_in_set)
    have "takeWhile N (p @ w) = c # n \<and> dropWhile N (p @ w) = CHR ''='' # w" for w
      using p by (auto simp: N_def)
    moreover have "value_char CHR ''*''" by (simp add: value_char_def is_space_def code_def)
    moreover have "takeWhile value_char (v @ rest) \<noteq> []" using s(2) p(4) by (cases v) auto
    moreover have "redact_secrets (c # s) = p @ ''***'' @ redact_secrets rest" using Some m by simp
    ultimately show ?thesis by (simp only: s(1)) simp
  qed
qed simp

lemma takeWhile_dropWhile: "takeWhile P (dropWhile P xs) = []"
  by (induction xs) auto

lemma secret_name_chars:
  assumes "lower n \<in> set secret_names" and "c \<in> set n"
  shows "c \<noteq> CHR ''?'' \<and> c \<noteq> CHR ''&''"
proof -
  have "lower_char c \<in> set (lower n)" using assms(2) by (simp add: lower_def)
  then have "lower_char c \<noteq> CHR ''?'' \<and> lower_char c \<noteq> CHR ''&''"
    using assms(1) by (auto simp: secret_names_def)
  moreover have "lower_char CHR ''?'' = CHR ''?''" "lower_char CHR ''&'' = CHR ''&''"
    by (simp_all add: lower_char_def code_def)
  ultimately show ?thesis by metis
qed

lemma no_match_head: "c \<noteq> CHR ''?'' \<Longrightarrow> c \<noteq> CHR ''&'' \<Longrightarrow> secret_match (c # t) = None"
  by (simp add: secret_match_Cons Let_def)

lemma redact_masks:
  "suffix t (redact_secrets s) \<Longrightarrow> secret_match t = Some (p, v, r) \<Longrightarrow> v = ''***''"
proof (induction s arbitrary: t p v r rule: redact_secrets.induct)
  case 1
  then show ?case by (auto simp: secret_match_def)
next
  case (2 c s)
  show ?case
  proof (cases "secret_match (c # s)")
    case None
    have "secret_match (c # redact_secrets s) = None"
      using None redact_keeps_names[of s] unfolding secret_match_Cons Let_def by (auto split: if_splits)
    moreover have "t = c # redact_secrets s \<or> suffix t (redact_secrets s)"
      using 2(3) None by (simp add: suffix_Cons)
    ultimately show ?thesis using 2(1)[OF None _ 2(4)] 2(4) by auto
  next
    case (Some m)
    obtain q w rest where m: "m = (q, w, rest)" by (cases m)
    define n where "n = takeWhile (\<lambda>x. x \<noteq> CHR ''='') s"
    have q: "q = c # n @ ''=''" "lower n \<in> set secret_names" and rest: "takeWhile value_char rest = []"
      using Some m unfolding n_def by (auto simp: secret_match_Cons Let_def takeWhile_dropWhile split: if_splits)
    have n: "\<forall>x\<in>set n. x \<noteq> CHR ''=''" unfolding n_def by (auto dest: set_takeWhileD)
    let ?k = "n @ ''=***''"
    have t: "suffix t ((c # ?k) @ redact_secrets rest)" using 2(3) Some m q by simp
    have star: "value_char CHR ''*''" by (simp add: value_char_def is_space_def code_def)
    obtain u where "suffix t (redact_secrets rest) \<or> t = u @ redact_secrets rest \<and> suffix u (c # ?k)"
      using t unfolding suffix_append by blast
    then consider "suffix t (redact_secrets rest)" | "t = (c # ?k) @ redact_secrets rest"
      | "t = u @ redact_secrets rest" "suffix u ?k" "u \<noteq> []"
      unfolding suffix_Cons by (metis append_Nil suffix_order.refl)
    then show ?thesis
    proof cases
      case 1
      then show ?thesis using 2(2)[OF Some, of q "(w, rest)" w rest] m 2(4) by simp
    next
      case 2
      have "takeWhile value_char (redact_secrets rest) = []" using rest redact_value_head by simp
      then show ?thesis using \<open>secret_match t = Some (p, v, r)\<close> n star unfolding 2
        by (auto simp: secret_match_Cons Let_def split: if_splits)
    next
      case 3
      then have "hd u \<in> set ?k" using hd_in_set set_mono_suffix by blast
      then have "hd u \<noteq> CHR ''?'' \<and> hd u \<noteq> CHR ''&''" using secret_name_chars[OF q(2)] by auto
      then have "secret_match t = None" using 3 no_match_head by (cases u) auto
      then show ?thesis using 2(4) by simp
    qed
  qed
qed

lemma redact_fixpoint:
  "(\<And>u p v r. suffix u t \<Longrightarrow> secret_match u = Some (p, v, r) \<Longrightarrow> v = ''***'') \<Longrightarrow> redact_secrets t = t"
proof (induction t rule: redact_secrets.induct)
  case (2 c s)
  show ?case
  proof (cases "secret_match (c # s)")
    case None
    have "redact_secrets s = s" by (rule 2(1)[OF None]) (auto intro: 2(3) suffix_ConsI)
    then show ?thesis using None by simp
  next
    case (Some m)
    obtain p v rest where m: "m = (p, v, rest)" by (cases m)
    have s: "c # s = p @ v @ rest" using secret_match_split Some m by metis
    have v: "v = ''***''" using 2(3)[of "c # s"] Some m by auto
    have "redact_secrets rest = rest"
    proof (rule 2(2)[OF Some, of p "(v, rest)" v rest])
      fix u p' v' r' assume "suffix u rest" "secret_match u = Some (p', v', r')"
      then show "v' = ''***''" using 2(3)[of u] s by (metis suffix_append)
    qed (use m in auto)
    moreover have "redact_secrets (c # s) = p @ ''***'' @ redact_secrets rest" using Some m by simp
    ultimately show ?thesis by (simp only: s v)
  qed
qed simp

text \<open>
  A log message leaves no credential in a URL query: at every place of the redacted text where
  one of the credential parameters starts (in any case of letters), its value is exactly
  \<open>***\<close>. Redacting again changes nothing, and text with no such parameter is unchanged.
\<close>

theorem redact_secrets_masks:
  "(suffix t (redact_secrets s) \<and> secret_match t = Some (p, v, r) \<longrightarrow> v = ''***'')
   \<and> redact_secrets (redact_secrets s) = redact_secrets s
   \<and> ((\<forall>u. suffix u s \<longrightarrow> secret_match u = None) \<longrightarrow> redact_secrets s = s)"
  using redact_masks redact_fixpoint by (metis option.distinct(1))

theorem redact_secrets_masks_witness:
  "redact_secrets ''GET /ws?Token=abc HTTP'' = ''GET /ws?Token=*** HTTP''
   \<and> secret_match ''?Token=*** HTTP'' = Some (''?Token='', ''***'', '' HTTP'') \<and> suffix ''?Token=*** HTTP'' ''GET /ws?Token=*** HTTP''
   \<and> redact_secrets ''GET /ws?Token=*** HTTP'' = ''GET /ws?Token=*** HTTP''"
proof -
  have a: "redact_secrets ''GET /ws?Token=abc HTTP'' = ''GET /ws?Token=*** HTTP''" by code_simp
  have b: "secret_match ''?Token=*** HTTP'' = Some (''?Token='', ''***'', '' HTTP'')" by code_simp
  have c: "suffix ''?Token=*** HTTP'' ''GET /ws?Token=*** HTTP''" by (simp add: suffix_def)
  show ?thesis using redact_secrets_masks[of "''?Token=*** HTTP''" "''GET /ws?Token=abc HTTP''" "''?Token=''" "''***''" "'' HTTP''"] a b c by simp
qed

section \<open>The collector\<close>

definition structured_fields :: "string list" where
  "structured_fields = [''request_id'', ''route'', ''model'', ''key_id'', ''category'', ''stage'', ''detail'']"

record log_record =
  lr_created :: time
  lr_levelname :: string
  lr_levelno :: int
  lr_name :: string
  lr_message :: string
  lr_extra :: "string \<Rightarrow> string option"
  lr_traceback :: "string option"

record log_payload =
  lp_ts :: time
  lp_level :: string
  lp_logger :: string
  lp_event :: string
  lp_fields :: "(string \<times> string) list"
  lp_stacktrace :: "string option"

record log_row =
  lw_id :: nat
  lw_payload :: log_payload

record collector =
  lc_db_path :: bool
  lc_ring_size :: nat
  lc_ring :: "log_payload list"
  lc_db_level :: int
  lc_max_rows :: int
  lc_since_trim :: nat
  lc_persist :: bool

definition WARNING :: int where "WARNING = 30"

definition collector_init :: "bool \<Rightarrow> nat \<Rightarrow> int \<Rightarrow> int \<Rightarrow> collector" where
  "collector_init db_path ring_size db_level max_rows =
     \<lparr>lc_db_path = db_path, lc_ring_size = ring_size, lc_ring = [], lc_db_level = db_level, lc_max_rows = max_rows,
      lc_since_trim = 0, lc_persist = True\<rparr>"

definition record_dict :: "log_record \<Rightarrow> log_payload" where
  "record_dict r =
     \<lparr>lp_ts = lr_created r, lp_level = lr_levelname r, lp_logger = lr_name r, lp_event = redact_secrets (lr_message r),
      lp_fields = List.map_filter (\<lambda>f. map_option (Pair f) (lr_extra r f)) structured_fields,
      lp_stacktrace = lr_traceback r\<rparr>"

datatype row_fault = NoFault | ConnectFails | InsertFails | TrimFails

text \<open>
  The table with its AUTOINCREMENT counter. A row and the trim are one transaction: a failing
  trim undoes the insert, but the counter of rows since the last trim has been reset.
\<close>

type_synonym log_table = "nat \<times> log_row list"

definition trim_rows :: "int \<Rightarrow> log_row list \<Rightarrow> log_row list" where
  "trim_rows max_rows t = (let keep = map lw_id (sql_limit max_rows (order_by_desc lw_id t)) in del_where (\<lambda>r. lw_id r \<notin> set keep) t)"

definition write_row :: "row_fault \<Rightarrow> log_payload \<Rightarrow> collector \<times> log_table \<Rightarrow> collector \<times> log_table" where
  "write_row fault p ct =
     (case ct of (c, n, t) \<Rightarrow>
        if fault = ConnectFails \<or> fault = InsertFails then (c, n, t)
        else let t' = t @ [\<lparr>lw_id = Suc n, lw_payload = p\<rparr>]; k = lc_since_trim c + 1
             in if k \<ge> 50
                then (if fault = TrimFails then (c\<lparr>lc_since_trim := 0\<rparr>, n, t)
                      else (c\<lparr>lc_since_trim := 0\<rparr>, Suc n, trim_rows (lc_max_rows c) t'))
                else (c\<lparr>lc_since_trim := k\<rparr>, Suc n, t'))"

definition log_emit :: "row_fault \<Rightarrow> log_record \<Rightarrow> collector \<times> log_table \<Rightarrow> collector \<times> log_table" where
  "log_emit fault r ct =
     (case ct of (c, t) \<Rightarrow>
        let p = record_dict r; c' = c\<lparr>lc_ring := deque_append (lc_ring_size c) p (lc_ring c)\<rparr>
        in if lc_persist c \<and> lr_levelno r \<ge> lc_db_level c \<and> lc_db_path c then write_row fault p (c', t) else (c', t))"

text \<open>\<open>items[-limit:]\<close>: with \<open>limit = 0\<close> this is the whole list.\<close>

definition recent_logs :: "int option \<Rightarrow> collector \<Rightarrow> log_payload list" where
  "recent_logs limit c =
     (case limit of
        Some n \<Rightarrow> if n \<ge> 0 then (if n = 0 then lc_ring c else drop (length (lc_ring c) - nat n) (lc_ring c)) else lc_ring c
      | None \<Rightarrow> lc_ring c)"

section \<open>Readers\<close>

definition ascii_upper :: "string \<Rightarrow> string" where
  "ascii_upper s = map (\<lambda>c. if 97 \<le> code c \<and> code c \<le> 122 then char_of (code c - 32) else c) s"

definition truthy_str :: "string option \<Rightarrow> string option" where
  "truthy_str x = (case x of Some s \<Rightarrow> if s = [] then None else Some s | None \<Rightarrow> None)"

definition read_log_events :: "int \<Rightarrow> string option \<Rightarrow> string option \<Rightarrow> log_row list \<Rightarrow> log_payload list" where
  "read_log_events limit level request_id t =
     map lw_payload (sql_limit (max 1 limit) (order_by_desc lw_id
       (filter (\<lambda>r. (case truthy_str level of None \<Rightarrow> True | Some l \<Rightarrow> lp_level (lw_payload r) = ascii_upper l)
                  \<and> (case truthy_str request_id of None \<Rightarrow> True | Some q \<Rightarrow> map_of (lp_fields (lw_payload r)) ''request_id'' = Some q)) t)))"

definition category_of :: "log_row \<Rightarrow> string option" where
  "category_of r = map_of (lp_fields (lw_payload r)) ''category''"

text \<open>\<open>GROUP BY category ORDER BY n DESC\<close>: groups come out in category order before the sort.\<close>

definition read_error_taxonomy :: "time \<Rightarrow> log_row list \<Rightarrow> (string \<times> nat) list" where
  "read_error_taxonomy since t =
     (let cats = List.map_filter category_of (filter (\<lambda>r. lp_ts (lw_payload r) \<ge> since) t)
      in order_by_desc snd (map (\<lambda>c. (c, length (filter (\<lambda>x. x = c) cats))) (sort (remdups cats))))"

section \<open>Bounds\<close>

lemma order_by_desc_strict:
  assumes "sorted_wrt (<) (map k t)"
  shows "order_by_desc k t = rev t"
proof -
  let ?u = "sort_key k (rev t)"
  have d: "distinct (map k t)" "sorted (map k t)" using assms strict_sorted_iff by auto
  have inj: "inj_on k (set t)" using d(1) distinct_map by blast
  have "distinct t" using d(1) distinct_map by blast
  then have "distinct ?u" by simp
  then have "distinct (map k ?u)" using inj by (simp add: distinct_map)
  then have "map k ?u = map k t" using d by (intro sorted_distinct_set_unique) auto
  then have "?u = t" using inj by (auto intro: map_inj_on)
  then show ?thesis by (simp add: order_by_desc_def)
qed

lemma trim_rows_newest:
  assumes "sorted_wrt (<) (map lw_id t)" and "0 \<le> m"
  shows "trim_rows m t = last_n (Some (nat m)) t"
proof -
  define k where "k = length t - nat m"
  have keep: "map lw_id (sql_limit m (order_by_desc lw_id t)) = map lw_id (rev (drop k t))"
    using assms(2) by (simp add: order_by_desc_strict[OF assms(1)] sql_limit_def k_def take_rev)
  have "distinct (map lw_id t)" using assms(1) strict_sorted_iff by blast
  then have d: "distinct (map lw_id (take k t @ drop k t))" by simp
  then have "lw_id ` set (take k t) \<inter> lw_id ` set (drop k t) = {}" by (simp only: map_append distinct_append set_map)
  then have "filter (\<lambda>r. lw_id r \<in> lw_id ` set (drop k t)) (take k t) = []" by (auto simp: filter_empty_conv)
  moreover have "filter (\<lambda>r. lw_id r \<in> lw_id ` set (drop k t)) (drop k t) = drop k t" by (simp add: filter_id_conv)
  ultimately have "filter (\<lambda>r. lw_id r \<in> lw_id ` set (drop k t)) t = drop k t"
    by (metis append_take_drop_id filter_append append_Nil)
  then show ?thesis using keep by (simp add: trim_rows_def Let_def del_where_def last_n_def k_def)
qed

definition rows_ok :: "log_table \<Rightarrow> bool" where
  "rows_ok nt \<longleftrightarrow> sorted_wrt (<) (map lw_id (snd nt)) \<and> (\<forall>r\<in>set (snd nt). lw_id r \<le> fst nt)"

text \<open>The size of the table in terms of the rows since the last trim; \<open>B\<close> is what the process found.\<close>

definition rows_bounded :: "nat \<Rightarrow> collector \<Rightarrow> log_table \<Rightarrow> bool" where
  "rows_bounded B c nt \<longleftrightarrow> length (snd nt) \<le> max B (nat (lc_max_rows c)) + lc_since_trim c \<and> lc_since_trim c < 50"

lemma rows_ok_insert:
  assumes "rows_ok (n, t)"
  shows "rows_ok (Suc n, t @ [\<lparr>lw_id = Suc n, lw_payload = p\<rparr>])"
  using assms by (auto simp: rows_ok_def sorted_wrt_append le_imp_less_Suc)

lemma rows_ok_suffix: "rows_ok (n, t) \<Longrightarrow> suffix u t \<Longrightarrow> rows_ok (n, u)"
  by (auto simp: rows_ok_def suffix_def sorted_wrt_append)

lemma last_n_suffix: "suffix (last_n c xs) xs"
  by (auto simp: last_n_def suffix_drop split: option.splits)

text \<open>The record of a log call that reaches the table.\<close>

definition stored :: "collector \<Rightarrow> row_fault \<times> log_record \<Rightarrow> log_payload list" where
  "stored c e = (if lc_persist c \<and> lr_levelno (snd e) \<ge> lc_db_level c \<and> lc_db_path c \<and> fst e = NoFault then [record_dict (snd e)] else [])"

text \<open>\<open>u\<close> is the newest part of \<open>t\<close> extended by the payloads \<open>ps\<close>, with at least \<open>m\<close> rows kept.\<close>

definition newest_of :: "nat \<Rightarrow> log_row list \<Rightarrow> log_payload list \<Rightarrow> log_row list \<Rightarrow> bool" where
  "newest_of m t ps u \<longleftrightarrow> (\<exists>new. map lw_payload new = ps \<and> suffix u (t @ new) \<and> min m (length (t @ new)) \<le> length u)"

lemma newest_of_refl: "newest_of m t [] t"
  by (auto simp: newest_of_def)

lemma newest_of_trans:
  assumes "newest_of m t ps u" and "newest_of m u qs v"
  shows "newest_of m t (ps @ qs) v"
proof -
  obtain a b where ab: "map lw_payload a = ps" "suffix u (t @ a)" "min m (length (t @ a)) \<le> length u"
    "map lw_payload b = qs" "suffix v (u @ b)" "min m (length (u @ b)) \<le> length v"
    using assms by (auto simp: newest_of_def)
  have "suffix v (t @ a @ b)" using ab by (metis append_assoc same_suffix_suffix suffix_order.trans)
  moreover have "min m (length (t @ a @ b)) \<le> length v" using ab by auto
  ultimately show ?thesis using ab unfolding newest_of_def by (intro exI[of _ "a @ b"]) simp
qed

definition same_config :: "collector \<Rightarrow> collector \<Rightarrow> bool" where
  "same_config c d \<longleftrightarrow> lc_max_rows d = lc_max_rows c \<and> lc_ring_size d = lc_ring_size c \<and> lc_persist d = lc_persist c
     \<and> lc_db_level d = lc_db_level c \<and> lc_db_path d = lc_db_path c"

lemma log_emit_step:
  assumes "rows_ok (n, t)" and "rows_bounded B c (n, t)" and "0 \<le> lc_max_rows c" and "fault \<noteq> TrimFails"
    and "log_emit fault r (c, n, t) = (c', n', t')"
  shows "rows_ok (n', t') \<and> rows_bounded B c' (n', t') \<and> same_config c c'
    \<and> lc_ring c' = deque_append (lc_ring_size c) (record_dict r) (lc_ring c)
    \<and> newest_of (nat (lc_max_rows c)) t (stored c (fault, r)) t'"
proof -
  let ?w = "\<lparr>lw_id = Suc n, lw_payload = record_dict r\<rparr>"
  let ?c = "c\<lparr>lc_ring := deque_append (lc_ring_size c) (record_dict r) (lc_ring c)\<rparr>"
  have ok: "rows_ok (Suc n, t @ [?w])" using rows_ok_insert[OF assms(1)] by simp
  then have tr: "trim_rows (lc_max_rows c) (t @ [?w]) = last_n (Some (nat (lc_max_rows c))) (t @ [?w])"
    using trim_rows_newest assms(3) by (simp add: rows_ok_def)
  consider (skip) "c' = ?c" "n' = n" "t' = t" "stored c (fault, r) = []"
    | (plain) "c' = ?c\<lparr>lc_since_trim := lc_since_trim c + 1\<rparr>" "n' = Suc n" "t' = t @ [?w]" "lc_since_trim c + 1 < 50" "stored c (fault, r) = [record_dict r]"
    | (trim) "c' = ?c\<lparr>lc_since_trim := 0\<rparr>" "n' = Suc n" "t' = last_n (Some (nat (lc_max_rows c))) (t @ [?w])" "stored c (fault, r) = [record_dict r]"
    using assms(4,5) tr by (cases fault) (auto simp: log_emit_def write_row_def stored_def Let_def split: if_splits)
  then show ?thesis
  proof cases
    case skip
    then show ?thesis using assms(1,2) newest_of_refl by (simp add: rows_bounded_def same_config_def)
  next
    case plain
    then show ?thesis using ok assms(2) by (auto simp: rows_bounded_def same_config_def newest_of_def intro!: exI[of _ "[?w]"])
  next
    case trim
    have l: "length t' = min (nat (lc_max_rows c)) (length (t @ [?w]))" using trim(3) by (simp add: last_n_def)
    have s: "suffix t' (t @ [?w])" using trim(3) last_n_suffix by metis
    show ?thesis using trim(1,2,4) l s rows_ok_suffix[OF ok s]
      by (auto simp: rows_bounded_def same_config_def newest_of_def intro!: exI[of _ "[?w]"])
  qed
qed

definition emits :: "(row_fault \<times> log_record) list \<Rightarrow> collector \<times> log_table \<Rightarrow> collector \<times> log_table" where
  "emits es ct = fold (\<lambda>(f, r). log_emit f r) es ct"

lemma emits_run:
  assumes "rows_ok (n, t)" "rows_bounded B c (n, t)" "0 \<le> lc_max_rows c" "TrimFails \<notin> fst ` set es" "emits es (c, n, t) = (c', n', t')"
  shows "rows_ok (n', t') \<and> rows_bounded B c' (n', t') \<and> same_config c c'
     \<and> lc_ring c' = fold (deque_append (lc_ring_size c)) (map (record_dict \<circ> snd) es) (lc_ring c)
     \<and> newest_of (nat (lc_max_rows c)) t (concat (map (stored c) es)) t'"
  using assms
proof (induction es arbitrary: c n t)
  case Nil
  then show ?case by (simp add: emits_def newest_of_refl same_config_def)
next
  case (Cons e es)
  obtain f r where e: "e = (f, r)" by force
  obtain c1 n1 t1 where s: "log_emit f r (c, n, t) = (c1, n1, t1)" by (metis prod_cases3)
  have f: "f \<noteq> TrimFails" using Cons.prems(4) e by auto
  note st = log_emit_step[OF Cons.prems(1-3) f s]
  have "emits es (c1, n1, t1) = (c', n', t')" using Cons.prems(5) s e by (simp add: emits_def)
  then have ih: "rows_ok (n', t') \<and> rows_bounded B c' (n', t') \<and> same_config c1 c'
     \<and> lc_ring c' = fold (deque_append (lc_ring_size c1)) (map (record_dict \<circ> snd) es) (lc_ring c1)
     \<and> newest_of (nat (lc_max_rows c1)) t1 (concat (map (stored c1) es)) t'"
    using Cons.IH[of n1 t1 c1] st Cons.prems(3,4) by (simp add: same_config_def comp_def)
  have "stored c1 = stored c" using st by (auto simp: stored_def same_config_def)
  then have "newest_of (nat (lc_max_rows c)) t (stored c e @ concat (map (stored c) es)) t'"
    using ih st e newest_of_trans[of "nat (lc_max_rows c)" t "stored c e" t1 "concat (map (stored c) es)" t']
    by (simp add: same_config_def)
  then show ?case using ih st e by (simp add: same_config_def comp_def)
qed

text \<open>
  The log mirror is bounded and keeps the newest records. After any sequence of log calls
  (with database outages, as long as no trim itself fails), the ring holds exactly the last
  \<open>ring_size\<close> records, and the table is the newest part of what was stored: a row is removed
  only while at least \<open>max_rows\<close> newer ones stay, and the table never holds more than 49 rows
  above the cap (or above what the process found at its start).
\<close>

theorem log_mirror_bounded:
  assumes "rows_ok (n, t)" and "lc_since_trim c = 0" and "0 \<le> lc_max_rows c" and "length (lc_ring c) \<le> lc_ring_size c"
    and "TrimFails \<notin> fst ` set es" and "emits es (c, n, t) = (c', n', t')"
  shows "lc_ring c' = last_n (Some (lc_ring_size c)) (lc_ring c @ map (record_dict \<circ> snd) es)
    \<and> length t' \<le> max (length t) (nat (lc_max_rows c)) + 49
    \<and> newest_of (nat (lc_max_rows c)) t (concat (map (stored c) es)) t'"
proof -
  have "rows_bounded (length t) c (n, t)" using assms(2) by (simp add: rows_bounded_def)
  note r = emits_run[OF assms(1) this assms(3,5,6)]
  have "lc_ring c' = last_n (Some (lc_ring_size c)) (lc_ring c @ map (record_dict \<circ> snd) es)"
    using r deque.pushes[of "(lc_ring_size c, lc_ring c)" "map (record_dict \<circ> snd) es"] assms(4)
    by (simp add: deque_fold deque.fits_def last_n_fits comp_def)
  then show ?thesis using r by (auto simp: rows_bounded_def same_config_def)
qed

definition sample_log :: "string \<Rightarrow> log_record" where
  "sample_log m = \<lparr>lr_created = 0, lr_levelname = ''ERROR'', lr_levelno = 40, lr_name = ''engine'', lr_message = m,
     lr_extra = (\<lambda>_. None), lr_traceback = None\<rparr>"

theorem log_mirror_bounded_witness:
  "lc_ring (fst (emits [(NoFault, sample_log ''a''), (ConnectFails, sample_log ''b'')] (collector_init True 1 WARNING 5, 0, []))) = [record_dict (sample_log ''b'')]
   \<and> newest_of 5 [] [record_dict (sample_log ''a'')] (snd (snd (emits [(NoFault, sample_log ''a''), (ConnectFails, sample_log ''b'')] (collector_init True 1 WARNING 5, 0, []))))"
proof -
  let ?es = "[(NoFault, sample_log ''a''), (ConnectFails, sample_log ''b'')]" and ?c = "collector_init True 1 WARNING 5"
  obtain c' n' t' where e: "emits ?es (?c, 0, []) = (c', n', t')" by (metis prod_cases3)
  have "rows_ok (0, [])" by (simp add: rows_ok_def)
  from log_mirror_bounded[OF this, of ?c ?es c' n' t'] e show ?thesis
    by (simp add: collector_init_def last_n_def stored_def sample_log_def WARNING_def)
qed

end
