(* ===== verification/Route_Metrics.thy ===== *)
theory Route_Metrics
  imports PyString
begin

text \<open>
  The measuring parts of the telemetry package: per-route cost and performance
  (\<open>engine/telemetry/route_metrics.py\<close>), the engine-wide counters
  (\<open>engine/telemetry/counters.py\<close>), the error taxonomy (\<open>engine/telemetry/taxonomy.py\<close>) and the
  operator alerts (\<open>engine/telemetry/alerts.py\<close>).

  The accumulators add one sample at a time; the lemmas relate them to the statistics of the
  list of samples seen so far.
\<close>

section \<open>Dicts of running totals\<close>

text \<open>\<open>d.setdefault(k, v0)\<close> followed by an update of the value, in insertion order.\<close>

fun dict_update :: "'k \<Rightarrow> 'v \<Rightarrow> ('v \<Rightarrow> 'v) \<Rightarrow> ('k \<times> 'v) list \<Rightarrow> ('k \<times> 'v) list" where
  "dict_update k v0 f [] = [(k, f v0)]"
| "dict_update k v0 f ((k', v) # d) = (if k' = k then (k', f v) # d else (k', v) # dict_update k v0 f d)"

definition bump :: "'k \<Rightarrow> ('k \<times> nat) list \<Rightarrow> ('k \<times> nat) list" where
  "bump k d = dict_update k 0 Suc d"

definition bump_opt :: "'k option \<Rightarrow> ('k \<times> nat) list \<Rightarrow> ('k \<times> nat) list" where
  "bump_opt k d = (case k of None \<Rightarrow> d | Some x \<Rightarrow> bump x d)"

lemma map_of_dict_update:
  "map_of (dict_update k v0 f d) k' = (if k' = k then Some (f (case map_of d k of None \<Rightarrow> v0 | Some v \<Rightarrow> v)) else map_of d k')"
  by (induction k v0 f d rule: dict_update.induct) auto

lemma dict_update_keys: "set (map fst (dict_update k v0 f d)) = insert k (set (map fst d))"
  by (induction k v0 f d rule: dict_update.induct) auto

lemma dict_update_distinct: "distinct (map fst d) \<Longrightarrow> distinct (map fst (dict_update k v0 f d))"
proof (induction k v0 f d rule: dict_update.induct)
  case (2 k v0 f k' v d)
  then show ?case using dict_update_keys[of k v0 f d] by auto
qed simp

text \<open>A dict filled by one update per element: each key holds the fold over its own elements.\<close>

lemma fold_dict_update:
  fixes key :: "'x \<Rightarrow> 'k" and f :: "'x \<Rightarrow> 'v \<Rightarrow> 'v"
  shows "map_of (fold (\<lambda>x. dict_update (key x) v0 (f x)) xs []) k =
    (let ys = filter (\<lambda>x. key x = k) xs in if ys = [] then None else Some (fold f ys v0))"
proof (induction xs rule: rev_induct)
  case (snoc x xs)
  then show ?case by (cases "filter (\<lambda>x. key x = k) xs = []") (auto simp: map_of_dict_update Let_def)
qed simp

lemma fold_dict_distinct: "distinct (map fst (fold (\<lambda>x. dict_update (key x) v0 (f x)) xs []))"
  by (induction xs rule: rev_induct) (simp_all add: dict_update_distinct)

text \<open>The sum of a measure over the values of such a dict is the sum over the elements.\<close>

lemma dict_update_sum:
  fixes w :: "'v \<Rightarrow> 'a::comm_monoid_add"
  assumes "\<And>v. w (f v) = w v + c" and "w v0 = 0"
  shows "sum_list (map (\<lambda>e. w (snd e)) (dict_update k v0 f d)) = sum_list (map (\<lambda>e. w (snd e)) d) + c"
  using assms by (induction k v0 f d rule: dict_update.induct) (auto simp: ac_simps)

lemma fold_dict_sum:
  fixes w :: "'v \<Rightarrow> 'a::comm_monoid_add"
  assumes "\<And>x v. w (f x v) = w v + c x" and "w v0 = 0"
  shows "sum_list (map (\<lambda>e. w (snd e)) (fold (\<lambda>x. dict_update (key x) v0 (f x)) xs [])) = sum_list (map c xs)"
proof (induction xs rule: rev_induct)
  case (snoc x xs)
  then show ?case by (simp add: dict_update_sum[of w "f x" "c x" v0, OF assms(1) assms(2)])
qed simp

section \<open>Route statistics\<close>

definition output_tps_sample :: "int \<Rightarrow> real option \<Rightarrow> bool \<Rightarrow> bool \<Rightarrow> real option" where
  "output_tps_sample completion_tokens total_ms error cancelled =
     (case total_ms of
        None \<Rightarrow> None
      | Some t \<Rightarrow> if error \<or> cancelled \<or> completion_tokens \<le> 0 \<or> t \<le> 0 then None else Some (of_int completion_tokens / (t / 1000)))"

record route_sample =
  rs_model :: string
  rs_backend :: string
  rs_prompt_tokens :: int
  rs_completion_tokens :: int
  rs_cost :: real
  rs_total_ms :: "real option"
  rs_ttft_ms :: "real option"
  rs_error :: bool
  rs_cancelled :: bool
  rs_reason :: "string option"
  rs_fallbacks :: "string list"
  rs_policy :: "string option"
  rs_tier :: "string option"
  rs_queue_wait_ms :: "real option"
  rs_upstream_attempts :: int
  rs_workload_rule :: "string option"

record route_stat =
  st_requests :: nat
  st_errors :: nat
  st_cancelled :: nat
  st_prompt_tokens :: int
  st_completion_tokens :: int
  st_cost :: real
  st_upstream_attempts :: int
  st_tier :: "string option"
  st_total_ms_sum :: real
  st_total_ms_n :: nat
  st_ttft_ms_sum :: real
  st_ttft_ms_n :: nat
  st_queue_ms_sum :: real
  st_queue_ms_n :: nat
  st_output_tps_sum :: real
  st_output_tps_n :: nat
  st_reasons :: "(string \<times> nat) list"
  st_fallbacks :: "(string \<times> nat) list"
  st_policies :: "(string \<times> nat) list"
  st_workload_rules :: "(string \<times> nat) list"

definition new_stat :: route_stat where
  "new_stat = \<lparr>st_requests = 0, st_errors = 0, st_cancelled = 0, st_prompt_tokens = 0, st_completion_tokens = 0, st_cost = 0,
     st_upstream_attempts = 0, st_tier = None, st_total_ms_sum = 0, st_total_ms_n = 0, st_ttft_ms_sum = 0, st_ttft_ms_n = 0,
     st_queue_ms_sum = 0, st_queue_ms_n = 0, st_output_tps_sum = 0, st_output_tps_n = 0, st_reasons = [], st_fallbacks = [],
     st_policies = [], st_workload_rules = []\<rparr>"

definition ratio :: "real \<Rightarrow> nat \<Rightarrow> real option" where
  "ratio x n = (if n = 0 then None else Some (x / of_nat n))"

definition success_rate :: "route_stat \<Rightarrow> real option" where
  "success_rate s = ratio (of_int (int (st_requests s) - int (st_errors s))) (st_requests s)"

definition avg_total_ms :: "route_stat \<Rightarrow> real option" where
  "avg_total_ms s = ratio (st_total_ms_sum s) (st_total_ms_n s)"

definition avg_ttft_ms :: "route_stat \<Rightarrow> real option" where
  "avg_ttft_ms s = ratio (st_ttft_ms_sum s) (st_ttft_ms_n s)"

definition avg_queue_wait_ms :: "route_stat \<Rightarrow> real option" where
  "avg_queue_wait_ms s = ratio (st_queue_ms_sum s) (st_queue_ms_n s)"

definition avg_output_tps :: "route_stat \<Rightarrow> real option" where
  "avg_output_tps s = ratio (st_output_tps_sum s) (st_output_tps_n s)"

definition tps_of :: "route_sample \<Rightarrow> real option" where
  "tps_of x = output_tps_sample (rs_completion_tokens x) (rs_total_ms x) (rs_error x) (rs_cancelled x)"

text \<open>Latency counts only for a request that was neither an error nor cancelled.\<close>

definition clean :: "route_sample \<Rightarrow> bool" where
  "clean x \<longleftrightarrow> \<not> rs_error x \<and> \<not> rs_cancelled x"

definition add_opt :: "real option \<Rightarrow> real \<Rightarrow> real" where
  "add_opt v s = (case v of None \<Rightarrow> s | Some x \<Rightarrow> s + x)"

definition inc_opt :: "real option \<Rightarrow> nat \<Rightarrow> nat" where
  "inc_opt v n = (case v of None \<Rightarrow> n | Some _ \<Rightarrow> Suc n)"

definition add_sample :: "route_sample \<Rightarrow> route_stat \<Rightarrow> route_stat" where
  "add_sample x s =
     \<lparr>st_requests = st_requests s + 1,
      st_errors = (if rs_error x then st_errors s + 1 else st_errors s),
      st_cancelled = (if rs_cancelled x then st_cancelled s + 1 else st_cancelled s),
      st_prompt_tokens = st_prompt_tokens s + rs_prompt_tokens x,
      st_completion_tokens = st_completion_tokens s + rs_completion_tokens x,
      st_cost = st_cost s + rs_cost x,
      st_upstream_attempts = st_upstream_attempts s + rs_upstream_attempts x,
      st_tier = (case rs_tier x of None \<Rightarrow> st_tier s | Some t \<Rightarrow> Some t),
      st_total_ms_sum = (if clean x then add_opt (rs_total_ms x) (st_total_ms_sum s) else st_total_ms_sum s),
      st_total_ms_n = (if clean x then inc_opt (rs_total_ms x) (st_total_ms_n s) else st_total_ms_n s),
      st_ttft_ms_sum = (if clean x then add_opt (rs_ttft_ms x) (st_ttft_ms_sum s) else st_ttft_ms_sum s),
      st_ttft_ms_n = (if clean x then inc_opt (rs_ttft_ms x) (st_ttft_ms_n s) else st_ttft_ms_n s),
      st_queue_ms_sum = add_opt (rs_queue_wait_ms x) (st_queue_ms_sum s),
      st_queue_ms_n = inc_opt (rs_queue_wait_ms x) (st_queue_ms_n s),
      st_output_tps_sum = add_opt (tps_of x) (st_output_tps_sum s),
      st_output_tps_n = inc_opt (tps_of x) (st_output_tps_n s),
      st_reasons = bump_opt (rs_reason x) (st_reasons s),
      st_fallbacks = fold bump (rs_fallbacks x) (st_fallbacks s),
      st_policies = bump_opt (rs_policy x) (st_policies s),
      st_workload_rules = bump_opt (rs_workload_rule x) (st_workload_rules s)\<rparr>"

record route_metrics =
  rm_routes :: "((string \<times> string) \<times> route_stat) list"
  rm_sheds :: "(string \<times> nat) list"

definition metrics_init :: route_metrics where
  "metrics_init = \<lparr>rm_routes = [], rm_sheds = []\<rparr>"

definition record_route :: "route_sample \<Rightarrow> route_metrics \<Rightarrow> route_metrics" where
  "record_route x m = m\<lparr>rm_routes := dict_update (rs_model x, rs_backend x) new_stat (add_sample x) (rm_routes m)\<rparr>"

definition record_shed :: "string \<Rightarrow> route_metrics \<Rightarrow> route_metrics" where
  "record_shed model m = m\<lparr>rm_sheds := bump model (rm_sheds m)\<rparr>"

record route_row =
  rr_model :: string
  rr_backend :: string
  rr_stat :: route_stat
  rr_cost :: real
  rr_success_rate :: "real option"
  rr_avg_total_ms :: "real option"
  rr_avg_ttft_ms :: "real option"
  rr_avg_queue_wait_ms :: "real option"
  rr_avg_output_tps :: "real option"
  rr_reasons :: "(string \<times> nat) list"
  rr_fallbacks :: "(string \<times> nat) list"
  rr_policies :: "(string \<times> nat) list"
  rr_workload_rules :: "(string \<times> nat) list"

definition sorted_items :: "(string \<times> nat) list \<Rightarrow> (string \<times> nat) list" where
  "sorted_items d = sort_key fst d"

definition as_dict :: "string \<times> string \<Rightarrow> route_stat \<Rightarrow> route_row" where
  "as_dict k s =
     \<lparr>rr_model = fst k, rr_backend = snd k, rr_stat = s, rr_cost = round_to 6 (st_cost s), rr_success_rate = success_rate s,
      rr_avg_total_ms = avg_total_ms s, rr_avg_ttft_ms = avg_ttft_ms s, rr_avg_queue_wait_ms = avg_queue_wait_ms s,
      rr_avg_output_tps = avg_output_tps s, rr_reasons = sorted_items (st_reasons s), rr_fallbacks = sorted_items (st_fallbacks s),
      rr_policies = sorted_items (st_policies s), rr_workload_rules = sorted_items (st_workload_rules s)\<rparr>"

record route_totals =
  to_requests :: nat
  to_errors :: nat
  to_cancelled :: nat
  to_cost :: real
  to_sheds :: nat

definition totals :: "route_metrics \<Rightarrow> route_totals" where
  "totals m =
     \<lparr>to_requests = sum_list (map (\<lambda>e. st_requests (snd e)) (rm_routes m)),
      to_errors = sum_list (map (\<lambda>e. st_errors (snd e)) (rm_routes m)),
      to_cancelled = sum_list (map (\<lambda>e. st_cancelled (snd e)) (rm_routes m)),
      to_cost = round_to 6 (sum_list (map (\<lambda>e. st_cost (snd e)) (rm_routes m))),
      to_sheds = sum_list (map snd (rm_sheds m))\<rparr>"

text \<open>The routes come out ordered by model, then by backend name.\<close>

definition route_snapshot :: "route_metrics \<Rightarrow> route_row list \<times> (string \<times> nat) list \<times> route_totals" where
  "route_snapshot m =
     (map (\<lambda>(k, s). as_dict k s) (sort_key (fst \<circ> fst) (sort_key (snd \<circ> fst) (rm_routes m))), sorted_items (rm_sheds m), totals m)"

section \<open>The accumulators are the statistics of the samples\<close>

definition mean :: "real list \<Rightarrow> real option" where
  "mean xs = (if xs = [] then None else Some (sum_list xs / of_nat (length xs)))"

definition tally :: "'k list \<Rightarrow> ('k \<times> nat) list \<Rightarrow> bool" where
  "tally ks d \<longleftrightarrow> (\<forall>k. map_of d k = (let n = length (filter (\<lambda>x. x = k) ks) in if n = 0 then None else Some n))"

lemma tally_bump: "tally ks d \<Longrightarrow> tally (ks @ [k]) (bump k d)"
  by (auto simp: tally_def bump_def map_of_dict_update Let_def)

lemma tally_bump_opt: "tally ks d \<Longrightarrow> tally (ks @ (case k of None \<Rightarrow> [] | Some x \<Rightarrow> [x])) (bump_opt k d)"
  by (cases k) (simp_all add: bump_opt_def tally_bump)

lemma tally_fold: "tally ks d \<Longrightarrow> tally (ks @ xs) (fold bump xs d)"
proof (induction xs arbitrary: ks d)
  case (Cons x xs)
  then show ?case using Cons.IH[OF tally_bump[OF Cons.prems, of x]] by simp
qed simp

definition opts :: "('x \<Rightarrow> 'a option) \<Rightarrow> 'x list \<Rightarrow> 'a list" where
  "opts f xs = concat (map (\<lambda>x. case f x of None \<Rightarrow> [] | Some a \<Rightarrow> [a]) xs)"

lemma opts_simps [simp]:
  "opts f [] = []" "opts f (xs @ [x]) = opts f xs @ (case f x of None \<Rightarrow> [] | Some a \<Rightarrow> [a])"
  by (simp_all add: opts_def)

definition stat_of :: "route_sample list \<Rightarrow> route_stat" where
  "stat_of xs = fold add_sample xs new_stat"

lemma stat_of_simps [simp]: "stat_of [] = new_stat" "stat_of (xs @ [x]) = add_sample x (stat_of xs)"
  by (simp_all add: stat_of_def)

definition latency_of :: "(route_sample \<Rightarrow> real option) \<Rightarrow> route_sample \<Rightarrow> real option" where
  "latency_of f x = (if clean x then f x else None)"

lemma ratio_mean: "s = sum_list xs \<Longrightarrow> n = length xs \<Longrightarrow> ratio s n = mean xs"
  by (simp add: ratio_def mean_def)

lemma stat_counts:
  "st_requests (stat_of xs) = length xs"
  "st_errors (stat_of xs) = length (filter rs_error xs)"
  "st_cancelled (stat_of xs) = length (filter rs_cancelled xs)"
  "st_prompt_tokens (stat_of xs) = sum_list (map rs_prompt_tokens xs)"
  "st_completion_tokens (stat_of xs) = sum_list (map rs_completion_tokens xs)"
  "st_cost (stat_of xs) = sum_list (map rs_cost xs)"
  by (induction xs rule: rev_induct; simp add: new_stat_def add_sample_def)+

lemma stat_means:
  "avg_total_ms (stat_of xs) = mean (opts (latency_of rs_total_ms) xs)"
  "avg_ttft_ms (stat_of xs) = mean (opts (latency_of rs_ttft_ms) xs)"
  "avg_queue_wait_ms (stat_of xs) = mean (opts rs_queue_wait_ms xs)"
  "avg_output_tps (stat_of xs) = mean (opts tps_of xs)"
proof -
  have "st_total_ms_sum (stat_of xs) = sum_list (opts (latency_of rs_total_ms) xs) \<and> st_total_ms_n (stat_of xs) = length (opts (latency_of rs_total_ms) xs)"
    "st_ttft_ms_sum (stat_of xs) = sum_list (opts (latency_of rs_ttft_ms) xs) \<and> st_ttft_ms_n (stat_of xs) = length (opts (latency_of rs_ttft_ms) xs)"
    "st_queue_ms_sum (stat_of xs) = sum_list (opts rs_queue_wait_ms xs) \<and> st_queue_ms_n (stat_of xs) = length (opts rs_queue_wait_ms xs)"
    "st_output_tps_sum (stat_of xs) = sum_list (opts tps_of xs) \<and> st_output_tps_n (stat_of xs) = length (opts tps_of xs)"
    by (induction xs rule: rev_induct; simp add: new_stat_def add_sample_def add_opt_def inc_opt_def latency_of_def split: option.splits)+
  then show "avg_total_ms (stat_of xs) = mean (opts (latency_of rs_total_ms) xs)"
    "avg_ttft_ms (stat_of xs) = mean (opts (latency_of rs_ttft_ms) xs)"
    "avg_queue_wait_ms (stat_of xs) = mean (opts rs_queue_wait_ms xs)"
    "avg_output_tps (stat_of xs) = mean (opts tps_of xs)"
    by (simp_all add: avg_total_ms_def avg_ttft_ms_def avg_queue_wait_ms_def avg_output_tps_def ratio_mean)
qed

lemma stat_tallies:
  "tally (opts rs_reason xs) (st_reasons (stat_of xs))"
  "tally (concat (map rs_fallbacks xs)) (st_fallbacks (stat_of xs))"
  "tally (opts rs_policy xs) (st_policies (stat_of xs))"
  "tally (opts rs_workload_rule xs) (st_workload_rules (stat_of xs))"
  by (induction xs rule: rev_induct; simp add: new_stat_def add_sample_def tally_bump_opt tally_fold; simp add: tally_def)+

lemma routes_of_records:
  "rm_routes (fold record_route xs m) = fold (\<lambda>x. dict_update (rs_model x, rs_backend x) new_stat (add_sample x)) xs (rm_routes m)"
  by (induction xs arbitrary: m) (simp_all add: record_route_def)

text \<open>The row \<open>s\<close> is what the requests \<open>ys\<close> of a route amount to.\<close>

definition describes :: "route_sample list \<Rightarrow> route_stat \<Rightarrow> bool" where
  "describes ys s \<longleftrightarrow>
     st_requests s = length ys \<and> st_errors s = length (filter rs_error ys) \<and> st_cancelled s = length (filter rs_cancelled ys)
     \<and> st_prompt_tokens s = sum_list (map rs_prompt_tokens ys) \<and> st_completion_tokens s = sum_list (map rs_completion_tokens ys)
     \<and> st_cost s = sum_list (map rs_cost ys) \<and> avg_total_ms s = mean (opts (latency_of rs_total_ms) ys)
     \<and> avg_ttft_ms s = mean (opts (latency_of rs_ttft_ms) ys) \<and> avg_queue_wait_ms s = mean (opts rs_queue_wait_ms ys)
     \<and> avg_output_tps s = mean (opts tps_of ys) \<and> tally (opts rs_reason ys) (st_reasons s)
     \<and> tally (concat (map rs_fallbacks ys)) (st_fallbacks s) \<and> tally (opts rs_policy ys) (st_policies s)
     \<and> tally (opts rs_workload_rule ys) (st_workload_rules s)"

lemma stat_describes: "describes ys (stat_of ys)"
  by (simp add: describes_def stat_counts stat_means stat_tallies)

lemma success_rate_bounds:
  assumes "describes ys s" and "ys \<noteq> []"
  shows "\<exists>r. success_rate s = Some r \<and> 0 \<le> r \<and> r \<le> 1"
proof -
  have "length (filter rs_error ys) \<le> length ys" by simp
  then show ?thesis using assms by (simp add: success_rate_def ratio_def describes_def)
qed

lemma count_filter: "sum_list (map (\<lambda>x. if p x then 1 else 0) xs) = length (filter p xs)"
  by (induction xs) auto

text \<open>
  The incremental route metrics are the batch statistics of the requests recorded. After any
  list of records each \<open>(model, backend)\<close> row exists exactly when a request was attributed to
  it; its counters, token sums, cost, reason tallies and averages are those of its own
  requests (latencies and token rates of the ones that neither failed nor were cancelled),
  and its success rate lies between 0 and 1. The totals count every request exactly once.
\<close>

theorem route_metrics_exact:
  assumes "m = fold record_route xs metrics_init" and "ys = filter (\<lambda>x. (rs_model x, rs_backend x) = k) xs"
  shows "(case map_of (rm_routes m) k of
      None \<Rightarrow> ys = []
    | Some s \<Rightarrow> ys \<noteq> [] \<and> describes ys s \<and> (\<exists>r. success_rate s = Some r \<and> 0 \<le> r \<and> r \<le> 1))
    \<and> distinct (map fst (rm_routes m))
    \<and> totals m = \<lparr>to_requests = length xs, to_errors = length (filter rs_error xs), to_cancelled = length (filter rs_cancelled xs),
        to_cost = round_to 6 (sum_list (map rs_cost xs)), to_sheds = 0\<rparr>"
proof -
  let ?d = "fold (\<lambda>x. dict_update (rs_model x, rs_backend x) new_stat (add_sample x)) xs []"
  have d: "rm_routes m = ?d" using assms(1) by (simp add: routes_of_records metrics_init_def)
  have look: "map_of ?d k = (if ys = [] then None else Some (stat_of ys))"
    unfolding assms(2) stat_of_def by (simp add: fold_dict_update Let_def)
  have sheds: "rm_sheds m = []" unfolding assms(1)
    by (induction xs rule: rev_induct) (simp_all add: metrics_init_def record_route_def)
  have "sum_list (map (\<lambda>e. st_requests (snd e)) ?d) = sum_list (map (\<lambda>x. 1) xs)"
    "sum_list (map (\<lambda>e. st_errors (snd e)) ?d) = sum_list (map (\<lambda>x. if rs_error x then 1 else 0) xs)"
    "sum_list (map (\<lambda>e. st_cancelled (snd e)) ?d) = sum_list (map (\<lambda>x. if rs_cancelled x then 1 else 0) xs)"
    "sum_list (map (\<lambda>e. st_cost (snd e)) ?d) = sum_list (map rs_cost xs)"
    by (rule fold_dict_sum, simp_all add: add_sample_def new_stat_def)+
  then have "totals m = \<lparr>to_requests = length xs, to_errors = length (filter rs_error xs), to_cancelled = length (filter rs_cancelled xs),
        to_cost = round_to 6 (sum_list (map rs_cost xs)), to_sheds = 0\<rparr>"
    by (simp add: d sheds totals_def count_filter sum_list_triv)
  then show ?thesis using look stat_describes success_rate_bounds by (auto simp: d fold_dict_distinct)
qed

definition sample_route :: "bool \<Rightarrow> real option \<Rightarrow> route_sample" where
  "sample_route err ms = \<lparr>rs_model = ''m'', rs_backend = ''b'', rs_prompt_tokens = 1, rs_completion_tokens = 2, rs_cost = 1, rs_total_ms = ms,
     rs_ttft_ms = None, rs_error = err, rs_cancelled = False, rs_reason = Some ''least_busy'', rs_fallbacks = [], rs_policy = None, rs_tier = None,
     rs_queue_wait_ms = Some 0, rs_upstream_attempts = 0, rs_workload_rule = None\<rparr>"

theorem route_metrics_exact_witness:
  "\<exists>s. map_of (rm_routes (fold record_route [sample_route False (Some 10), sample_route True None] metrics_init)) (''m'', ''b'') = Some s
     \<and> st_requests s = 2 \<and> st_errors s = 1 \<and> avg_total_ms s = Some 10"
proof -
  let ?xs = "[sample_route False (Some 10), sample_route True None]"
  have "filter (\<lambda>x. (rs_model x, rs_backend x) = (''m'', ''b'')) ?xs = ?xs" by (simp add: sample_route_def)
  then show ?thesis
    using route_metrics_exact[where xs = ?xs and ys = ?xs and k = "(''m'', ''b'')", OF refl]
    by (auto simp: describes_def sample_route_def mean_def opts_def latency_of_def clean_def split: option.splits)
qed

section \<open>Engine-wide counters\<close>

record counters =
  cn_started_at :: time
  cn_requests_total :: nat
  cn_requests_active :: nat
  cn_requests_errors :: nat
  cn_prompt_tokens :: int
  cn_completion_tokens :: int
  cn_recent_starts :: "time list"

record counters_snapshot =
  cs_requests_total :: nat
  cs_requests_active :: nat
  cs_requests_errors :: nat
  cs_prompt_tokens_total :: int
  cs_completion_tokens_total :: int
  cs_requests_per_min :: nat
  cs_uptime_s :: real

definition counters_init :: "time \<Rightarrow> counters" where
  "counters_init now = \<lparr>cn_started_at = now, cn_requests_total = 0, cn_requests_active = 0, cn_requests_errors = 0,
     cn_prompt_tokens = 0, cn_completion_tokens = 0, cn_recent_starts = []\<rparr>"

definition trim_starts :: "time \<Rightarrow> counters \<Rightarrow> counters" where
  "trim_starts now c = c\<lparr>cn_recent_starts := dropWhile (\<lambda>t. t < now - 60) (cn_recent_starts c)\<rparr>"

definition request_started :: "time \<Rightarrow> counters \<Rightarrow> counters" where
  "request_started ts c =
     trim_starts ts (c\<lparr>cn_requests_total := cn_requests_total c + 1, cn_requests_active := cn_requests_active c + 1,
       cn_recent_starts := cn_recent_starts c @ [ts]\<rparr>)"

definition request_finished :: "int \<Rightarrow> int \<Rightarrow> bool \<Rightarrow> counters \<Rightarrow> counters" where
  "request_finished prompt_tokens completion_tokens error c =
     c\<lparr>cn_requests_active := (if cn_requests_active c > 0 then cn_requests_active c - 1 else cn_requests_active c),
       cn_prompt_tokens := cn_prompt_tokens c + max 0 prompt_tokens,
       cn_completion_tokens := cn_completion_tokens c + max 0 completion_tokens,
       cn_requests_errors := (if error then cn_requests_errors c + 1 else cn_requests_errors c)\<rparr>"

definition counters_snapshot_of :: "time \<Rightarrow> counters \<Rightarrow> counters_snapshot \<times> counters" where
  "counters_snapshot_of ts c =
     (let c' = trim_starts ts c
      in (\<lparr>cs_requests_total = cn_requests_total c', cs_requests_active = cn_requests_active c', cs_requests_errors = cn_requests_errors c',
           cs_prompt_tokens_total = cn_prompt_tokens c', cs_completion_tokens_total = cn_completion_tokens c',
           cs_requests_per_min = length (cn_recent_starts c'), cs_uptime_s = max 0 (ts - cn_started_at c')\<rparr>, c'))"

datatype counter_event = Started time | Finished int int bool | Sampled time

primrec counter_step :: "counter_event \<Rightarrow> counters \<Rightarrow> counters" where
  "counter_step (Started t) c = request_started t c"
| "counter_step (Finished p q e) c = request_finished p q e c"
| "counter_step (Sampled t) c = snd (counters_snapshot_of t c)"

definition starts :: "counter_event list \<Rightarrow> time list" where
  "starts es = concat (map (\<lambda>e. case e of Started t \<Rightarrow> [t] | _ \<Rightarrow> []) es)"

definition clock_of :: "counter_event \<Rightarrow> time list" where
  "clock_of e = (case e of Started t \<Rightarrow> [t] | Finished _ _ _ \<Rightarrow> [] | Sampled t \<Rightarrow> [t])"

definition finishes :: "counter_event list \<Rightarrow> nat" where
  "finishes es = length (filter (\<lambda>e. case e of Finished _ _ _ \<Rightarrow> True | _ \<Rightarrow> False) es)"

text \<open>A request finishes only after it started.\<close>

fun balanced :: "nat \<Rightarrow> counter_event list \<Rightarrow> bool" where
  "balanced n [] = True"
| "balanced n (Started t # es) = balanced (Suc n) es"
| "balanced n (Finished p q e # es) = (n > 0 \<and> balanced (n - 1) es)"
| "balanced n (Sampled t # es) = balanced n es"

lemma dropWhile_sorted: "sorted xs \<Longrightarrow> dropWhile (\<lambda>t. t < b) xs = filter (\<lambda>t. b \<le> t) (xs :: real list)"
proof (induction xs)
  case (Cons x xs)
  have "filter (\<lambda>t. b \<le> t) (x # xs) = x # xs" if "b \<le> x" using Cons.prems that by (intro filter_True) auto
  then show ?case using Cons by (cases "x < b") auto
qed simp

lemma active_run:
  "balanced (cn_requests_active c) es \<Longrightarrow>
     cn_requests_active (fold counter_step es c) + finishes es = cn_requests_active c + length (starts es)"
proof (induction es arbitrary: c)
  case (Cons e es)
  show ?case
    using Cons.IH[of "counter_step e c"] Cons.prems
    by (cases e) (auto simp: starts_def finishes_def request_started_def request_finished_def trim_starts_def counters_snapshot_of_def Let_def)
qed (simp add: starts_def finishes_def)

text \<open>With a clock that never runs backwards, trimming loses no start of the last minute.\<close>

definition starts_ok :: "time \<Rightarrow> time list \<Rightarrow> counters \<Rightarrow> bool" where
  "starts_ok L S c \<longleftrightarrow> sorted S \<and> (\<forall>t\<in>set S. t \<le> L) \<and> (\<exists>B \<le> L - 60. cn_recent_starts c = filter (\<lambda>t. B \<le> t) S)"

lemma starts_trim:
  assumes "starts_ok L S c" and "L \<le> t"
  shows "cn_recent_starts (trim_starts t c) = filter (\<lambda>x. t - 60 \<le> x) S" and "starts_ok t S (trim_starts t c)"
proof -
  obtain B where B: "B \<le> L - 60" "cn_recent_starts c = filter (\<lambda>t. B \<le> t) S" "sorted S" "\<forall>t\<in>set S. t \<le> L"
    using assms(1) by (auto simp: starts_ok_def)
  have "sorted (filter (\<lambda>t. B \<le> t) S)" using B(3) sorted_filter[of id] by simp
  then show a: "cn_recent_starts (trim_starts t c) = filter (\<lambda>x. t - 60 \<le> x) S"
    using B assms(2) by (auto simp: trim_starts_def dropWhile_sorted intro!: filter_cong)
  then show "starts_ok t S (trim_starts t c)" using B assms(2) by (auto simp: starts_ok_def)
qed

lemma starts_add:
  assumes "starts_ok L S c" and "L \<le> t"
  shows "starts_ok t (S @ [t]) (request_started t c)"
proof -
  let ?c = "c\<lparr>cn_requests_total := cn_requests_total c + 1, cn_requests_active := cn_requests_active c + 1, cn_recent_starts := cn_recent_starts c @ [t]\<rparr>"
  obtain B where "B \<le> L - 60" "cn_recent_starts c = filter (\<lambda>t. B \<le> t) S" "sorted S" "\<forall>t\<in>set S. t \<le> L"
    using assms(1) by (auto simp: starts_ok_def)
  then have "starts_ok t (S @ [t]) ?c" using assms(2) unfolding starts_ok_def
    by (intro conjI exI[of _ B]) (auto simp: sorted_append)
  then show ?thesis using starts_trim(2)[of t "S @ [t]" ?c t] by (simp add: request_started_def)
qed

lemma starts_run:
  "starts_ok L S c \<Longrightarrow> sorted (L # concat (map clock_of es)) \<Longrightarrow>
     starts_ok (last (L # concat (map clock_of es))) (S @ starts es) (fold counter_step es c)"
proof (induction es arbitrary: L S c)
  case (Cons e es)
  show ?case
  proof (cases e)
    case (Started t)
    then have "starts_ok t (S @ [t]) (counter_step e c)" using Cons.prems starts_add by (simp add: clock_of_def)
    from Cons.IH[OF this] show ?thesis using Cons.prems Started by (simp add: clock_of_def starts_def)
  next
    case (Finished p q x)
    have "starts_ok L S (counter_step e c)" using Cons.prems Finished by (simp add: starts_ok_def request_finished_def)
    from Cons.IH[OF this] show ?thesis using Cons.prems Finished by (simp add: clock_of_def starts_def)
  next
    case (Sampled t)
    then have "starts_ok t S (counter_step e c)"
      using Cons.prems starts_trim(2)[OF Cons.prems(1), of t] by (simp add: clock_of_def counters_snapshot_of_def Let_def)
    from Cons.IH[OF this] show ?thesis using Cons.prems Sampled by (simp add: clock_of_def starts_def)
  qed
qed (simp add: starts_def)

text \<open>
  The counters agree with the history of requests. When every finish belongs to a started
  request and the clock never runs backwards, a snapshot shows the number of requests started,
  the number started and not finished, and as requests per minute the number of starts in the
  last 60 seconds.
\<close>

theorem counters_exact:
  assumes "balanced 0 es" and "sorted (t0 # concat (map clock_of es) @ [now])"
    and "c = fold counter_step es (counters_init t0)" and "s = fst (counters_snapshot_of now c)"
  shows "cs_requests_total s = length (starts es) \<and> cs_requests_active s = length (starts es) - finishes es
    \<and> finishes es \<le> length (starts es)
    \<and> cs_requests_per_min s = length (filter (\<lambda>t. now - 60 \<le> t) (starts es))"
proof -
  have i: "starts_ok t0 [] (counters_init t0)" by (auto simp: starts_ok_def counters_init_def)
  have so: "sorted ((t0 # concat (map clock_of es)) @ [now])" using assms(2) by simp
  then have so': "sorted (t0 # concat (map clock_of es))" "\<forall>x\<in>set (t0 # concat (map clock_of es)). x \<le> now"
    unfolding sorted_append by simp_all
  have l: "last (t0 # concat (map clock_of es)) \<le> now" by (rule bspec[OF so'(2) last_in_set]) simp
  have ok: "starts_ok (last (t0 # concat (map clock_of es))) (starts es) c" using starts_run[OF i so'(1)] assms(3) by simp
  have "cn_requests_total (fold counter_step es d) = cn_requests_total d + length (starts es)" for d
  proof (induction es arbitrary: d)
    case (Cons e es)
    then show ?case
      by (cases e) (auto simp: starts_def request_started_def request_finished_def trim_starts_def counters_snapshot_of_def Let_def)
  qed (simp add: starts_def)
  then have total_starts: "cn_requests_total c = length (starts es)" using assms(3) by (simp add: counters_init_def)
  have "cn_requests_active c + finishes es = length (starts es)"
    using active_run[of "counters_init t0" es] assms(1,3) by (simp add: counters_init_def)
  then show ?thesis using total_starts starts_trim(1)[OF ok l] assms(4)
    by (simp add: counters_snapshot_of_def Let_def trim_starts_def)
qed

theorem counters_exact_witness:
  "cs_requests_active (fst (counters_snapshot_of 100 (fold counter_step [Started 1, Started 50, Finished 1 1 False] (counters_init 0)))) = 1
   \<and> cs_requests_per_min (fst (counters_snapshot_of 100 (fold counter_step [Started 1, Started 50, Finished 1 1 False] (counters_init 0)))) = 1"
  using counters_exact[of "[Started 1, Started 50, Finished 1 1 False]" 0 100, OF _ _ refl refl]
  by (simp add: clock_of_def starts_def finishes_def)

section \<open>The error taxonomy\<close>

datatype error_category = VALIDATION | AUTH | LIMIT | MODEL | BACKEND | CANCELLATION | INTERNAL

text \<open>The exception classes \<open>classify\<close> tells apart; every other class is \<open>OtherExc\<close>.\<close>

datatype exc_class = InterruptExc | NotReadyExc | ModelLoadExc | BusyExc | GenerationFailedExc | CancelledExc | OtherExc

definition status_category :: "int \<Rightarrow> error_category option" where
  "status_category n = map_of [(400, VALIDATION), (401, AUTH), (403, AUTH), (404, MODEL), (413, LIMIT), (429, LIMIT), (503, MODEL)] n"

definition code_category :: "string \<Rightarrow> error_category option" where
  "code_category c = map_of
     [(''missing_api_key'', AUTH), (''invalid_api_key'', AUTH), (''payload_too_large'', LIMIT), (''rate_limit_exceeded'', LIMIT),
      (''concurrency_limit_exceeded'', LIMIT), (''quota_exceeded'', LIMIT), (''model_not_found'', MODEL), (''model_not_loaded'', MODEL),
      (''model_busy'', BACKEND)] c"

definition exc_category :: "exc_class option \<Rightarrow> error_category option" where
  "exc_category x =
     (case x of
        Some InterruptExc \<Rightarrow> Some INTERNAL | Some NotReadyExc \<Rightarrow> Some MODEL | Some ModelLoadExc \<Rightarrow> Some MODEL
      | Some BusyExc \<Rightarrow> Some BACKEND | Some GenerationFailedExc \<Rightarrow> Some BACKEND | Some CancelledExc \<Rightarrow> Some CANCELLATION
      | Some OtherExc \<Rightarrow> None | None \<Rightarrow> None)"

definition classify :: "exc_class option \<Rightarrow> int option \<Rightarrow> string option \<Rightarrow> error_category" where
  "classify x status_code c =
     (case Option.bind c code_category of
        Some k \<Rightarrow> k
      | None \<Rightarrow> (case exc_category x of
          Some k \<Rightarrow> k
        | None \<Rightarrow> (case Option.bind status_code status_category of Some k \<Rightarrow> k | None \<Rightarrow> INTERNAL)))"

fun category_value :: "error_category \<Rightarrow> string" where
  "category_value VALIDATION = ''validation''"
| "category_value AUTH = ''auth''"
| "category_value LIMIT = ''limit''"
| "category_value MODEL = ''model''"
| "category_value BACKEND = ''backend''"
| "category_value CANCELLATION = ''cancellation''"
| "category_value INTERNAL = ''internal''"

section \<open>Operator alerts\<close>

datatype severity = INFO_SEV | WARNING_SEV | CRITICAL_SEV

record alert =
  al_severity :: severity
  al_kind :: string
  al_message :: string
  al_target_type :: "string option"
  al_target_id :: "string option"

fun severity_order :: "severity \<Rightarrow> nat" where
  "severity_order CRITICAL_SEV = 0"
| "severity_order WARNING_SEV = 1"
| "severity_order INFO_SEV = 2"

text \<open>\<open>repr\<close> of a backend name in the message is an argument.\<close>

definition backend_alert :: "(string \<Rightarrow> string) \<Rightarrow> string \<Rightarrow> alert" where
  "backend_alert repr n = \<lparr>al_severity = CRITICAL_SEV, al_kind = ''backend_unhealthy'',
     al_message = ''Backend '' @ repr n @ '' is loaded but not ready'', al_target_type = Some ''backend'', al_target_id = Some n\<rparr>"

definition client_alert :: "string \<times> string \<Rightarrow> alert list" where
  "client_alert c =
     (case c of (cid, status) \<Rightarrow>
        if status = ''canceled'' then [\<lparr>al_severity = CRITICAL_SEV, al_kind = ''client_canceled'',
          al_message = ''Client '' @ cid @ '' is canceled; its keys are revoked'', al_target_type = Some ''client'', al_target_id = Some cid\<rparr>]
        else if status = ''suspended'' then [\<lparr>al_severity = WARNING_SEV, al_kind = ''client_suspended'',
          al_message = ''Client '' @ cid @ '' is suspended'', al_target_type = Some ''client'', al_target_id = Some cid\<rparr>]
        else [])"

definition dead_letter_alert :: "int \<Rightarrow> alert list" where
  "dead_letter_alert n =
     (if n > 0 then [\<lparr>al_severity = WARNING_SEV, al_kind = ''webhook_dead_letters'',
        al_message = str_of_int n @ '' webhook deliver'' @ (if n = 1 then ''y is'' else ''ies are'') @ '' dead-lettered'',
        al_target_type = Some ''webhook_deliveries'', al_target_id = None\<rparr>] else [])"

definition threshold_alert :: "string \<Rightarrow> alert" where
  "threshold_alert cid = \<lparr>al_severity = WARNING_SEV, al_kind = ''usage_threshold'',
     al_message = ''Client '' @ cid @ '' crossed its usage threshold'', al_target_type = Some ''client'', al_target_id = Some cid\<rparr>"

fun threshold_loop :: "string list \<Rightarrow> string option list \<Rightarrow> alert list" where
  "threshold_loop seen [] = []"
| "threshold_loop seen (None # es) = threshold_loop seen es"
| "threshold_loop seen (Some cid # es) =
     (if cid \<in> set seen then threshold_loop seen es else threshold_alert cid # threshold_loop (cid # seen) es)"

definition compute_alerts :: "(string \<Rightarrow> string) \<Rightarrow> (string \<times> string) list \<Rightarrow> string option list \<Rightarrow> int \<Rightarrow> string list \<Rightarrow> alert list" where
  "compute_alerts repr clients threshold_events dead_delivery_count unhealthy_backends =
     sort_key (\<lambda>a. severity_order (al_severity a))
       (map (backend_alert repr) unhealthy_backends @ concat (map client_alert clients) @ dead_letter_alert dead_delivery_count
        @ threshold_loop [] threshold_events)"

lemma threshold_loop_ids:
  "distinct (map al_target_id (threshold_loop seen es))
   \<and> set (map al_target_id (threshold_loop seen es)) = {Some c | c. Some c \<in> set es \<and> c \<notin> set seen}"
proof (induction seen es rule: threshold_loop.induct)
  case (3 seen cid es)
  show ?case
  proof (cases "cid \<in> set seen")
    case False
    have "Some cid \<notin> set (map al_target_id (threshold_loop (cid # seen) es))" using 3(2)[OF False] by auto
    moreover have "al_target_id (threshold_alert cid) = Some cid" by (simp add: threshold_alert_def)
    ultimately show ?thesis using 3(2)[OF False] False by auto
  qed (use 3 in auto)
qed auto

text \<open>
  The alert list is ordered by severity and complete: a client that crossed its threshold is
  reported once however many events it has, every unhealthy backend and every canceled client
  is critical, and there is nothing else.
\<close>

theorem alerts_exact:
  assumes "as = compute_alerts repr clients events dead unhealthy"
  shows "sorted (map (\<lambda>a. severity_order (al_severity a)) as)
    \<and> set as = backend_alert repr ` set unhealthy \<union> (\<Union>c\<in>set clients. set (client_alert c)) \<union> set (dead_letter_alert dead)
        \<union> threshold_alert ` {c. Some c \<in> set events}
    \<and> distinct (map al_target_id (filter (\<lambda>a. al_kind a = ''usage_threshold'') as))"
proof -
  let ?th = "threshold_loop [] events"
  have th: "a = threshold_alert (the (al_target_id a)) \<and> al_target_id a \<noteq> None \<and> al_kind a = ''usage_threshold''" if "a \<in> set (threshold_loop seen es)" for a seen es
    using that by (induction seen es rule: threshold_loop.induct) (auto simp: threshold_alert_def split: if_splits)
  have "al_target_id ` set ?th = {Some c | c. Some c \<in> set events}" using threshold_loop_ids[of "[]" events] by simp
  then have ts: "set ?th = threshold_alert ` {c. Some c \<in> set events}"
    using th by (auto simp: image_iff set_eq_iff) (metis (no_types, lifting) option.sel th)+
  have kinds: "filter (\<lambda>a. al_kind a = ''usage_threshold'') (map (backend_alert repr) unhealthy) = []"
    "filter (\<lambda>a. al_kind a = ''usage_threshold'') (concat (map client_alert clients)) = []"
    "filter (\<lambda>a. al_kind a = ''usage_threshold'') (dead_letter_alert dead) = []"
    "filter (\<lambda>a. al_kind a = ''usage_threshold'') ?th = ?th"
    using th by (auto simp: backend_alert_def client_alert_def dead_letter_alert_def filter_empty_conv filter_id_conv split: if_splits)
  have "filter (\<lambda>a. al_kind a = ''usage_threshold'') as = sort_key (\<lambda>a. severity_order (al_severity a)) ?th"
    using kinds by (simp add: assms compute_alerts_def filter_sort)
  moreover have "al_severity a = WARNING_SEV" if "a \<in> set ?th" for a using th[OF that] by (metis alert.select_convs(1) threshold_alert_def)
  then have "sort_key (\<lambda>a. severity_order (al_severity a)) ?th = ?th" by (intro sort_key_id_if_sorted) (auto simp: sorted_iff_nth_mono)
  ultimately have "distinct (map al_target_id (filter (\<lambda>a. al_kind a = ''usage_threshold'') as))" using threshold_loop_ids[of "[]" events] by simp
  then show ?thesis using ts by (auto simp: assms compute_alerts_def)
qed

end
