(* ===== verification/Serving.thy ===== *)
theory Serving
  imports Gateway Scheduler Router Route_Metrics Event_Bus Token_Stream
begin

text \<open>
  The request lifecycle both API edges share (\<open>engine/api/serving.py\<close>): authorization, admission,
  placement, the start of the generation, and its end, which gives back the capacity and records
  what happened.

  \<open>start_generation_core\<close> has one suspension point, the wait for a slot inside \<open>admit\<close>;
  everything else runs without interruption on the event loop. It is split there into
  \<open>serve_start\<close> and \<open>serve_resume\<close>. What the lifecycle leaves behind of a request is its
  \<open>phase\<close>, and \<open>serve_step\<close> interleaves the requests with timeouts, disconnects, health checks and
  other users of the store. The answer of the backend's \<open>generate\<close> (an exception, or none when a
  stream was started) and what the stream reports at its end are arguments.
\<close>

section \<open>Requests and the shared state\<close>

record serve_request =
  rq_token :: "string option"
  rq_endpoint :: string
  rq_model_id :: string
  rq_route_model :: string
  rq_prompt_text :: string
  rq_max_tokens :: int
  rq_request_id :: string
  rq_features :: "feature list"

text \<open>
  What the application state holds that a request does not change: the settings, the router, the
  usage hook, the hashes, the number of characters of the affinity prefix, and each backend's cost
  per thousand input and output tokens.
\<close>

record serve_env =
  se_cfg :: settings
  se_hash :: "string \<Rightarrow> string"
  se_digest :: "string \<Rightarrow> nat"
  se_router :: router
  se_affinity_chars :: int
  se_cost_per_1k :: "nat \<Rightarrow> real \<times> real"
  se_hook :: "(string \<Rightarrow> string \<Rightarrow> real \<Rightarrow> db \<times> notifier \<Rightarrow> db \<times> notifier) option"

record app_state =
  ap_gateway :: gw_state
  ap_scheduler :: sched_sys
  ap_registry :: registry
  ap_route_metrics :: route_metrics
  ap_counters :: counters
  ap_bus :: "feed_data event_bus"

record served =
  sd_access :: api_access
  sd_task :: nat
  sd_waited_s :: real
  sd_registry_lease :: registry_lease
  sd_request :: serve_request

datatype serve_error =
    AuthRefused openai_error
  | SaturatedError string int
  | UnsupportedError "feature list" "string option"
  | NotReadyError
  | GenerateError exc_class
  | ClientGone

text \<open>
  How far a request is: suspended in \<open>admit\<close>, refused by the gateway, failed with its access
  handle as it was left, generating, or ended by \<open>finish_generation\<close>, which may itself have failed
  to record the usage.
\<close>

datatype phase =
    Queued serve_request api_access
  | Rejected serve_error
  | Failed serve_error api_access
  | Running served
  | Over bool api_access

section \<open>Route outcomes\<close>

datatype serve_outcome = OutcomeOk | OutcomeError | OutcomeCancelled

definition entry_name :: "registry_lease \<Rightarrow> registry \<Rightarrow> string" where
  "entry_name l r = (if rl_entry l < length r then be_name (r ! rl_entry l) else [])"

definition record_route_outcome ::
  "route_decision \<Rightarrow> string \<Rightarrow> string \<Rightarrow> real option \<Rightarrow> int \<Rightarrow> int \<Rightarrow> real \<Rightarrow> real option \<Rightarrow> real option \<Rightarrow> int \<Rightarrow> serve_outcome
    \<Rightarrow> route_metrics \<Rightarrow> route_metrics" where
  "record_route_outcome d model backend_name queue_wait_ms prompt_tokens completion_tokens cost ttft_ms total_ms attempts outc =
     record_route \<lparr>rs_model = model, rs_backend = backend_name, rs_prompt_tokens = prompt_tokens,
       rs_completion_tokens = completion_tokens, rs_cost = cost, rs_total_ms = total_ms, rs_ttft_ms = ttft_ms,
       rs_error = (outc = OutcomeError), rs_cancelled = (outc = OutcomeCancelled), rs_reason = Some (rd_reason d),
       rs_fallbacks = rd_fallbacks d, rs_policy = Some (rd_policy d), rs_tier = Some (rd_tier d),
       rs_queue_wait_ms = queue_wait_ms, rs_upstream_attempts = attempts, rs_workload_rule = rd_workload_rule d\<rparr>"

section \<open>Starting a generation\<close>

text \<open>Giving up a request: its access handle is aborted.\<close>

definition abort_access :: "api_access \<Rightarrow> app_state \<Rightarrow> api_access \<times> app_state" where
  "abort_access a ap = (let (a', g) = abort (a, ap_gateway ap) in (a', ap\<lparr>ap_gateway := g\<rparr>))"

definition release_lease :: "nat \<Rightarrow> bool \<Rightarrow> app_state \<Rightarrow> app_state" where
  "release_lease task cancelled ap = ap\<lparr>ap_scheduler := lease_release task cancelled (ap_scheduler ap)\<rparr>"

definition shed :: "serve_request \<Rightarrow> app_state \<Rightarrow> app_state" where
  "shed q ap = ap\<lparr>ap_route_metrics := record_shed (rq_route_model q) (ap_route_metrics ap)\<rparr>"

definition reject_feed :: "time \<Rightarrow> serve_request \<Rightarrow> string \<Rightarrow> int \<Rightarrow> app_state \<Rightarrow> app_state" where
  "reject_feed now q reason retry_after_s ap =
     ap\<lparr>ap_bus := request_rejected now (rq_request_id q) (rq_endpoint q) reason retry_after_s (ap_bus ap)\<rparr>"

text \<open>The affinity prefix of the prompt, when affinity is on.\<close>

definition prefix_key_of :: "serve_env \<Rightarrow> serve_request \<Rightarrow> string option" where
  "prefix_key_of e q = (if se_affinity_chars e > 0 then Some (take (nat (se_affinity_chars e)) (rq_prompt_text q)) else None)"

text \<open>The failure of \<open>generate\<close>: the route is recorded as an error and everything is given back.\<close>

definition generate_failed ::
  "time \<Rightarrow> exc_class \<Rightarrow> serve_request \<Rightarrow> nat \<Rightarrow> real \<Rightarrow> api_access \<Rightarrow> registry_lease \<Rightarrow> app_state \<Rightarrow> phase \<times> app_state" where
  "generate_failed now exc q task waited a rl ap =
     (let ap1 = ap\<lparr>ap_route_metrics := record_route_outcome (rl_decision rl) (rq_model_id q) (entry_name rl (ap_registry ap))
              (Some (waited * 1000)) 0 0 0 None None 0 OutcomeError (ap_route_metrics ap)\<rparr>;
          ap2 = ap1\<lparr>ap_registry := snd (registry_lease_release rl (ap_registry ap1))\<rparr>;
          (a', ap3) = abort_access a (release_lease task False ap2);
          ap4 = ap3\<lparr>ap_counters := request_finished 0 0 True (ap_counters ap3),
              ap_bus := request_error now (rq_request_id q) (category_value (classify (Some exc) None None)) (rq_endpoint q)
                (Some (rq_model_id q)) (ap_bus ap3)\<rparr>
      in (Failed (GenerateError exc) a', ap4))"

text \<open>From the lease on: placement, the counters, and the start of the generation.\<close>

definition serve_place ::
  "serve_env \<Rightarrow> time \<Rightarrow> exc_class option \<Rightarrow> serve_request \<Rightarrow> nat \<Rightarrow> real \<Rightarrow> api_access \<Rightarrow> app_state \<Rightarrow> phase \<times> app_state" where
  "serve_place e now gen q task waited a ap =
     (case router_acquire (se_digest e) (se_router e) (rq_route_model q) (prefix_key_of e q) (rq_features q) (ap_registry ap) of
        (Inl (FeatureUnsupported fs m), r) \<Rightarrow>
          (let (a', ap') = abort_access a (release_lease task False (ap\<lparr>ap_registry := r\<rparr>))
           in (Failed (UnsupportedError fs m) a', ap'))
      | (Inl (NoBackendAvailable reason), r) \<Rightarrow>
          (let (a', ap') = abort_access a (release_lease task False (ap\<lparr>ap_registry := r\<rparr>)); ap'' = shed q ap'
           in if reason = ''busy''
              then (Failed (SaturatedError ''all_backends_busy'' 1) a', reject_feed now q ''all_backends_busy'' 1 ap'')
              else (Failed NotReadyError a', ap''))
      | (Inr rl, r) \<Rightarrow>
          (let ap1 = ap\<lparr>ap_registry := r, ap_counters := request_started now (ap_counters ap),
                 ap_bus := request_start now (rq_request_id q) (rq_endpoint q) (Some (rq_model_id q)) (ac_key_id a) (ap_bus ap)\<rparr>
           in case gen of
                Some exc \<Rightarrow> generate_failed now exc q task waited a rl ap1
              | None \<Rightarrow> (Running \<lparr>sd_access = a, sd_task = task, sd_waited_s = waited, sd_registry_lease = rl, sd_request = q\<rparr>, ap1)))"

text \<open>
  The outcome of \<open>admit\<close>. Only \<open>SchedulerSaturated\<close> is caught around it: a cancellation of the
  waiting task propagates at once and nothing is given back.
\<close>

definition serve_admit ::
  "serve_env \<Rightarrow> time \<Rightarrow> exc_class option \<Rightarrow> serve_request \<Rightarrow> nat \<Rightarrow> api_access \<Rightarrow> admit_outcome \<times> sched \<Rightarrow> app_state
    \<Rightarrow> phase \<times> app_state" where
  "serve_admit e now gen q task a r ap =
     (let ap1 = ap\<lparr>ap_scheduler := grant task r (ap_scheduler ap)\<rparr>
      in case fst r of
           Waits \<Rightarrow> (Queued q a, ap1)
         | Aborted \<Rightarrow> (Failed ClientGone a, ap1)
         | Saturated reason retry_after_s \<Rightarrow>
             (let (a', ap2) = abort_access a ap1
              in (Failed (SaturatedError reason retry_after_s) a', reject_feed now q reason retry_after_s (shed q ap2)))
         | Leased waited \<Rightarrow> serve_place e now gen q task waited a ap1)"

definition serve_start ::
  "serve_env \<Rightarrow> iso_time \<Rightarrow> time \<Rightarrow> time \<Rightarrow> exc_class option \<Rightarrow> serve_request \<Rightarrow> nat \<Rightarrow> app_state \<Rightarrow> phase \<times> app_state" where
  "serve_start e now_iso now tick gen q task ap =
     (case authorize_token (se_cfg e) (se_hash e) now_iso now (rq_token q) (rq_prompt_text q) (rq_max_tokens q) (rq_endpoint q)
        (Some (rq_model_id q)) (ap_gateway ap) of
        (Inl err, g) \<Rightarrow> (Rejected (AuthRefused err), ap\<lparr>ap_gateway := g\<rparr>)
      | (Inr a, g) \<Rightarrow>
          serve_admit e now gen q task a (admit_start task tick (sy_sched (ap_scheduler ap))) (ap\<lparr>ap_gateway := g\<rparr>))"

definition serve_resume ::
  "serve_env \<Rightarrow> time \<Rightarrow> time \<Rightarrow> exc_class option \<Rightarrow> serve_request \<Rightarrow> api_access \<Rightarrow> waiter \<Rightarrow> app_state \<Rightarrow> phase \<times> app_state" where
  "serve_resume e now tick gen q a w ap =
     serve_admit e now gen q (wt_task w) a (admit_resume w tick (sy_sched (ap_scheduler ap))) ap"

section \<open>Ending a generation\<close>

text \<open>\<open>GenerationTimings\<close> and what the stream holds when the generation is over.\<close>

record timings =
  tm_started_at :: time
  tm_first_token_at :: "time option"
  tm_finished_at :: "time option"

definition timings_ttft_ms :: "timings \<Rightarrow> real option" where
  "timings_ttft_ms t = map_option (\<lambda>f. (f - tm_started_at t) * 1000) (tm_first_token_at t)"

definition timings_total_ms :: "timings \<Rightarrow> real option" where
  "timings_total_ms t = map_option (\<lambda>f. (f - tm_started_at t) * 1000) (tm_finished_at t)"

record stream_end =
  en_result :: "(gen_result \<times> timings) option"
  en_backpressure_waits :: int
  en_upstream_attempts :: int

fun finish_value :: "finish_reason \<Rightarrow> string" where
  "finish_value STOP = ''stop''"
| "finish_value LENGTH = ''length''"
| "finish_value CANCELLED_REASON = ''cancelled''"
| "finish_value ERROR_REASON = ''error''"

definition was_cancelled :: "exc_class option \<Rightarrow> stream_end \<Rightarrow> bool" where
  "was_cancelled err en \<longleftrightarrow> err = None \<and> (case en_result en of None \<Rightarrow> True | Some (x, _) \<Rightarrow> gr_finish x = CANCELLED_REASON)"

definition tokens_of :: "stream_end \<Rightarrow> int \<times> int" where
  "tokens_of en = (case en_result en of None \<Rightarrow> (0, 0) | Some (x, _) \<Rightarrow> (int (gr_prompt_tokens x), int (gr_completion_tokens x)))"

definition route_outcome :: "exc_class option \<Rightarrow> stream_end \<Rightarrow> serve_outcome" where
  "route_outcome err en = (if was_cancelled err en then OutcomeCancelled else if err \<noteq> None then OutcomeError else OutcomeOk)"

definition route_cost :: "serve_env \<Rightarrow> nat \<Rightarrow> int \<times> int \<Rightarrow> real" where
  "route_cost e i t = (let (cin, cout) = se_cost_per_1k e i in of_int (fst t) / 1000 * cin + of_int (snd t) / 1000 * cout)"

text \<open>The feed event of the end: the error's category, or the result.\<close>

definition feed_end :: "time \<Rightarrow> exc_class option \<Rightarrow> stream_end \<Rightarrow> serve_request \<Rightarrow> feed_data event_bus \<Rightarrow> feed_data event_bus" where
  "feed_end now err en q b =
     (case err of
        Some exc \<Rightarrow> request_error now (rq_request_id q) (category_value (classify (Some exc) None None)) (rq_endpoint q)
                     (Some (rq_model_id q)) b
      | None \<Rightarrow> request_end now (rq_request_id q) (Some (rq_model_id q)) (fst (tokens_of en)) (snd (tokens_of en))
                  (case en_result en of None \<Rightarrow> ''stop'' | Some (x, _) \<Rightarrow> finish_value (gr_finish x))
                  (Option.bind (en_result en) (timings_ttft_ms \<circ> snd)) (Option.bind (en_result en) (timings_total_ms \<circ> snd)) b)"

text \<open>
  \<open>finish_generation\<close>. When the usage record cannot be written, \<open>finalize\<close> frees the slot and
  raises, and what comes after it (the counters and the feed) does not run.
\<close>

definition finish_generation ::
  "serve_env \<Rightarrow> bool \<Rightarrow> time \<Rightarrow> exc_class option \<Rightarrow> stream_end \<Rightarrow> served \<Rightarrow> app_state \<Rightarrow> phase \<times> app_state" where
  "finish_generation e record_fails now err en sd ap =
     (let q = sd_request sd; rl = sd_registry_lease sd; t = tokens_of en;
          y1 = (ap_scheduler ap)\<lparr>sy_sched := note_slow_consumer (en_backpressure_waits en) (sy_sched (ap_scheduler ap))\<rparr>;
          ap1 = release_lease (sd_task sd) (was_cancelled err en) (ap\<lparr>ap_scheduler := y1\<rparr>);
          ap2 = ap1\<lparr>ap_registry := snd (registry_lease_release rl (ap_registry ap1)),
              ap_route_metrics := record_route_outcome (rl_decision rl) (rq_model_id q) (entry_name rl (ap_registry ap1))
                (Some (sd_waited_s sd * 1000)) (fst t) (snd t) (route_cost e (rl_entry rl) t)
                (Option.bind (en_result en) (timings_ttft_ms \<circ> snd)) (Option.bind (en_result en) (timings_total_ms \<circ> snd))
                (en_upstream_attempts en) (route_outcome err en) (ap_route_metrics ap1)\<rparr>;
          (ok, a', g) = finalize (se_cfg e) (se_hook e) record_fails now (rq_request_id q) (Some (rq_model_id q)) (fst t) (snd t)
                (if err \<noteq> None then 500 else 200) (sd_access sd, ap_gateway ap2);
          ap3 = ap2\<lparr>ap_gateway := g\<rparr>
      in if \<not> ok then (Over False a', ap3)
         else (Over True a', ap3\<lparr>ap_counters := request_finished (fst t) (snd t) (err \<noteq> None) (ap_counters ap3),
                 ap_bus := feed_end now err en q (ap_bus ap3)\<rparr>))"

section \<open>Interleavings\<close>

type_synonym serving = "app_state \<times> (nat \<rightharpoonup> phase)"

definition settle :: "nat \<Rightarrow> (nat \<rightharpoonup> phase) \<Rightarrow> phase \<times> app_state \<Rightarrow> serving" where
  "settle t ts r = (snd r, ts(t \<mapsto> fst r))"

definition with_sched :: "(sched \<Rightarrow> sched) \<Rightarrow> app_state \<Rightarrow> app_state" where
  "with_sched f ap = ap\<lparr>ap_scheduler := (ap_scheduler ap)\<lparr>sy_sched := f (sy_sched (ap_scheduler ap))\<rparr>\<rparr>"

text \<open>
  Beside the requests themselves: the timeout of a waiter and the disconnect of its client, the
  drain, a health refresh, a reading of the counters, and whatever else writes the store, the
  rate windows or the live feed.
\<close>

inductive serve_step :: "serve_env \<Rightarrow> serving \<Rightarrow> serving \<Rightarrow> bool" for e where
  starts: "ts t = None \<Longrightarrow> serve_step e (ap, ts) (settle t ts (serve_start e now_iso now tick gen q t ap))"
| resumes: "w \<in> set (sem_waiters (sy_sched (ap_scheduler ap))) \<Longrightarrow> wt_state w \<noteq> Pending \<Longrightarrow> ts (wt_task w) = Some (Queued q a) \<Longrightarrow>
    serve_step e (ap, ts) (settle (wt_task w) ts (serve_resume e now tick gen q a w ap))"
| ends: "ts t = Some (Running sd) \<Longrightarrow> serve_step e (ap, ts) (settle t ts (finish_generation e record_fails now err en sd ap))"
| times_out: "sc_queue_timeout_s (sy_sched (ap_scheduler ap)) > 0 \<Longrightarrow> serve_step e (ap, ts) (with_sched (cancel_waiter ByTimeout t) ap, ts)"
| disconnects: "serve_step e (ap, ts) (with_sched (cancel_waiter ByClient t) ap, ts)"
| drains: "serve_step e (ap, ts) (with_sched begin_drain ap, ts)"
| refreshes: "serve_step e (ap, ts) (ap\<lparr>ap_registry := refresh_health probe stats (ap_registry ap)\<rparr>, ts)"
| samples: "serve_step e (ap, ts) (ap\<lparr>ap_counters := snd (counters_snapshot_of now (ap_counters ap))\<rparr>, ts)"
| others: "inflight (gw_limiter g) = inflight (gw_limiter (ap_gateway ap)) \<Longrightarrow> serve_step e (ap, ts) (ap\<lparr>ap_gateway := g, ap_bus := b\<rparr>, ts)"

inductive_cases serve_step_elim: "serve_step e s s'"

text \<open>The engine when it starts to serve.\<close>

definition fresh_app :: "app_state \<Rightarrow> bool" where
  "fresh_app ap \<longleftrightarrow> (\<forall>k. inflight (gw_limiter (ap_gateway ap)) k = 0) \<and> registry_wf (ap_registry ap) \<and>
     (\<forall>i. entry_in_flight (ap_registry ap) i = 0) \<and> cn_requests_active (ap_counters ap) = 0 \<and>
     (\<exists>c d t s. scheduler_init c d t = Inr s \<and> ap_scheduler ap = sched_start s)"

section \<open>What a request holds\<close>

fun access_of :: "phase \<Rightarrow> api_access option" where
  "access_of (Queued q a) = Some a"
| "access_of (Rejected x) = None"
| "access_of (Failed x a) = Some a"
| "access_of (Running sd) = Some (sd_access sd)"
| "access_of (Over ok a) = Some a"

definition holds_key_slot :: "string \<Rightarrow> phase \<Rightarrow> bool" where
  "holds_key_slot k p \<longleftrightarrow> (case access_of p of None \<Rightarrow> False | Some a \<Rightarrow> ac_slot_held a \<and> ac_key_id a = k)"

fun queued :: "phase \<Rightarrow> bool" where
  "queued (Queued q a) = True" | "queued (Rejected x) = False" | "queued (Failed x a) = False" | "queued (Running sd) = False" | "queued (Over ok a) = False"

fun running :: "phase \<Rightarrow> bool" where
  "running (Queued q a) = False" | "running (Rejected x) = False" | "running (Failed x a) = False" | "running (Running sd) = True" | "running (Over ok a) = False"

fun runs_on :: "nat \<Rightarrow> phase \<Rightarrow> bool" where
  "runs_on i (Running sd) = (rl_entry (sd_registry_lease sd) = i)" | "runs_on i (Queued q a) = False" | "runs_on i (Rejected x) = False" | "runs_on i (Failed x a) = False" | "runs_on i (Over ok a) = False"

text \<open>Counted by the active gauge: the running requests, and the ones whose usage was not recorded.\<close>

fun gauged :: "phase \<Rightarrow> bool" where
  "gauged (Running sd) = True" | "gauged (Over ok a) = (\<not> ok)" | "gauged (Queued q a) = False" | "gauged (Rejected x) = False" | "gauged (Failed x a) = False"

text \<open>The number of requests in a phase with the property \<open>P\<close>.\<close>

definition census :: "(phase \<Rightarrow> bool) \<Rightarrow> (nat \<rightharpoonup> phase) \<Rightarrow> nat" where
  "census P ts = card {t. \<exists>p. ts t = Some p \<and> P p}"

lemma census_finite: "finite (dom ts) \<Longrightarrow> finite {t. \<exists>p. ts t = Some p \<and> P p}"
  by (rule finite_subset[rotated]) (auto simp: dom_def)

lemma census_update:
  assumes "finite (dom ts)"
  shows "census P (ts(t \<mapsto> p)) + (case ts t of None \<Rightarrow> 0 | Some p' \<Rightarrow> of_bool (P p')) = census P ts + of_bool (P p)"
proof -
  let ?S = "{u. \<exists>p. ts u = Some p \<and> P p}"
  have upd: "{u. \<exists>p'. (ts(t \<mapsto> p)) u = Some p' \<and> P p'} = (if P p then insert t ?S else ?S - {t})" by auto
  have f: "finite ?S" by (rule census_finite[OF assms])
  have m: "t \<in> ?S \<longleftrightarrow> (case ts t of None \<Rightarrow> False | Some p' \<Rightarrow> P p')" by (auto split: option.splits)
  show ?thesis
    unfolding census_def upd using m card_Suc_Diff1[OF f, of t] f
    by (cases "ts t") (auto simp: card_insert_if)
qed

lemma census_empty: "census P Map.empty = 0"
  by (simp add: census_def)

section \<open>Lemmas: capacity through the operations\<close>

text \<open>What a request's phase says of its access handle and its leases.\<close>

fun phase_ok :: "nat \<Rightarrow> phase \<Rightarrow> bool" where
  "phase_ok t (Queued q a) \<longleftrightarrow> \<not> ac_finalized a \<and> (ac_slot_held a \<longleftrightarrow> ac_key_id a \<noteq> LOCAL_KEY_ID)"
| "phase_ok t (Rejected x) \<longleftrightarrow> True"
| "phase_ok t (Failed x a) \<longleftrightarrow> (ac_slot_held a \<longleftrightarrow> x = ClientGone \<and> ac_key_id a \<noteq> LOCAL_KEY_ID)"
| "phase_ok t (Running sd) \<longleftrightarrow> \<not> ac_finalized (sd_access sd) \<and> (ac_slot_held (sd_access sd) \<longleftrightarrow> ac_key_id (sd_access sd) \<noteq> LOCAL_KEY_ID) \<and>
     sd_task sd = t \<and> \<not> rl_released (sd_registry_lease sd)"
| "phase_ok t (Over ok a) \<longleftrightarrow> \<not> ac_slot_held a"

abbreviation slots :: "app_state \<Rightarrow> string \<Rightarrow> nat" where
  "slots ap \<equiv> inflight (gw_limiter (ap_gateway ap))"

definition reserves :: "registry \<Rightarrow> (acquire_error, registry_lease) result \<times> registry \<Rightarrow> bool" where
  "reserves r x \<longleftrightarrow> (case fst x of Inl err \<Rightarrow> snd x = r | Inr l \<Rightarrow> reserve (rl_entry l) r = Some (snd x) \<and> \<not> rl_released l)"

lemma released_with: "rl_released (with_policy p s x l) = rl_released l" "rl_released (with_workload_rule n l) = rl_released l"
  by (simp_all add: with_policy_def with_workload_rule_def Let_def)

lemma registry_acquire_ok:
  assumes "registry_wf r" shows "reserves r (registry_acquire digest key a m f r)"
proof (cases "registry_acquire digest key a m f r")
  case (Pair x r1)
  show ?thesis
  proof (cases x)
    case (Inl err)
    then show ?thesis using Pair registry_acquire_refused[OF Pair[unfolded Inl]] by (simp add: reserves_def)
  next
    case (Inr l)
    then show ?thesis
      using registry_acquire_reserves[OF assms Pair[unfolded Inr], of "reserve (rl_entry l) r = Some r1 \<and> \<not> rl_released l"] Pair
      by (simp add: reserves_def)
  qed
qed

lemma acquire_virtual_ok:
  assumes "registry_wf r" shows "reserves r (acquire_virtual digest ro name key f r)"
proof (cases "cascade_loop (\<lambda>scope. registry_acquire digest key (Some scope) None f) 0 False False (scopes ro name) r")
  case (Pair c r1)
  show ?thesis
  proof (cases c)
    case (Inl bf)
    obtain b x where bf: "bf = (b, x)" by (cases bf)
    have "r1 = r"
      using Pair reg_cascade.cascade_failed[of digest key f 0 False False "scopes ro name" r b x r1] Inl bf by simp
    then show ?thesis using Pair Inl bf by (simp add: acquire_virtual_def reserves_def)
  next
    case (Inr li)
    obtain l i where li: "li = (l, i)" by (cases li)
    have "registry_acquire digest key (Some (scopes ro name ! i)) None f r = (Inr l, r1)"
      using Pair reg_cascade.cascade_served[of digest key f 0 False False "scopes ro name" r l i r1] Inr li by simp
    then show ?thesis
      using registry_acquire_ok[OF assms, of digest key "Some (scopes ro name ! i)" None f] Pair Inr li
      by (simp add: acquire_virtual_def reserves_def released_with)
  qed
qed

lemma acquire_base_ok:
  assumes "registry_wf r" shows "reserves r (acquire_base digest ro name key f r)"
  using registry_acquire_ok[OF assms, of digest key None "Some name" f] acquire_virtual_ok[OF assms, of digest ro name key f]
  by (auto simp: acquire_base_def reserves_def released_with split: sum.splits prod.splits)

lemma router_acquire_ok:
  assumes "registry_wf r" shows "reserves r (router_acquire digest ro name key f r)"
proof (cases "matching_workload_rule ro name f")
  case None
  then show ?thesis using acquire_base_ok[OF assms] by (simp add: router_acquire_def)
next
  case (Some rule)
  obtain x r1 where x: "registry_acquire digest key (Some (wr_preferred_backends rule)) (Some name) f r = (x, r1)" by force
  note ok = registry_acquire_ok[OF assms, of digest key "Some (wr_preferred_backends rule)" "Some name" f]
  show ?thesis
  proof (cases x)
    case (Inl err)
    then show ?thesis using Some x ok acquire_base_ok[OF assms, of digest ro name key f] by (simp add: router_acquire_def reserves_def)
  next
    case (Inr l)
    then show ?thesis using Some x ok by (simp add: router_acquire_def reserves_def released_with)
  qed
qed

lemma abort_access_effect:
  assumes "\<not> ac_finalized a" and "ac_slot_held a \<Longrightarrow> 0 < slots ap (ac_key_id a)" and "abort_access a ap = (a', ap')"
  shows "slots ap' k + of_bool (ac_slot_held a \<and> ac_key_id a = k) = slots ap k"
    and "\<not> ac_slot_held a'" and "ap' = ap\<lparr>ap_gateway := ap_gateway ap'\<rparr>"
  using assms
  by (auto simp: abort_access_def abort_def free_slot_def Let_def key_slots.release_used split: if_splits prod.splits)

lemma lease_release_effect:
  assumes "reserve (rl_entry rl) r = Some r'" and "\<not> rl_released rl"
  shows "entry_in_flight (snd (registry_lease_release rl r')) = entry_in_flight r"
  using assms backend_slots.acquire_release_used[OF assms(1)] by (simp add: registry_lease_release_def)

lemma reserve_wf: "registry_wf r \<Longrightarrow> reserve i r = Some r' \<Longrightarrow> registry_wf r'"
  by (auto simp: reserve_def registry_wf_set_in_flight split: if_splits)

lemma registry_release_wf: "registry_wf r \<Longrightarrow> registry_wf (snd (registry_lease_release rl r))"
  by (simp add: registry_lease_release_def registry_release_def registry_wf_set_in_flight)

lemma release_lease_simps [simp]:
  "ap_gateway (release_lease t c ap) = ap_gateway ap" "ap_registry (release_lease t c ap) = ap_registry ap"
  "ap_counters (release_lease t c ap) = ap_counters ap" "ap_scheduler (release_lease t c ap) = lease_release t c (ap_scheduler ap)"
  by (simp_all add: release_lease_def)

lemma shed_simps [simp]:
  "ap_gateway (shed q ap) = ap_gateway ap" "ap_registry (shed q ap) = ap_registry ap"
  "ap_counters (shed q ap) = ap_counters ap" "ap_scheduler (shed q ap) = ap_scheduler ap"
  "ap_gateway (reject_feed now q x n ap) = ap_gateway ap" "ap_registry (reject_feed now q x n ap) = ap_registry ap"
  "ap_counters (reject_feed now q x n ap) = ap_counters ap" "ap_scheduler (reject_feed now q x n ap) = ap_scheduler ap"
  by (simp_all add: shed_def reject_feed_def)

text \<open>
  The capacity a part of the lifecycle moves, from a state in which the request holds what \<open>a\<close>
  says and nothing else to its phase \<open>p\<close>.
\<close>

definition moves :: "api_access \<Rightarrow> nat \<Rightarrow> app_state \<Rightarrow> phase \<times> app_state \<Rightarrow> bool" where
  "moves a t ap r \<longleftrightarrow>
     (\<forall>k. slots (snd r) k + of_bool (ac_slot_held a \<and> ac_key_id a = k) = slots ap k + of_bool (holds_key_slot k (fst r))) \<and>
     (\<forall>i. entry_in_flight (ap_registry (snd r)) i = entry_in_flight (ap_registry ap) i + of_bool (runs_on i (fst r))) \<and>
     cn_requests_active (ap_counters (snd r)) = cn_requests_active (ap_counters ap) + of_bool (gauged (fst r)) \<and>
     registry_wf (ap_registry (snd r)) \<and> phase_ok t (fst r)"

definition access_ok :: "api_access \<Rightarrow> app_state \<Rightarrow> bool" where
  "access_ok a ap \<longleftrightarrow> \<not> ac_finalized a \<and> (ac_slot_held a \<longleftrightarrow> ac_key_id a \<noteq> LOCAL_KEY_ID) \<and>
     (ac_slot_held a \<longrightarrow> 0 < slots ap (ac_key_id a))"

lemma moves_given_up:
  assumes "access_ok a ap" and "registry_wf (ap_registry ap')" and "x \<noteq> ClientGone"
    and "abort_access a ap0 = (a', ap1)" and "slots ap0 = slots ap" and "ap_gateway ap' = ap_gateway ap1"
    and "entry_in_flight (ap_registry ap') = entry_in_flight (ap_registry ap)"
    and "cn_requests_active (ap_counters ap') = cn_requests_active (ap_counters ap)"
  shows "moves a t ap (Failed x a', ap')"
proof -
  have ab: "slots ap1 k + of_bool (ac_slot_held a \<and> ac_key_id a = k) = slots ap0 k" "\<not> ac_slot_held a'" for k
    using abort_access_effect(1)[of a ap0 a' ap1 k] abort_access_effect(2)[of a ap0 a' ap1] assms(1,4,5) by (auto simp: access_ok_def)
  then show ?thesis using assms by (simp add: moves_def holds_key_slot_def)
qed

lemma moves_generate_failed:
  assumes "access_ok a ap" and "registry_wf r" and "reserve (rl_entry rl) (ap_registry ap) = Some r" and "\<not> rl_released rl"
  shows "moves a t ap (generate_failed now exc q t w a rl (ap\<lparr>ap_registry := r, ap_counters := request_started now (ap_counters ap), ap_bus := b\<rparr>))"
proof -
  let ?ap0 = "ap\<lparr>ap_registry := r, ap_counters := request_started now (ap_counters ap), ap_bus := b\<rparr>"
  let ?ap1 = "?ap0\<lparr>ap_route_metrics := record_route_outcome (rl_decision rl) (rq_model_id q) (entry_name rl r) (Some (w * 1000)) 0 0 0 None None 0
    OutcomeError (ap_route_metrics ap)\<rparr>"
  let ?ap2 = "release_lease t False (?ap1\<lparr>ap_registry := snd (registry_lease_release rl r)\<rparr>)"
  obtain a' ap3 where ab: "abort_access a ?ap2 = (a', ap3)" by force
  have ap3: "ap3 = ?ap2\<lparr>ap_gateway := ap_gateway ap3\<rparr>" using ab by (auto simp: abort_access_def split: prod.splits)
  obtain ap4 where res: "generate_failed now exc q t w a rl ?ap0 = (Failed (GenerateError exc) a', ap4)"
    and ap4: "ap_gateway ap4 = ap_gateway ap3" "ap_registry ap4 = ap_registry ap3"
      "ap_counters ap4 = request_finished 0 0 True (ap_counters ap3)"
    using ab by (simp add: generate_failed_def Let_def)
  have reg: "ap_registry ap3 = snd (registry_lease_release rl r)" and cn: "ap_counters ap3 = request_started now (ap_counters ap)"
    by (subst ap3, simp)+
  have "cn_requests_active (ap_counters ap4) = cn_requests_active (ap_counters ap)"
    by (simp add: ap4 cn request_finished_def request_started_def trim_starts_def)
  moreover have "entry_in_flight (ap_registry ap4) = entry_in_flight (ap_registry ap)"
    using lease_release_effect[OF assms(3,4)] by (simp add: ap4 reg)
  ultimately show ?thesis unfolding res
    using assms(1) registry_release_wf[OF assms(2)] ap4
    by (intro moves_given_up[OF _ _ _ ab]) (simp_all add: reg)
qed

lemma moves_place:
  assumes "access_ok a ap" and "registry_wf (ap_registry ap)"
  shows "moves a t ap (serve_place e now gen q t w a ap)"
proof -
  obtain x r where x: "router_acquire (se_digest e) (se_router e) (rq_route_model q) (prefix_key_of e q) (rq_features q) (ap_registry ap) = (x, r)" by force
  have ok: "reserves (ap_registry ap) (x, r)" using router_acquire_ok[OF assms(2)] x by metis
  obtain a' ap' where ab: "abort_access a (release_lease t False (ap\<lparr>ap_registry := r\<rparr>)) = (a', ap')" by force
  have ap': "ap' = (release_lease t False (ap\<lparr>ap_registry := r\<rparr>))\<lparr>ap_gateway := ap_gateway ap'\<rparr>"
    using ab by (auto simp: abort_access_def split: prod.splits)
  have f: "ap_registry ap' = r" "ap_counters ap' = ap_counters ap" by (subst ap', simp)+
  show ?thesis
  proof (cases x)
    case (Inl err)
    then have "r = ap_registry ap" using ok by (simp add: reserves_def)
    then show ?thesis using x Inl ab f assms
      by (cases err) (auto simp: serve_place_def Let_def intro!: moves_given_up[OF assms(1) _ _ ab])
  next
    case (Inr rl)
    then have rl: "reserve (rl_entry rl) (ap_registry ap) = Some r" "\<not> rl_released rl" using ok by (simp_all add: reserves_def)
    show ?thesis
    proof (cases gen)
      case None
      then show ?thesis using x Inr rl assms reserve_wf[OF assms(2) rl(1)] backend_slots.acquire_used[OF rl(1)]
        by (auto simp: serve_place_def Let_def moves_def holds_key_slot_def access_ok_def request_started_def trim_starts_def)
    next
      case (Some exc)
      then show ?thesis using x Inr moves_generate_failed[OF assms(1) reserve_wf[OF assms(2) rl(1)] rl]
        by (simp add: serve_place_def Let_def)
    qed
  qed
qed

lemma moves_admit:
  assumes "access_ok a ap" and "registry_wf (ap_registry ap)"
  shows "moves a t ap (serve_admit e now gen q t a r ap)"
proof -
  let ?ap = "ap\<lparr>ap_scheduler := grant t r (ap_scheduler ap)\<rparr>"
  have ok: "access_ok a ?ap" using assms(1) by (simp add: access_ok_def)
  have same: "moves a t ?ap x \<longleftrightarrow> moves a t ap x" for x by (simp add: moves_def)
  obtain a' ap' where ab: "abort_access a ?ap = (a', ap')" by force
  have ap': "ap' = ?ap\<lparr>ap_gateway := ap_gateway ap'\<rparr>" using ab by (auto simp: abort_access_def split: prod.splits)
  have f: "ap_registry ap' = ap_registry ap" "ap_counters ap' = ap_counters ap" by (subst ap', simp)+
  show ?thesis
  proof (cases "fst r")
    case (Saturated reason n)
    then show ?thesis using ab f assms
      by (auto simp: serve_admit_def Let_def intro!: moves_given_up[OF assms(1) _ _ ab])
  next
    case (Leased w)
    have "moves a t ?ap (serve_place e now gen q t w a ?ap)" by (rule moves_place[OF ok]) (simp add: assms(2))
    then show ?thesis using Leased same by (simp add: serve_admit_def Let_def)
  qed (use assms in \<open>auto simp: serve_admit_def Let_def moves_def holds_key_slot_def access_ok_def\<close>)
qed

section \<open>Lemmas: the scheduler's side\<close>

lemma abort_access_scheduler: "abort_access a ap = (a', ap') \<Longrightarrow> ap_scheduler ap' = ap_scheduler ap"
  by (auto simp: abort_access_def split: prod.splits)

lemma place_scheduler:
  assumes "serve_place e now gen q t w a ap = (p, ap')"
  shows "\<not> queued p \<and> ap_scheduler ap' = (if running p then ap_scheduler ap else lease_release t False (ap_scheduler ap))"
  using assms
  by (auto simp: serve_place_def generate_failed_def Let_def dest!: abort_access_scheduler
      split: prod.splits sum.splits acquire_error.splits if_splits option.splits)

text \<open>What the outcome of \<open>admit\<close> means for the phase and the scheduler \<open>y\<close>.\<close>

definition admitted_as :: "nat \<Rightarrow> admit_outcome \<Rightarrow> sched_sys \<Rightarrow> phase \<Rightarrow> sched_sys \<Rightarrow> bool" where
  "admitted_as t out y p y' \<longleftrightarrow>
     (case out of
        Waits \<Rightarrow> queued p \<and> y' = y
      | Leased _ \<Rightarrow> \<not> queued p \<and> y' = (if running p then y else lease_release t False y)
      | _ \<Rightarrow> \<not> queued p \<and> \<not> running p \<and> y' = y)"

lemma admit_scheduler:
  assumes "serve_admit e now gen q t a r ap = (p, ap')"
  shows "admitted_as t (fst r) (grant t r (ap_scheduler ap)) p (ap_scheduler ap')"
  using assms place_scheduler[of e now gen q t _ a "ap\<lparr>ap_scheduler := grant t r (ap_scheduler ap)\<rparr>" p ap']
  by (auto simp: serve_admit_def admitted_as_def Let_def dest!: abort_access_scheduler
      split: admit_outcome.splits prod.splits)

definition sched_link :: "sched_sys \<Rightarrow> (nat \<rightharpoonup> phase) \<Rightarrow> bool" where
  "sched_link y ts \<longleftrightarrow> sched_inv y \<and>
     wt_task ` set (sem_waiters (sy_sched y)) = {t. \<exists>p. ts t = Some p \<and> queued p} \<and>
     (\<forall>t\<in>dom (sy_leases y). \<exists>p. ts t = Some p \<and> \<not> queued p) \<and>
     live_leases y = {t. \<exists>p. ts t = Some p \<and> running p}"

lemma lease_release_tasks:
  "wt_task ` set (sem_waiters (sy_sched (lease_release t c y))) = wt_task ` set (sem_waiters (sy_sched y))"
proof -
  have "map wt_task (sem_waiters (sched_release c s)) = map wt_task (sem_waiters s)" for s
    by (rule sem_release_waiters)
  from arg_cong[OF this, of set] show ?thesis by (simp add: lease_release_def split: option.splits bool.splits)
qed

lemma lease_release_live:
  "live_leases (lease_release t c y) = live_leases y - {t}" "dom (sy_leases (lease_release t c y)) = dom (sy_leases y)"
  by (auto simp: lease_release_def live_leases_def split: option.splits bool.splits if_splits)

lemma sched_link_admit:
  assumes "sched_link y ts" and "case ts t of None \<Rightarrow> True | Some p' \<Rightarrow> queued p'"
    and "sched_inv (grant t r y)"
    and "wt_task ` set (sem_waiters (sy_sched (grant t r y))) = {u. u = t \<and> fst r = Waits} \<union> ({u. \<exists>p. ts u = Some p \<and> queued p} - {t})"
    and "admitted_as t (fst r) (grant t r y) p y'"
  shows "sched_link y' (ts(t \<mapsto> p))"
proof -
  have other: "u \<in> dom (sy_leases y) \<Longrightarrow> \<exists>p. ts u = Some p \<and> \<not> queued p" for u using assms(1) by (simp add: sched_link_def)
  have dom: "t \<notin> dom (sy_leases y)" using other[of t] assms(2) by (cases "ts t") auto
  have live: "t \<notin> live_leases y" using dom by (auto simp: live_leases_def)
  have run: "u \<in> live_leases y \<longleftrightarrow> (\<exists>p. ts u = Some p \<and> running p)" for u using assms(1) by (auto simp: sched_link_def)
  have y': "y' = grant t r y \<or> (\<exists>x. fst r = Leased x) \<and> y' = lease_release t False (grant t r y)"
    using assms(5) by (auto simp: admitted_as_def split: admit_outcome.splits if_splits)
  have inv: "sched_inv y'" using y' assms(3) sched_inv_finish by auto
  have wait: "wt_task ` set (sem_waiters (sy_sched y')) = {u. u = t \<and> fst r = Waits} \<union> ({u. \<exists>p. ts u = Some p \<and> queued p} - {t})"
    by (rule disjE[OF y'], simp only: assms(4), elim conjE, simp only: lease_release_tasks assms(4))
  have lv: "live_leases (grant t r y) = {u. u = t \<and> (\<exists>x. fst r = Leased x)} \<union> live_leases y"
    "dom (sy_leases (grant t r y)) = {u. u = t \<and> (\<exists>x. fst r = Leased x)} \<union> dom (sy_leases y)"
    using live by (auto simp: grant_def live_leases_def split: prod.splits admit_outcome.splits)
  have d: "dom (sy_leases y') = {u. u = t \<and> (\<exists>x. fst r = Leased x)} \<union> dom (sy_leases y)"
    by (rule disjE[OF y'], simp only: lv(2), elim conjE, simp only: lease_release_live(2) lv(2))
  have l: "live_leases y' = {u. u = t \<and> running p} \<union> live_leases y"
    using assms(5) lv(1) live lease_release_live(1)[of t False "grant t r y"]
    by (cases "fst r"; cases p) (auto simp: admitted_as_def)
  have q: "queued p \<longleftrightarrow> fst r = Waits" using assms(5) by (auto simp: admitted_as_def split: admit_outcome.splits)
  show ?thesis
    unfolding sched_link_def wait d l using inv q other run live dom by (auto simp: fun_upd_apply)
qed

lemma start_tasks:
  assumes "t \<notin> wt_task ` set (sem_waiters (sy_sched y))"
  shows "wt_task ` set (sem_waiters (sy_sched (grant t (admit_start t now (sy_sched y)) y))) =
    {u. u = t \<and> fst (admit_start t now (sy_sched y)) = Waits} \<union> (wt_task ` set (sem_waiters (sy_sched y)) - {t})"
  using assms by (auto simp: admit_start_def grant_def note_admitted_def)

lemma resume_tasks:
  assumes "sched_inv y" and "w \<in> set (sem_waiters (sy_sched y))" and "wt_state w \<noteq> Pending"
  shows "wt_task ` set (sem_waiters (sy_sched (grant (wt_task w) (admit_resume w now (sy_sched y)) y))) =
    {u. u = wt_task w \<and> fst (admit_resume w now (sy_sched y)) = Waits} \<union> (wt_task ` set (sem_waiters (sy_sched y)) - {wt_task w})"
proof -
  let ?s = "sy_sched y"
  have ok: "sem_ok ?s" and d: "distinct (map wt_task (sem_waiters ?s))" using assms(1) by (simp_all add: sched_inv_def lease_ok_def)
  have m: "map wt_task (sem_waiters (snd (admit_resume w now ?s))) = map wt_task (remove1 w (sem_waiters ?s))"
    using assms(3) sem_resume_props(5)[OF ok assms(2,3)]
    by (cases "wt_state w") (auto simp: admit_resume_def Let_def note_admitted_def)
  have g: "sem_waiters (sy_sched (grant (wt_task w) (admit_resume w now ?s) y)) = sem_waiters (snd (admit_resume w now ?s))"
    by (auto simp: grant_def split: prod.splits admit_outcome.splits)
  have n: "fst (admit_resume w now ?s) \<noteq> Waits" using assms(3) by (cases "wt_state w") (auto simp: admit_resume_def Let_def)
  have "wt_task ` set (remove1 w (sem_waiters ?s)) = wt_task ` set (sem_waiters ?s) - {wt_task w}"
  proof -
    have ds: "distinct (sem_waiters ?s)" "inj_on wt_task (set (sem_waiters ?s))" using d by (simp_all add: distinct_map)
    then show ?thesis using assms(2) inj_on_image_set_diff[OF ds(2), of "set (sem_waiters ?s)" "{w}"] by simp
  qed
  moreover have "wt_task ` set (sem_waiters (snd (admit_resume w now ?s))) = wt_task ` set (remove1 w (sem_waiters ?s))"
    using m by (metis list.set_map)
  ultimately show ?thesis using g n by simp
qed

lemma finalize_effect:
  assumes "\<not> ac_finalized a" and "ac_slot_held a \<Longrightarrow> 0 < inflight (gw_limiter g) (ac_key_id a)"
    and "finalize cfg hook fails now rid mo p c st (a, g) = (ok, a', g')"
  shows "inflight (gw_limiter g') k + of_bool (ac_slot_held a \<and> ac_key_id a = k) = inflight (gw_limiter g) k"
    and "\<not> ac_slot_held a'" and "ok \<longleftrightarrow> \<not> fails"
  using assms
  by (auto simp: finalize_def free_slot_def Let_def key_slots.release_used split: if_splits prod.splits option.splits)

text \<open>The end of a generation moves everything back.\<close>

lemma finish_moves:
  assumes "access_ok (sd_access sd) ap" and "\<not> rl_released (sd_registry_lease sd)"
    and "0 < entry_in_flight (ap_registry ap) (rl_entry (sd_registry_lease sd))" and "0 < cn_requests_active (ap_counters ap)"
    and "registry_wf (ap_registry ap)"
    and "finish_generation e fails now err en sd ap = (p, ap')"
  shows "slots ap' k + of_bool (holds_key_slot k (Running sd)) = slots ap k + of_bool (holds_key_slot k p)"
    and "entry_in_flight (ap_registry ap') i + of_bool (runs_on i (Running sd)) = entry_in_flight (ap_registry ap) i + of_bool (runs_on i p)"
    and "cn_requests_active (ap_counters ap') + of_bool (gauged (Running sd)) = cn_requests_active (ap_counters ap) + of_bool (gauged p)"
    and "registry_wf (ap_registry ap')" and "phase_ok t p" and "\<not> queued p" and "\<not> running p"
    and "ap_scheduler ap' = lease_release (sd_task sd) (was_cancelled err en)
      ((ap_scheduler ap)\<lparr>sy_sched := note_slow_consumer (en_backpressure_waits en) (sy_sched (ap_scheduler ap))\<rparr>)"
proof -
  let ?rl = "sd_registry_lease sd"
  obtain ok a' g where f: "finalize (se_cfg e) (se_hook e) fails now (rq_request_id (sd_request sd)) (Some (rq_model_id (sd_request sd)))
      (fst (tokens_of en)) (snd (tokens_of en)) (if err \<noteq> None then 500 else 200) (sd_access sd, ap_gateway ap) = (ok, a', g)"
    by (metis prod_cases3)
  have acc: "\<not> ac_finalized (sd_access sd)" "ac_slot_held (sd_access sd) \<Longrightarrow> 0 < inflight (gw_limiter (ap_gateway ap)) (ac_key_id (sd_access sd))"
    using assms(1) by (simp_all add: access_ok_def)
  note fin = finalize_effect[OF acc f]
  have p: "p = Over ok a'" and ap': "ap_gateway ap' = g" "ap_registry ap' = snd (registry_lease_release ?rl (ap_registry ap))"
    "ap_counters ap' = (if ok then request_finished (fst (tokens_of en)) (snd (tokens_of en)) (err \<noteq> None) (ap_counters ap) else ap_counters ap)"
    "ap_scheduler ap' = lease_release (sd_task sd) (was_cancelled err en)
      ((ap_scheduler ap)\<lparr>sy_sched := note_slow_consumer (en_backpressure_waits en) (sy_sched (ap_scheduler ap))\<rparr>)"
    using assms(6) f by (auto simp: finish_generation_def Let_def split: if_splits)
  show "slots ap' k + of_bool (holds_key_slot k (Running sd)) = slots ap k + of_bool (holds_key_slot k p)"
    using fin(1)[of k] fin(2) by (simp add: p ap' holds_key_slot_def)
  show "entry_in_flight (ap_registry ap') i + of_bool (runs_on i (Running sd)) = entry_in_flight (ap_registry ap) i + of_bool (runs_on i p)"
    using assms(2,3) by (simp add: p ap' registry_lease_release_def backend_slots.release_used)
  show "cn_requests_active (ap_counters ap') + of_bool (gauged (Running sd)) = cn_requests_active (ap_counters ap) + of_bool (gauged p)"
    using assms(4) by (simp add: p ap' request_finished_def)
  show "registry_wf (ap_registry ap')" "phase_ok t p" "\<not> queued p" "\<not> running p"
    using assms(5) fin(2) by (simp_all add: p ap' registry_release_wf)
  show "ap_scheduler ap' = lease_release (sd_task sd) (was_cancelled err en)
      ((ap_scheduler ap)\<lparr>sy_sched := note_slow_consumer (en_backpressure_waits en) (sy_sched (ap_scheduler ap))\<rparr>)"
    by (rule ap'(4))
qed

section \<open>The invariant\<close>

text \<open>Every gauge is the number of requests that hold what it counts.\<close>

definition books :: "app_state \<Rightarrow> (nat \<rightharpoonup> phase) \<Rightarrow> bool" where
  "books ap ts \<longleftrightarrow> (\<forall>k. slots ap k = census (holds_key_slot k) ts) \<and> (\<forall>i. entry_in_flight (ap_registry ap) i = census (runs_on i) ts) \<and>
     cn_requests_active (ap_counters ap) = census gauged ts"

definition serve_inv :: "serving \<Rightarrow> bool" where
  "serve_inv s \<longleftrightarrow> finite (dom (snd s)) \<and> sched_link (ap_scheduler (fst s)) (snd s) \<and> registry_wf (ap_registry (fst s)) \<and>
     books (fst s) (snd s) \<and> (\<forall>t p. snd s t = Some p \<longrightarrow> phase_ok t p)"

definition before :: "(phase \<Rightarrow> bool) \<Rightarrow> phase option \<Rightarrow> nat" where
  "before P x = (case x of None \<Rightarrow> 0 | Some p \<Rightarrow> of_bool (P p))"

lemma books_update:
  assumes "finite (dom ts)" and "books ap ts"
    and "\<And>k. slots ap' k + before (holds_key_slot k) (ts t) = slots ap k + of_bool (holds_key_slot k p)"
    and "\<And>i. entry_in_flight (ap_registry ap') i + before (runs_on i) (ts t) = entry_in_flight (ap_registry ap) i + of_bool (runs_on i p)"
    and "cn_requests_active (ap_counters ap') + before gauged (ts t) = cn_requests_active (ap_counters ap) + of_bool (gauged p)"
  shows "books ap' (ts(t \<mapsto> p))"
proof -
  have c: "census P (ts(t \<mapsto> p)) + before P (ts t) = census P ts + of_bool (P p)" for P
    using census_update[OF assms(1), of P t p] by (simp add: before_def)
  have "slots ap' k = census (holds_key_slot k) (ts(t \<mapsto> p))" for k
    using c[of "holds_key_slot k"] assms(3)[of k] assms(2) by (simp add: books_def)
  moreover have "entry_in_flight (ap_registry ap') i = census (runs_on i) (ts(t \<mapsto> p))" for i
    using c[of "runs_on i"] assms(4)[of i] assms(2) by (simp add: books_def)
  moreover have "cn_requests_active (ap_counters ap') = census gauged (ts(t \<mapsto> p))"
    using c[of gauged] assms(5) assms(2) by (simp add: books_def)
  ultimately show ?thesis by (simp add: books_def)
qed

lemma census_pos: "finite (dom ts) \<Longrightarrow> ts t = Some p \<Longrightarrow> P p \<Longrightarrow> 0 < census P ts"
  using census_finite[of ts P] by (auto simp: census_def card_gt_0_iff)

lemma inv_access_ok:
  assumes "serve_inv (ap, ts)" and "ts t = Some p" and "access_of p = Some a" and "queued p \<or> running p"
  shows "access_ok a ap"
proof -
  have ok: "phase_ok t p" and b: "slots ap k = census (holds_key_slot k) ts" and f: "finite (dom ts)" for k
    using assms(1,2) by (auto simp: serve_inv_def books_def)
  have "\<not> ac_finalized a \<and> (ac_slot_held a \<longleftrightarrow> ac_key_id a \<noteq> LOCAL_KEY_ID)"
    using ok assms(3,4) by (cases p) auto
  moreover have "0 < slots ap (ac_key_id a)" if "ac_slot_held a"
    unfolding b using that assms(3) by (intro census_pos[OF f assms(2)]) (simp add: holds_key_slot_def)
  ultimately show ?thesis by (simp add: access_ok_def)
qed

lemma serve_inv_settle:
  assumes "serve_inv (ap, ts)" and "sched_link (ap_scheduler ap') (ts(t \<mapsto> p))" and "registry_wf (ap_registry ap')"
    and "phase_ok t p" and "books ap' (ts(t \<mapsto> p))"
  shows "serve_inv (settle t ts (p, ap'))"
  using assms by (auto simp: serve_inv_def settle_def)

lemma serve_inv_start:
  assumes "serve_inv (ap, ts)" and "ts t = None"
  shows "serve_inv (settle t ts (serve_start e now_iso now tick gen q t ap))"
proof -
  obtain x g where x: "authorize_token (se_cfg e) (se_hash e) now_iso now (rq_token q) (rq_prompt_text q) (rq_max_tokens q) (rq_endpoint q)
      (Some (rq_model_id q)) (ap_gateway ap) = (x, g)" by force
  note sl = authorize_slots[OF x]
  have inv: "finite (dom ts)" "sched_link (ap_scheduler ap) ts" "registry_wf (ap_registry ap)" "books ap ts"
    using assms(1) by (simp_all add: serve_inv_def)
  show ?thesis
  proof (cases x)
    case (Inl err)
    have "books (ap\<lparr>ap_gateway := g\<rparr>) (ts(t \<mapsto> Rejected (AuthRefused err)))"
      by (rule books_update[OF inv(1,4)]) (use sl in \<open>simp_all add: assms(2) Inl before_def holds_key_slot_def\<close>)
    moreover have "sched_link (ap_scheduler ap) (ts(t \<mapsto> Rejected (AuthRefused err)))"
      using inv(2) assms(2) by (fastforce simp: sched_link_def)
    ultimately show ?thesis using inv(3) x Inl by (simp add: serve_start_def serve_inv_settle[OF assms(1)])
  next
    case (Inr a)
    let ?ap = "ap\<lparr>ap_gateway := g\<rparr>" and ?r = "admit_start t tick (sy_sched (ap_scheduler ap))"
    have a: "access_ok a ?ap" and s: "slots ?ap k = slots ap k + of_bool (ac_slot_held a \<and> ac_key_id a = k)" for k
      using sl by (auto simp: Inr access_ok_def)
    obtain p ap' where r: "serve_admit e now gen q t a ?r ?ap = (p, ap')" by force
    have mv: "moves a t ?ap (p, ap')" using moves_admit[OF a, of t e now gen q ?r] inv(3) r by simp
    have "wt_task ` set (sem_waiters (sy_sched (ap_scheduler ap))) = {t. \<exists>p. ts t = Some p \<and> queued p}" "t \<notin> dom (sy_leases (ap_scheduler ap))"
      using inv(2) assms(2) unfolding sched_link_def by (blast, metis option.distinct(1))
    moreover from this have "t \<notin> wt_task ` set (sem_waiters (sy_sched (ap_scheduler ap)))" using assms(2) by simp
    ultimately have "sched_link (ap_scheduler ap') (ts(t \<mapsto> p))"
      using sched_inv_step[OF sched_step.arrive, of t "ap_scheduler ap" tick] inv(2) assms(2) start_tasks[of t "ap_scheduler ap" tick]
        admit_scheduler[OF r]
      by (intro sched_link_admit[OF inv(2), of t ?r]) (simp_all add: sched_link_def)
    moreover have "books ap' (ts(t \<mapsto> p))"
      by (rule books_update[OF inv(1,4)]) (use mv s in \<open>auto simp: assms(2) before_def moves_def\<close>)
    ultimately show ?thesis using mv x Inr r by (simp add: serve_start_def moves_def serve_inv_settle[OF assms(1)])
  qed
qed

lemma serve_inv_resume:
  assumes "serve_inv (ap, ts)" and w: "w \<in> set (sem_waiters (sy_sched (ap_scheduler ap)))" "wt_state w \<noteq> Pending"
    and t: "ts (wt_task w) = Some (Queued q a)"
  shows "serve_inv (settle (wt_task w) ts (serve_resume e now tick gen q a w ap))"
proof -
  let ?t = "wt_task w" and ?r = "admit_resume w tick (sy_sched (ap_scheduler ap))"
  have inv: "finite (dom ts)" "sched_link (ap_scheduler ap) ts" "registry_wf (ap_registry ap)" "books ap ts"
    using assms(1) by (simp_all add: serve_inv_def)
  have a: "access_ok a ap" by (rule inv_access_ok[OF assms(1) t]) simp_all
  obtain p ap' where r: "serve_admit e now gen q ?t a ?r ap = (p, ap')" by force
  have mv: "moves a ?t ap (p, ap')" using moves_admit[OF a inv(3), of ?t e now gen q ?r] r by simp
  have si: "sched_inv (ap_scheduler ap)" and q: "wt_task ` set (sem_waiters (sy_sched (ap_scheduler ap))) = {t. \<exists>p. ts t = Some p \<and> queued p}"
    using inv(2) by (simp_all add: sched_link_def)
  have "sched_link (ap_scheduler ap') (ts(?t \<mapsto> p))"
    using sched_inv_step[OF sched_step.resume[OF w] si, of tick] resume_tasks[OF si w, of tick] admit_scheduler[OF r] t q
    by (intro sched_link_admit[OF inv(2), of ?t ?r]) simp_all
  moreover have "books ap' (ts(?t \<mapsto> p))"
    by (rule books_update[OF inv(1,4)]) (use mv in \<open>auto simp: t before_def moves_def holds_key_slot_def\<close>)
  ultimately show ?thesis using mv r by (simp add: serve_resume_def moves_def serve_inv_settle[OF assms(1)])
qed

lemma sched_link_over:
  assumes "sched_link y ts" and "ts t = Some (Running sd)" and "\<not> queued p" and "\<not> running p"
  shows "sched_link (lease_release t c (y\<lparr>sy_sched := note_slow_consumer n (sy_sched y)\<rparr>)) (ts(t \<mapsto> p))"
proof -
  let ?y = "y\<lparr>sy_sched := note_slow_consumer n (sy_sched y)\<rparr>"
  have l: "sched_inv y" "wt_task ` set (sem_waiters (sy_sched y)) = {t. \<exists>p. ts t = Some p \<and> queued p}"
    "\<forall>t\<in>dom (sy_leases y). \<exists>p. ts t = Some p \<and> \<not> queued p" "live_leases y = {t. \<exists>p. ts t = Some p \<and> running p}"
    using assms(1) by (simp_all add: sched_link_def)
  have "sched_inv (lease_release t c ?y)" using sched_inv_step[OF sched_step.slow l(1), of n] sched_inv_finish by blast
  moreover have "sem_waiters (sy_sched ?y) = sem_waiters (sy_sched y)" "live_leases ?y = live_leases y"
    by (simp_all add: note_slow_consumer_def live_leases_def)
  ultimately show ?thesis
    unfolding sched_link_def using l(2-4) assms(2-4) by (auto simp: lease_release_tasks lease_release_live)
qed

lemma serve_inv_end:
  assumes "serve_inv (ap, ts)" and t: "ts t = Some (Running sd)"
  shows "serve_inv (settle t ts (finish_generation e fails now err en sd ap))"
proof -
  have inv: "finite (dom ts)" "sched_link (ap_scheduler ap) ts" "registry_wf (ap_registry ap)" "books ap ts"
    using assms(1) by (simp_all add: serve_inv_def)
  have ok: "phase_ok t (Running sd)" using assms unfolding serve_inv_def snd_conv by blast
  obtain p ap' where r: "finish_generation e fails now err en sd ap = (p, ap')" by force
  have a: "access_ok (sd_access sd) ap" by (rule inv_access_ok[OF assms(1) t]) simp_all
  have "0 < entry_in_flight (ap_registry ap) (rl_entry (sd_registry_lease sd))" "0 < cn_requests_active (ap_counters ap)"
    using inv(4) census_pos[OF inv(1) t, of "runs_on (rl_entry (sd_registry_lease sd))"] census_pos[OF inv(1) t, of gauged]
    by (simp_all add: books_def)
  note fm = finish_moves[OF a _ this inv(3) r]
  have rl: "\<not> rl_released (sd_registry_lease sd)" and tk: "sd_task sd = t" using ok by simp_all
  have "books ap' (ts(t \<mapsto> p))"
    by (rule books_update[OF inv(1,4)]) (use fm(1-3)[OF rl] in \<open>simp_all add: t before_def\<close>)
  moreover have "sched_link (ap_scheduler ap') (ts(t \<mapsto> p))"
    unfolding fm(8)[OF rl] tk by (rule sched_link_over[OF inv(2) t fm(6,7)[OF rl]])
  ultimately show ?thesis unfolding r using fm(4,5)[OF rl] by (intro serve_inv_settle[OF assms(1)]) simp_all
qed

lemma sched_link_sched:
  assumes "sched_link y ts" and "sched_inv (y\<lparr>sy_sched := s\<rparr>)"
    and "map wt_task (sem_waiters s) = map wt_task (sem_waiters (sy_sched y))"
  shows "sched_link (y\<lparr>sy_sched := s\<rparr>) ts"
proof -
  have "wt_task ` set (sem_waiters s) = wt_task ` set (sem_waiters (sy_sched y))" using assms(3) by (metis list.set_map)
  then show ?thesis using assms(1,2) by (simp add: sched_link_def live_leases_def)
qed

lemma serve_inv_frame:
  assumes "serve_inv (ap, ts)" and "sched_link (ap_scheduler ap') ts" and "registry_wf (ap_registry ap')" and "slots ap' = slots ap"
    and "entry_in_flight (ap_registry ap') = entry_in_flight (ap_registry ap)"
    and "cn_requests_active (ap_counters ap') = cn_requests_active (ap_counters ap)"
  shows "serve_inv (ap', ts)"
  using assms by (simp add: serve_inv_def books_def)

lemma refresh_health_effect:
  assumes "registry_wf r"
  shows "registry_wf (refresh_health probe stats r) \<and> entry_in_flight (refresh_health probe stats r) = entry_in_flight r"
proof -
  have e: "be_order (refresh_entry x y b) = be_order b" "be_in_flight (refresh_entry x y b) = be_in_flight b" for x y b
    by (auto simp: refresh_entry_def Let_def split: option.splits)
  show ?thesis using assms by (auto simp: registry_wf_def refresh_health_def entry_in_flight_def e fun_eq_iff)
qed

lemma serve_inv_sched:
  assumes "serve_inv (ap, ts)" and "sched_step (ap_scheduler ap) ((ap_scheduler ap)\<lparr>sy_sched := f (sy_sched (ap_scheduler ap))\<rparr>)"
    and "map wt_task (sem_waiters (f (sy_sched (ap_scheduler ap)))) = map wt_task (sem_waiters (sy_sched (ap_scheduler ap)))"
  shows "serve_inv (with_sched f ap, ts)"
proof -
  have l: "sched_link (ap_scheduler ap) ts" using assms(1) by (simp add: serve_inv_def)
  then have "sched_inv ((ap_scheduler ap)\<lparr>sy_sched := f (sy_sched (ap_scheduler ap))\<rparr>)"
    using sched_inv_step[OF assms(2)] by (simp add: sched_link_def)
  from sched_link_sched[OF l this assms(3)] show ?thesis
    using assms(1) by (intro serve_inv_frame[OF assms(1)]) (simp_all add: with_sched_def serve_inv_def)
qed

lemma serve_inv_step: "serve_step e s s' \<Longrightarrow> serve_inv s \<Longrightarrow> serve_inv s'"
proof (induction rule: serve_step.induct)
  case (times_out ap ts t)
  then show ?case by (intro serve_inv_sched sched_step.timeout cancel_waiter_props(3))
next
  case (disconnects ap ts t)
  then show ?case by (intro serve_inv_sched sched_step.disconnect cancel_waiter_props(3))
next
  case (drains ap ts)
  then show ?case by (intro serve_inv_sched sched_step.drain) (simp_all add: begin_drain_def)
next
  case (refreshes ap ts probe stats)
  then show ?case using refresh_health_effect[of "ap_registry ap" probe stats]
    by (intro serve_inv_frame[OF refreshes]) (simp_all add: serve_inv_def)
next
  case (samples ap ts now)
  then show ?case
    by (intro serve_inv_frame[OF samples]) (simp_all add: serve_inv_def counters_snapshot_of_def trim_starts_def Let_def)
next
  case (others g ap ts b)
  then show ?case by (intro serve_inv_frame[OF others(2)]) (simp_all add: serve_inv_def)
qed (simp_all add: serve_inv_start serve_inv_resume serve_inv_end)

lemma serve_inv_fresh: "fresh_app ap \<Longrightarrow> serve_inv (ap, Map.empty)"
proof -
  assume a: "fresh_app ap"
  then obtain c d t s where s: "scheduler_init c d t = Inr s" "ap_scheduler ap = sched_start s" by (auto simp: fresh_app_def)
  have "sched_link (ap_scheduler ap) Map.empty"
    using sched_inv_init[OF s(1)] s by (auto simp: sched_link_def sched_start_def live_leases_def scheduler_init_def split: if_splits)
  then show ?thesis using a by (simp add: serve_inv_def books_def fresh_app_def census_empty)
qed

lemma serve_inv_reach: "(serve_step e)\<^sup>*\<^sup>* s s' \<Longrightarrow> serve_inv s \<Longrightarrow> serve_inv s'"
  by (induction rule: rtranclp_induct) (auto intro: serve_inv_step)

text \<open>
  C9. Capacity is conserved by the whole lifecycle. In every state the engine reaches, whatever
  requests arrive, wait, time out, fail at any stage, run and end in any interleaving: the slots
  in use of a key are the requests that hold one, and these are the waiting and the running
  requests of the key, and the ones cancelled while they waited; the scheduler's slots in use are
  the running requests, never more than its bound; the in-flight count of a backend is the number
  of requests running on it; and the gauge of active requests is the number of running requests,
  and of those whose usage could not be recorded.
\<close>

theorem serving_capacity_conserved:
  assumes "fresh_app ap0" and "(serve_step e)\<^sup>*\<^sup>* (ap0, Map.empty) (ap, ts)"
  shows "(\<forall>k. inflight (gw_limiter (ap_gateway ap)) k = card {t. \<exists>p. ts t = Some p \<and> holds_key_slot k p}) \<and>
    (\<forall>t p a. ts t = Some p \<and> access_of p = Some a \<longrightarrow>
       (ac_slot_held a \<longleftrightarrow> ac_key_id a \<noteq> LOCAL_KEY_ID \<and> (queued p \<or> running p \<or> p = Failed ClientGone a))) \<and>
    live_leases (ap_scheduler ap) = {t. \<exists>p. ts t = Some p \<and> running p} \<and>
    sc_in_use (sy_sched (ap_scheduler ap)) = card {t. \<exists>p. ts t = Some p \<and> running p} \<and>
    card {t. \<exists>p. ts t = Some p \<and> running p} \<le> sc_max_concurrency (sy_sched (ap_scheduler ap)) \<and>
    (\<forall>i. entry_in_flight (ap_registry ap) i = card {t. \<exists>p. ts t = Some p \<and> runs_on i p}) \<and>
    cn_requests_active (ap_counters ap) =
      card {t. \<exists>p. ts t = Some p \<and> running p} + card {t. \<exists>a. ts t = Some (Over False a)}"
proof -
  have inv: "serve_inv (ap, ts)" by (rule serve_inv_reach[OF assms(2) serve_inv_fresh[OF assms(1)]])
  then have l: "sched_link (ap_scheduler ap) ts" and b: "books ap ts" and f: "finite (dom ts)" by (simp_all add: serve_inv_def)
  let ?R = "{t. \<exists>p. ts t = Some p \<and> running p}" and ?O = "{t. \<exists>a. ts t = Some (Over False a)}"
  have live: "live_leases (ap_scheduler ap) = ?R" and si: "sched_inv (ap_scheduler ap)" using l by (simp_all add: sched_link_def)
  have use: "sc_in_use (sy_sched (ap_scheduler ap)) = card ?R" using live_within[OF si] live by simp
  moreover have "card ?R \<le> sc_max_concurrency (sy_sched (ap_scheduler ap))"
    using si use by (simp add: sched_inv_def sem_ok_def)
  moreover have "\<forall>t p a. ts t = Some p \<and> access_of p = Some a \<longrightarrow>
      (ac_slot_held a \<longleftrightarrow> ac_key_id a \<noteq> LOCAL_KEY_ID \<and> (queued p \<or> running p \<or> p = Failed ClientGone a))"
  proof (intro allI impI)
    fix t p a assume p: "ts t = Some p \<and> access_of p = Some a"
    then have "phase_ok t p" using inv by (simp add: serve_inv_def)
    then show "ac_slot_held a \<longleftrightarrow> ac_key_id a \<noteq> LOCAL_KEY_ID \<and> (queued p \<or> running p \<or> p = Failed ClientGone a)"
      using p by (cases p) auto
  qed
  moreover have "census gauged ts = card ?R + card ?O"
  proof -
    have "{t. \<exists>p. ts t = Some p \<and> gauged p} = ?R \<union> ?O"
    proof -
      have "gauged p \<longleftrightarrow> running p \<or> (\<exists>a. p = Over False a)" for p by (cases p) auto
      then show ?thesis by blast
    qed
    moreover have "finite ?R" "finite ?O" by (rule finite_subset[OF _ f]; auto)+
    moreover have "?R \<inter> ?O = {}" by auto
    ultimately show ?thesis by (simp add: census_def card_Un_disjoint)
  qed
  ultimately show ?thesis using b live unfolding books_def census_def by simp
qed

section \<open>What cancellation while queued leaves behind\<close>

text \<open>A request that was cancelled while it waited for a slot stays as it is for ever.\<close>

lemma gone_stays:
  assumes "(serve_step e)\<^sup>*\<^sup>* s s'" and "snd s t = Some (Failed x a)"
  shows "snd s' t = Some (Failed x a)"
  using assms
proof (induction rule: rtranclp_induct)
  case (step y z)
  from step.hyps(2) step.IH[OF step.prems] show ?case
    by (cases rule: serve_step.cases) (auto simp: settle_def)
qed simp

text \<open>
  The per-key slot of a request whose task is cancelled while it waits in \<open>admit\<close> is never given
  back: from then on the key's count of slots in use is positive in every later state, also when
  all its requests are over, and with a limit of one slot every further request of the key is
  refused.
\<close>

theorem queued_cancel_leaks_slot:
  assumes "fresh_app ap0" and "(serve_step e)\<^sup>*\<^sup>* (ap0, Map.empty) (ap, ts)"
    and "w \<in> set (sem_waiters (sy_sched (ap_scheduler ap)))" and "wt_state w \<in> {Cancelled ByClient, WokenCancelled ByClient}"
    and "ts (wt_task w) = Some (Queued q a)" and "ac_key_id a \<noteq> LOCAL_KEY_ID"
    and "(serve_step e)\<^sup>*\<^sup>* (settle (wt_task w) ts (serve_resume e now tick gen q a w ap)) (ap', ts')"
  shows "ts' (wt_task w) = Some (Failed ClientGone a) \<and> 0 < inflight (gw_limiter (ap_gateway ap')) (ac_key_id a)"
proof -
  let ?s = "settle (wt_task w) ts (serve_resume e now tick gen q a w ap)"
  have inv: "serve_inv (ap, ts)" by (rule serve_inv_reach[OF assms(2) serve_inv_fresh[OF assms(1)]])
  have "wt_state w \<noteq> Pending" using assms(4) by auto
  then have inv': "serve_inv (ap', ts')"
    using serve_inv_reach[OF assms(7) serve_inv_resume[OF inv assms(3) _ assms(5)]] by blast
  have "fst (admit_resume w tick (sy_sched (ap_scheduler ap))) = Aborted" using assms(4) by (auto simp: admit_resume_def Let_def)
  then have "snd ?s (wt_task w) = Some (Failed ClientGone a)" by (simp add: settle_def serve_resume_def serve_admit_def Let_def)
  then have ts': "ts' (wt_task w) = Some (Failed ClientGone a)" using gone_stays[OF assms(7)] by simp
  then have "phase_ok (wt_task w) (Failed ClientGone a)" using inv' unfolding serve_inv_def snd_conv by blast
  then have "ac_slot_held a" using assms(6) by simp
  then have "0 < census (holds_key_slot (ac_key_id a)) ts'"
    using inv' ts' by (intro census_pos[of ts' "wt_task w"]) (auto simp: serve_inv_def holds_key_slot_def)
  then show ?thesis using inv' ts' by (simp add: serve_inv_def books_def)
qed

section \<open>Witnesses\<close>

definition sample_env :: serve_env where
  "sample_env = \<lparr>se_cfg = sample_settings\<lparr>require_auth := Some False\<rparr>, se_hash = (\<lambda>t. t), se_digest = (\<lambda>_. 0), se_router = router_init [] [] False,
     se_affinity_chars = 0, se_cost_per_1k = (\<lambda>_. (0, 0)), se_hook = None\<rparr>"

definition sample_app :: app_state where
  "sample_app = \<lparr>ap_gateway = sample_gw, ap_scheduler = sched_start sample_sched, ap_registry = sample_registry,
     ap_route_metrics = metrics_init, ap_counters = counters_init 0, ap_bus = bus_init 1 1\<rparr>"

definition sample_request :: serve_request where
  "sample_request = \<lparr>rq_token = None, rq_endpoint = ''chat'', rq_model_id = ''m'', rq_route_model = ''m'', rq_prompt_text = ''hi'',
     rq_max_tokens = 8, rq_request_id = ''r'', rq_features = []\<rparr>"

lemma sample_app_fresh: "fresh_app sample_app"
proof -
  have "entry_in_flight sample_registry i = 0" for i
    by (simp add: sample_registry_defs entry_in_flight_def nth_Cons split: nat.split)
  moreover have "registry_wf sample_registry" by (simp add: sample_registry_def registry_init_wf)
  moreover have "inflight (gw_limiter sample_gw) k = 0" for k by (simp add: sample_gw_def limiter_init_def inflight_def)
  ultimately show ?thesis using sample_sched_init by (auto simp: fresh_app_def sample_app_def counters_init_def)
qed

lemma sample_runs:
  "\<exists>sd. fst (serve_start sample_env ''t'' 0 0 None sample_request 0 sample_app) = Running sd"
  by (simp add: serve_start_def authorize_token_def authenticate_token_def effective_require_auth_def sample_env_def sample_settings_def
      sample_request_def sample_app_def sched_start_def admit_start_def sample_sched_def locked_def serve_admit_def Let_def grant_def
      note_admitted_def serve_place_def router_acquire_def matching_workload_rule_def router_init_def is_virtual_def acquire_base_def
      prefix_key_of_def sample_registry_defs)

theorem serving_capacity_conserved_witness:
  "\<exists>ap ts sd. (serve_step sample_env)\<^sup>*\<^sup>* (sample_app, Map.empty) (ap, ts) \<and> ts 0 = Some (Running sd) \<and>
     sc_in_use (sy_sched (ap_scheduler ap)) = card {t. \<exists>p. ts t = Some p \<and> running p}"
proof -
  let ?r = "serve_start sample_env ''t'' 0 0 None sample_request 0 sample_app"
  obtain sd where sd: "fst ?r = Running sd" using sample_runs by blast
  have run: "(serve_step sample_env)\<^sup>*\<^sup>* (sample_app, Map.empty) (snd ?r, Map.empty(0 \<mapsto> fst ?r))"
    using serve_step.starts[of Map.empty 0 sample_env sample_app "''t''" 0 0 None sample_request]
    by (simp add: settle_def r_into_rtranclp)
  have "sc_in_use (sy_sched (ap_scheduler (snd ?r))) = card {t. \<exists>p. (Map.empty(0::nat \<mapsto> fst ?r)) t = Some p \<and> running p}"
    using serving_capacity_conserved[OF sample_app_fresh run] by (elim conjE) assumption
  moreover have "(Map.empty(0::nat \<mapsto> fst ?r)) 0 = Some (Running sd)" using sd by simp
  ultimately show ?thesis using run by blast
qed

end
