(* ===== verification/Dialects.thy ===== *)
theory Dialects
  imports Gateway Router
begin

text \<open>
  The provider dialects at the API edge: the internal generation request
  (\<open>engine/inference/types.py\<close>), the OpenAI and Anthropic request schemas with their validators
  (\<open>engine/api/schemas/openai.py\<close>, \<open>engine/api/schemas/anthropic.py\<close>) and the translation the
  two routers make of them (\<open>engine/api/openai_router.py\<close>, \<open>engine/api/anthropic_router.py\<close>).

  A request body reaches the model after its JSON has been read into the declared field
  types; the range constraints and the validators of the schemas are the functions below,
  which list the fields that are refused. \<open>str(v)\<close> of a JSON value that is not a string is an
  argument.
\<close>

section \<open>The internal request\<close>

record message =
  ms_role :: string
  ms_content :: string

record gen_request =
  gq_prompt :: "string option"
  gq_messages :: "message list option"
  gq_request_id :: string
  gq_max_tokens :: "int option"
  gq_temperature :: real
  gq_top_p :: real
  gq_top_k :: int
  gq_seed :: "int option"
  gq_stop :: "string list"
  gq_min_p :: real
  gq_repeat_penalty :: real
  gq_presence_penalty :: real
  gq_frequency_penalty :: real
  gq_mirostat_mode :: int
  gq_mirostat_tau :: real
  gq_mirostat_eta :: real
  gq_grammar :: "string option"
  gq_json_schema :: "jv option"
  gq_json_object :: bool

definition default_request :: gen_request where
  "default_request = \<lparr>gq_prompt = None, gq_messages = None, gq_request_id = '''', gq_max_tokens = Some 256, gq_temperature = 4 / 5,
     gq_top_p = 19 / 20, gq_top_k = 40, gq_seed = None, gq_stop = [], gq_min_p = 0, gq_repeat_penalty = 1, gq_presence_penalty = 0,
     gq_frequency_penalty = 0, gq_mirostat_mode = 0, gq_mirostat_tau = 5, gq_mirostat_eta = 1 / 10, gq_grammar = None,
     gq_json_schema = None, gq_json_object = False\<rparr>"

definition roles :: "string list" where
  "roles = [''system'', ''user'', ''assistant'']"

definition in_range :: "real \<Rightarrow> real \<Rightarrow> real \<Rightarrow> bool" where
  "in_range lo hi x \<longleftrightarrow> lo \<le> x \<and> x \<le> hi"

definition max_tokens_ok :: "int option \<Rightarrow> bool" where
  "max_tokens_ok m \<longleftrightarrow> (case m of None \<Rightarrow> True | Some n \<Rightarrow> 1 \<le> n \<and> n \<le> 32768)"

text \<open>The field constraints of \<open>GenerationRequest\<close>.\<close>

definition fields_ok :: "gen_request \<Rightarrow> bool" where
  "fields_ok g \<longleftrightarrow>
     max_tokens_ok (gq_max_tokens g) \<and> in_range 0 2 (gq_temperature g) \<and> in_range 0 1 (gq_top_p g) \<and> gq_top_k g \<ge> 0
     \<and> in_range 0 1 (gq_min_p g) \<and> in_range 0 2 (gq_repeat_penalty g) \<and> in_range (- 2) 2 (gq_presence_penalty g)
     \<and> in_range (- 2) 2 (gq_frequency_penalty g) \<and> 0 \<le> gq_mirostat_mode g \<and> gq_mirostat_mode g \<le> 2
     \<and> gq_mirostat_tau g \<ge> 0 \<and> gq_mirostat_eta g \<ge> 0
     \<and> (case gq_messages g of None \<Rightarrow> True | Some ms \<Rightarrow> \<forall>m\<in>set ms. ms_role m \<in> set roles)
     \<and> (case gq_json_schema g of None \<Rightarrow> True | Some v \<Rightarrow> \<exists>kvs. v = ObjV kvs)"

definition exactly_one_input :: "gen_request \<Rightarrow> bool" where
  "exactly_one_input g \<longleftrightarrow> (gq_prompt g \<noteq> None) \<noteq> (gq_messages g \<noteq> None \<and> gq_messages g \<noteq> Some [])"

definition one_structured_mode :: "gen_request \<Rightarrow> bool" where
  "one_structured_mode g \<longleftrightarrow>
     (if gq_grammar g \<noteq> None then 1 else 0) + (if gq_json_schema g \<noteq> None then 1 else 0) + (if gq_json_object g then 1 else 0) \<le> (1 :: nat)"

definition valid_request :: "gen_request \<Rightarrow> bool" where
  "valid_request g \<longleftrightarrow> fields_ok g \<and> exactly_one_input g \<and> one_structured_mode g"

definition wants_structured_output :: "gen_request \<Rightarrow> bool" where
  "wants_structured_output g \<longleftrightarrow> gq_grammar g \<noteq> None \<or> gq_json_schema g \<noteq> None \<or> gq_json_object g"

definition is_chat :: "gen_request \<Rightarrow> bool" where
  "is_chat g \<longleftrightarrow> gq_messages g \<noteq> None"

definition newline :: string where "newline = [CHR 0x0A]"

definition prompt_text :: "gen_request \<Rightarrow> string" where
  "prompt_text g =
     (case gq_prompt g of Some p \<Rightarrow> p
      | None \<Rightarrow> join newline (map ms_content (case gq_messages g of None \<Rightarrow> [] | Some ms \<Rightarrow> ms)))"

section \<open>The OpenAI dialect\<close>

datatype stop_field = StopNone | StopStr string | StopList "string list"

record chat_request =
  cr_model :: string
  cr_messages :: "message list"
  cr_stream :: bool
  cr_max_tokens :: "int option"
  cr_max_completion_tokens :: "int option"
  cr_temperature :: real
  cr_top_p :: real
  cr_frequency_penalty :: real
  cr_presence_penalty :: real
  cr_stop :: stop_field
  cr_seed :: "int option"
  cr_n :: int
  cr_tools :: "jv list option"
  cr_functions :: "jv list option"
  cr_response_format :: "(string \<times> jv) list option"

definition given :: "jv option \<Rightarrow> jv option" where
  "given v = (case v of Some NullV \<Rightarrow> None | _ \<Rightarrow> v)"

definition no_tools :: "jv list option \<Rightarrow> bool" where
  "no_tools v \<longleftrightarrow> v = None \<or> v = Some []"

definition response_format_ok :: "(string \<times> jv) list option \<Rightarrow> bool" where
  "response_format_ok v \<longleftrightarrow>
     (case v of None \<Rightarrow> True
      | Some rf \<Rightarrow> given (map_of rf ''type'') \<in> {None, Some (StrV ''text''), Some (StrV ''json_object''), Some (StrV ''json_schema'')})"

definition normalize_stop :: "stop_field \<Rightarrow> stop_field" where
  "normalize_stop v = (case v of StopStr s \<Rightarrow> StopList [s] | _ \<Rightarrow> v)"

text \<open>The fields refused with \<open>400\<close>, in the order of the schema.\<close>

definition chat_errors :: "chat_request \<Rightarrow> string list" where
  "chat_errors b =
     (if cr_messages b = [] \<or> (\<exists>m\<in>set (cr_messages b). ms_role m \<notin> set roles) then [''messages''] else [])
     @ (if \<not> max_tokens_ok (cr_max_tokens b) then [''max_tokens''] else [])
     @ (if \<not> max_tokens_ok (cr_max_completion_tokens b) then [''max_completion_tokens''] else [])
     @ (if \<not> in_range 0 2 (cr_temperature b) then [''temperature''] else [])
     @ (if \<not> in_range 0 1 (cr_top_p b) then [''top_p''] else [])
     @ (if \<not> in_range (- 2) 2 (cr_frequency_penalty b) then [''frequency_penalty''] else [])
     @ (if \<not> in_range (- 2) 2 (cr_presence_penalty b) then [''presence_penalty''] else [])
     @ (if cr_n b \<noteq> 1 then [''n''] else [])
     @ (if \<not> no_tools (cr_tools b) then [''tools''] else [])
     @ (if \<not> no_tools (cr_functions b) then [''functions''] else [])
     @ (if \<not> response_format_ok (cr_response_format b) then [''response_format''] else [])"

definition effective_max_tokens :: "chat_request \<Rightarrow> int option" where
  "effective_max_tokens b =
     (case cr_max_completion_tokens b of Some n \<Rightarrow> if n \<noteq> 0 then Some n else cr_max_tokens b | None \<Rightarrow> cr_max_tokens b)"

definition stop_list :: "chat_request \<Rightarrow> string list" where
  "stop_list b = (case normalize_stop (cr_stop b) of StopList ss \<Rightarrow> ss | _ \<Rightarrow> [])"

datatype output_mode = NoMode | JsonObjectMode | JsonSchemaMode

definition structured_output :: "chat_request \<Rightarrow> output_mode \<times> jv option" where
  "structured_output b =
     (case cr_response_format b of
        None \<Rightarrow> (NoMode, None)
      | Some rf \<Rightarrow>
          if rf = [] then (NoMode, None)
          else (case given (map_of rf ''type'') of
                  None \<Rightarrow> (NoMode, None)
                | Some ty \<Rightarrow>
                    if ty = StrV ''text'' then (NoMode, None)
                    else if ty = StrV ''json_object'' then (JsonObjectMode, None)
                    else (JsonSchemaMode,
                          case map_of rf ''json_schema'' of
                            Some (ObjV nested) \<Rightarrow> given (map_of nested ''schema'')
                          | _ \<Rightarrow> None)))"

text \<open>
  What the edge answers: an error of its own, \<open>422\<close>-free validation (\<open>400\<close>) of the body, or an
  exception nothing handles (a \<open>500\<close>).
\<close>

datatype edge_error = EdgeError openai_error | InvalidFields "string list" | Unhandled

record translated =
  tr_request :: gen_request
  tr_features :: "feature list"
  tr_prompt_text :: string
  tr_max_tokens :: int

definition model_not_found :: openai_error where
  "model_not_found = api_error 404 ''invalid_request_error'' ''model_not_found'' []"

definition chat_gen_request :: "string \<Rightarrow> chat_request \<Rightarrow> gen_request" where
  "chat_gen_request request_id b =
     (let (mode, schema) = structured_output b
      in default_request\<lparr>gq_messages := Some (cr_messages b), gq_request_id := request_id, gq_max_tokens := effective_max_tokens b,
           gq_temperature := cr_temperature b, gq_top_p := cr_top_p b, gq_presence_penalty := cr_presence_penalty b,
           gq_frequency_penalty := cr_frequency_penalty b, gq_stop := stop_list b, gq_seed := cr_seed b,
           gq_json_object := (mode = JsonObjectMode), gq_json_schema := (if mode = JsonSchemaMode then schema else None)\<rparr>)"

definition chat_translate :: "bool \<Rightarrow> bool \<Rightarrow> string \<Rightarrow> chat_request \<Rightarrow> (edge_error, translated) result" where
  "chat_translate known allow_structured_output request_id b =
     (if chat_errors b \<noteq> [] then Inl (InvalidFields (chat_errors b))
      else if \<not> known then Inl (EdgeError model_not_found)
      else let (mode, schema) = structured_output b; g = chat_gen_request request_id b
           in if mode \<noteq> NoMode \<and> \<not> allow_structured_output
              then Inl (EdgeError (api_error 400 ''invalid_request_error'' ''structured_output_disabled'' []))
              else if mode = JsonSchemaMode \<and> (case schema of None \<Rightarrow> True | Some v \<Rightarrow> \<not> truthy_v v)
              then Inl (EdgeError (api_error 400 ''invalid_request_error'' '''' []))
              else if \<not> valid_request g then Inl Unhandled
              else Inr \<lparr>tr_request = g, tr_features = (if mode \<noteq> NoMode then [STRUCTURED_OUTPUT] else []),
                        tr_prompt_text = join newline (map ms_content (cr_messages b)),
                        tr_max_tokens = (case effective_max_tokens b of Some n \<Rightarrow> if n \<noteq> 0 then n else 256 | None \<Rightarrow> 256)\<rparr>)"

section \<open>The Anthropic dialect\<close>

datatype message_content = TextContent string | BlockContent "(string \<times> jv) list list"

record anthropic_message =
  am_role :: string
  am_content :: message_content

record messages_request =
  mr_model :: string
  mr_messages :: "anthropic_message list"
  mr_system :: "message_content option"
  mr_max_tokens :: int
  mr_temperature :: real
  mr_top_p :: real
  mr_top_k :: int
  mr_stop_sequences :: "string list"
  mr_stream :: bool
  mr_tools :: "jv list option"
  mr_tool_choice :: "(string \<times> jv) list option"

definition str_v :: "(jv \<Rightarrow> string) \<Rightarrow> jv \<Rightarrow> string" where
  "str_v py_str v = (case v of StrV s \<Rightarrow> s | _ \<Rightarrow> py_str v)"

fun extract_blocks :: "(jv \<Rightarrow> string) \<Rightarrow> (string \<times> jv) list list \<Rightarrow> string option" where
  "extract_blocks py_str [] = Some []"
| "extract_blocks py_str (block # bs) =
     (if map_of block ''type'' \<noteq> Some (StrV ''text'') then None
      else map_option (\<lambda>rest. (case map_of block ''text'' of None \<Rightarrow> [] | Some v \<Rightarrow> str_v py_str v) @ rest) (extract_blocks py_str bs))"

text \<open>\<open>_extract_text\<close>: \<open>None\<close> is its \<open>ValueError\<close>.\<close>

definition extract_text :: "(jv \<Rightarrow> string) \<Rightarrow> message_content \<Rightarrow> string option" where
  "extract_text py_str c = (case c of TextContent s \<Rightarrow> Some s | BlockContent bs \<Rightarrow> extract_blocks py_str bs)"

definition messages_errors :: "(jv \<Rightarrow> string) \<Rightarrow> messages_request \<Rightarrow> string list" where
  "messages_errors py_str b =
     (if mr_messages b = [] \<or> (\<exists>m\<in>set (mr_messages b). am_role m \<notin> {''user'', ''assistant''} \<or> extract_text py_str (am_content m) = None)
      then [''messages''] else [])
     @ (case mr_system b of None \<Rightarrow> [] | Some c \<Rightarrow> if extract_text py_str c = None then [''system''] else [])
     @ (if \<not> max_tokens_ok (Some (mr_max_tokens b)) then [''max_tokens''] else [])
     @ (if \<not> in_range 0 1 (mr_temperature b) then [''temperature''] else [])
     @ (if \<not> in_range 0 1 (mr_top_p b) then [''top_p''] else [])
     @ (if mr_top_k b < 0 then [''top_k''] else [])
     @ (if \<not> no_tools (mr_tools b) then [''tools''] else [])
     @ (if mr_tool_choice b \<noteq> None \<and> mr_tool_choice b \<noteq> Some [] then [''tool_choice''] else [])"

definition system_text :: "(jv \<Rightarrow> string) \<Rightarrow> messages_request \<Rightarrow> string option" where
  "system_text py_str b = Option.bind (mr_system b) (extract_text py_str)"

definition to_internal_messages :: "(jv \<Rightarrow> string) \<Rightarrow> messages_request \<Rightarrow> message list" where
  "to_internal_messages py_str b =
     (case system_text py_str b of Some s \<Rightarrow> if s \<noteq> [] then [\<lparr>ms_role = ''system'', ms_content = s\<rparr>] else [] | None \<Rightarrow> [])
     @ map (\<lambda>m. \<lparr>ms_role = am_role m, ms_content = (case extract_text py_str (am_content m) of Some s \<Rightarrow> s | None \<Rightarrow> [])\<rparr>) (mr_messages b)"

definition messages_translate :: "(jv \<Rightarrow> string) \<Rightarrow> bool \<Rightarrow> string \<Rightarrow> messages_request \<Rightarrow> (edge_error, translated) result" where
  "messages_translate py_str known request_id b =
     (if messages_errors py_str b \<noteq> [] then Inl (InvalidFields (messages_errors py_str b))
      else if \<not> known then Inl (EdgeError (api_error 404 ''not_found_error'' '''' []))
      else let ms = to_internal_messages py_str b;
               g = default_request\<lparr>gq_messages := Some ms, gq_request_id := request_id, gq_max_tokens := Some (mr_max_tokens b),
                     gq_temperature := mr_temperature b, gq_top_p := mr_top_p b, gq_top_k := mr_top_k b, gq_stop := mr_stop_sequences b\<rparr>
           in if \<not> valid_request g then Inl Unhandled
              else Inr \<lparr>tr_request = g, tr_features = [], tr_prompt_text = join newline (map ms_content ms), tr_max_tokens = mr_max_tokens b\<rparr>)"

section \<open>What the translations guarantee\<close>

text \<open>A request the worker can rely on, with the text its limits and its placement were computed from.\<close>

definition well_typed :: "translated \<Rightarrow> bool" where
  "well_typed t \<longleftrightarrow>
     valid_request (tr_request t) \<and> is_chat (tr_request t) \<and> prompt_text (tr_request t) = tr_prompt_text t
     \<and> 1 \<le> tr_max_tokens t \<and> tr_max_tokens t \<le> 32768
     \<and> (wants_structured_output (tr_request t) \<longleftrightarrow> tr_features t \<noteq> [])"

lemma chat_valid_iff:
  assumes "chat_errors b = []"
  shows "valid_request (chat_gen_request rid b) \<longleftrightarrow>
    (case structured_output b of (JsonSchemaMode, Some v) \<Rightarrow> \<exists>kvs. v = ObjV kvs | _ \<Rightarrow> True)"
proof -
  have e: "cr_messages b \<noteq> []" "\<forall>m\<in>set (cr_messages b). ms_role m \<in> set roles" "max_tokens_ok (cr_max_tokens b)"
    "max_tokens_ok (cr_max_completion_tokens b)" "in_range 0 2 (cr_temperature b)" "in_range 0 1 (cr_top_p b)"
    "in_range (- 2) 2 (cr_frequency_penalty b)" "in_range (- 2) 2 (cr_presence_penalty b)"
    using assms by (auto simp: chat_errors_def split: if_splits)
  have "max_tokens_ok (effective_max_tokens b)" using e(3,4) by (auto simp: effective_max_tokens_def split: option.splits)
  then show ?thesis using e
    by (auto simp: valid_request_def fields_ok_def chat_gen_request_def default_request_def exactly_one_input_def one_structured_mode_def
        in_range_def split: prod.splits output_mode.splits option.splits)
qed

lemma chat_well_typed:
  assumes "chat_translate known allow rid b = Inr t"
  shows "well_typed t"
proof -
  obtain mode schema where so: "structured_output b = (mode, schema)" by force
  have e: "chat_errors b = []" "valid_request (chat_gen_request rid b)" "\<not> (mode = JsonSchemaMode \<and> schema = None)"
    and t: "t = \<lparr>tr_request = chat_gen_request rid b, tr_features = (if mode \<noteq> NoMode then [STRUCTURED_OUTPUT] else []),
      tr_prompt_text = join newline (map ms_content (cr_messages b)),
      tr_max_tokens = (case effective_max_tokens b of Some n \<Rightarrow> if n \<noteq> 0 then n else 256 | None \<Rightarrow> 256)\<rparr>"
    using assms so by (cases schema; auto simp: chat_translate_def Let_def split: if_splits)+
  have "max_tokens_ok (effective_max_tokens b)"
    using e(1) by (auto simp: chat_errors_def effective_max_tokens_def split: if_splits option.splits)
  moreover have "wants_structured_output (chat_gen_request rid b) \<longleftrightarrow> mode \<noteq> NoMode"
    using so e(3) by (cases mode) (auto simp: wants_structured_output_def chat_gen_request_def default_request_def)
  ultimately show ?thesis using e(2) unfolding t
    by (auto simp: well_typed_def max_tokens_ok_def is_chat_def prompt_text_def chat_gen_request_def default_request_def
        split: option.splits prod.splits if_splits)
qed

lemma messages_valid:
  assumes "messages_errors py_str b = []"
  shows "valid_request (default_request\<lparr>gq_messages := Some (to_internal_messages py_str b), gq_request_id := rid, gq_max_tokens := Some (mr_max_tokens b),
     gq_temperature := mr_temperature b, gq_top_p := mr_top_p b, gq_top_k := mr_top_k b, gq_stop := mr_stop_sequences b\<rparr>)"
proof -
  have e: "mr_messages b \<noteq> []" "\<forall>m\<in>set (mr_messages b). am_role m \<in> {''user'', ''assistant''}" "max_tokens_ok (Some (mr_max_tokens b))"
    "in_range 0 1 (mr_temperature b)" "in_range 0 1 (mr_top_p b)" "0 \<le> mr_top_k b"
    using assms by (auto simp: messages_errors_def split: if_splits)
  have "to_internal_messages py_str b \<noteq> []" using e(1) by (simp add: to_internal_messages_def)
  moreover have "\<forall>m\<in>set (to_internal_messages py_str b). ms_role m \<in> set roles"
    using e(2) by (fastforce simp: to_internal_messages_def roles_def split: option.splits if_splits)
  ultimately show ?thesis using e
    by (auto simp: valid_request_def fields_ok_def default_request_def exactly_one_input_def one_structured_mode_def in_range_def)
qed


definition sample_chat :: "(string \<times> jv) list option \<Rightarrow> chat_request" where
  "sample_chat rf = \<lparr>cr_model = ''m'', cr_messages = [\<lparr>ms_role = ''user'', ms_content = ''hi''\<rparr>], cr_stream = False, cr_max_tokens = Some 8,
     cr_max_completion_tokens = None, cr_temperature = 1, cr_top_p = 1, cr_frequency_penalty = 0, cr_presence_penalty = 0, cr_stop = StopStr ''x'',
     cr_seed = None, cr_n = 1, cr_tools = None, cr_functions = None, cr_response_format = rf\<rparr>"

definition sample_messages :: messages_request where
  "sample_messages = \<lparr>mr_model = ''m'', mr_messages = [\<lparr>am_role = ''user'', am_content = BlockContent [[(''type'', StrV ''text''), (''text'', StrV ''hi'')]]\<rparr>],
     mr_system = Some (TextContent ''be brief''), mr_max_tokens = 8, mr_temperature = 1, mr_top_p = 1, mr_top_k = 0, mr_stop_sequences = [],
     mr_stream = True, mr_tools = None, mr_tool_choice = None\<rparr>"

lemmas dialect_eval = sample_chat_def sample_messages_def chat_translate_def messages_translate_def chat_errors_def messages_errors_def
  chat_gen_request_def structured_output_def given_def no_tools_def max_tokens_ok_def in_range_def roles_def response_format_ok_def
  valid_request_def fields_ok_def default_request_def exactly_one_input_def one_structured_mode_def effective_max_tokens_def stop_list_def
  normalize_stop_def to_internal_messages_def system_text_def extract_text_def str_v_def newline_def Let_def

lemma sample_chat_eval:
  "chat_errors (sample_chat None) = []" "structured_output (sample_chat None) = (NoMode, None)" "map ms_content (cr_messages (sample_chat None)) = [''hi'']"
  "chat_errors (sample_chat (Some [(''type'', StrV ''json_schema''), (''json_schema'', ObjV [(''schema'', StrV ''x'')])])) = []"
  "structured_output (sample_chat (Some [(''type'', StrV ''json_schema''), (''json_schema'', ObjV [(''schema'', StrV ''x'')])])) = (JsonSchemaMode, Some (StrV ''x''))"
  by (simp_all add: dialect_eval)

lemma sample_chat_translates: "\<exists>t. chat_translate True False ''r'' (sample_chat None) = Inr t \<and> tr_prompt_text t = ''hi''"
  using chat_valid_iff[OF sample_chat_eval(1), of "''r''"] sample_chat_eval(1-3) by (simp add: chat_translate_def)

lemma sample_messages_eval:
  "messages_errors (\<lambda>_. '''') sample_messages = []" "map ms_role (to_internal_messages (\<lambda>_. '''') sample_messages) = [''system'', ''user'']"
  by (simp_all add: dialect_eval)

lemma sample_messages_translates:
  "\<exists>u. messages_translate (\<lambda>_. '''') True ''r'' sample_messages = Inr u \<and> map ms_role (the (gq_messages (tr_request u))) = [''system'', ''user'']"
proof -
  let ?g = "default_request\<lparr>gq_messages := Some (to_internal_messages (\<lambda>_. '''') sample_messages), gq_request_id := ''r'',
     gq_max_tokens := Some (mr_max_tokens sample_messages), gq_temperature := mr_temperature sample_messages, gq_top_p := mr_top_p sample_messages,
     gq_top_k := mr_top_k sample_messages, gq_stop := mr_stop_sequences sample_messages\<rparr>"
  have "\<exists>u. messages_translate (\<lambda>_. '''') True ''r'' sample_messages = Inr u \<and> tr_request u = ?g"
    unfolding messages_translate_def Let_def using messages_valid[OF sample_messages_eval(1), of "''r''"] by (simp only: sample_messages_eval(1)) simp
  moreover have "the (gq_messages ?g) = to_internal_messages (\<lambda>_. '''') sample_messages" by simp
  ultimately show ?thesis using sample_messages_eval(2) by metis
qed


text \<open>
  A JSON schema that is not an object (here a string) is not refused by the edge: the internal
  request type rejects it inside the handler, and the client gets a \<open>500\<close> instead of a \<open>400\<close>.
\<close>

lemma json_schema_not_object_unhandled:
  "chat_translate True True ''r'' (sample_chat (Some [(''type'', StrV ''json_schema''), (''json_schema'', ObjV [(''schema'', StrV ''x'')])])) = Inl Unhandled"
  using chat_valid_iff[OF sample_chat_eval(4), of "''r''"] sample_chat_eval(4,5) by (simp add: chat_translate_def)

end
