(* ===== verification/Remote.thy ===== *)
theory Remote
  imports Token_Stream Dialects "HOL-Library.Sublist"
begin

text \<open>
  The remote backend (\<open>engine/inference/remote/openai_compat.py\<close>): loading with the check that the
  server serves the configured model, the upstream request body, the parser of the server's
  event stream, the token generator with its bounded retry before the first token, and the
  stream object over it.

  The server is an argument: what each POST meets (a connection failure, or a response with
  its status, its lines and whether the connection breaks after them) and what the model
  listing answers. \<open>json.loads\<close> is an argument; a value that Python would raise on (an object
  where a dict is expected) is an error value.
\<close>

section \<open>The event stream\<close>

definition RETRIABLE_STATUS :: "int list" where
  "RETRIABLE_STATUS = [429, 500, 502, 503, 504]"

record outcome =
  oc_finish :: finish_reason
  oc_prompt_tokens :: int
  oc_completion_tokens :: int
  oc_usage_seen :: bool
  oc_upstream_attempts :: nat

definition new_outcome :: outcome where
  "new_outcome = \<lparr>oc_finish = STOP, oc_prompt_tokens = 0, oc_completion_tokens = 0, oc_usage_seen = False, oc_upstream_attempts = 0\<rparr>"

datatype py_exc = AttributeErr | TypeErr | KeyErr | ValueErr

datatype sse_item = TextItem jv | DoneItem

text \<open>\<open>int(v or 0)\<close> of a JSON value.\<close>

definition int_or_zero :: "jv option \<Rightarrow> (py_exc, int) result" where
  "int_or_zero v =
     (case v of
        None \<Rightarrow> Inr 0
      | Some x \<Rightarrow>
          if \<not> truthy_v x then Inr 0
          else case x of
              NumV r \<Rightarrow> Inr (if r \<ge> 0 then \<lfloor>r\<rfloor> else \<lceil>r\<rceil>)
            | BoolV _ \<Rightarrow> Inr 1
            | StrV s \<Rightarrow> (case py_int s of None \<Rightarrow> Inl ValueErr | Some n \<Rightarrow> Inr n)
            | _ \<Rightarrow> Inl TypeErr)"

definition note_usage :: "jv option \<Rightarrow> outcome \<Rightarrow> (py_exc, outcome) result" where
  "note_usage usage oc =
     (case usage of
        Some (ObjV u) \<Rightarrow>
          (case int_or_zero (map_of u ''prompt_tokens'') of
             Inl e \<Rightarrow> Inl e
           | Inr p \<Rightarrow>
               (case int_or_zero (map_of u ''completion_tokens'') of
                  Inl e \<Rightarrow> Inl e
                | Inr c \<Rightarrow> Inr (oc\<lparr>oc_prompt_tokens := p, oc_completion_tokens := c, oc_usage_seen := True\<rparr>)))
      | _ \<Rightarrow> Inr oc)"

text \<open>\<open>(obj.get("choices") or [])[0]\<close>; \<open>None\<close> when there is no choice.\<close>

definition first_choice :: "jv option \<Rightarrow> (py_exc, (string \<times> jv) list option) result" where
  "first_choice v =
     (case v of
        None \<Rightarrow> Inr None
      | Some x \<Rightarrow>
          if \<not> truthy_v x then Inr None
          else case x of
              ListV (ObjV c # _) \<Rightarrow> Inr (Some c)
            | ListV _ \<Rightarrow> Inl AttributeErr
            | StrV _ \<Rightarrow> Inl AttributeErr
            | ObjV _ \<Rightarrow> Inl KeyErr
            | _ \<Rightarrow> Inl TypeErr)"

definition note_finish :: "jv option \<Rightarrow> outcome \<Rightarrow> outcome" where
  "note_finish reason oc =
     (if reason = Some (StrV ''length'') then oc\<lparr>oc_finish := LENGTH\<rparr>
      else if reason = Some (StrV ''stop'') \<or> reason = Some (StrV ''eos_token'') then oc\<lparr>oc_finish := STOP\<rparr> else oc)"

definition truthy_of :: "jv option \<Rightarrow> jv option" where
  "truthy_of v = (case v of Some x \<Rightarrow> if truthy_v x then Some x else None | None \<Rightarrow> None)"

definition choice_text :: "bool \<Rightarrow> (string \<times> jv) list \<Rightarrow> (py_exc, jv option) result" where
  "choice_text chat choice =
     (if chat then
        (case truthy_of (map_of choice ''delta'') of
           None \<Rightarrow> Inr None
         | Some (ObjV d) \<Rightarrow> Inr (truthy_of (map_of d ''content''))
         | Some _ \<Rightarrow> Inl AttributeErr)
      else Inr (truthy_of (map_of choice ''text'')))"

definition parse_obj :: "bool \<Rightarrow> jv \<Rightarrow> outcome \<Rightarrow> (py_exc, sse_item list) result \<times> outcome" where
  "parse_obj chat v oc =
     (case v of
        ObjV kvs \<Rightarrow>
          (case note_usage (map_of kvs ''usage'') oc of
             Inl e \<Rightarrow> (Inl e, oc)
           | Inr oc1 \<Rightarrow>
               (case first_choice (map_of kvs ''choices'') of
                  Inl e \<Rightarrow> (Inl e, oc1)
                | Inr None \<Rightarrow> (Inr [], oc1)
                | Inr (Some choice) \<Rightarrow>
                    (let oc2 = note_finish (map_of choice ''finish_reason'') oc1
                     in case choice_text chat choice of
                          Inl e \<Rightarrow> (Inl e, oc2)
                        | Inr None \<Rightarrow> (Inr [], oc2)
                        | Inr (Some t) \<Rightarrow> (Inr [TextItem t], oc2))))
      | _ \<Rightarrow> (Inl AttributeErr, oc))"

definition parse_sse_line :: "(string \<Rightarrow> jv option) \<Rightarrow> bool \<Rightarrow> string \<Rightarrow> outcome \<Rightarrow> (py_exc, sse_item list) result \<times> outcome" where
  "parse_sse_line loads chat line oc =
     (let l = strip line
      in if l = [] \<or> startswith l '':'' \<or> \<not> startswith l ''data:'' then (Inr [], oc)
         else let d = strip (drop (length ''data:'') l)
              in if d = ''[DONE]'' then (Inr [DoneItem], oc)
                 else case loads d of None \<Rightarrow> (Inr [], oc) | Some v \<Rightarrow> parse_obj chat v oc)"

section \<open>The token generator\<close>

datatype upstream_answer = ConnectFails | Response int "string list" bool

datatype gen_exc = TransportError | RemoteError bool | PyError py_exc

datatype gen_item = Yields jv | Returns | Raises gen_exc

record token_gen =
  tg_attempts :: nat
  tg_posts :: nat
  tg_yielded_any :: bool
  tg_lines :: "(string list \<times> bool) option"
  tg_over :: bool
  tg_outcome :: outcome

definition token_gen_init :: token_gen where
  "token_gen_init = \<lparr>tg_attempts = 0, tg_posts = 0, tg_yielded_any = False, tg_lines = None, tg_over = False, tg_outcome = new_outcome\<rparr>"

definition retriable :: "gen_exc \<Rightarrow> bool" where
  "retriable e = (case e of TransportError \<Rightarrow> True | RemoteError b \<Rightarrow> b | PyError _ \<Rightarrow> False)"

text \<open>The guard of the \<open>except\<close> clause: another attempt is made only before the first token.\<close>

definition may_retry :: "int \<Rightarrow> gen_exc \<Rightarrow> token_gen \<Rightarrow> bool" where
  "may_retry max_retries e g \<longleftrightarrow> \<not> tg_yielded_any g \<and> retriable e \<and> int (tg_attempts g) < max_retries"

definition end_gen :: "gen_item \<Rightarrow> token_gen \<Rightarrow> gen_item \<times> token_gen" where
  "end_gen x g = (x, g\<lparr>tg_over := True, tg_lines := None\<rparr>)"

text \<open>What a POST leads to: the failure it raises, or the lines of a \<open>200\<close> response.\<close>

definition post_result :: "upstream_answer \<Rightarrow> (gen_exc, string list \<times> bool) result" where
  "post_result a =
     (case a of
        ConnectFails \<Rightarrow> Inl TransportError
      | Response st lines broken \<Rightarrow>
          if st \<noteq> 200 then Inl (if broken then TransportError else RemoteError (st \<in> set RETRIABLE_STATUS)) else Inr (lines, broken))"

definition post :: "token_gen \<Rightarrow> token_gen" where
  "post g = g\<lparr>tg_posts := tg_posts g + 1, tg_outcome := (tg_outcome g)\<lparr>oc_upstream_attempts := oc_upstream_attempts (tg_outcome g) + 1\<rparr>\<rparr>"

function next_token :: "(string \<Rightarrow> jv option) \<Rightarrow> bool \<Rightarrow> int \<Rightarrow> (nat \<Rightarrow> upstream_answer) \<Rightarrow> token_gen \<Rightarrow> gen_item \<times> token_gen" where
  "next_token loads chat mx up g =
     (if tg_over g then (Returns, g)
      else case tg_lines g of
          None \<Rightarrow>
            (case post_result (up (tg_posts g)) of
               Inl e \<Rightarrow> if may_retry mx e g then next_token loads chat mx up ((post g)\<lparr>tg_attempts := tg_attempts g + 1\<rparr>) else end_gen (Raises e) (post g)
             | Inr ls \<Rightarrow> next_token loads chat mx up ((post g)\<lparr>tg_lines := Some ls\<rparr>))
        | Some ([], broken) \<Rightarrow>
            if \<not> broken then end_gen Returns g
            else if may_retry mx TransportError g then next_token loads chat mx up (g\<lparr>tg_attempts := tg_attempts g + 1, tg_lines := None\<rparr>)
            else end_gen (Raises TransportError) g
        | Some (l # ls, broken) \<Rightarrow>
            (case parse_sse_line loads chat l (tg_outcome g) of
               (Inl e, oc) \<Rightarrow> end_gen (Raises (PyError e)) (g\<lparr>tg_outcome := oc\<rparr>)
             | (Inr [], oc) \<Rightarrow> next_token loads chat mx up (g\<lparr>tg_lines := Some (ls, broken), tg_outcome := oc\<rparr>)
             | (Inr (DoneItem # _), oc) \<Rightarrow> end_gen Returns (g\<lparr>tg_outcome := oc\<rparr>)
             | (Inr (TextItem t # _), oc) \<Rightarrow> (Yields t, g\<lparr>tg_yielded_any := True, tg_lines := Some (ls, broken), tg_outcome := oc\<rparr>)))"
  by pat_completeness auto
termination
  by (relation "measures [\<lambda>(_, _, mx, _, g). nat (mx - int (tg_attempts g)), \<lambda>(_, _, _, _, g). if tg_lines g = None then 1 else 0,
        \<lambda>(_, _, _, _, g). case tg_lines g of None \<Rightarrow> 0 | Some (ls, _) \<Rightarrow> length ls]")
     (auto simp: may_retry_def post_def)

declare next_token.simps [simp del]

section \<open>No failover after the first token\<close>

text \<open>What a line contributes does not depend on the metadata gathered so far.\<close>

definition line_items :: "(string \<Rightarrow> jv option) \<Rightarrow> bool \<Rightarrow> string \<Rightarrow> (py_exc, sse_item list) result" where
  "line_items loads chat l = fst (parse_sse_line loads chat l new_outcome)"

lemma note_usage_parts:
  "(\<exists>e. note_usage u oc = Inl e \<and> note_usage u oc' = Inl e)
   \<or> (\<exists>a b. note_usage u oc = Inr a \<and> note_usage u oc' = Inr b \<and> oc_upstream_attempts a = oc_upstream_attempts oc)"
  by (auto simp: note_usage_def split: option.splits jv.splits sum.splits)

lemma note_finish_attempts [simp]: "oc_upstream_attempts (note_finish r oc) = oc_upstream_attempts oc"
  by (simp add: note_finish_def)

lemma parse_obj_items:
  "fst (parse_obj chat v oc) = fst (parse_obj chat v oc')" "oc_upstream_attempts (snd (parse_obj chat v oc)) = oc_upstream_attempts oc"
proof -
  have "fst (parse_obj chat v oc) = fst (parse_obj chat v oc') \<and> oc_upstream_attempts (snd (parse_obj chat v oc)) = oc_upstream_attempts oc"
  proof (cases v)
    case (ObjV kvs)
    show ?thesis
      using note_usage_parts[of "map_of kvs ''usage''" oc oc'] unfolding ObjV
      by (elim disjE exE conjE; simp add: parse_obj_def Let_def split: sum.splits option.splits)
  qed (simp_all add: parse_obj_def)
  then show "fst (parse_obj chat v oc) = fst (parse_obj chat v oc')" "oc_upstream_attempts (snd (parse_obj chat v oc)) = oc_upstream_attempts oc" by auto
qed

lemma parse_line_items:
  assumes "parse_sse_line loads chat l oc = (r, oc')"
  shows "line_items loads chat l = r" and "oc_upstream_attempts oc' = oc_upstream_attempts oc"
  using assms parse_obj_items unfolding line_items_def parse_sse_line_def Let_def
  by (auto split: if_splits option.splits) (metis fst_conv, metis snd_conv)

datatype body_end = Exhausted | DoneSeen | BadLine py_exc

fun body_texts :: "(string \<Rightarrow> jv option) \<Rightarrow> bool \<Rightarrow> string list \<Rightarrow> jv list \<times> body_end" where
  "body_texts loads chat [] = ([], Exhausted)"
| "body_texts loads chat (l # ls) =
     (case line_items loads chat l of
        Inl e \<Rightarrow> ([], BadLine e)
      | Inr [] \<Rightarrow> body_texts loads chat ls
      | Inr (DoneItem # _) \<Rightarrow> ([], DoneSeen)
      | Inr (TextItem t # _) \<Rightarrow> apfst (Cons t) (body_texts loads chat ls))"

lemma body_texts_append:
  "snd (body_texts loads chat pre) = Exhausted \<Longrightarrow>
     body_texts loads chat (pre @ ls) = (fst (body_texts loads chat pre) @ fst (body_texts loads chat ls), snd (body_texts loads chat ls))"
  by (induction pre) (auto split: sum.splits list.splits sse_item.splits)

text \<open>An attempt that ends in a retriable failure without having given a token.\<close>

definition silent_failure :: "(string \<Rightarrow> jv option) \<Rightarrow> bool \<Rightarrow> upstream_answer \<Rightarrow> bool" where
  "silent_failure loads chat a \<longleftrightarrow>
     (case post_result a of Inl e \<Rightarrow> retriable e | Inr (ls, broken) \<Rightarrow> broken \<and> body_texts loads chat ls = ([], Exhausted))"

definition gen_inv :: "(string \<Rightarrow> jv option) \<Rightarrow> bool \<Rightarrow> int \<Rightarrow> (nat \<Rightarrow> upstream_answer) \<Rightarrow> jv list \<Rightarrow> token_gen \<Rightarrow> bool" where
  "gen_inv loads chat mx up ys g \<longleftrightarrow>
     \<not> tg_over g \<and> oc_upstream_attempts (tg_outcome g) = tg_posts g \<and> tg_attempts g \<le> nat mx
     \<and> (tg_yielded_any g \<longleftrightarrow> ys \<noteq> [])
     \<and> (\<forall>j<tg_attempts g. silent_failure loads chat (up j))
     \<and> (case tg_lines g of
          None \<Rightarrow> ys = [] \<and> tg_posts g = tg_attempts g
        | Some (ls, b) \<Rightarrow> tg_posts g = Suc (tg_attempts g) \<and>
            (\<exists>pre. post_result (up (tg_attempts g)) = Inr (pre @ ls, b) \<and> body_texts loads chat pre = (ys, Exhausted)))"

definition gen_end :: "(string \<Rightarrow> jv option) \<Rightarrow> bool \<Rightarrow> int \<Rightarrow> (nat \<Rightarrow> upstream_answer) \<Rightarrow> jv list \<Rightarrow> gen_item \<Rightarrow> token_gen \<Rightarrow> bool" where
  "gen_end loads chat mx up ys x g \<longleftrightarrow>
     tg_over g \<and> oc_upstream_attempts (tg_outcome g) = tg_posts g
     \<and> (\<exists>k \<le> nat mx. tg_posts g = Suc k \<and> (\<forall>j<k. silent_failure loads chat (up j))
        \<and> (case x of
             Returns \<Rightarrow> \<exists>lines b. post_result (up k) = Inr (lines, b) \<and> fst (body_texts loads chat lines) = ys
                 \<and> (snd (body_texts loads chat lines) = DoneSeen \<or> snd (body_texts loads chat lines) = Exhausted \<and> \<not> b)
           | Raises e \<Rightarrow>
               (post_result (up k) = Inl e \<and> ys = [] \<or>
                (\<exists>lines b. post_result (up k) = Inr (lines, b) \<and> fst (body_texts loads chat lines) = ys
                   \<and> (snd (body_texts loads chat lines) = Exhausted \<and> b \<and> e = TransportError
                      \<or> (\<exists>p. snd (body_texts loads chat lines) = BadLine p \<and> e = PyError p))))
               \<and> (ys = [] \<and> retriable e \<longrightarrow> k = nat mx)
           | Yields _ \<Rightarrow> False))"

definition gen_next_ok where
  "gen_next_ok loads chat mx up ys xg \<longleftrightarrow>
     (case xg of (Yields t, g) \<Rightarrow> gen_inv loads chat mx up (ys @ [t]) g | (x, g) \<Rightarrow> gen_end loads chat mx up ys x g)"

lemma gen_next_end: "gen_end loads chat mx up ys x (g\<lparr>tg_over := True, tg_lines := None\<rparr>) \<Longrightarrow> gen_next_ok loads chat mx up ys (end_gen x g)"
  by (cases x) (auto simp: gen_next_ok_def end_gen_def gen_end_def)

lemma gen_inv_retry:
  assumes "gen_inv loads chat mx up ys g" and "may_retry mx e g" and "silent_failure loads chat (up (tg_attempts g))"
    and "tg_attempts g' = tg_attempts g + 1" "tg_posts g' = tg_attempts g + 1" "tg_lines g' = None" "tg_over g' = tg_over g"
      "tg_yielded_any g' = tg_yielded_any g" "oc_upstream_attempts (tg_outcome g') = tg_posts g'"
  shows "gen_inv loads chat mx up ys g'"
proof -
  have "ys = []" "tg_attempts g + 1 \<le> nat mx" using assms(1,2) by (auto simp: gen_inv_def may_retry_def)
  then show ?thesis using assms unfolding gen_inv_def by (auto simp: less_Suc_eq)
qed

lemma no_retry_bound:
  assumes "gen_inv loads chat mx up ys g" and "\<not> may_retry mx e g" and "ys = []" and "retriable e"
  shows "tg_attempts g = nat mx"
  using assms by (auto simp: gen_inv_def may_retry_def)

text \<open>The branches of \<open>next_token\<close>, one lemma for each state it can be in.\<close>

lemma post_branch:
  assumes inv: "gen_inv loads chat mx up ys g" and None: "tg_lines g = None"
  shows "post_result (up (tg_posts g)) = Inl e \<Longrightarrow> may_retry mx e g \<Longrightarrow> gen_inv loads chat mx up ys ((post g)\<lparr>tg_attempts := tg_attempts g + 1\<rparr>)"
    and "post_result (up (tg_posts g)) = Inl e \<Longrightarrow> \<not> may_retry mx e g \<Longrightarrow> gen_next_ok loads chat mx up ys (end_gen (Raises e) (post g))"
    and "post_result (up (tg_posts g)) = Inr ls \<Longrightarrow> gen_inv loads chat mx up ys ((post g)\<lparr>tg_lines := Some ls\<rparr>)"
proof -
  have st: "tg_posts g = tg_attempts g" "ys = []" using inv None by (auto simp: gen_inv_def)
  show "gen_inv loads chat mx up ys ((post g)\<lparr>tg_attempts := tg_attempts g + 1\<rparr>)"
    if "post_result (up (tg_posts g)) = Inl e" "may_retry mx e g"
    using inv that st None by (intro gen_inv_retry[OF inv that(2)]) (auto simp: silent_failure_def may_retry_def post_def gen_inv_def)
  show "gen_next_ok loads chat mx up ys (end_gen (Raises e) (post g))" if "post_result (up (tg_posts g)) = Inl e" "\<not> may_retry mx e g"
    using inv st that no_retry_bound[OF inv that(2)] by (intro gen_next_end) (auto simp: gen_end_def gen_inv_def post_def)
  show "gen_inv loads chat mx up ys ((post g)\<lparr>tg_lines := Some ls\<rparr>)" if "post_result (up (tg_posts g)) = Inr ls"
    using inv st that None by (cases ls) (auto simp: gen_inv_def post_def intro!: exI[of _ "[]"])
qed

lemma eof_branch:
  assumes inv: "gen_inv loads chat mx up ys g" and Some: "tg_lines g = Some ([], b)"
  shows "\<not> b \<Longrightarrow> gen_next_ok loads chat mx up ys (end_gen Returns g)"
    and "b \<Longrightarrow> may_retry mx TransportError g \<Longrightarrow> gen_inv loads chat mx up ys (g\<lparr>tg_attempts := tg_attempts g + 1, tg_lines := None\<rparr>)"
    and "b \<Longrightarrow> \<not> may_retry mx TransportError g \<Longrightarrow> gen_next_ok loads chat mx up ys (end_gen (Raises TransportError) g)"
proof -
  obtain pre where pre: "post_result (up (tg_attempts g)) = Inr (pre, b)" "body_texts loads chat pre = (ys, Exhausted)"
    and posts: "tg_posts g = Suc (tg_attempts g)" "tg_attempts g \<le> nat mx" "oc_upstream_attempts (tg_outcome g) = tg_posts g"
    using inv Some by (auto simp: gen_inv_def)
  show "gen_next_ok loads chat mx up ys (end_gen Returns g)" if "\<not> b"
    using inv pre posts that by (intro gen_next_end) (auto simp: gen_end_def gen_inv_def)
  show "gen_inv loads chat mx up ys (g\<lparr>tg_attempts := tg_attempts g + 1, tg_lines := None\<rparr>)" if "b" "may_retry mx TransportError g"
  proof -
    have "ys = []" using inv that(2) by (auto simp: gen_inv_def may_retry_def)
    then show ?thesis using pre posts that by (intro gen_inv_retry[OF inv that(2)]) (auto simp: silent_failure_def)
  qed
  show "gen_next_ok loads chat mx up ys (end_gen (Raises TransportError) g)" if "b" "\<not> may_retry mx TransportError g"
    using inv pre posts that no_retry_bound[OF inv that(2)] by (intro gen_next_end) (auto simp: gen_end_def gen_inv_def)
qed

lemma line_branch:
  assumes inv: "gen_inv loads chat mx up ys g" and Some: "tg_lines g = Some (l # rest, b)"
    and p: "parse_sse_line loads chat l (tg_outcome g) = (r, oc)"
  shows "r = Inl e \<Longrightarrow> gen_next_ok loads chat mx up ys (end_gen (Raises (PyError e)) (g\<lparr>tg_outcome := oc\<rparr>))"
    and "r = Inr [] \<Longrightarrow> gen_inv loads chat mx up ys (g\<lparr>tg_lines := Some (rest, b), tg_outcome := oc\<rparr>)"
    and "r = Inr (DoneItem # tl_items) \<Longrightarrow> gen_next_ok loads chat mx up ys (end_gen Returns (g\<lparr>tg_outcome := oc\<rparr>))"
    and "r = Inr (TextItem t # tl_items) \<Longrightarrow> gen_inv loads chat mx up (ys @ [t]) (g\<lparr>tg_yielded_any := True, tg_lines := Some (rest, b), tg_outcome := oc\<rparr>)"
proof -
  obtain pre where pre: "post_result (up (tg_attempts g)) = Inr (pre @ l # rest, b)" "body_texts loads chat pre = (ys, Exhausted)"
    and posts: "tg_posts g = Suc (tg_attempts g)" "tg_attempts g \<le> nat mx" "oc_upstream_attempts (tg_outcome g) = tg_posts g"
    using inv Some by (auto simp: gen_inv_def)
  note it = parse_line_items[OF p]
  have all: "body_texts loads chat (pre @ l # rest) = (ys @ fst (body_texts loads chat (l # rest)), snd (body_texts loads chat (l # rest)))"
    using body_texts_append[of loads chat pre "l # rest"] pre(2) by simp
  have y: "(ys \<noteq> []) = tg_yielded_any g" using inv by (simp add: gen_inv_def)
  have step: "gen_inv loads chat mx up (ys @ ts) (g\<lparr>tg_yielded_any := (ys @ ts \<noteq> []), tg_lines := Some (rest, b), tg_outcome := oc\<rparr>)"
    if "body_texts loads chat [l] = (ts, Exhausted)" for ts
    using inv Some pre posts it that body_texts_append[of loads chat pre "[l]"] unfolding gen_inv_def
    by (auto intro!: exI[of _ "pre @ [l]"])
  show "gen_next_ok loads chat mx up ys (end_gen (Raises (PyError e)) (g\<lparr>tg_outcome := oc\<rparr>))" if "r = Inl e"
    using inv pre(1) posts it all that by (intro gen_next_end) (auto simp: gen_end_def gen_inv_def retriable_def)
  show "gen_next_ok loads chat mx up ys (end_gen Returns (g\<lparr>tg_outcome := oc\<rparr>))" if "r = Inr (DoneItem # tl_items)"
    using inv pre(1) posts it all that by (intro gen_next_end) (auto simp: gen_end_def gen_inv_def)
  show "gen_inv loads chat mx up ys (g\<lparr>tg_lines := Some (rest, b), tg_outcome := oc\<rparr>)" if "r = Inr []"
    using step[of "[]"] it that y by (simp add: gen_inv_def)
  show "gen_inv loads chat mx up (ys @ [t]) (g\<lparr>tg_yielded_any := True, tg_lines := Some (rest, b), tg_outcome := oc\<rparr>)" if "r = Inr (TextItem t # tl_items)"
    using step[of "[t]"] it that by simp
qed

lemma next_token_ok:
  "gen_inv loads chat mx up ys g \<Longrightarrow> gen_next_ok loads chat mx up ys (next_token loads chat mx up g)"
proof (induction loads chat mx up g rule: next_token.induct)
  case (1 loads chat mx up g)
  note inv = \<open>gen_inv loads chat mx up ys g\<close> and unfold = next_token.simps[of loads chat mx up g]
  have over: "\<not> tg_over g" using inv by (simp add: gen_inv_def)
  show ?case
  proof (cases "tg_lines g")
    case None
    note br = post_branch[OF inv None]
    show ?thesis
    proof (cases "post_result (up (tg_posts g))")
      case (Inl e)
      then show ?thesis using br(1,2)[OF Inl] 1(1)[OF over None Inl] over None by (cases "may_retry mx e g") (simp_all add: unfold)
    next
      case (Inr ls)
      then show ?thesis using br(3)[OF Inr] 1(2)[OF over None Inr] over None by (simp add: unfold)
    qed
  next
    case (Some lb)
    obtain ls b where lb: "lb = (ls, b)" by (cases lb)
    show ?thesis
    proof (cases ls)
      case Nil
      then have S: "tg_lines g = Some ([], b)" using Some lb by simp
      show ?thesis using eof_branch[OF inv S] 1(3)[OF over, of lb ls b] over S lb Nil
        by (cases b; cases "may_retry mx TransportError g") (simp_all add: unfold)
    next
      case (Cons l rest)
      then have S: "tg_lines g = Some (l # rest, b)" using Some lb by simp
      obtain r oc where p: "parse_sse_line loads chat l (tg_outcome g) = (r, oc)" by force
      note br = line_branch[OF inv S p]
      consider e where "r = Inl e" | "r = Inr []" | tl_items where "r = Inr (DoneItem # tl_items)" | t tl_items where "r = Inr (TextItem t # tl_items)"
        by (metis list.exhaust obj_sumE sse_item.exhaust)
      then show ?thesis
        using br 1(4)[OF over, of lb ls b l rest r oc] over S lb Cons p by cases (simp_all add: unfold gen_next_ok_def)
    qed
  qed
qed

text \<open>The consumer pulls up to \<open>n\<close> times: the tokens it got, how the generator ended (if it did), and its state.\<close>

fun pulls :: "(string \<Rightarrow> jv option) \<Rightarrow> bool \<Rightarrow> int \<Rightarrow> (nat \<Rightarrow> upstream_answer) \<Rightarrow> nat \<Rightarrow> token_gen \<Rightarrow> jv list \<times> gen_item option \<times> token_gen" where
  "pulls loads chat mx up 0 g = ([], None, g)"
| "pulls loads chat mx up (Suc n) g =
     (case next_token loads chat mx up g of
        (Yields t, g') \<Rightarrow> apfst (Cons t) (pulls loads chat mx up n g')
      | (x, g') \<Rightarrow> ([], Some x, g'))"

lemma pulls_ok:
  assumes "gen_inv loads chat mx up ys g" and "pulls loads chat mx up n g = (zs, r, g')"
  shows "case r of None \<Rightarrow> gen_inv loads chat mx up (ys @ zs) g' \<and> length zs = n | Some x \<Rightarrow> gen_end loads chat mx up (ys @ zs) x g'"
  using assms
proof (induction n arbitrary: ys g zs)
  case (Suc n)
  note ok = next_token_ok[OF Suc.prems(1)]
  obtain x g1 where nt: "next_token loads chat mx up g = (x, g1)" by force
  show ?case
  proof (cases x)
    case (Yields t)
    obtain zs' where z: "pulls loads chat mx up n g1 = (zs', r, g')" "zs = t # zs'"
      using Suc.prems(2) nt Yields by (cases "pulls loads chat mx up n g1") auto
    have "gen_inv loads chat mx up (ys @ [t]) g1" using ok nt Yields by (simp add: gen_next_ok_def)
    from Suc.IH[OF this z(1)] show ?thesis using z(2) by (simp split: option.splits)
  qed (use ok nt Suc.prems(2) in \<open>auto simp: gen_next_ok_def\<close>)
qed auto

text \<open>
  C16. Failover happens only before the first token, and a bounded number of times. However often
  the consumer pulls and however the server behaves: at most \<open>1 + max_prestream_retries\<close>
  requests are sent, and the recorded number of attempts is the number sent; every attempt but
  the last ended in a retriable failure without a single token, so all tokens come from the
  last attempt, in the order its body has them. The stream ends normally only when that body
  was read to its \<open>[DONE]\<close> marker or its regular end, with all its tokens delivered. A
  retriable failure that reaches the caller before any token means the retries were used up.
\<close>

theorem remote_failover_prestream_only:
  assumes "pulls loads chat mx up n token_gen_init = (ys, r, g)"
  shows "tg_posts g \<le> 1 + nat mx \<and> oc_upstream_attempts (tg_outcome g) = tg_posts g
    \<and> (\<forall>j. j + 1 < tg_posts g \<longrightarrow> silent_failure loads chat (up j))
    \<and> (ys \<noteq> [] \<longrightarrow> (\<exists>lines b. post_result (up (tg_posts g - 1)) = Inr (lines, b) \<and> prefix ys (fst (body_texts loads chat lines))))
    \<and> (r = Some Returns \<longrightarrow> (\<exists>lines b. post_result (up (tg_posts g - 1)) = Inr (lines, b) \<and> fst (body_texts loads chat lines) = ys
         \<and> (snd (body_texts loads chat lines) = DoneSeen \<or> snd (body_texts loads chat lines) = Exhausted \<and> \<not> b)))
    \<and> (\<forall>e. r = Some (Raises e) \<and> ys = [] \<and> retriable e \<longrightarrow> tg_posts g = 1 + nat mx)"
proof -
  have "gen_inv loads chat mx up [] token_gen_init" by (simp add: gen_inv_def token_gen_init_def new_outcome_def)
  note ok = pulls_ok[OF this assms, simplified]
  show ?thesis
  proof (cases r)
    case None
    then have inv: "gen_inv loads chat mx up ys g" using ok by simp
    show ?thesis
    proof (cases "tg_lines g")
      case (Some lb)
      obtain ls b pre where "post_result (up (tg_attempts g)) = Inr (pre @ ls, b)" "body_texts loads chat pre = (ys, Exhausted)"
        using inv Some by (cases lb) (auto simp: gen_inv_def)
      then show ?thesis using inv Some None body_texts_append[of loads chat pre ls] by (cases lb) (auto simp: gen_inv_def)
    qed (use inv None in \<open>auto simp: gen_inv_def\<close>)
  next
    case (Some x)
    then have e: "gen_end loads chat mx up ys x g" using ok by simp
    show ?thesis using e Some by (cases x) (auto simp: gen_end_def)
  qed
qed

definition sample_loads :: "string \<Rightarrow> jv option" where
  "sample_loads s = (if s = ''A'' then Some (ObjV [(''choices'', ListV [ObjV [(''delta'', ObjV [(''content'', StrV ''a'')])]])]) else None)"

definition sample_up :: "nat \<Rightarrow> upstream_answer" where
  "sample_up k = (if k = 0 then ConnectFails else Response 200 [''data: A'', ''data: [DONE]''] False)"

lemma sample_pull:
  "fst (pulls sample_loads True 1 sample_up 2 token_gen_init) = [StrV ''a'']"
  "fst (snd (pulls sample_loads True 1 sample_up 2 token_gen_init)) = Some Returns"
  "tg_posts (snd (snd (pulls sample_loads True 1 sample_up 2 token_gen_init))) = 2"
  by code_simp+

theorem remote_failover_prestream_only_witness:
  "tg_posts (snd (snd (pulls sample_loads True 1 sample_up 2 token_gen_init))) = 2 \<and> silent_failure sample_loads True (sample_up 0)
   \<and> (\<exists>lines b. post_result (sample_up 1) = Inr (lines, b) \<and> fst (body_texts sample_loads True lines) = [StrV ''a''])"
proof -
  let ?p = "pulls sample_loads True 1 sample_up 2 token_gen_init"
  have "?p = ([StrV ''a''], Some Returns, snd (snd ?p))" using sample_pull(1,2) by (metis prod.collapse)
  from remote_failover_prestream_only[OF this] show ?thesis by (auto simp: sample_pull)
qed

section \<open>The stream\<close>

record remote_result =
  rx_text :: string
  rx_finish :: finish_reason
  rx_prompt_tokens :: int
  rx_completion_tokens :: int

record remote_stream =
  rt_gen :: token_gen
  rt_parts :: "jv list"
  rt_result :: "remote_result option"
  rt_exhausted :: bool
  rt_closed :: bool

definition remote_stream_init :: remote_stream where
  "remote_stream_init = \<lparr>rt_gen = token_gen_init, rt_parts = [], rt_result = None, rt_exhausted = False, rt_closed = False\<rparr>"

definition part_text :: "jv \<Rightarrow> string option" where
  "part_text v = (case v of StrV s \<Rightarrow> Some s | _ \<Rightarrow> None)"

text \<open>\<open>_build_result\<close>; \<open>None\<close> is the \<open>TypeError\<close> of joining a chunk that is not a string.\<close>

definition build_result :: "finish_reason \<Rightarrow> remote_stream \<Rightarrow> remote_stream option" where
  "build_result finish s =
     (if rt_result s \<noteq> None then Some s
      else case those (map part_text (rt_parts s)) of
          None \<Rightarrow> None
        | Some ts \<Rightarrow>
            let oc = tg_outcome (rt_gen s)
            in Some (s\<lparr>rt_exhausted := True, rt_result := Some \<lparr>rx_text = concat ts, rx_finish = finish,
                 rx_prompt_tokens = (if oc_usage_seen oc then oc_prompt_tokens oc else 0),
                 rx_completion_tokens = (if oc_usage_seen oc then oc_completion_tokens oc else int (length (rt_parts s)))\<rparr>\<rparr>))"

datatype remote_next = RemoteChunk jv nat | RemoteStop | RemoteFailed gen_exc | RemoteTypeError

definition remote_anext :: "(string \<Rightarrow> jv option) \<Rightarrow> bool \<Rightarrow> int \<Rightarrow> (nat \<Rightarrow> upstream_answer) \<Rightarrow> remote_stream \<Rightarrow> remote_next \<times> remote_stream" where
  "remote_anext loads chat mx up s =
     (if rt_exhausted s then (RemoteStop, s)
      else case next_token loads chat mx up (rt_gen s) of
          (Yields t, g) \<Rightarrow> (RemoteChunk t (length (rt_parts s)), s\<lparr>rt_gen := g, rt_parts := rt_parts s @ [t]\<rparr>)
        | (Returns, g) \<Rightarrow>
            (case build_result (oc_finish (tg_outcome g)) (s\<lparr>rt_gen := g\<rparr>) of
               None \<Rightarrow> (RemoteTypeError, s\<lparr>rt_gen := g\<rparr>) | Some s' \<Rightarrow> (RemoteStop, s'))
        | (Raises e, g) \<Rightarrow>
            (case build_result ERROR_REASON (s\<lparr>rt_gen := g\<rparr>) of
               None \<Rightarrow> (RemoteTypeError, s\<lparr>rt_gen := g\<rparr>) | Some s' \<Rightarrow> (RemoteFailed e, s')))"

definition remote_aclose :: "remote_stream \<Rightarrow> (py_exc, unit) result \<times> remote_stream" where
  "remote_aclose s =
     (if rt_closed s then (Inr (), s)
      else let s' = s\<lparr>rt_closed := True, rt_gen := (rt_gen s)\<lparr>tg_over := True, tg_lines := None\<rparr>\<rparr>
           in if rt_result s' \<noteq> None then (Inr (), s'\<lparr>rt_exhausted := True\<rparr>)
              else case build_result CANCELLED_REASON s' of
                  None \<Rightarrow> (Inl TypeErr, s') | Some s'' \<Rightarrow> (Inr (), s''\<lparr>rt_exhausted := True\<rparr>))"

definition remote_prompt_tokens :: "remote_stream \<Rightarrow> int" where
  "remote_prompt_tokens s = (let oc = tg_outcome (rt_gen s) in if oc_usage_seen oc then oc_prompt_tokens oc else 0)"

text \<open>The result never changes once it is there, and its text is what the consumer was given.\<close>

definition result_settled :: "remote_stream \<Rightarrow> bool" where
  "result_settled s \<longleftrightarrow>
     (\<forall>x. rt_result s = Some x \<longrightarrow> rt_exhausted s \<and> (\<exists>ts. those (map part_text (rt_parts s)) = Some ts \<and> rx_text x = concat ts))"

lemma build_result_settled: "result_settled s \<Longrightarrow> build_result f s = Some s' \<Longrightarrow> result_settled s' \<and> rt_result s' \<noteq> None \<and> (rt_result s \<noteq> None \<longrightarrow> s' = s)"
  by (auto simp: build_result_def result_settled_def Let_def split: if_splits option.splits)

lemma remote_result_settled:
  assumes "result_settled s"
  shows "result_settled (snd (remote_anext loads chat mx up s)) \<and> result_settled (snd (remote_aclose s))
    \<and> (rt_result s \<noteq> None \<longrightarrow> rt_result (snd (remote_anext loads chat mx up s)) = rt_result s \<and> rt_result (snd (remote_aclose s)) = rt_result s)"
proof (cases "rt_result s")
  case None
  have s: "result_settled (s\<lparr>rt_gen := g, rt_parts := ps\<rparr>)" "result_settled (s\<lparr>rt_gen := g\<rparr>)" "result_settled (s\<lparr>rt_closed := True, rt_gen := g\<rparr>)" for g ps
    using None by (auto simp: result_settled_def)
  have e: "result_settled t \<Longrightarrow> result_settled (t\<lparr>rt_exhausted := True\<rparr>)" for t by (simp add: result_settled_def)
  show ?thesis
    using assms None s e build_result_settled[OF s(2)] build_result_settled[OF s(3)]
    by (auto simp: remote_anext_def remote_aclose_def Let_def split: prod.splits gen_item.splits option.splits)
next
  case (Some x)
  then have "rt_exhausted s" using assms by (simp add: result_settled_def)
  then show ?thesis using assms Some by (auto simp: remote_anext_def remote_aclose_def result_settled_def Let_def)
qed

section \<open>The backend\<close>

record remote_config =
  rc_base_url :: string
  rc_remote_model :: string
  rc_model_id :: string
  rc_api_key :: "string option"
  rc_connect_timeout_s :: real
  rc_read_timeout_s :: real
  rc_max_prestream_retries :: int
  rc_context_length :: "int option"
  rc_tls_verify :: bool
  rc_prefix_cache :: bool
  rc_kv_metrics :: bool

record remote_backend =
  rb_cfg :: remote_config
  rb_state :: backend_state
  rb_client :: "(string \<times> (string \<times> string) list) option"
  rb_context_length :: int

definition remote_init :: "remote_config \<Rightarrow> remote_backend" where
  "remote_init cfg = \<lparr>rb_cfg = cfg, rb_state = UNLOADED, rb_client = None,
     rb_context_length = (case rc_context_length cfg of Some n \<Rightarrow> if n \<noteq> 0 then n else 4096 | None \<Rightarrow> 4096)\<rparr>"

definition rstrip_slashes :: "string \<Rightarrow> string" where
  "rstrip_slashes s = rev (dropWhile (\<lambda>c. c = CHR ''/'') (rev s))"

definition normalize_base_url :: "string \<Rightarrow> string" where
  "normalize_base_url base_url =
     (let base = rstrip_slashes base_url in if endswith base ''/v1'' then take (length base - length ''/v1'') base else base)"

text \<open>What \<open>GET /v1/models\<close> meets: no answer, or a status with a decoded body (\<open>None\<close>: not JSON).\<close>

datatype models_answer = NoAnswer | ModelsAnswer int "jv option"

text \<open>The entries of \<open>data\<close>; an id that cannot be put into a set is an error.\<close>

definition hashable :: "jv option \<Rightarrow> bool" where
  "hashable v \<longleftrightarrow> (case v of Some (ListV _) \<Rightarrow> False | Some (ObjV _) \<Rightarrow> False | _ \<Rightarrow> True)"

definition model_entries :: "jv \<Rightarrow> (string \<times> jv) list list option" where
  "model_entries v =
     (case v of
        ObjV kvs \<Rightarrow>
          (case map_of kvs ''data'' of
             None \<Rightarrow> Some []
           | Some (ListV es) \<Rightarrow>
               (case those (map (\<lambda>e. case e of ObjV d \<Rightarrow> Some d | _ \<Rightarrow> None) es) of
                  None \<Rightarrow> None
                | Some ds \<Rightarrow> if list_all (\<lambda>d. hashable (map_of d ''id'')) ds then Some ds else None)
           | _ \<Rightarrow> None)
      | _ \<Rightarrow> None)"

text \<open>\<open>isinstance(v, int)\<close>; a number without a fraction counts as an integer.\<close>

definition is_json_int :: "jv option \<Rightarrow> int option" where
  "is_json_int v = (case v of Some (NumV r) \<Rightarrow> if r = of_int \<lfloor>r\<rfloor> then Some \<lfloor>r\<rfloor> else None | Some (BoolV b) \<Rightarrow> Some (if b then 1 else 0) | _ \<Rightarrow> None)"

definition verify_model :: "models_answer \<Rightarrow> remote_backend \<Rightarrow> remote_backend option" where
  "verify_model a b =
     (case a of
        NoAnswer \<Rightarrow> None
      | ModelsAnswer st body \<Rightarrow>
          if st \<noteq> 200 then None
          else case Option.bind body model_entries of
              None \<Rightarrow> None
            | Some entries \<Rightarrow>
                (case List.find (\<lambda>e. map_of e ''id'' = Some (StrV (rc_remote_model (rb_cfg b)))) entries of
                   None \<Rightarrow> None
                 | Some e \<Rightarrow>
                     (case (rc_context_length (rb_cfg b), is_json_int (map_of e ''max_model_len'')) of
                        (None, Some n) \<Rightarrow> Some (b\<lparr>rb_context_length := n\<rparr>)
                      | _ \<Rightarrow> Some b)))"

definition remote_load :: "models_answer \<Rightarrow> remote_backend \<Rightarrow> bool \<times> remote_backend" where
  "remote_load a b =
     (if rb_state b = READY \<or> rb_state b = GENERATING then (True, b)
      else let cfg = rb_cfg b;
               headers = (case rc_api_key cfg of Some k \<Rightarrow> if k \<noteq> [] then [(''Authorization'', ''Bearer '' @ k)] else [] | None \<Rightarrow> [])
           in case verify_model a b of
                None \<Rightarrow> (False, b\<lparr>rb_state := UNLOADED\<rparr>)
              | Some b' \<Rightarrow> (True, b'\<lparr>rb_client := Some (normalize_base_url (rc_base_url cfg), headers), rb_state := READY\<rparr>))"

definition remote_unload :: "remote_backend \<Rightarrow> remote_backend" where
  "remote_unload b = b\<lparr>rb_client := None, rb_state := UNLOADED\<rparr>"

definition check_health :: "models_answer \<Rightarrow> remote_backend \<Rightarrow> bool" where
  "check_health a b \<longleftrightarrow>
     rb_client b \<noteq> None \<and> (rb_state b = READY \<or> rb_state b = GENERATING) \<and> (case a of NoAnswer \<Rightarrow> False | ModelsAnswer st _ \<Rightarrow> st = 200)"

definition state_value :: "backend_state \<Rightarrow> string" where
  "state_value s = (case s of UNLOADED \<Rightarrow> ''unloaded'' | LOADING \<Rightarrow> ''loading'' | READY \<Rightarrow> ''ready'' | GENERATING \<Rightarrow> ''generating'' | FAILED \<Rightarrow> ''failed'')"

definition remote_health :: "string \<Rightarrow> remote_backend \<Rightarrow> (string \<times> jv) list" where
  "remote_health name b =
     [(''backend'', StrV name), (''state'', StrV (state_value (rb_state b))), (''base_url'', StrV (rc_base_url (rb_cfg b))),
      (''remote_model'', StrV (rc_remote_model (rb_cfg b)))]
     @ (if rb_state b = READY \<or> rb_state b = GENERATING
        then [(''model_id'', StrV (rc_model_id (rb_cfg b))), (''context_length'', NumV (of_int (rb_context_length b)))] else [])"

definition remote_generate :: "string \<Rightarrow> gen_request \<Rightarrow> remote_backend \<Rightarrow> (gen_request \<times> remote_stream) option" where
  "remote_generate uuid_hex g b =
     (if rb_state b \<noteq> READY then None
      else Some (if gq_request_id g = [] then g\<lparr>gq_request_id := uuid_hex\<rparr> else g, remote_stream_init))"

definition opt_field :: "bool \<Rightarrow> string \<Rightarrow> jv \<Rightarrow> (string \<times> jv) list" where
  "opt_field c k v = (if c then [(k, v)] else [])"

definition request_body :: "remote_config \<Rightarrow> gen_request \<Rightarrow> string \<times> (string \<times> jv) list" where
  "request_body cfg g =
     (let body =
        [(''model'', StrV (rc_remote_model cfg)), (''stream'', BoolV True), (''stream_options'', ObjV [(''include_usage'', BoolV True)]),
         (''max_tokens'', case gq_max_tokens g of None \<Rightarrow> NullV | Some n \<Rightarrow> NumV (of_int n)), (''temperature'', NumV (gq_temperature g)),
         (''top_p'', NumV (gq_top_p g)), (''presence_penalty'', NumV (gq_presence_penalty g)), (''frequency_penalty'', NumV (gq_frequency_penalty g))]
        @ opt_field (gq_top_k g \<noteq> 0) ''top_k'' (NumV (of_int (gq_top_k g)))
        @ opt_field (gq_min_p g \<noteq> 0) ''min_p'' (NumV (gq_min_p g))
        @ opt_field (gq_repeat_penalty g \<noteq> 1) ''repetition_penalty'' (NumV (gq_repeat_penalty g))
        @ (case gq_seed g of None \<Rightarrow> [] | Some n \<Rightarrow> [(''seed'', NumV (of_int n))])
        @ opt_field (gq_stop g \<noteq> []) ''stop'' (ListV (map StrV (gq_stop g)))
      in case gq_messages g of
           Some ms \<Rightarrow> (''/v1/chat/completions'', body @ [(''messages'', ListV (map (\<lambda>m. ObjV [(''role'', StrV (ms_role m)), (''content'', StrV (ms_content m))]) ms))])
         | None \<Rightarrow> (''/v1/completions'', body @ [(''prompt'', case gq_prompt g of None \<Rightarrow> NullV | Some p \<Rightarrow> StrV p)]))"

text \<open>
  The client chooses neither the upstream model nor the place the key goes to: the body
  always names the configured remote model, and the key is in the headers of the client for
  the configured server and in nothing the health report shows.
\<close>

lemma request_body_model: "map_of (snd (request_body cfg g)) ''model'' = Some (StrV (rc_remote_model cfg))"
  by (auto simp: request_body_def Let_def split: option.splits)

lemma find_Some_member: "List.find p xs = Some x \<Longrightarrow> x \<in> set xs \<and> p x"
  by (auto simp: find_Some_iff)

lemma verify_model_cfg: "verify_model a b = Some b' \<Longrightarrow> rb_cfg b' = rb_cfg b \<and> rb_state b' = rb_state b \<and> rb_client b' = rb_client b"
  by (auto simp: verify_model_def split: models_answer.splits if_splits option.splits)

text \<open>
  A backend reports ready only after the server listed the configured model, and a failed
  load leaves it unloaded and otherwise unchanged, so the registry never places work on it.
\<close>

theorem remote_ready_verified:
  assumes "remote_load a b = (ok, b')" and "rb_state b \<noteq> READY" and "rb_state b \<noteq> GENERATING"
  shows "(ok \<longleftrightarrow> rb_state b' = READY)
    \<and> (ok \<longrightarrow> (\<exists>body entries e. a = ModelsAnswer 200 (Some body) \<and> model_entries body = Some entries \<and> e \<in> set entries
         \<and> map_of e ''id'' = Some (StrV (rc_remote_model (rb_cfg b))))
         \<and> rb_client b' \<noteq> None \<and> (rc_context_length (rb_cfg b) \<noteq> None \<longrightarrow> rb_context_length b' = rb_context_length b))
    \<and> (\<not> ok \<longrightarrow> b' = b\<lparr>rb_state := UNLOADED\<rparr>)"
proof (cases "verify_model a b")
  case None
  then show ?thesis using assms by (auto simp: remote_load_def Let_def)
next
  case (Some v)
  obtain body entries e where "a = ModelsAnswer 200 (Some body)" "model_entries body = Some entries" "e \<in> set entries"
      "map_of e ''id'' = Some (StrV (rc_remote_model (rb_cfg b)))"
    using Some by (auto simp: verify_model_def dest!: find_Some_member split: models_answer.splits if_splits option.splits bind_splits)
  moreover have "rc_context_length (rb_cfg b) \<noteq> None \<longrightarrow> rb_context_length v = rb_context_length b"
    using Some by (auto simp: verify_model_def split: models_answer.splits if_splits option.splits)
  ultimately show ?thesis using assms Some by (auto simp: remote_load_def Let_def)
qed

theorem remote_ready_verified_witness:
  "\<exists>b'. remote_load (ModelsAnswer 200 (Some (ObjV [(''data'', ListV [ObjV [(''id'', StrV ''m'')]])])))
      (remote_init \<lparr>rc_base_url = ''http://h/v1/'', rc_remote_model = ''m'', rc_model_id = ''m'', rc_api_key = Some ''k'', rc_connect_timeout_s = 10,
        rc_read_timeout_s = 60, rc_max_prestream_retries = 1, rc_context_length = None, rc_tls_verify = True, rc_prefix_cache = True, rc_kv_metrics = True\<rparr>) = (True, b')
     \<and> rb_state b' = READY \<and> rb_client b' = Some (''http://h'', [(''Authorization'', ''Bearer k'')])"
proof -
  let ?cfg = "\<lparr>rc_base_url = ''http://h/v1/'', rc_remote_model = ''m'', rc_model_id = ''m'', rc_api_key = Some ''k'', rc_connect_timeout_s = 10,
        rc_read_timeout_s = 60, rc_max_prestream_retries = 1, rc_context_length = None, rc_tls_verify = True, rc_prefix_cache = True, rc_kv_metrics = True\<rparr>"
  let ?a = "ModelsAnswer 200 (Some (ObjV [(''data'', ListV [ObjV [(''id'', StrV ''m'')]])]))"
  obtain ok b' where l: "remote_load ?a (remote_init ?cfg) = (ok, b')" by force
  have n: "normalize_base_url ''http://h/v1/'' = ''http://h''" by code_simp
  have "ok \<and> rb_client b' = Some (''http://h'', [(''Authorization'', ''Bearer k'')])"
    using l n by (auto simp: remote_load_def remote_init_def verify_model_def model_entries_def hashable_def is_json_int_def Let_def)
  then show ?thesis using remote_ready_verified[OF l] l by (auto simp: remote_init_def)
qed

definition remote_capabilities :: "remote_backend \<Rightarrow> capabilities option" where
  "remote_capabilities b =
     (if rb_state b = READY \<or> rb_state b = GENERATING
      then Some \<lparr>cap_model_id = rc_model_id (rb_cfg b), cap_context_length = rb_context_length b,
                 cap_supports_structured_output = False, cap_supports_kv_cache_metrics = rc_kv_metrics (rb_cfg b)\<rparr>
      else None)"

section \<open>Cache metrics\<close>

text \<open>\<open>str.rpartition(" ")\<close> and \<open>float\<close> (an argument) on the lines of the server's metrics page.\<close>

definition rpartition_space :: "string \<Rightarrow> string \<times> string" where
  "rpartition_space s =
     (if CHR '' '' \<in> set s
      then (rev (tl (dropWhile (\<lambda>c. c \<noteq> CHR '' '') (rev s))), rev (takeWhile (\<lambda>c. c \<noteq> CHR '' '') (rev s)))
      else ([], s))"

definition metric_of :: "(string \<Rightarrow> real option) \<Rightarrow> string \<Rightarrow> (string \<times> real) option" where
  "metric_of to_float raw =
     (let line = strip raw
      in if line = [] \<or> startswith line ''#'' then None
         else let (left, val) = rpartition_space line
              in if left = [] then None
                 else map_option (\<lambda>x. (strip (takeWhile (\<lambda>c. c \<noteq> CHR 0x7B) left), x)) (to_float val))"

definition samples_of :: "string list \<Rightarrow> (string \<times> real) list \<Rightarrow> real list option" where
  "samples_of names ms =
     (case List.find (\<lambda>n. n \<in> fst ` set ms) names of
        None \<Rightarrow> None
      | Some n \<Rightarrow> Some (map snd (filter (\<lambda>p. fst p = n) ms)))"

definition hit_rate_of :: "(string \<times> real) list \<Rightarrow> real option" where
  "hit_rate_of ms =
     (case samples_of [''vllm:prefix_cache_hit_rate'', ''sglang:cache_hit_rate''] ms of
        Some vs \<Rightarrow> Some (hd vs)
      | None \<Rightarrow>
          (case (samples_of [''vllm:prefix_cache_hits_total''] ms, samples_of [''vllm:prefix_cache_queries_total''] ms) of
             (Some hits, Some queries) \<Rightarrow> if sum_list queries > 0 then Some (sum_list hits / sum_list queries) else None
           | _ \<Rightarrow> None))"

definition parse_cache_metrics :: "(string \<Rightarrow> real option) \<Rightarrow> string list \<Rightarrow> (string \<times> real) list option" where
  "parse_cache_metrics to_float lines =
     (let ms = List.map_filter (metric_of to_float) lines;
          kv = samples_of [''vllm:gpu_cache_usage_perc'', ''sglang:token_usage'', ''sglang:kv_cache_usage''] ms;
          out = (case kv of None \<Rightarrow> [] | Some vs \<Rightarrow> [(''kv_cache_utilization'', hd vs)])
            @ (case hit_rate_of ms of None \<Rightarrow> [] | Some r \<Rightarrow> [(''prefix_cache_hit_rate'', r)])
      in if out = [] then None else Some out)"

end
