(* ===== verification/Config.thy ===== *)
theory Config
  imports Gateway Router Remote
begin

text \<open>
  The layered configuration (\<open>engine/config.py\<close>) and the construction of backends from it
  (\<open>engine/inference/factory.py\<close>): the spec tables, the settings with their field bounds and
  defaults, the model validators in the order they run, and \<open>load_config\<close>.

  \<open>pydantic\<close> turns raw layers into typed field values; \<open>construct\<close> is that step (\<open>None\<close>: a value
  has the wrong type or a key is unknown). Its documented behaviour used here is that the
  \<open>after\<close> validators run in the order of the class body and the first that raises ends the
  validation, and that the sources are consulted in order for each field. The host of a URL
  (\<open>urlparse\<close>; \<open>None\<close> is its \<open>ValueError\<close>) and the syntax of a CIDR are arguments. Paths are
  normalised strings.
\<close>

section \<open>Spec tables\<close>

record worker_spec =
  ws_name :: string
  ws_kind :: string
  ws_base_url :: string
  ws_model :: string
  ws_model_id :: "string option"
  ws_api_key :: "string option"
  ws_connect_timeout_s :: real
  ws_read_timeout_s :: real
  ws_max_prestream_retries :: int
  ws_context_length :: "int option"
  ws_tls_verify :: bool
  ws_max_in_flight :: int
  ws_prefix_cache :: bool
  ws_kv_metrics :: bool
  ws_cost_per_1k_input :: real
  ws_cost_per_1k_output :: real

definition within_ge_le :: "'a::linorder \<Rightarrow> 'a \<Rightarrow> 'a \<Rightarrow> bool" where
  "within_ge_le lo hi x \<longleftrightarrow> lo \<le> x \<and> x \<le> hi"

definition REMOTE_KINDS :: "string list" where
  "REMOTE_KINDS = [''remote_vllm'', ''remote_sglang'']"

definition worker_ok :: "worker_spec \<Rightarrow> bool" where
  "worker_ok w \<longleftrightarrow> ws_kind w \<in> set REMOTE_KINDS \<and> within_ge_le 0.1 600 (ws_connect_timeout_s w) \<and>
     within_ge_le 0.1 3600 (ws_read_timeout_s w) \<and> within_ge_le 0 10 (ws_max_prestream_retries w) \<and>
     (case ws_context_length w of None \<Rightarrow> True | Some c \<Rightarrow> within_ge_le 8 1048576 c) \<and>
     within_ge_le 1 4096 (ws_max_in_flight w) \<and> 0 \<le> ws_cost_per_1k_input w \<and> 0 \<le> ws_cost_per_1k_output w"

text \<open>\<open>self.model_id or "local-model"\<close>.\<close>

definition effective_model_id :: "worker_spec \<Rightarrow> string" where
  "effective_model_id w = (case ws_model_id w of Some m \<Rightarrow> if m = [] then ''local-model'' else m | None \<Rightarrow> ''local-model'')"

record vmodel_spec =
  vs_name :: string
  vs_policy :: string
  vs_backends :: "string list"
  vs_steps :: "string list list"

definition vmodel_ok :: "vmodel_spec \<Rightarrow> bool" where
  "vmodel_ok v \<longleftrightarrow> vs_policy v \<in> {''route'', ''cascade''} \<and>
     (if vs_policy v = ''route'' then vs_backends v \<noteq> [] \<and> vs_steps v = []
      else vs_steps v \<noteq> [] \<and> [] \<notin> set (vs_steps v) \<and> vs_backends v = [])"

definition normalized_steps :: "vmodel_spec \<Rightarrow> string list list" where
  "normalized_steps v = (if vs_policy v = ''route'' then [vs_backends v] else vs_steps v)"

definition rule_ok :: "workload_rule \<Rightarrow> bool" where
  "rule_ok r \<longleftrightarrow> wr_kind r = ''structured_output_preference'' \<and> strip (wr_name r) \<noteq> [] \<and> strip (wr_model r) \<noteq> [] \<and>
     wr_preferred_backends r \<noteq> [] \<and> (\<forall>n\<in>set (wr_preferred_backends r). strip n \<noteq> []) \<and> distinct (wr_preferred_backends r)"

section \<open>Settings\<close>

record engine_settings =
  es_host :: string
  es_port :: int
  es_allow_network_bind :: bool
  es_allow_insecure_bind :: bool
  es_grpc_enabled :: bool
  es_grpc_host :: string
  es_grpc_port :: int
  es_grpc_tls_cert :: "string option"
  es_grpc_tls_key :: "string option"
  es_require_auth :: "bool option"
  es_max_request_bytes :: int
  es_rate_limit_per_min :: int
  es_max_concurrent_per_key :: int
  es_max_concurrency :: int
  es_max_concurrency_queue :: int
  es_concurrency_queue_timeout_s :: real
  es_require_model_ready :: bool
  es_drain_timeout_s :: real
  es_ip_allowlist :: "string list"
  es_trust_forwarded_for :: bool
  es_allow_network_downloads :: bool
  es_allow_model_management :: bool
  es_allow_structured_output :: bool
  es_diagnostics_enabled :: bool
  es_quota_5h_cu :: real
  es_quota_weekly_cu :: real
  es_cu_prompt_weight :: real
  es_cu_completion_weight :: real
  es_billing_provider :: "string option"
  es_stripe_webhook_secret :: "string option"
  es_stripe_signature_tolerance_s :: int
  es_default_plan :: "string option"
  es_webhooks_enabled :: bool
  es_webhook_max_attempts :: int
  es_webhook_backoff_schedule_s :: "real list"
  es_webhook_poll_interval_s :: real
  es_webhook_delivery_timeout_s :: real
  es_webhook_signing_rotation_grace_s :: real
  es_webhook_usage_threshold_pct :: real
  es_client_events_enabled :: bool
  es_client_sse_heartbeat_s :: real
  es_client_events_retention_max_age_s :: real
  es_client_events_retention_max_per_client :: int
  es_client_cors_origins :: "string list"
  es_log_level :: string
  es_metrics_interval_s :: real
  es_event_history_size :: int
  es_event_subscriber_queue :: int
  es_log_ring_size :: int
  es_log_events_max_rows :: int
  es_backend_kind :: string
  es_allow_remote_backends :: bool
  es_remote_base_url :: "string option"
  es_remote_model :: "string option"
  es_remote_api_key :: "string option"
  es_remote_connect_timeout_s :: real
  es_remote_read_timeout_s :: real
  es_remote_max_prestream_retries :: int
  es_remote_context_length :: "int option"
  es_remote_tls_verify :: bool
  es_remote_prefix_cache :: bool
  es_remote_kv_metrics :: bool
  es_remote_workers :: "worker_spec list"
  es_virtual_models :: "vmodel_spec list"
  es_workload_routing_enabled :: bool
  es_workload_routing_rules :: "workload_rule list"
  es_allow_external_providers :: bool
  es_egress_allowlist :: "string list"
  es_external_providers :: "worker_spec list"
  es_primary_max_in_flight :: int
  es_backend_health_interval_s :: real
  es_prefix_affinity_chars :: int
  es_primary_cost_per_1k_input :: real
  es_primary_cost_per_1k_output :: real
  es_model_path :: "string option"
  es_model_id :: string
  es_n_ctx :: int
  es_n_threads :: "int option"
  es_n_gpu_layers :: int
  es_models_dir :: "string option"
  es_hf_endpoint :: string
  es_download_chunk_bytes :: int
  es_max_model_bytes :: int
  es_data_dir :: string
  es_db_path :: "string option"
  es_log_dir :: "string option"
  es_config_file :: "string option"

definition default_settings :: "string \<Rightarrow> engine_settings" where
  "default_settings default_data_dir =
     \<lparr>es_host = ''127.0.0.1'', es_port = 8000, es_allow_network_bind = False, es_allow_insecure_bind = False,
      es_grpc_enabled = False, es_grpc_host = ''127.0.0.1'', es_grpc_port = 50051, es_grpc_tls_cert = None, es_grpc_tls_key = None,
      es_require_auth = None, es_max_request_bytes = 2000000, es_rate_limit_per_min = 120, es_max_concurrent_per_key = 8,
      es_max_concurrency = 1, es_max_concurrency_queue = 32, es_concurrency_queue_timeout_s = 30,
      es_require_model_ready = False, es_drain_timeout_s = 30, es_ip_allowlist = [], es_trust_forwarded_for = False,
      es_allow_network_downloads = True, es_allow_model_management = True, es_allow_structured_output = True,
      es_diagnostics_enabled = True, es_quota_5h_cu = 1000000, es_quota_weekly_cu = 5000000, es_cu_prompt_weight = 1,
      es_cu_completion_weight = 1, es_billing_provider = None, es_stripe_webhook_secret = None,
      es_stripe_signature_tolerance_s = 300, es_default_plan = None, es_webhooks_enabled = False, es_webhook_max_attempts = 5,
      es_webhook_backoff_schedule_s = [30, 120, 600, 1800], es_webhook_poll_interval_s = 5, es_webhook_delivery_timeout_s = 10,
      es_webhook_signing_rotation_grace_s = 86400, es_webhook_usage_threshold_pct = 0, es_client_events_enabled = False,
      es_client_sse_heartbeat_s = 15, es_client_events_retention_max_age_s = 2592000,
      es_client_events_retention_max_per_client = 1000, es_client_cors_origins = [], es_log_level = ''INFO'',
      es_metrics_interval_s = 1, es_event_history_size = 200, es_event_subscriber_queue = 500, es_log_ring_size = 500,
      es_log_events_max_rows = 2000, es_backend_kind = ''llamacpp'', es_allow_remote_backends = True, es_remote_base_url = None,
      es_remote_model = None, es_remote_api_key = None, es_remote_connect_timeout_s = 10, es_remote_read_timeout_s = 60,
      es_remote_max_prestream_retries = 1, es_remote_context_length = None, es_remote_tls_verify = True,
      es_remote_prefix_cache = True, es_remote_kv_metrics = True, es_remote_workers = [], es_virtual_models = [],
      es_workload_routing_enabled = False, es_workload_routing_rules = [], es_allow_external_providers = False,
      es_egress_allowlist = [], es_external_providers = [], es_primary_max_in_flight = 1, es_backend_health_interval_s = 10,
      es_prefix_affinity_chars = 0, es_primary_cost_per_1k_input = 0, es_primary_cost_per_1k_output = 0, es_model_path = None,
      es_model_id = ''local-model'', es_n_ctx = 4096, es_n_threads = None, es_n_gpu_layers = 0, es_models_dir = None,
      es_hf_endpoint = ''https://huggingface.co'', es_download_chunk_bytes = 1048576, es_max_model_bytes = 0,
      es_data_dir = default_data_dir, es_db_path = None, es_log_dir = None, es_config_file = None\<rparr>"

text \<open>The bounds of the fields, by group.\<close>

definition network_ok :: "engine_settings \<Rightarrow> bool" where
  "network_ok s \<longleftrightarrow> within_ge_le 1 65535 (es_port s) \<and> within_ge_le 0 65535 (es_grpc_port s) \<and> 0 \<le> es_max_request_bytes s \<and>
     0 \<le> es_rate_limit_per_min s \<and> 0 \<le> es_max_concurrent_per_key s \<and> within_ge_le 1 1024 (es_max_concurrency s) \<and>
     within_ge_le 0 100000 (es_max_concurrency_queue s) \<and> within_ge_le 0 3600 (es_concurrency_queue_timeout_s s) \<and>
     within_ge_le 0 600 (es_drain_timeout_s s)"

definition billing_ok :: "engine_settings \<Rightarrow> bool" where
  "billing_ok s \<longleftrightarrow> 0 \<le> es_quota_5h_cu s \<and> 0 \<le> es_quota_weekly_cu s \<and> 0 \<le> es_cu_prompt_weight s \<and> 0 \<le> es_cu_completion_weight s \<and>
     within_ge_le 0 86400 (es_stripe_signature_tolerance_s s) \<and> within_ge_le 1 20 (es_webhook_max_attempts s) \<and>
     within_ge_le 0.1 3600 (es_webhook_poll_interval_s s) \<and> within_ge_le 0.1 300 (es_webhook_delivery_timeout_s s) \<and>
     within_ge_le 0 2592000 (es_webhook_signing_rotation_grace_s s) \<and> within_ge_le 0 1 (es_webhook_usage_threshold_pct s) \<and>
     within_ge_le 1 300 (es_client_sse_heartbeat_s s) \<and> 0 \<le> es_client_events_retention_max_age_s s \<and>
     0 \<le> es_client_events_retention_max_per_client s"

definition LOG_LEVELS :: "string list" where
  "LOG_LEVELS = [''CRITICAL'', ''ERROR'', ''WARNING'', ''INFO'', ''DEBUG'']"

definition telemetry_ok :: "engine_settings \<Rightarrow> bool" where
  "telemetry_ok s \<longleftrightarrow> es_log_level s \<in> set LOG_LEVELS \<and> within_ge_le 0 60 (es_metrics_interval_s s) \<and>
     within_ge_le 0 10000 (es_event_history_size s) \<and> within_ge_le 1 100000 (es_event_subscriber_queue s) \<and>
     within_ge_le 0 100000 (es_log_ring_size s) \<and> within_ge_le 0 1000000 (es_log_events_max_rows s)"

definition backends_ok :: "engine_settings \<Rightarrow> bool" where
  "backends_ok s \<longleftrightarrow> es_backend_kind s \<in> set (''llamacpp'' # REMOTE_KINDS) \<and> within_ge_le 0.1 600 (es_remote_connect_timeout_s s) \<and>
     within_ge_le 0.1 3600 (es_remote_read_timeout_s s) \<and> within_ge_le 0 10 (es_remote_max_prestream_retries s) \<and>
     (case es_remote_context_length s of None \<Rightarrow> True | Some c \<Rightarrow> within_ge_le 8 1048576 c) \<and>
     list_all worker_ok (es_remote_workers s) \<and> list_all vmodel_ok (es_virtual_models s) \<and> list_all rule_ok (es_workload_routing_rules s) \<and>
     list_all worker_ok (es_external_providers s) \<and> within_ge_le 1 4096 (es_primary_max_in_flight s) \<and>
     within_ge_le 0 3600 (es_backend_health_interval_s s) \<and> within_ge_le 0 100000 (es_prefix_affinity_chars s) \<and>
     0 \<le> es_primary_cost_per_1k_input s \<and> 0 \<le> es_primary_cost_per_1k_output s"

definition model_ok :: "engine_settings \<Rightarrow> bool" where
  "model_ok s \<longleftrightarrow> within_ge_le 8 1048576 (es_n_ctx s) \<and> (case es_n_threads s of None \<Rightarrow> True | Some n \<Rightarrow> 1 \<le> n) \<and>
     0 \<le> es_n_gpu_layers s \<and> 8192 \<le> es_download_chunk_bytes s \<and> 0 \<le> es_max_model_bytes s"

definition settings_fields_ok :: "engine_settings \<Rightarrow> bool" where
  "settings_fields_ok s \<longleftrightarrow> network_ok s \<and> billing_ok s \<and> telemetry_ok s \<and> backends_ok s \<and> model_ok s"

section \<open>Validators\<close>

datatype config_error =
    FieldError | BadCidr string | NetworkBind | InsecureBind | RemoteIncomplete "string list" | ExternalOff | NoAllowlist
  | EgressDenied string | DuplicateBackends "string list" | ShadowedModels "string list" | DuplicateRules "string list"
  | RuleModel string | RuleBackends string "string list" | GrpcTlsPair | GrpcBind | FileMissing string

text \<open>What the gateway reads of the settings (the store exists always, with the default plan).\<close>

definition gateway_settings :: "engine_settings \<Rightarrow> settings" where
  "gateway_settings s =
     \<lparr>host = es_host s, require_auth = es_require_auth s, quota_5h_cu = es_quota_5h_cu s, quota_weekly_cu = es_quota_weekly_cu s,
      rate_limit_per_min = es_rate_limit_per_min s, max_concurrent_per_key = es_max_concurrent_per_key s,
      cu_weights = \<lparr>prompt_weight = es_cu_prompt_weight s, completion_weight = es_cu_completion_weight s\<rparr>,
      billing_default_plan = Some (es_default_plan s)\<rparr>"

definition validate_ip_allowlist :: "(string \<Rightarrow> bool) \<Rightarrow> engine_settings \<Rightarrow> (config_error, engine_settings) result" where
  "validate_ip_allowlist cidr_ok s =
     (case List.find (\<lambda>c. \<not> cidr_ok c) (es_ip_allowlist s) of Some c \<Rightarrow> Inl (BadCidr c) | None \<Rightarrow> Inr s)"

text \<open>\<open>data_dir / name\<close>.\<close>

definition path_join :: "string \<Rightarrow> string \<Rightarrow> string" where
  "path_join d n = (if d = ''.'' then n else if endswith d ''/'' then d @ n else d @ ''/'' @ n)"

definition or_path :: "string option \<Rightarrow> string \<Rightarrow> string option" where
  "or_path p d = (case p of None \<Rightarrow> Some d | Some x \<Rightarrow> Some x)"

definition derive_paths :: "engine_settings \<Rightarrow> engine_settings" where
  "derive_paths s = s\<lparr>es_db_path := or_path (es_db_path s) (path_join (es_data_dir s) ''inference_engine.db''),
     es_log_dir := or_path (es_log_dir s) (path_join (es_data_dir s) ''logs''),
     es_models_dir := or_path (es_models_dir s) (path_join (es_data_dir s) ''models'')\<rparr>"

definition validate_binding :: "engine_settings \<Rightarrow> (config_error, engine_settings) result" where
  "validate_binding s =
     (if \<not> is_loopback_host (gateway_settings s) then
        if \<not> es_allow_network_bind s then Inl NetworkBind
        else if \<not> effective_require_auth (gateway_settings s) \<and> \<not> es_allow_insecure_bind s then Inl InsecureBind
        else Inr s
      else Inr s)"

definition falsy :: "string option \<Rightarrow> bool" where
  "falsy v \<longleftrightarrow> v = None \<or> v = Some []"

definition validate_remote_backend :: "engine_settings \<Rightarrow> (config_error, engine_settings) result" where
  "validate_remote_backend s =
     (if startswith (es_backend_kind s) ''remote_'' then
        let missing = map fst (filter (\<lambda>(n, v). falsy v) [(''remote_base_url'', es_remote_base_url s), (''remote_model'', es_remote_model s)])
        in if missing \<noteq> [] then Inl (RemoteIncomplete missing) else Inr s
      else Inr s)"

definition lstrip_dots :: "string \<Rightarrow> string" where
  "lstrip_dots s = dropWhile (\<lambda>c. c = CHR ''.'') s"

definition host_matches :: "string \<Rightarrow> string \<Rightarrow> bool" where
  "host_matches h raw \<longleftrightarrow> (let entry = lstrip_dots (lower raw) in h = entry \<or> endswith h (''.'' @ entry))"

definition host_allowed :: "string \<Rightarrow> string list \<Rightarrow> bool" where
  "host_allowed h allowlist = list_ex (host_matches (lower h)) allowlist"

definition url_host :: "(string \<Rightarrow> string option option) \<Rightarrow> string \<Rightarrow> string option" where
  "url_host hostname url = (case hostname url of None \<Rightarrow> None | Some h \<Rightarrow> h)"

definition egress_ok :: "(string \<Rightarrow> string option option) \<Rightarrow> string list \<Rightarrow> worker_spec \<Rightarrow> bool" where
  "egress_ok hostname allowlist w =
     (case url_host hostname (ws_base_url w) of None \<Rightarrow> False | Some h \<Rightarrow> host_allowed h allowlist)"

definition validate_external_providers ::
  "(string \<Rightarrow> string option option) \<Rightarrow> engine_settings \<Rightarrow> (config_error, engine_settings) result" where
  "validate_external_providers hostname s =
     (if es_external_providers s = [] then Inr s
      else if \<not> es_allow_external_providers s then Inl ExternalOff
      else if es_egress_allowlist s = [] then Inl NoAllowlist
      else case List.find (\<lambda>w. \<not> egress_ok hostname (es_egress_allowlist s) w) (es_external_providers s) of
          Some w \<Rightarrow> Inl (EgressDenied (ws_name w))
        | None \<Rightarrow> Inr s)"

definition pool_names :: "engine_settings \<Rightarrow> string list" where
  "pool_names s = ''primary'' # map ws_name (es_remote_workers s) @ map ws_name (es_external_providers s)"

definition dupes :: "string list \<Rightarrow> string list" where
  "dupes names = sort (remdups (filter (\<lambda>n. count_list names n > 1) names))"

definition physical_models :: "engine_settings \<Rightarrow> string list" where
  "physical_models s = es_model_id s # map effective_model_id (es_remote_workers s) @ map effective_model_id (es_external_providers s)"

definition validate_pool_names :: "engine_settings \<Rightarrow> (config_error, engine_settings) result" where
  "validate_pool_names s =
     (if dupes (pool_names s) \<noteq> [] then Inl (DuplicateBackends (dupes (pool_names s)))
      else let collisions = sort (filter (\<lambda>n. n \<in> set (physical_models s)) (map vs_name (es_virtual_models s)))
        in if collisions \<noteq> [] then Inl (ShadowedModels collisions) else Inr s)"

definition rule_error :: "engine_settings \<Rightarrow> workload_rule \<Rightarrow> config_error option" where
  "rule_error s r =
     (if \<not> wr_enabled r then None
      else if wr_model r \<in> vs_name ` set (es_virtual_models s) \<or> wr_model r \<notin> set (physical_models s) then Some (RuleModel (wr_name r))
      else let unknown = sort (remdups (filter (\<lambda>n. n \<notin> set (''primary'' # map ws_name (es_remote_workers s))) (wr_preferred_backends r)))
        in if unknown \<noteq> [] then Some (RuleBackends (wr_name r) unknown) else None)"

definition validate_workload_routing_rules :: "engine_settings \<Rightarrow> (config_error, engine_settings) result" where
  "validate_workload_routing_rules s =
     (let names = map wr_name (es_workload_routing_rules s)
      in if dupes names \<noteq> [] then Inl (DuplicateRules (dupes names))
         else case List.map_filter (rule_error s) (es_workload_routing_rules s) of e # _ \<Rightarrow> Inl e | [] \<Rightarrow> Inr s)"

definition validate_grpc :: "engine_settings \<Rightarrow> (config_error, engine_settings) result" where
  "validate_grpc s =
     (if \<not> es_grpc_enabled s then Inr s
      else if (es_grpc_tls_cert s = None) \<noteq> (es_grpc_tls_key s = None) then Inl GrpcTlsPair
      else if es_grpc_host s \<notin> {''127.0.0.1'', ''::1'', ''localhost''} \<and> \<not> es_allow_network_bind s then Inl GrpcBind
      else Inr s)"

text \<open>The validation of a settings object, in the order of the class body.\<close>

definition and_then :: "('e, 'a) result \<Rightarrow> ('a \<Rightarrow> ('e, 'b) result) \<Rightarrow> ('e, 'b) result" where
  "and_then x f = (case x of Inl e \<Rightarrow> Inl e | Inr v \<Rightarrow> f v)"

definition validate ::
  "(string \<Rightarrow> bool) \<Rightarrow> (string \<Rightarrow> string option option) \<Rightarrow> engine_settings \<Rightarrow> (config_error, engine_settings) result" where
  "validate cidr_ok hostname s =
     (if \<not> settings_fields_ok s then Inl FieldError
      else and_then (validate_ip_allowlist cidr_ok s) (\<lambda>s. and_then (validate_binding (derive_paths s)) (\<lambda>s.
           and_then (validate_remote_backend s) (\<lambda>s. and_then (validate_external_providers hostname s) (\<lambda>s.
           and_then (validate_pool_names s) (\<lambda>s. and_then (validate_workload_routing_rules s) validate_grpc))))))"

section \<open>Loading\<close>

text \<open>
  A layer maps field names to raw values. \<open>layered\<close> is what the sources give for each field; CLI
  values that are \<open>None\<close> were dropped before.
\<close>

definition given_overrides :: "(string \<times> 'v option) list \<Rightarrow> string \<rightharpoonup> 'v" where
  "given_overrides cli = map_of (List.map_filter (\<lambda>(k, v). map_option (Pair k) v) cli)"

definition layered :: "(string \<rightharpoonup> 'v) \<Rightarrow> (string \<rightharpoonup> 'v) \<Rightarrow> (string \<rightharpoonup> 'v) \<Rightarrow> string \<rightharpoonup> 'v" where
  "layered cli env toml = (\<lambda>k. case cli k of Some v \<Rightarrow> Some v | None \<Rightarrow> (case env k of Some v \<Rightarrow> Some v | None \<Rightarrow> toml k))"

record 'v config_world =
  cw_is_file :: "string \<Rightarrow> bool"
  cw_expanduser :: "string \<Rightarrow> string"
  cw_default_file :: string
  cw_toml :: "string \<Rightarrow> string \<rightharpoonup> 'v"
  cw_construct :: "(string \<rightharpoonup> 'v) \<Rightarrow> engine_settings option"
  cw_cidr_ok :: "string \<Rightarrow> bool"
  cw_hostname :: "string \<Rightarrow> string option option"

text \<open>The file an explicit request resolves to; only the default location may be absent.\<close>

definition resolve_toml :: "'v config_world \<Rightarrow> string option \<Rightarrow> string option \<Rightarrow> (config_error, string option) result" where
  "resolve_toml w config_file env_config_file =
     (case (case config_file of Some p \<Rightarrow> Some p | None \<Rightarrow> if falsy env_config_file then None else env_config_file) of
        Some p \<Rightarrow> if cw_is_file w (cw_expanduser w p) then Inr (Some (cw_expanduser w p)) else Inl (FileMissing (cw_expanduser w p))
      | None \<Rightarrow> Inr (if cw_is_file w (cw_default_file w) then Some (cw_default_file w) else None))"

definition load_config ::
  "'v config_world \<Rightarrow> (string \<times> 'v option) list \<Rightarrow> string option \<Rightarrow> string option \<Rightarrow> (string \<rightharpoonup> 'v)
    \<Rightarrow> (config_error, engine_settings) result" where
  "load_config w cli config_file env_config_file env =
     and_then (resolve_toml w config_file env_config_file) (\<lambda>toml.
       case cw_construct w (layered (given_overrides cli) env (case toml of None \<Rightarrow> Map.empty | Some p \<Rightarrow> cw_toml w p)) of
         None \<Rightarrow> Inl FieldError
       | Some s \<Rightarrow> and_then (validate (cw_cidr_ok w) (cw_hostname w) s) (\<lambda>s'.
           Inr (if toml \<noteq> None \<and> es_config_file s' = None then s'\<lparr>es_config_file := toml\<rparr> else s')))"

section \<open>Backends from the configuration\<close>

datatype built_backend =
    LlamaCpp string string int "int option" int
  | RemoteBackend string remote_config

datatype build_error = NoModelConfigured | RemoteDisabled | RemoteUnset

definition build_remote :: "engine_settings \<Rightarrow> (build_error, built_backend) result" where
  "build_remote s =
     (if \<not> es_allow_remote_backends s then Inl RemoteDisabled
      else case (es_remote_base_url s, es_remote_model s) of
          (Some u, Some m) \<Rightarrow>
            if u = [] \<or> m = [] then Inl RemoteUnset
            else Inr (RemoteBackend (es_backend_kind s)
              \<lparr>rc_base_url = u, rc_remote_model = m, rc_model_id = es_model_id s, rc_api_key = es_remote_api_key s,
               rc_connect_timeout_s = es_remote_connect_timeout_s s, rc_read_timeout_s = es_remote_read_timeout_s s,
               rc_max_prestream_retries = es_remote_max_prestream_retries s, rc_context_length = es_remote_context_length s,
               rc_tls_verify = es_remote_tls_verify s,
               rc_prefix_cache = es_remote_prefix_cache s, rc_kv_metrics = es_remote_kv_metrics s\<rparr>)
        | _ \<Rightarrow> Inl RemoteUnset)"

definition build_backend :: "engine_settings \<Rightarrow> (build_error, built_backend) result" where
  "build_backend s =
     (if startswith (es_backend_kind s) ''remote_'' then build_remote s
      else case es_model_path s of
          None \<Rightarrow> Inl NoModelConfigured
        | Some p \<Rightarrow> Inr (LlamaCpp p (es_model_id s) (es_n_ctx s) (es_n_threads s) (es_n_gpu_layers s)))"

definition build_remote_worker :: "worker_spec \<Rightarrow> built_backend" where
  "build_remote_worker w = RemoteBackend (ws_kind w)
     \<lparr>rc_base_url = ws_base_url w, rc_remote_model = ws_model w, rc_model_id = effective_model_id w, rc_api_key = ws_api_key w,
      rc_connect_timeout_s = ws_connect_timeout_s w, rc_read_timeout_s = ws_read_timeout_s w,
      rc_max_prestream_retries = ws_max_prestream_retries w, rc_context_length = ws_context_length w, rc_tls_verify = ws_tls_verify w,
      rc_prefix_cache = ws_prefix_cache w, rc_kv_metrics = ws_kv_metrics w\<rparr>"

section \<open>Lemmas\<close>

lemma and_then_Inr: "and_then x f = Inr y \<longleftrightarrow> (\<exists>v. x = Inr v \<and> f v = Inr y)"
  by (cases x) (auto simp: and_then_def)

lemma distinct_count_le: "distinct xs \<longleftrightarrow> (\<forall>x\<in>set xs. count_list xs x \<le> 1)"
proof (induction xs)
  case (Cons a xs)
  have z: "count_list xs x = 0 \<longleftrightarrow> x \<notin> set xs" for x by (simp add: count_list_0_iff)
  show ?case using Cons z by (auto simp: le_Suc_eq)
qed simp

lemma dupes_Nil: "dupes xs = [] \<longleftrightarrow> distinct xs"
proof -
  have "dupes xs = [] \<longleftrightarrow> filter (\<lambda>n. count_list xs n > 1) xs = []"
    unfolding dupes_def by (metis remdups_eq_nil_iff set_empty set_sort)
  then show ?thesis by (auto simp: distinct_count_le filter_empty_conv not_less)
qed

lemma sort_Nil_iff: "sort (xs :: string list) = [] \<longleftrightarrow> xs = []"
  by (metis length_0_conv length_sort)

lemma sort_filter_Nil: "sort (filter P (xs :: string list)) = [] \<longleftrightarrow> (\<forall>x\<in>set xs. \<not> P x)"
  unfolding sort_Nil_iff by (rule filter_empty_conv)

lemma find_all: "List.find P xs = None \<longleftrightarrow> (\<forall>x\<in>set xs. \<not> P x)"
  by (auto simp: find_None_iff)

lemma ip_allowlist_accept: "validate_ip_allowlist c s = Inr s' \<longleftrightarrow> s' = s \<and> (\<forall>x\<in>set (es_ip_allowlist s). c x)"
proof (cases "List.find (\<lambda>x. \<not> c x) (es_ip_allowlist s)")
  case None
  then show ?thesis using find_all[of "\<lambda>x. \<not> c x" "es_ip_allowlist s"] by (auto simp: validate_ip_allowlist_def)
next
  case (Some x)
  then show ?thesis using find_all[of "\<lambda>x. \<not> c x" "es_ip_allowlist s"] by (simp add: validate_ip_allowlist_def)
qed

lemma binding_accept:
  "validate_binding s = Inr s' \<longleftrightarrow> s' = s \<and> (is_loopback_host (gateway_settings s) \<or>
     es_allow_network_bind s \<and> (effective_require_auth (gateway_settings s) \<or> es_allow_insecure_bind s))"
  by (auto simp: validate_binding_def)

lemma remote_accept:
  "validate_remote_backend s = Inr s' \<longleftrightarrow> s' = s \<and> (startswith (es_backend_kind s) ''remote_'' \<longrightarrow>
     \<not> falsy (es_remote_base_url s) \<and> \<not> falsy (es_remote_model s))"
  by (auto simp: validate_remote_backend_def Let_def)

lemma external_accept:
  "validate_external_providers h s = Inr s' \<longleftrightarrow> s' = s \<and> (es_external_providers s = [] \<or>
     es_allow_external_providers s \<and> es_egress_allowlist s \<noteq> [] \<and> (\<forall>w\<in>set (es_external_providers s). egress_ok h (es_egress_allowlist s) w))"
proof (cases "List.find (\<lambda>w. \<not> egress_ok h (es_egress_allowlist s) w) (es_external_providers s)")
  case None
  then show ?thesis using find_all[of "\<lambda>w. \<not> egress_ok h (es_egress_allowlist s) w" "es_external_providers s"]
    by (auto simp: validate_external_providers_def)
next
  case (Some w)
  then show ?thesis using find_all[of "\<lambda>w. \<not> egress_ok h (es_egress_allowlist s) w" "es_external_providers s"]
    by (auto simp: validate_external_providers_def)
qed

lemma pool_accept:
  "validate_pool_names s = Inr s' \<longleftrightarrow> s' = s \<and> distinct (pool_names s) \<and> vs_name ` set (es_virtual_models s) \<inter> set (physical_models s) = {}"
  by (auto simp: validate_pool_names_def dupes_Nil sort_filter_Nil Let_def)

lemma grpc_accept:
  "validate_grpc s = Inr s' \<longleftrightarrow> s' = s \<and> (es_grpc_enabled s \<longrightarrow> (es_grpc_tls_cert s = None \<longleftrightarrow> es_grpc_tls_key s = None) \<and>
     (es_grpc_host s \<in> {''127.0.0.1'', ''::1'', ''localhost''} \<or> es_allow_network_bind s))"
  by (auto simp: validate_grpc_def)

lemma rule_error_None:
  "rule_error s r = None \<longleftrightarrow> (wr_enabled r \<longrightarrow> wr_model r \<notin> vs_name ` set (es_virtual_models s) \<and> wr_model r \<in> set (physical_models s) \<and>
     set (wr_preferred_backends r) \<subseteq> set (''primary'' # map ws_name (es_remote_workers s)))"
proof -
  let ?known = "set (''primary'' # map ws_name (es_remote_workers s))"
  have "sort (remdups (filter (\<lambda>n. n \<notin> ?known) (wr_preferred_backends r))) = [] \<longleftrightarrow> set (wr_preferred_backends r) \<subseteq> ?known"
    unfolding sort_Nil_iff remdups_eq_nil_iff filter_empty_conv by blast
  then show ?thesis unfolding rule_error_def Let_def by (simp del: set_map list.set)
qed

lemma rules_accept:
  "validate_workload_routing_rules s = Inr s' \<longleftrightarrow> s' = s \<and> distinct (map wr_name (es_workload_routing_rules s)) \<and>
     (\<forall>r\<in>set (es_workload_routing_rules s). rule_error s r = None)"
proof -
  have "List.map_filter f xs = [] \<longleftrightarrow> (\<forall>x\<in>set xs. f x = None)" for f :: "workload_rule \<Rightarrow> config_error option" and xs
    by (induction xs) (auto simp: map_filter_simps split: option.splits)
  note mf = this[of "rule_error s" "es_workload_routing_rules s"]
  show ?thesis
  proof (cases "List.map_filter (rule_error s) (es_workload_routing_rules s)")
    case Nil
    then show ?thesis using mf by (auto simp: validate_workload_routing_rules_def Let_def dupes_Nil)
  next
    case (Cons e es)
    then show ?thesis using mf by (simp add: validate_workload_routing_rules_def Let_def dupes_Nil)
  qed
qed

lemma derive_paths_fields:
  "gateway_settings (derive_paths s) = gateway_settings s" "pool_names (derive_paths s) = pool_names s"
  "physical_models (derive_paths s) = physical_models s" "rule_error (derive_paths s) r = rule_error s r"
  by (simp_all add: derive_paths_def gateway_settings_def pool_names_def physical_models_def rule_error_def)

lemma config_accepts_paths: "validate cidr_ok hostname s = Inr s' \<Longrightarrow> s' = derive_paths s"
  by (auto simp: validate_def and_then_Inr ip_allowlist_accept binding_accept remote_accept external_accept pool_accept rules_accept
      grpc_accept split: if_splits)


text \<open>
  The gRPC edge is not covered by the rule against an open bind. A configuration whose HTTP server
  stays on loopback and whose gRPC server binds to every interface is accepted with authentication
  off and without the acknowledgement \<open>allow_insecure_bind\<close>; the gateway then serves anonymous
  gRPC callers from the network.
\<close>

theorem grpc_binds_open_without_auth:
  assumes "validate cidr_ok hostname s = Inr s1" and "es_host s = ''127.0.0.1''" and "es_require_auth s = None"
    and "es_grpc_tls_cert s = None" and "es_grpc_tls_key s = None"
  shows "\<exists>s'. validate cidr_ok hostname (s\<lparr>es_grpc_enabled := True, es_grpc_host := ''0.0.0.0'', es_allow_network_bind := True,
       es_allow_insecure_bind := False\<rparr>) = Inr s' \<and> \<not> effective_require_auth (gateway_settings s') \<and>
     fst (authenticate_token (gateway_settings s') h now_iso None g) = Inr LOCAL_KEY_ID"
proof -
  let ?s = "s\<lparr>es_grpc_enabled := True, es_grpc_host := ''0.0.0.0'', es_allow_network_bind := True, es_allow_insecure_bind := False\<rparr>"
  have lb: "is_loopback_host (gateway_settings ?s)" and na: "\<not> effective_require_auth (gateway_settings ?s)"
    using assms(2,3) by (simp_all add: is_loopback_host_def effective_require_auth_def gateway_settings_def LOOPBACK_HOSTS_def)
  have f: "settings_fields_ok ?s = settings_fields_ok s" "pool_names ?s = pool_names s" "physical_models ?s = physical_models s"
    by (simp_all add: settings_fields_ok_def network_ok_def billing_ok_def telemetry_ok_def backends_ok_def model_ok_def
        pool_names_def physical_models_def)
  have old: "settings_fields_ok s" "\<forall>c\<in>set (es_ip_allowlist s). cidr_ok c"
    "startswith (es_backend_kind s) ''remote_'' \<longrightarrow> \<not> falsy (es_remote_base_url s) \<and> \<not> falsy (es_remote_model s)"
    "es_external_providers s = [] \<or> es_allow_external_providers s \<and> es_egress_allowlist s \<noteq> [] \<and>
       (\<forall>w\<in>set (es_external_providers s). egress_ok hostname (es_egress_allowlist s) w)"
    "distinct (pool_names s)" "vs_name ` set (es_virtual_models s) \<inter> set (physical_models s) = {}"
    "distinct (map wr_name (es_workload_routing_rules s))" "\<forall>r\<in>set (es_workload_routing_rules s). rule_error s r = None"
    using assms(1)
    by (auto simp: validate_def and_then_Inr ip_allowlist_accept binding_accept remote_accept external_accept pool_accept rules_accept
        derive_paths_fields split: if_splits) (auto simp: derive_paths_def)
  have "rule_error ?s r = rule_error s r" for r by (simp add: rule_error_def physical_models_def)
  then have "validate cidr_ok hostname ?s = Inr (derive_paths ?s)"
    using old f lb assms(4,5)
    by (simp add: validate_def and_then_Inr ip_allowlist_accept binding_accept remote_accept external_accept pool_accept rules_accept grpc_accept
        derive_paths_fields) (simp add: derive_paths_def)
  moreover have "\<not> effective_require_auth (gateway_settings (derive_paths ?s))" using na by (simp add: derive_paths_fields)
  ultimately show ?thesis by (intro exI[of _ "derive_paths ?s"] conjI) (simp_all add: authenticate_token_def Let_def)
qed

text \<open>
  The recorded configuration file can be the wrong one. With a file named on the command line and
  \<open>IE_CONFIG_FILE\<close> set, the values come from the former, but the field \<open>config_file\<close> is filled by
  the environment, so the settings record the latter (which the backup then copies). The
  hypothesis on \<open>construct\<close> is that the field is read from its layer value.
\<close>

theorem config_file_misrecorded:
  assumes "cw_is_file w (cw_expanduser w a)" and "given_overrides cli ''config_file'' = None" and "env ''config_file'' = Some v"
    and "\<And>m s. cw_construct w m = Some s \<Longrightarrow> es_config_file s = map_option as_path (m ''config_file'')"
    and "load_config w cli (Some a) env_config_file env = Inr s"
  shows "es_config_file s = Some (as_path v) \<and>
    (\<exists>s0. cw_construct w (layered (given_overrides cli) env (cw_toml w (cw_expanduser w a))) = Some s0)"
proof -
  let ?m = "layered (given_overrides cli) env (cw_toml w (cw_expanduser w a))"
  obtain s0 s1 where c: "cw_construct w ?m = Some s0" and v: "validate (cw_cidr_ok w) (cw_hostname w) s0 = Inr s1"
    and s: "s = (if es_config_file s1 = None then s1\<lparr>es_config_file := Some (cw_expanduser w a)\<rparr> else s1)"
    using assms(1,5) by (auto simp: load_config_def resolve_toml_def and_then_Inr split: option.splits)
  have "es_config_file s0 = Some (as_path v)" using assms(4)[OF c] assms(2,3) by (simp add: layered_def)
  moreover have "s1 = derive_paths s0" by (rule config_accepts_paths[OF v])
  ultimately show ?thesis using s c by (simp add: derive_paths_def)
qed


end
