(* ===== verification/Engine_App.thy ===== *)
theory Engine_App
  imports Config Downloader
begin

text \<open>
  The application object (\<open>engine/main.py\<close>): the backend pool and the router assembled from a
  validated configuration, and the HTTP middleware in front of every endpoint. The lifespan of the
  same file is the subject of \<open>Lifespan\<close>.

  \<open>live\<close> gives the backend object a constructed remote backend currently is; the parser of IP
  addresses and networks is an argument (\<open>None\<close>: not an address).
\<close>

section \<open>Assembly\<close>

definition primary_entry :: "backend option \<Rightarrow> engine_settings \<Rightarrow> backend_entry" where
  "primary_entry b s =
     \<lparr>be_name = ''primary'', be_kind = es_backend_kind s, be_is_local = (es_backend_kind s = ''llamacpp''), be_backend = b,
      be_max_in_flight = es_primary_max_in_flight s,
      be_prefix_cache = (es_backend_kind s \<noteq> ''llamacpp'' \<and> es_remote_prefix_cache s), be_order = 0, be_in_flight = 0,
      be_available = True, be_cache = None, be_spillover = False, be_external = False, be_served_model = Some (es_model_id s)\<rparr>"

definition remote_entry :: "(built_backend \<Rightarrow> backend) \<Rightarrow> bool \<Rightarrow> worker_spec \<Rightarrow> backend_entry" where
  "remote_entry live external w =
     \<lparr>be_name = ws_name w, be_kind = ws_kind w, be_is_local = False, be_backend = Some (live (build_remote_worker w)),
      be_max_in_flight = ws_max_in_flight w, be_prefix_cache = ws_prefix_cache w, be_order = 0, be_in_flight = 0,
      be_available = True, be_cache = None, be_spillover = external, be_external = external,
      be_served_model = Some (effective_model_id w)\<rparr>"

definition backend_pool :: "(built_backend \<Rightarrow> backend) \<Rightarrow> backend option \<Rightarrow> engine_settings \<Rightarrow> registry" where
  "backend_pool live b s =
     registry_init (primary_entry b s # map (remote_entry live False) (es_remote_workers s) @ map (remote_entry live True) (es_external_providers s))"

text \<open>The cost weights of the entries, by position.\<close>

definition cost_per_1k :: "engine_settings \<Rightarrow> nat \<Rightarrow> real \<times> real" where
  "cost_per_1k s i =
     (let cs = (es_primary_cost_per_1k_input s, es_primary_cost_per_1k_output s) #
          map (\<lambda>w. (ws_cost_per_1k_input w, ws_cost_per_1k_output w)) (es_remote_workers s @ es_external_providers s)
      in if i < length cs then cs ! i else (0, 0))"

text \<open>A virtual model that names an unknown backend stops the construction.\<close>

definition unknown_backends :: "engine_settings \<Rightarrow> vmodel_spec \<Rightarrow> string list" where
  "unknown_backends s v = sort (remdups (filter (\<lambda>n. n \<notin> set (pool_names s)) (concat (normalized_steps v))))"

definition app_router :: "engine_settings \<Rightarrow> (string \<times> string list, router) result" where
  "app_router s =
     (case List.find (\<lambda>v. unknown_backends s v \<noteq> []) (es_virtual_models s) of
        Some v \<Rightarrow> Inl (vs_name v, unknown_backends s v)
      | None \<Rightarrow> Inr (router_init
          (map (\<lambda>v. \<lparr>vm_name = vs_name v, vm_policy = vs_policy v, vm_steps = normalized_steps v\<rparr>) (es_virtual_models s))
          (es_workload_routing_rules s) (es_workload_routing_enabled s)))"

section \<open>Middleware\<close>

record http_request =
  hq_method :: string
  hq_path :: string
  hq_headers :: "string \<rightharpoonup> string"
  hq_peer :: "string option"

record http_response =
  hr_status :: nat
  hr_code :: string
  hr_headers :: "(string \<times> string) list"

definition error_response :: "nat \<Rightarrow> string \<Rightarrow> http_response" where
  "error_response st co = \<lparr>hr_status = st, hr_code = co, hr_headers = []\<rparr>"

text \<open>An endpoint answers and may change the state; \<open>None\<close> is an exception that is not handled.\<close>

type_synonym 's http_endpoint = "http_request \<Rightarrow> 's \<Rightarrow> http_response option \<times> 's"

definition client_ip :: "bool \<Rightarrow> http_request \<Rightarrow> string option" where
  "client_ip trust_forwarded_for q =
     (case (if trust_forwarded_for then hq_headers q ''x-forwarded-for'' else None) of
        Some xff \<Rightarrow> if xff = [] then hq_peer q else Some (strip (hd (split_on (CHR '','') xff)))
      | None \<Rightarrow> hq_peer q)"

definition ip_permitted :: "(string \<Rightarrow> (string \<Rightarrow> bool) option) \<Rightarrow> string \<Rightarrow> string list \<Rightarrow> bool" where
  "ip_permitted addr ip networks = (case addr ip of None \<Rightarrow> False | Some in_net \<Rightarrow> list_ex in_net networks)"

definition ip_admitted :: "(string \<Rightarrow> (string \<Rightarrow> bool) option) \<Rightarrow> engine_settings \<Rightarrow> http_request \<Rightarrow> bool" where
  "ip_admitted addr s q \<longleftrightarrow> es_ip_allowlist s = [] \<or>
     (case client_ip (es_trust_forwarded_for s) q of None \<Rightarrow> False | Some ip \<Rightarrow> ip_permitted addr ip (es_ip_allowlist s))"

definition ip_allowlist_mw :: "(string \<Rightarrow> (string \<Rightarrow> bool) option) \<Rightarrow> engine_settings \<Rightarrow> 's http_endpoint \<Rightarrow> 's http_endpoint" where
  "ip_allowlist_mw addr s call_next q st =
     (if es_ip_allowlist s \<noteq> [] then
        (case client_ip (es_trust_forwarded_for s) q of
           None \<Rightarrow> (Some (error_response 403 ''ip_not_allowed''), st)
         | Some ip \<Rightarrow> if \<not> ip_permitted addr ip (es_ip_allowlist s) then (Some (error_response 403 ''ip_not_allowed''), st)
                     else call_next q st)
      else call_next q st)"

text \<open>The CORS headers of an allowed origin, and \<open>dict.update\<close> of the response's headers.\<close>

definition client_cors_headers :: "string \<Rightarrow> (string \<times> string) list" where
  "client_cors_headers origin =
     [(''access-control-allow-origin'', origin), (''access-control-allow-credentials'', ''true''),
      (''access-control-allow-methods'', ''GET, POST, OPTIONS''),
      (''access-control-allow-headers'', ''authorization, x-api-key, last-event-id, content-type''),
      (''access-control-expose-headers'', ''last-event-id''), (''vary'', ''Origin'')]"

definition is_client_path :: "string \<Rightarrow> bool" where
  "is_client_path p \<longleftrightarrow> p = ''/client'' \<or> startswith p ''/client/''"

definition cors_origin :: "engine_settings \<Rightarrow> http_request \<Rightarrow> string option" where
  "cors_origin s q = (case hq_headers q ''origin'' of
     Some o' \<Rightarrow> if is_client_path (hq_path q) \<and> o' \<noteq> [] \<and> o' \<in> set (es_client_cors_origins s) then Some o' else None
   | None \<Rightarrow> None)"

definition client_cors_mw :: "engine_settings \<Rightarrow> 's http_endpoint \<Rightarrow> 's http_endpoint" where
  "client_cors_mw s call_next q st =
     (case cors_origin s q of
        None \<Rightarrow> call_next q st
      | Some origin \<Rightarrow>
          if hq_method q = ''OPTIONS'' then (Some \<lparr>hr_status = 204, hr_code = [], hr_headers = client_cors_headers origin\<rparr>, st)
          else (case call_next q st of
              (Some r, st') \<Rightarrow> (Some (r\<lparr>hr_headers := foldl (\<lambda>d (k, v). dict_put k v d) (hr_headers r) (client_cors_headers origin)\<rparr>), st')
            | (None, st') \<Rightarrow> (None, st')))"

definition limit_body_size_mw :: "engine_settings \<Rightarrow> 's http_endpoint \<Rightarrow> 's http_endpoint" where
  "limit_body_size_mw s call_next q st =
     (if es_max_request_bytes s > 0 then
        (case hq_headers q ''content-length'' of
           Some len \<Rightarrow>
             if isdigit len then
               (case py_int len of
                  None \<Rightarrow> (None, st)
                | Some n \<Rightarrow> if n > es_max_request_bytes s then (Some (error_response 413 ''payload_too_large''), st) else call_next q st)
             else call_next q st
         | None \<Rightarrow> call_next q st)
      else call_next q st)"

text \<open>The innermost middleware gives the request its id; \<open>fresh_id\<close> is the generated one.\<close>

definition request_id_of :: "string \<Rightarrow> http_request \<Rightarrow> string" where
  "request_id_of fresh_id q = (case hq_headers q ''x-request-id'' of Some x \<Rightarrow> if x = [] then fresh_id else x | None \<Rightarrow> fresh_id)"

definition assign_request_id_mw :: "string \<Rightarrow> (string \<Rightarrow> 's http_endpoint) \<Rightarrow> 's http_endpoint" where
  "assign_request_id_mw fresh_id call_next q st = call_next (request_id_of fresh_id q) q st"

text \<open>Middleware registered later wraps the earlier.\<close>

definition app_pipeline ::
  "(string \<Rightarrow> (string \<Rightarrow> bool) option) \<Rightarrow> engine_settings \<Rightarrow> string \<Rightarrow> (string \<Rightarrow> 's http_endpoint) \<Rightarrow> 's http_endpoint" where
  "app_pipeline addr s fresh_id handler =
     ip_allowlist_mw addr s (client_cors_mw s (limit_body_size_mw s (assign_request_id_mw fresh_id handler)))"

section \<open>The assembled pool\<close>

lemma map_registry_init:
  assumes "\<And>i e. f (e\<lparr>be_order := i\<rparr>) = f e"
  shows "map f (registry_init es) = map f es"
  by (rule nth_equalityI) (simp_all add: registry_init_def nth_enumerate_eq assms)

lemma registry_init_member:
  assumes "e \<in> set (registry_init es)" obtains i e0 where "e0 \<in> set es" "e = e0\<lparr>be_order := i\<rparr>"
proof -
  obtain a where "a < length es" "e = (es ! a)\<lparr>be_order := a\<rparr>" using assms by (auto simp: registry_init_def in_set_enumerate_eq)
  then show ?thesis using that[of "es ! a" a] by simp
qed

lemma pool_entry_names: "map be_name (backend_pool live b s) = pool_names s"
  by (simp add: backend_pool_def map_registry_init primary_entry_def remote_entry_def pool_names_def comp_def)

lemma pool_member:
  assumes "e \<in> set (backend_pool live b s)"
  obtains i where "e = (primary_entry b s)\<lparr>be_order := i\<rparr>"
  | i w where "w \<in> set (es_remote_workers s)" "e = (remote_entry live False w)\<lparr>be_order := i\<rparr>"
  | i w where "w \<in> set (es_external_providers s)" "e = (remote_entry live True w)\<lparr>be_order := i\<rparr>"
proof -
  let ?es = "primary_entry b s # map (remote_entry live False) (es_remote_workers s) @ map (remote_entry live True) (es_external_providers s)"
  obtain i e0 where "e0 \<in> set ?es" "e = e0\<lparr>be_order := i\<rparr>"
    using registry_init_member[of e ?es] assms unfolding backend_pool_def by blast
  then show ?thesis using that by auto
qed

lemma unique_entry: "distinct (map be_name r) \<Longrightarrow> n \<in> set (map be_name r) \<Longrightarrow> \<exists>!e. e \<in> set r \<and> be_name e = n"
  by (auto simp: distinct_map inj_on_def)

lemma dict_put_values: "snd ` set (dict_put k v d) \<subseteq> insert v (snd ` set d)" "fst ` set (dict_put k v d) = insert k (fst ` set d)"
  by (induction k v d rule: dict_put.induct) auto

lemma router_init_values:
  "snd ` set (ro_vmodels (router_init vms rules en)) \<subseteq> set vms" "fst ` set (ro_vmodels (router_init vms rules en)) = vm_name ` set vms"
proof -
  let ?f = "\<lambda>d vm. dict_put (vm_name vm) vm d"
  have vals: "snd ` set (foldl ?f d vms) \<subseteq> snd ` set d \<union> set vms" for d
  proof (induction vms arbitrary: d)
    case (Cons vm vms)
    from subset_trans[OF Cons.IH[of "?f d vm"] Un_mono[OF dict_put_values(1)[of "vm_name vm" vm d] subset_refl]]
    show ?case by simp
  qed simp
  have keys: "fst ` set (foldl ?f d vms) = fst ` set d \<union> vm_name ` set vms" for d
  proof (induction vms arbitrary: d)
    case (Cons vm vms)
    show ?case using Cons.IH[of "?f d vm"] by (simp add: dict_put_values(2))
  qed simp
  show "snd ` set (ro_vmodels (router_init vms rules en)) \<subseteq> set vms" using vals[of "[]"] by (simp add: router_init_def)
  show "fst ` set (ro_vmodels (router_init vms rules en)) = vm_name ` set vms" using keys[of "[]"] by (simp add: router_init_def)
qed

lemma app_router_Inr:
  assumes "app_router s = Inr ro"
  shows "ro = router_init (map (\<lambda>v. \<lparr>vm_name = vs_name v, vm_policy = vs_policy v, vm_steps = normalized_steps v\<rparr>) (es_virtual_models s))
      (es_workload_routing_rules s) (es_workload_routing_enabled s)"
    and "v \<in> set (es_virtual_models s) \<Longrightarrow> g \<in> set (normalized_steps v) \<Longrightarrow> set g \<subseteq> set (pool_names s)"
proof -
  have none: "List.find (\<lambda>v. unknown_backends s v \<noteq> []) (es_virtual_models s) = None" using assms by (auto simp: app_router_def split: option.splits)
  then show "ro = router_init (map (\<lambda>v. \<lparr>vm_name = vs_name v, vm_policy = vs_policy v, vm_steps = normalized_steps v\<rparr>) (es_virtual_models s))
      (es_workload_routing_rules s) (es_workload_routing_enabled s)" using assms by (simp add: app_router_def)
  assume v: "v \<in> set (es_virtual_models s)" "g \<in> set (normalized_steps v)"
  have "unknown_backends s v = []" using none v(1) by (simp add: find_all)
  then have "\<forall>n\<in>set (concat (normalized_steps v)). n \<in> set (pool_names s)"
    unfolding unknown_backends_def sort_Nil_iff remdups_eq_nil_iff filter_empty_conv by blast
  then show "set g \<subseteq> set (pool_names s)" using v(2) by auto
qed

lemma vmodel_steps: "vmodel_ok v \<Longrightarrow> g \<in> set (normalized_steps v) \<Longrightarrow> g \<noteq> []"
  by (auto simp: vmodel_ok_def normalized_steps_def split: if_splits)

text \<open>What an accepted configuration says about the pool.\<close>

lemma validated_parts:
  assumes "validate cidr_ok hostname s0 = Inr s"
  shows "distinct (pool_names s)" and "1 \<le> es_primary_max_in_flight s" and "list_all worker_ok (es_remote_workers s)"
    and "list_all worker_ok (es_external_providers s)"
    and "es_external_providers s = [] \<or> (\<forall>w\<in>set (es_external_providers s). egress_ok hostname (es_egress_allowlist s) w)"
    and "list_all vmodel_ok (es_virtual_models s)" and "vs_name ` set (es_virtual_models s) \<inter> set (physical_models s) = {}"
    and "\<forall>r\<in>set (es_workload_routing_rules s). wr_enabled r \<longrightarrow>
      set (wr_preferred_backends r) \<subseteq> set (''primary'' # map ws_name (es_remote_workers s))"
proof -
  have s: "s = derive_paths s0" by (rule config_accepts_paths[OF assms])
  have f: "es_primary_max_in_flight s = es_primary_max_in_flight s0" "es_remote_workers s = es_remote_workers s0"
    "es_external_providers s = es_external_providers s0" "es_virtual_models s = es_virtual_models s0"
    by (simp_all add: s derive_paths_def)
  have ok: "settings_fields_ok s0"
    and v: "validate_external_providers hostname s = Inr s" "validate_pool_names s = Inr s" "validate_workload_routing_rules s = Inr s"
    using assms s
    by (auto simp: validate_def and_then_Inr ip_allowlist_accept binding_accept remote_accept external_accept pool_accept rules_accept
        grpc_accept split: if_splits)
  show "distinct (pool_names s)" "vs_name ` set (es_virtual_models s) \<inter> set (physical_models s) = {}" using v(2) by (simp_all add: pool_accept)
  show "1 \<le> es_primary_max_in_flight s" "list_all worker_ok (es_remote_workers s)" "list_all worker_ok (es_external_providers s)"
    "list_all vmodel_ok (es_virtual_models s)"
    using ok by (simp_all add: f settings_fields_ok_def backends_ok_def within_ge_le_def)
  show "es_external_providers s = [] \<or> (\<forall>w\<in>set (es_external_providers s). egress_ok hostname (es_egress_allowlist s) w)"
    using v(1) by (auto simp: external_accept)
  show "\<forall>r\<in>set (es_workload_routing_rules s). wr_enabled r \<longrightarrow>
      set (wr_preferred_backends r) \<subseteq> set (''primary'' # map ws_name (es_remote_workers s))"
    using v(3) unfolding rules_accept rule_error_None by blast
qed

lemma internal_not_external:
  assumes "distinct (pool_names s)" and "n \<in> set (''primary'' # map ws_name (es_remote_workers s))"
  shows "n \<notin> ws_name ` set (es_external_providers s)"
proof -
  have "pool_names s = (''primary'' # map ws_name (es_remote_workers s)) @ map ws_name (es_external_providers s)"
    by (simp add: pool_names_def)
  then have "set (''primary'' # map ws_name (es_remote_workers s)) \<inter> set (map ws_name (es_external_providers s)) = {}"
    using assms(1) by (metis distinct_append)
  then show ?thesis using assms(2) unfolding set_map by blast
qed

lemma pool_entries_ok:
  assumes "validate cidr_ok hostname s0 = Inr s" and "e \<in> set (backend_pool live b s)"
  shows "be_in_flight e = 0 \<and> 0 < be_max_in_flight e \<and> be_spillover e = be_external e \<and>
    (be_external e \<longrightarrow> (\<exists>w\<in>set (es_external_providers s). be_name e = ws_name w \<and> egress_ok hostname (es_egress_allowlist s) w))"
  using assms(2) validated_parts(2-5)[OF assms(1)]
  by (cases rule: pool_member) (auto simp: primary_entry_def remote_entry_def worker_ok_def within_ge_le_def list_all_iff)

lemma virtual_steps_ok:
  assumes ok: "validate cidr_ok hostname s0 = Inr s" and ro: "app_router s = Inr ro"
    and vm: "vm \<in> snd ` set (ro_vmodels ro)" and g: "g \<in> set (vm_steps vm)"
  shows "g \<noteq> [] \<and> (\<forall>n\<in>set g. \<exists>!e. e \<in> set (backend_pool live b s) \<and> be_name e = n)"
proof -
  have d: "distinct (map be_name (backend_pool live b s))" unfolding pool_entry_names by (rule validated_parts(1)[OF ok])
  obtain v where v: "v \<in> set (es_virtual_models s)" "vm_steps vm = normalized_steps v"
    using vm router_init_values(1) unfolding app_router_Inr(1)[OF ro] by fastforce
  have "set g \<subseteq> set (map be_name (backend_pool live b s))" using app_router_Inr(2)[OF ro v(1)] g v(2) by (simp add: pool_entry_names)
  moreover have "g \<noteq> []" using vmodel_steps[of v g] v g validated_parts(6)[OF ok] by (simp add: list_all_iff)
  ultimately show ?thesis using unique_entry[OF d] by blast
qed

lemma rule_backends_ok:
  assumes ok: "validate cidr_ok hostname s0 = Inr s" and ro: "app_router s = Inr ro"
    and r: "r \<in> set (ro_workload_rules ro)" "wr_enabled r" "n \<in> set (wr_preferred_backends r)"
  shows "\<exists>!e. e \<in> set (backend_pool live b s) \<and> be_name e = n \<and> \<not> be_external e"
proof -
  have d: "distinct (map be_name (backend_pool live b s))" unfolding pool_entry_names by (rule validated_parts(1)[OF ok])
  have "r \<in> set (es_workload_routing_rules s)" using r(1) by (simp add: app_router_Inr(1)[OF ro] router_init_def)
  then have n: "n \<in> set (''primary'' # map ws_name (es_remote_workers s))" using validated_parts(8)[OF ok] r(2,3) by blast
  then have "n \<in> set (map be_name (backend_pool live b s))" unfolding pool_entry_names pool_names_def by auto
  from unique_entry[OF d this] obtain e where e: "e \<in> set (backend_pool live b s)" "be_name e = n"
    "\<forall>e'. e' \<in> set (backend_pool live b s) \<and> be_name e' = n \<longrightarrow> e' = e" by blast
  have "n \<notin> ws_name ` set (es_external_providers s)" by (rule internal_not_external[OF validated_parts(1)[OF ok] n])
  then have "\<not> be_external e" using e(2) pool_entries_ok[OF ok e(1)] by blast
  then show ?thesis using e by blast
qed

lemma virtual_not_served:
  assumes ok: "validate cidr_ok hostname s0 = Inr s" and ro: "app_router s = Inr ro"
    and v: "is_virtual ro name" and e: "e \<in> set (backend_pool live b s)"
  shows "be_served_model e \<noteq> Some name"
proof -
  have "name \<in> fst ` set (ro_vmodels ro)" using v by (auto simp: is_virtual_def image_iff dest!: map_of_SomeD intro!: bexI)
  then have "name \<in> vs_name ` set (es_virtual_models s)" unfolding app_router_Inr(1)[OF ro] router_init_values(2) by auto
  then have nm: "name \<notin> set (physical_models s)" using validated_parts(7)[OF ok] by blast
  show ?thesis using e nm by (cases rule: pool_member) (auto simp: primary_entry_def remote_entry_def physical_models_def)
qed


definition sample_pool_settings :: engine_settings where
  "sample_pool_settings = (default_settings ''/d'')\<lparr>
     es_remote_workers := [\<lparr>ws_name = ''gpu'', ws_kind = ''remote_vllm'', ws_base_url = ''http://10.0.0.2:8000/v1'', ws_model = ''m'',
       ws_model_id = Some ''m'', ws_api_key = None, ws_connect_timeout_s = 5, ws_read_timeout_s = 60, ws_max_prestream_retries = 1,
       ws_context_length = None, ws_tls_verify = True, ws_max_in_flight = 4, ws_prefix_cache = False, ws_kv_metrics = False,
       ws_cost_per_1k_input = 0, ws_cost_per_1k_output = 0\<rparr>],
     es_virtual_models := [\<lparr>vs_name = ''auto'', vs_policy = ''cascade'', vs_backends = [], vs_steps = [[''gpu''], [''primary'']]\<rparr>]\<rparr>"

lemma sample_pool_accepted:
  "validate (\<lambda>_. False) (\<lambda>_. None) sample_pool_settings = Inr (derive_paths sample_pool_settings)"
proof -
  have "settings_fields_ok sample_pool_settings"
    by (simp add: settings_fields_ok_def network_ok_def billing_ok_def telemetry_ok_def backends_ok_def model_ok_def default_settings_def
        within_ge_le_def LOG_LEVELS_def sample_pool_settings_def worker_ok_def vmodel_ok_def REMOTE_KINDS_def)
  then show ?thesis
    by (simp add: validate_def and_then_Inr ip_allowlist_accept binding_accept remote_accept external_accept pool_accept rules_accept
        grpc_accept sample_pool_settings_def derive_paths_def default_settings_def is_loopback_host_def gateway_settings_def
        LOOPBACK_HOSTS_def pool_names_def physical_models_def startswith_def effective_model_id_def)
qed


section \<open>The pipeline\<close>

definition declared_too_large :: "engine_settings \<Rightarrow> http_request \<Rightarrow> bool" where
  "declared_too_large s q \<longleftrightarrow> es_max_request_bytes s > 0 \<and>
     (\<exists>len n. hq_headers q ''content-length'' = Some len \<and> isdigit len \<and> py_int len = Some n \<and> n > es_max_request_bytes s)"

lemma limit_body_cases:
  "limit_body_size_mw s f q st = (Some (error_response 413 ''payload_too_large''), st) \<and> declared_too_large s q \<or>
   limit_body_size_mw s f q st = (None, st) \<and> \<not> declared_too_large s q \<and> (\<forall>f'. limit_body_size_mw s f' q st = (None, st)) \<or>
   (\<forall>f'. limit_body_size_mw s f' q st = f' q st) \<and> \<not> declared_too_large s q"
  by (auto simp: limit_body_size_mw_def declared_too_large_def split: option.splits)

lemma dict_put_other: "k' \<noteq> k \<Longrightarrow> map_of (dict_put k v d) k' = map_of d k'"
  by (induction k v d rule: dict_put.induct) auto

lemma map_of_dict_put: "map_of (dict_put k v d) = (map_of d)(k \<mapsto> v)"
proof
  fix x show "map_of (dict_put k v d) x = ((map_of d)(k \<mapsto> v)) x"
    by (induction k v d rule: dict_put.induct) auto
qed

text \<open>
  C26. Every request passes the guards before its endpoint. A request from an address that is not
  permitted is answered 403 and a request that declares a body above the limit 413, in both cases
  without the endpoint having run: the state is unchanged and the answer does not depend on the
  endpoint. A cross-origin header is only ever added for a configured origin on the client
  surface; without one the answer is the endpoint's own.
\<close>

theorem pipeline_guards:
  "(\<not> ip_admitted addr s q \<longrightarrow> app_pipeline addr s fid h q st = (Some (error_response 403 ''ip_not_allowed''), st)) \<and>
   (app_pipeline addr s fid h q st \<noteq> app_pipeline addr s fid h' q st \<longrightarrow> ip_admitted addr s q \<and> \<not> declared_too_large s q) \<and>
   (snd (app_pipeline addr s fid h q st) \<noteq> st \<longrightarrow> ip_admitted addr s q \<and> \<not> declared_too_large s q \<and>
      snd (app_pipeline addr s fid h q st) = snd (h (request_id_of fid q) q st)) \<and>
   (ip_admitted addr s q \<and> declared_too_large s q \<and> cors_origin s q = None \<longrightarrow>
      app_pipeline addr s fid h q st = (Some (error_response 413 ''payload_too_large''), st)) \<and>
   (\<forall>r o'. fst (app_pipeline addr s fid h q st) = Some r \<and> map_of (hr_headers r) ''access-control-allow-origin'' = Some o' \<longrightarrow>
      is_client_path (hq_path q) \<and> o' \<in> set (es_client_cors_origins s) \<and> hq_headers q ''origin'' = Some o' \<or>
      cors_origin s q = None \<and> fst (h (request_id_of fid q) q st) = Some r)"
proof -
  let ?in = "\<lambda>h. limit_body_size_mw s (assign_request_id_mw fid h)"
  let ?mid = "\<lambda>h. client_cors_mw s (?in h)"
  have ip: "app_pipeline addr s fid h q st = (if ip_admitted addr s q then ?mid h q st else (Some (error_response 403 ''ip_not_allowed''), st))" for h
    by (auto simp: app_pipeline_def ip_allowlist_mw_def ip_admitted_def split: option.splits)
  have inner: "?in h q st = (Some (error_response 413 ''payload_too_large''), st) \<and> declared_too_large s q \<or>
      (\<forall>h. ?in h q st = (None, st)) \<and> \<not> declared_too_large s q \<or> (\<forall>h. ?in h q st = h (request_id_of fid q) q st) \<and> \<not> declared_too_large s q" for h
    using limit_body_cases[of s "assign_request_id_mw fid h" q st] by (auto simp: assign_request_id_mw_def)
  have large: "?in h q st = (Some (error_response 413 ''payload_too_large''), st)" if "declared_too_large s q" for h
    using inner[of h] that by blast
  have same: "?mid h q st = ?mid h' q st" if "declared_too_large s q"
    using large[OF that] by (simp add: client_cors_mw_def split: option.split)
  have state: "snd (?mid h q st) = st \<or> \<not> declared_too_large s q \<and> snd (?mid h q st) = snd (h (request_id_of fid q) q st)"
    using inner[of h] by (auto simp: client_cors_mw_def split: option.splits prod.splits)
  have cors: "is_client_path (hq_path q) \<and> o' \<in> set (es_client_cors_origins s) \<and> hq_headers q ''origin'' = Some o'"
    if "cors_origin s q = Some o1" and "fst (?mid h q st) = Some r" and "map_of (hr_headers r) ''access-control-allow-origin'' = Some o'" for o1 o' r
  proof -
    have "o' = o1" using that by (auto simp: client_cors_mw_def client_cors_headers_def map_of_dict_put split: if_splits option.splits prod.splits)
    then show ?thesis using that(1) by (auto simp: cors_origin_def split: option.splits if_splits)
  qed
  have plain: "fst (h (request_id_of fid q) q st) = Some r"
    if "cors_origin s q = None" and "fst (?mid h q st) = Some r" and "map_of (hr_headers r) ''access-control-allow-origin'' = Some o'" for o' r
    using that inner[of h] by (auto simp: client_cors_mw_def error_response_def)
  show ?thesis
    unfolding ip using same state cors plain large
    by (cases "ip_admitted addr s q"; cases "cors_origin s q") (auto simp: error_response_def client_cors_mw_def)
qed

theorem pipeline_guards_witness:
  "app_pipeline (\<lambda>ip. Some (\<lambda>net. ip = ''10.0.0.1'')) ((default_settings ''/d'')\<lparr>es_ip_allowlist := [''10.0.0.0/8'']\<rparr>) ''id''
     (\<lambda>rid q st. (Some (error_response 200 []), Suc st))
     \<lparr>hq_method = ''GET'', hq_path = ''/v1/models'', hq_headers = Map.empty, hq_peer = Some ''192.0.2.7''\<rparr> 0
   = (Some (error_response 403 ''ip_not_allowed''), 0)"
proof -
  have "\<not> ip_admitted (\<lambda>ip. Some (\<lambda>net. ip = ''10.0.0.1'')) ((default_settings ''/d'')\<lparr>es_ip_allowlist := [''10.0.0.0/8'']\<rparr>)
     \<lparr>hq_method = ''GET'', hq_path = ''/v1/models'', hq_headers = Map.empty, hq_peer = Some ''192.0.2.7''\<rparr>"
    by (simp add: ip_admitted_def client_ip_def ip_permitted_def)
  then show ?thesis by (rule mp[OF conjunct1[OF pipeline_guards]])
qed

text \<open>
  The size limit looks at the declared length only: a request without a \<open>Content-Length\<close> (a chunked
  body) reaches its endpoint whatever the size of its body.
\<close>

lemma body_limit_needs_length:
  assumes "hq_headers q ''content-length'' = None"
  shows "limit_body_size_mw s h q st = h q st"
  using assms by (simp add: limit_body_size_mw_def)

end
