(* ===== verification/Models_Api.thy ===== *)
theory Models_Api
  imports Engine_App Model_Service Audit_Log
begin

text \<open>
  The model lifecycle API (\<open>engine/api/models_router.py\<close>) with the operator gate of
  \<open>engine/api/deps.py\<close>: each endpoint as it composes the gate, the kill switches, the model
  registry, the model service, the loaded backend and the audit log.

  An endpoint is run from its first statement to its response. What its \<open>await\<close>s bring about is an
  argument: whether a backend loads, the digest of a file. The JSON form of a model record is not
  modelled, the answer carries the record and whether it is loaded.
\<close>

section \<open>State\<close>

text \<open>The detail of an audit event, as the JSON object it is.\<close>

datatype detail_value = DText utext | DNum real | DNull

type_synonym detail = "(string \<times> detail_value) list"

record models_app =
  mp_gw :: gw_state
  mp_service :: service
  mp_backend :: "backend option"
  mp_audit :: "audit_row list"

record models_env =
  me_cfg :: settings
  me_hash :: "string \<Rightarrow> string"
  me_now :: iso_time
  me_host :: "string option"
  me_token :: "string option"
  me_allow_management :: bool
  me_allow_downloads :: bool
  me_virtual :: "string list"
  me_models_dir :: string
  me_key :: "string \<Rightarrow> string"
  me_probe :: "string \<Rightarrow> byte list \<Rightarrow> gguf_info"
  me_codec :: "detail codec"
  me_audit_id :: nat
  me_new_id :: string
  me_uuid_hex :: string
  me_built :: "model_record \<Rightarrow> backend"
  me_load_ok :: bool
  me_digest :: "string option"
  me_unlink_fails :: "string \<Rightarrow> bool"
  me_delete_ok :: bool

datatype models_failure = Refused openai_error | Crashed

datatype models_answer =
    ModelList "(model_record \<times> bool) list"
  | ModelView model_record bool
  | Cancelling string
  | SwapResult string model_record bool
  | Deleted string

type_synonym 'a api_result = "(models_failure, 'a) result \<times> models_app"

type_synonym models_result = "models_answer api_result"

section \<open>Guards\<close>

definition refusal_of :: "nat \<Rightarrow> string \<Rightarrow> string \<Rightarrow> models_failure" where
  "refusal_of st ty co = Refused (api_error st ty co [])"

definition require_operator :: "models_env \<Rightarrow> gw_state \<Rightarrow> models_failure option \<times> gw_state" where
  "require_operator v g =
     (case operator_gate (me_cfg v) (me_hash v) (me_now v) (me_host v) (me_token v) g of
        ((FORBIDDEN_ROLE, _), g') \<Rightarrow> (Some (refusal_of 403 ''permission_error'' ''operator_role_required''), g')
      | ((ALLOWED, _), g') \<Rightarrow> (None, g')
      | ((UNAUTHENTICATED, _), g') \<Rightarrow> (Some (refusal_of 401 ''invalid_request_error'' ''operator_access_required''), g'))"

definition operator_identity :: "models_env \<Rightarrow> gw_state \<Rightarrow> string \<times> gw_state" where
  "operator_identity v g =
     (case (case me_token v of Some t \<Rightarrow> if t = [] then None else Some t | None \<Rightarrow> None) of
        None \<Rightarrow> (LOCAL_KEY_ID, g)
      | Some t \<Rightarrow> (case verify_token (me_hash v) t (me_now v) g of
            (Some rec, g') \<Rightarrow> (k_id rec, g')
          | (None, g') \<Rightarrow> (LOCAL_KEY_ID, g')))"

definition require_management :: "models_env \<Rightarrow> models_failure option" where
  "require_management v =
     (if me_allow_management v then None else Some (refusal_of 403 ''invalid_request_error'' ''model_management_disabled''))"

definition require_downloads :: "models_env \<Rightarrow> models_failure option" where
  "require_downloads v =
     (if me_allow_downloads v then None else Some (refusal_of 403 ''invalid_request_error'' ''downloads_disabled''))"

text \<open>The gate in front of an endpoint, and the kill switches that apply to it.\<close>

definition gated ::
  "models_env \<Rightarrow> models_failure option list \<Rightarrow> (models_app \<Rightarrow> 'a api_result) \<Rightarrow> models_app \<Rightarrow> 'a api_result" where
  "gated v switches endpoint ap =
     (case require_operator v (mp_gw ap) of
        (Some f, g') \<Rightarrow> (Inl f, ap\<lparr>mp_gw := g'\<rparr>)
      | (None, g') \<Rightarrow>
          (case List.find (\<lambda>x. x \<noteq> None) switches of
             Some (Some f) \<Rightarrow> (Inl f, ap\<lparr>mp_gw := g'\<rparr>)
           | _ \<Rightarrow> endpoint (ap\<lparr>mp_gw := g'\<rparr>)))"

definition audit_call :: "models_env \<Rightarrow> string \<Rightarrow> string \<Rightarrow> detail \<Rightarrow> models_app \<Rightarrow> models_app" where
  "audit_call v act target detail ap =
     (case operator_identity v (mp_gw ap) of
        (actor, g') \<Rightarrow> ap\<lparr>mp_gw := g', mp_audit := snd (record_event (me_codec v) [] (me_audit_id v) (me_now v) act actor (Some target)
          (Some detail) (mp_audit ap))\<rparr>)"

definition model_loaded :: "models_app \<Rightarrow> model_record \<Rightarrow> bool" where
  "model_loaded ap m \<longleftrightarrow> mo_active m \<and>
     (case mp_backend ap of None \<Rightarrow> False
      | Some b \<Rightarrow> ba_state b \<in> set READYISH \<and> text_of (cap_model_id (ba_capabilities b)) = mo_name m)"

definition require_model :: "string \<Rightarrow> (model_record \<Rightarrow> models_app \<Rightarrow> models_result) \<Rightarrow> models_app \<Rightarrow> models_result" where
  "require_model model_id k ap =
     (case model_get model_id (sv_rows (mp_service ap)) of
        None \<Rightarrow> (Inl (refusal_of 404 ''invalid_request_error'' ''model_not_found''), ap)
      | Some m \<Rightarrow> k m ap)"

definition busy :: models_failure where
  "busy = refusal_of 409 ''invalid_request_error'' ''model_busy''"

section \<open>Endpoints\<close>

definition list_models :: "models_app \<Rightarrow> models_result" where
  "list_models ap = (Inr (ModelList (map (\<lambda>m. (m, model_loaded ap m)) (model_list (sv_rows (mp_service ap))))), ap)"

definition get_model :: "string \<Rightarrow> models_app \<Rightarrow> models_result" where
  "get_model model_id = require_model model_id (\<lambda>m ap. (Inr (ModelView m (model_loaded ap m)), ap))"

text \<open>What the service raised, as the endpoint reports it; a database or OS error is not handled.\<close>

definition service_failure :: "string \<Rightarrow> service_error \<Rightarrow> models_failure" where
  "service_failure co e =
     (case e of ModelBusyError \<Rightarrow> busy | ModelServiceError \<Rightarrow> refusal_of 400 ''invalid_request_error'' co | _ \<Rightarrow> Crashed)"

definition import_local ::
  "models_env \<Rightarrow> string \<Rightarrow> utext option \<Rightarrow> service \<Rightarrow> (service_error, model_record) result \<times> service" where
  "import_local v path name sv =
     (case import_begin (me_key v) (me_probe v) path sv of
        (Inl e, sv') \<Rightarrow> (Inl e, sv')
      | (Inr info, sv') \<Rightarrow> import_finish (me_key v) (me_new_id v) (me_now v) path name info (me_digest v) sv')"

definition import_model :: "models_env \<Rightarrow> string \<Rightarrow> utext option \<Rightarrow> models_app \<Rightarrow> models_result" where
  "import_model v path name ap =
     (case import_local v path name (mp_service ap) of
       (Inl e, sv) \<Rightarrow> (Inl (service_failure ''model_import_failed'' e), ap\<lparr>mp_service := sv\<rparr>)
     | (Inr m, sv) \<Rightarrow>
         let ap' = audit_call v ''model.import'' (mo_id m) [(''name'', DText (mo_name m)), (''source'', DText (text_of ''import''))] (ap\<lparr>mp_service := sv\<rparr>)
         in (Inr (ModelView m (model_loaded ap' m)), ap'))"

definition download_model ::
  "models_env \<Rightarrow> string \<Rightarrow> utext option \<Rightarrow> string option \<Rightarrow> string option \<Rightarrow> string \<Rightarrow> string option \<Rightarrow> string option \<Rightarrow> models_app \<Rightarrow> models_result" where
  "download_model v source_type name repo filename revision url expected_sha256 ap =
     (case start_download (me_key v) (me_models_dir v) (me_uuid_hex v) (me_new_id v) (me_now v) source_type name repo filename revision url
            expected_sha256 (mp_service ap) of
       (Inl e, sv) \<Rightarrow> (Inl (service_failure ''model_download_failed'' e), ap\<lparr>mp_service := sv\<rparr>)
     | (Inr m, sv) \<Rightarrow>
         let ap' = audit_call v ''model.download'' (mo_id m) [(''name'', DText (mo_name m)), (''source'', DText (text_of source_type))] (ap\<lparr>mp_service := sv\<rparr>)
         in (Inr (ModelView m (model_loaded ap' m)), ap'))"

definition cancel_model :: "string \<Rightarrow> models_app \<Rightarrow> models_result" where
  "cancel_model model_id = require_model model_id (\<lambda>m ap.
     if mo_status m \<noteq> DOWNLOADING then (Inl (refusal_of 409 ''invalid_request_error'' ''not_downloading''), ap)
     else case cancel_download model_id (mp_service ap) of
         (ok, sv) \<Rightarrow> (if ok then Inr (Cancelling model_id) else Inl (refusal_of 409 ''invalid_request_error'' ''model_cancel_not_accepted''),
                     ap\<lparr>mp_service := sv\<rparr>))"

text \<open>
  The load holds the model (\<open>operation\<close>) until the swap is done. The previous backend is unloaded
  last, best effort; it is no longer part of the state by then.
\<close>

definition swap_in :: "models_env \<Rightarrow> model_record \<Rightarrow> models_app \<Rightarrow> models_failure option \<times> models_app" where
  "swap_in v m ap =
     (if \<not> me_load_ok v then (Some (refusal_of 503 ''service_unavailable'' ''model_load_failed''), ap)
      else let ap1 = ap\<lparr>mp_backend := Some (me_built v m)\<rparr>
           in case set_active (mo_id m) (me_now v) (sv_rows (mp_service ap1)) of
                Inl e \<Rightarrow> (Some Crashed, ap1)
              | Inr rows \<Rightarrow> (None, ap1\<lparr>mp_service := (mp_service ap1)\<lparr>sv_rows := rows\<rparr>\<rparr>))"

definition load_model :: "models_env \<Rightarrow> string \<Rightarrow> models_app \<Rightarrow> models_result" where
  "load_model v model_id = require_model model_id (\<lambda>m ap.
     if mo_status m \<noteq> Model_Registry.READY then (Inl (refusal_of 409 ''invalid_request_error'' ''model_not_ready''), ap)
     else if mo_name m \<in> text_of ` set (me_virtual v) then (Inl (refusal_of 409 ''invalid_request_error'' ''model_name_conflict''), ap)
     else case operation_enter (me_key v) m (mp_service ap) of
         (Inl e, sv) \<Rightarrow> (Inl busy, ap\<lparr>mp_service := sv\<rparr>)
       | (Inr _, sv) \<Rightarrow>
           (case swap_in v m (ap\<lparr>mp_service := sv\<rparr>) of
              (Some f, ap1) \<Rightarrow> (Inl f, ap1\<lparr>mp_service := operation_exit m (mp_service ap1)\<rparr>)
            | (None, ap1) \<Rightarrow>
                let ap2 = audit_call v ''model.load'' model_id [(''name'', DText (mo_name m))] (ap1\<lparr>mp_service := operation_exit m (mp_service ap1)\<rparr>)
                in require_model model_id (\<lambda>m ap. (Inr (SwapResult ''loaded'' m (model_loaded ap m)), ap)) ap2))"

definition unload_model :: "models_env \<Rightarrow> string \<Rightarrow> models_app \<Rightarrow> models_result" where
  "unload_model v model_id = require_model model_id (\<lambda>m ap.
     let ap1 = (if model_loaded ap m then ap\<lparr>mp_backend := None\<rparr> else ap);
         ap2 = ap1\<lparr>mp_service := (mp_service ap1)\<lparr>sv_rows := clear_active (sv_rows (mp_service ap1))\<rparr>\<rparr>;
         ap3 = audit_call v ''model.unload'' model_id [(''name'', DText (mo_name m))] ap2
     in require_model model_id (\<lambda>m ap. (Inr (SwapResult ''unloaded'' m (model_loaded ap m)), ap)) ap3)"

definition remove_model :: "models_env \<Rightarrow> string \<Rightarrow> models_app \<Rightarrow> models_result" where
  "remove_model v model_id = require_model model_id (\<lambda>m ap.
     if model_loaded ap m then (Inl (refusal_of 409 ''invalid_request_error'' ''model_loaded''), ap)
     else case delete_model (me_key v) (me_models_dir v) (me_unlink_fails v) (me_delete_ok v) m (mp_service ap) of
         (Inl e, sv) \<Rightarrow> (Inl (if e = ModelBusyError then busy else refusal_of 500 ''server_error'' ''model_delete_failed''), ap\<lparr>mp_service := sv\<rparr>)
       | (Inr _, sv) \<Rightarrow> (Inr (Deleted model_id), audit_call v ''model.delete'' model_id [(''name'', DText (mo_name m))] (ap\<lparr>mp_service := sv\<rparr>)))"

datatype models_call =
    List_Models | Get_Model string | Import_Model string "utext option"
  | Download_Model string "utext option" "string option" "string option" string "string option" "string option"
  | Cancel_Model string | Load_Model string | Unload_Model string | Remove_Model string

text \<open>What an endpoint does behind its guards.\<close>

fun endpoint_body :: "models_env \<Rightarrow> models_call \<Rightarrow> models_app \<Rightarrow> models_result" where
  "endpoint_body v List_Models = list_models"
| "endpoint_body v (Get_Model i) = get_model i"
| "endpoint_body v (Import_Model p n) = import_model v p n"
| "endpoint_body v (Download_Model st n r f rv u x) = download_model v st n r f rv u x"
| "endpoint_body v (Cancel_Model i) = cancel_model i"
| "endpoint_body v (Load_Model i) = load_model v i"
| "endpoint_body v (Unload_Model i) = unload_model v i"
| "endpoint_body v (Remove_Model i) = remove_model v i"

text \<open>The kill switches each endpoint asks, in order.\<close>

fun manages :: "models_call \<Rightarrow> bool" where
  "manages List_Models = False"
| "manages (Get_Model _) = False"
| "manages (Cancel_Model _) = False"
| "manages _ = True"

fun downloads :: "models_call \<Rightarrow> bool" where
  "downloads (Download_Model _ _ _ _ _ _ _) = True"
| "downloads _ = False"

definition switches :: "models_env \<Rightarrow> models_call \<Rightarrow> models_failure option list" where
  "switches v c = (if manages c then [require_management v] else []) @ (if downloads c then [require_downloads v] else [])"

definition models_endpoint :: "models_env \<Rightarrow> models_call \<Rightarrow> models_app \<Rightarrow> models_result" where
  "models_endpoint v c = gated v (switches v c) (endpoint_body v c)"

section \<open>Guarded and recorded\<close>

fun audit_action :: "models_call \<Rightarrow> string option" where
  "audit_action (Import_Model _ _) = Some ''model.import''"
| "audit_action (Download_Model _ _ _ _ _ _ _) = Some ''model.download''"
| "audit_action (Load_Model _) = Some ''model.load''"
| "audit_action (Unload_Model _) = Some ''model.unload''"
| "audit_action (Remove_Model _) = Some ''model.delete''"
| "audit_action _ = None"

lemma gated_cases:
  assumes "gated v sw k ap = (r, ap')"
  obtains f where "fst (require_operator v (mp_gw ap)) = Some f" "r = Inl f" "ap' = ap\<lparr>mp_gw := mp_gw ap'\<rparr>"
  | f where "fst (require_operator v (mp_gw ap)) = None" "Some f \<in> set sw" "r = Inl f" "ap' = ap\<lparr>mp_gw := mp_gw ap'\<rparr>"
  | "fst (require_operator v (mp_gw ap)) = None" "set sw \<subseteq> {None}" "k (ap\<lparr>mp_gw := snd (require_operator v (mp_gw ap))\<rparr>) = (r, ap')"
proof (cases "require_operator v (mp_gw ap)")
  case (Pair o1 g')
  show ?thesis
  proof (cases o1)
    case (Some f)
    then show ?thesis using assms Pair that(1)[of f] by (auto simp: gated_def)
  next
    case None
    show ?thesis
    proof (cases "List.find (\<lambda>x. x \<noteq> None) sw")
      case n: None
      then have "set sw \<subseteq> {None}" using find_None_iff[of "\<lambda>x. x \<noteq> None" sw] by blast
      then show ?thesis using assms Pair None n that(3) by (simp add: gated_def)
    next
      case (Some x)
      then obtain f where "x = Some f" "Some f \<in> set sw" unfolding find_Some_iff by (metis not_None_eq nth_mem)
      then show ?thesis using assms Pair None Some that(2)[of f] by (auto simp: gated_def)
    qed
  qed
qed

definition logged :: "models_env \<Rightarrow> string option \<Rightarrow> models_app \<Rightarrow> 'a api_result \<Rightarrow> bool" where
  "logged v act ap res \<longleftrightarrow>
     (case (fst res, act) of
        (Inr _, Some a) \<Rightarrow> \<exists>row. mp_audit (snd res) = mp_audit ap @ [row] \<and> au_action row = a \<and> au_actor row = fst (operator_identity v (mp_gw ap))
      | _ \<Rightarrow> mp_audit (snd res) = mp_audit ap)"

lemma audit_call_row:
  "\<exists>row. mp_audit (audit_call v act target d ap) = mp_audit ap @ [row] \<and> au_action row = act \<and> au_actor row = fst (operator_identity v (mp_gw ap))"
  by (auto simp: audit_call_def record_event_def insert_event_def Let_def split: prod.splits)

lemma audit_call_frame [simp]:
  "mp_service (audit_call v act target d ap) = mp_service ap" "mp_backend (audit_call v act target d ap) = mp_backend ap"
  by (auto simp: audit_call_def split: prod.splits)

lemma logged_refusal [simp]: "logged v act ap (Inl f, ap') \<longleftrightarrow> mp_audit ap' = mp_audit ap"
  by (simp add: logged_def)

lemma logged_success [simp]:
  "mp_gw ap1 = mp_gw ap \<Longrightarrow> mp_audit ap1 = mp_audit ap \<Longrightarrow> logged v (Some act) ap (Inr x, audit_call v act target d ap1)"
  using audit_call_row[of v act target d ap1] by (simp add: logged_def)

lemma model_get_upd:
  assumes "\<And>m. mo_id (f m) = mo_id m" and "model_get i t \<noteq> None"
  shows "model_get i (upd_where p f t) \<noteq> None"
  using assms by (auto simp: model_get_def fetchone_def upd_where_def find_None_iff)

lemma model_get_active:
  assumes "model_get i t \<noteq> None"
  shows "model_get i (clear_active t) \<noteq> None" and "set_active j now t = Inr t' \<Longrightarrow> model_get i t' \<noteq> None"
proof -
  show c: "model_get i (clear_active t) \<noteq> None" unfolding clear_active_def by (rule model_get_upd) (simp_all add: assms)
  show "model_get i t' \<noteq> None" if "set_active j now t = Inr t'"
  proof -
    have "t' = upd_where (\<lambda>m. mo_id m = j) (\<lambda>m. m\<lparr>mo_active := True, mo_updated_at := Some now\<rparr>) (clear_active t)"
      using that by (auto simp: set_active_def checked_def split: if_splits)
    then show ?thesis using model_get_upd[OF _ c] by simp
  qed
qed

lemma result_pair_cases:
  obtains e s where "x = (Inl e, s)" | y s where "x = (Inr y, s)"
  by (cases x; cases "fst x") auto

lemma reread_logged:
  assumes "mp_gw ap1 = mp_gw ap" and "mp_audit ap1 = mp_audit ap" and "model_get i (sv_rows (mp_service ap1)) \<noteq> None"
  shows "logged v (Some act) ap (require_model i (\<lambda>m ap. (Inr (F m ap), ap)) (audit_call v act target d ap1))"
  using assms by (auto simp: require_model_def)

text \<open>Each endpoint records exactly what it did.\<close>

lemma body_logged: "logged v (audit_action c) ap (endpoint_body v c ap)"
proof (cases c)
  case (Load_Model i)
  show ?thesis
  proof (cases "model_get i (sv_rows (mp_service ap))")
    case (Some m)
    then have "model_get i (sv_rows (mp_service ap)) \<noteq> None" by simp
    from model_get_active(2)[OF this] show ?thesis
      by (auto simp: Load_Model load_model_def require_model_def[of i _ ap] Some operation_enter_def swap_in_def operation_exit_def Let_def
          intro!: reread_logged split: sum.split)
  qed (simp add: Load_Model load_model_def require_model_def)
next
  case (Unload_Model i)
  show ?thesis
  proof (cases "model_get i (sv_rows (mp_service ap))")
    case (Some m)
    then have "model_get i (clear_active (sv_rows (mp_service ap))) \<noteq> None"
      using model_get_active(1)[of i "sv_rows (mp_service ap)"] by simp
    then show ?thesis
      by (auto simp: Unload_Model unload_model_def require_model_def[of i _ ap] Some Let_def intro!: reread_logged)
  qed (simp add: Unload_Model unload_model_def require_model_def)
next
  case (Import_Model p n)
  show ?thesis
    by (cases "import_local v p n (mp_service ap)" rule: result_pair_cases) (simp_all add: Import_Model import_model_def Let_def)
next
  case (Download_Model st n rp f rv u x)
  show ?thesis
    by (cases "start_download (me_key v) (me_models_dir v) (me_uuid_hex v) (me_new_id v) (me_now v) st n rp f rv u x (mp_service ap)"
        rule: result_pair_cases) (simp_all add: Download_Model download_model_def Let_def)
next
  case (Remove_Model i)
  show ?thesis
  proof (cases "model_get i (sv_rows (mp_service ap))")
    case (Some m)
    show ?thesis
      by (cases "delete_model (me_key v) (me_models_dir v) (me_unlink_fails v) (me_delete_ok v) m (mp_service ap)" rule: result_pair_cases)
        (simp_all add: Remove_Model remove_model_def require_model_def Some)
  qed (simp add: Remove_Model remove_model_def require_model_def)
qed (simp_all add: list_models_def get_model_def cancel_model_def require_model_def logged_def split: option.split prod.split sum.split)


definition sample_models_env :: models_env where
  "sample_models_env = \<lparr>me_cfg = sample_settings\<lparr>require_auth := Some False\<rparr>, me_hash = (\<lambda>t. t), me_now = ''now'', me_host = Some ''127.0.0.1'',
     me_token = None, me_allow_management = True, me_allow_downloads = False, me_virtual = [''auto''], me_models_dir = ''/models'',
     me_key = (\<lambda>p. p), me_probe = (\<lambda>p b. invalid_info),
     me_codec = \<lparr>sha256 = (\<lambda>x. replicate 64 (CHR ''a'')), quote = (\<lambda>s. s), dumps_compact = (\<lambda>d. ''{}''), dumps = (\<lambda>d. ''{}''), loads = (\<lambda>_. Some [])\<rparr>,
     me_audit_id = 1, me_new_id = ''b'', me_uuid_hex = ''abc'', me_built = (\<lambda>m. sample_backend), me_load_ok = True, me_digest = None,
     me_unlink_fails = (\<lambda>_. False), me_delete_ok = True\<rparr>"

definition sample_models_app :: models_app where
  "sample_models_app = \<lparr>mp_gw = sample_gw, mp_service = empty_service\<lparr>sv_rows := [(sample_model ''a'')\<lparr>mo_active := True\<rparr>]\<rparr>,
     mp_backend = Some sample_backend, mp_audit = []\<rparr>"


section \<open>Loading and unloading\<close>

text \<open>
  A load either puts the model into service or leaves what was in service there. When it succeeds,
  the model is the only active one, its backend is the primary one, the answer says that it is
  loaded, and its name is not that of a virtual model. When it is refused, also because the backend
  failed to load, the backend, the rows and the reservations are what they were.
\<close>

lemma set_active_get:
  assumes "models_ok t" and "model_get i t = Some m" and "set_active i now t = Inr t'"
  shows "\<exists>m'. model_get i t' = Some m' \<and> mo_active m' \<and> mo_name m' = mo_name m" and "actives t' = [i]"
proof -
  let ?f = "\<lambda>m. m\<lparr>mo_active := True, mo_updated_at := Some now\<rparr>"
  have t': "t' = upd_where (\<lambda>m. mo_id m = i) ?f (clear_active t)" using set_active_result[OF assms(1), of i now] assms(3) by simp
  have "\<exists>m'. model_get i (upd_where (\<lambda>m. mo_id m = i) ?f (clear_active t)) = Some m' \<and> mo_active m' \<and> mo_name m' = mo_name m"
    if "model_get i t = Some m" for t using that by (induction t) (auto simp: model_get_def clear_active_def split: if_splits)
  then show "\<exists>m'. model_get i t' = Some m' \<and> mo_active m' \<and> mo_name m' = mo_name m" using assms(2) t' by blast
  have u: "unique_on mo_id (clear_active t)" using models_ok_clear[OF assms(1)] by (simp add: models_ok_def)
  have "i \<in> mo_id ` set t" using assms(2) by (auto simp: model_get_def dest: fetchone_Some)
  then have "i \<in> mo_id ` set (clear_active t)" using clear_active_ids[of t] by (metis set_map)
  then show "actives t' = [i]" using actives_set_one[OF u actives_clear] t' by simp
qed

lemma load_swaps_or_keeps:
  assumes ok: "models_ok (sv_rows (mp_service ap))"
    and built: "\<And>m. ba_state (me_built v m) = Backend_Registry.READY \<and> text_of (cap_model_id (ba_capabilities (me_built v m))) = mo_name m"
    and l: "load_model v i ap = (r, ap')"
  shows "case r of
      Inr ans \<Rightarrow> \<exists>m m0. ans = SwapResult ''loaded'' m True \<and> model_get i (sv_rows (mp_service ap')) = Some m \<and> actives (sv_rows (mp_service ap')) = [i] \<and>
        mo_name m \<notin> text_of ` set (me_virtual v) \<and> mp_backend ap' = Some (me_built v m0) \<and> mo_name m0 = mo_name m
    | Inl f \<Rightarrow> mp_backend ap' = mp_backend ap \<and> sv_rows (mp_service ap') = sv_rows (mp_service ap) \<and>
        set (sv_operations (mp_service ap')) = set (sv_operations (mp_service ap))"
proof (cases "model_get i (sv_rows (mp_service ap))")
  case None
  then show ?thesis using l by (auto simp: load_model_def require_model_def)
next
  case (Some m)
  let ?t = "upd_where (\<lambda>m. mo_id m = i) (\<lambda>m. m\<lparr>mo_active := True, mo_updated_at := Some (me_now v)\<rparr>) (clear_active (sv_rows (mp_service ap)))"
  have a: "set_active i (me_now v) (sv_rows (mp_service ap)) = Inr ?t" by (rule set_active_result[OF ok])
  obtain m' where m': "model_get i ?t = Some m'" "mo_active m'" "mo_name m' = mo_name m" "actives ?t = [i]"
    using set_active_get[OF ok Some a] by blast
  have i: "mo_id m = i" using Some by (auto simp: model_get_def dest: fetchone_Some)
  show ?thesis
  proof (cases "mo_status m = Model_Registry.READY \<and> mo_name m \<notin> text_of ` set (me_virtual v) \<and> \<not> is_busy (me_key v) (mp_service ap) m \<and> me_load_ok v")
    case True
    then show ?thesis using l m' built i
      by (auto simp: load_model_def require_model_def Some operation_enter_def swap_in_def operation_exit_def Let_def a model_loaded_def READYISH_def)
  next
    case False
    then show ?thesis using l i
      by (auto simp: load_model_def require_model_def Some operation_enter_def swap_in_def operation_exit_def is_busy_def split: if_splits)
  qed
qed

text \<open>
  Unloading a model that is not the loaded one clears the active mark of the one that is: its
  backend stays in service, but from then on no row counts as loaded, so that the guard of the
  delete endpoint no longer protects its file and no unload reaches the backend.
\<close>

lemma unload_other_unguards:
  assumes "model_get j (sv_rows (mp_service ap)) = Some m2" and "\<not> model_loaded ap m2" and "unload_model v j ap = (r, ap')"
  shows "mp_backend ap' = mp_backend ap \<and> (\<forall>m\<in>set (sv_rows (mp_service ap')). \<not> model_loaded ap' m)"
proof -
  obtain m3 where "model_get j (clear_active (sv_rows (mp_service ap))) = Some m3"
    using model_get_active(1)[of j "sv_rows (mp_service ap)"] assms(1) by auto
  then have rows: "sv_rows (mp_service ap') = clear_active (sv_rows (mp_service ap))" and b: "mp_backend ap' = mp_backend ap"
    using assms by (auto simp: unload_model_def require_model_def Let_def)
  have "\<forall>m\<in>set (clear_active (sv_rows (mp_service ap))). \<not> mo_active m"
    using actives_clear[of "sv_rows (mp_service ap)"] by (simp add: actives_def filter_empty_conv)
  then show ?thesis using rows b by (auto simp: model_loaded_def)
qed

end
