(* ===== verification/Operator_Api.thy ===== *)
theory Operator_Api
  imports Models_Api Webhooks
begin

text \<open>
  The operator's control surface besides the model endpoints: keys and the configured model
  (\<open>engine/api/admin_router.py\<close>), plans, clients and outbound webhooks (the operator part of
  \<open>engine/api/billing_router.py\<close>). Every endpoint runs behind the operator gate on the store, the
  loaded backend and the audit log; generated ids, tokens and secrets, the clock, the URL parser
  and what \<open>load()\<close> of a backend brings about are arguments. The read-only panels that print the
  listing of one store are not repeated.
\<close>

section \<open>Endpoints\<close>

record operator_env =
  oe_base :: models_env
  oe_urlsafe :: string
  oe_secret_id :: string
  oe_secret :: string
  oe_time :: time
  oe_grace_s :: real
  oe_allowlist :: "string list"
  oe_urlparse :: "string \<Rightarrow> (string \<times> string option) option"
  oe_model_path :: "string option"
  oe_configured :: backend
  oe_load :: "backend \<Rightarrow> bool \<times> backend"

datatype operator_answer =
    NewKey key_record string "string option"
  | KeyRevoked string
  | KeyDeleted string
  | KeysListed "key_record list"
  | PlanSaved plan
  | ClientCreated client
  | UsageReconciled string real real
  | EndpointCreated endpoint string
  | EndpointDisabled string bool
  | EndpointDeleted string
  | SecretRotated string string time
  | DeliveryReplayed string
  | ModelPanel string

type_synonym operator_result = "operator_answer api_result"

abbreviation ap_db :: "models_app \<Rightarrow> db" where
  "ap_db ap \<equiv> gw_db (mp_gw ap)"

definition with_db :: "db \<Rightarrow> models_app \<Rightarrow> models_app" where
  "with_db s ap = ap\<lparr>mp_gw := (mp_gw ap)\<lparr>gw_db := s\<rparr>\<rparr>"

definition label_detail :: "string option \<Rightarrow> detail_value" where
  "label_detail l = (case l of None \<Rightarrow> DNull | Some x \<Rightarrow> DText (text_of x))"

text \<open>
  What most writes share: the outcome of the store, then the audit record. \<open>recorded_write\<close> takes the
  refusal for a failed statement, the action, and the target, detail and answer of a success.
\<close>

definition recorded_write ::
  "operator_env \<Rightarrow> string \<Rightarrow> (models_failure, 'x) result \<times> db \<Rightarrow> ('x \<Rightarrow> string \<times> detail \<times> operator_answer) \<Rightarrow> models_app \<Rightarrow> operator_result" where
  "recorded_write v act res k ap =
     (case res of
        (Inl f, s) \<Rightarrow> (Inl f, with_db s ap)
      | (Inr x, s) \<Rightarrow> (case k x of (target, d, ans) \<Rightarrow> (Inr ans, audit_call (oe_base v) act target d (with_db s ap))))"

text \<open>A database error is not handled by an endpoint; a statement that reports no row is a refusal.\<close>

definition or_crash :: "(db_error, 'x) result \<times> db \<Rightarrow> (models_failure, 'x) result \<times> db" where
  "or_crash res = (map_sum (\<lambda>_. Crashed) id (fst res), snd res)"

definition or_refuse :: "models_failure \<Rightarrow> bool \<times> db \<Rightarrow> (models_failure, unit) result \<times> db" where
  "or_refuse f res = (if fst res then Inr () else Inl f, snd res)"

text \<open>Keys.\<close>

definition list_keys_ep :: "models_app \<Rightarrow> operator_result" where
  "list_keys_ep ap = (Inr (KeysListed (key_list (ap_db ap))), ap)"

definition create_key_ep :: "operator_env \<Rightarrow> string option \<Rightarrow> models_app \<Rightarrow> operator_result" where
  "create_key_ep v label ap =
     recorded_write v ''key.create''
       (or_crash (key_create (me_hash (oe_base v)) (oe_urlsafe v) (me_new_id (oe_base v)) label (me_now (oe_base v)) (ap_db ap)))
       (\<lambda>(rec, token). (k_id rec, [(''label'', label_detail label)], NewKey rec token None)) ap"

definition purge_key :: "operator_env \<Rightarrow> string \<Rightarrow> models_app \<Rightarrow> operator_result" where
  "purge_key v key_id ap =
     (case key_get key_id (ap_db ap) of
        None \<Rightarrow> (Inl (refusal_of 404 ''invalid_request_error'' ''key_not_found''), ap)
      | Some rec \<Rightarrow>
          if k_revoked_at rec = None then (Inl (refusal_of 409 ''invalid_request_error'' ''key_not_revoked''), ap)
          else recorded_write v ''key.delete'' (Inr (), snd (key_delete key_id (ap_db ap))) (\<lambda>_. (key_id, [], KeyDeleted key_id)) ap)"

definition revoke_key_ep :: "operator_env \<Rightarrow> string \<Rightarrow> models_app \<Rightarrow> operator_result" where
  "revoke_key_ep v key_id ap =
     recorded_write v ''key.revoke''
       (or_refuse (refusal_of 404 ''invalid_request_error'' ''key_not_found'') (key_revoke key_id (me_now (oe_base v)) (ap_db ap)))
       (\<lambda>_. (key_id, [], KeyRevoked key_id)) ap"

text \<open>The configured model.\<close>

definition model_load_ep :: "operator_env \<Rightarrow> models_app \<Rightarrow> operator_result" where
  "model_load_ep v ap =
     (if (case mp_backend ap of None \<Rightarrow> False | Some b \<Rightarrow> ba_state b \<in> set READYISH) then (Inr (ModelPanel ''already_loaded''), ap)
      else if oe_model_path v = None then (Inl (refusal_of 400 ''invalid_request_error'' ''model_not_configured''), ap)
      else let b = (case mp_backend ap of None \<Rightarrow> oe_configured v | Some b \<Rightarrow> b)
           in case oe_load v b of
                (ok, b') \<Rightarrow> (if ok then Inr (ModelPanel ''loaded'') else Inl (refusal_of 503 ''service_unavailable'' ''model_load_failed''),
                            ap\<lparr>mp_backend := Some b'\<rparr>))"

definition model_unload_ep :: "models_app \<Rightarrow> operator_result" where
  "model_unload_ep ap =
     (case mp_backend ap of
        None \<Rightarrow> (Inr (ModelPanel ''already_unloaded''), ap)
      | Some b \<Rightarrow> if ba_state b \<notin> set READYISH then (Inr (ModelPanel ''already_unloaded''), ap)
                 else (Inr (ModelPanel ''unloaded''), ap\<lparr>mp_backend := Some (b\<lparr>ba_state := UNLOADED\<rparr>)\<rparr>))"

text \<open>Plans and clients.\<close>

definition upsert_plan_ep :: "operator_env \<Rightarrow> plan \<Rightarrow> models_app \<Rightarrow> operator_result" where
  "upsert_plan_ep v pl ap =
     (case upsert_plan pl (me_now (oe_base v)) (ap_db ap) of
        (p', s) \<Rightarrow> recorded_write v ''billing.plan.upsert'' (Inr p', s)
          (\<lambda>p'. (pl_id p', [(''name'', DText (text_of (pl_name p')))], PlanSaved p')) ap)"

definition create_client_ep :: "operator_env \<Rightarrow> string option \<Rightarrow> string option \<Rightarrow> models_app \<Rightarrow> operator_result" where
  "create_client_ep v external_ref email ap =
     recorded_write v ''billing.client.create''
       (or_crash (create_client (me_new_id (oe_base v)) external_ref email (me_now (oe_base v)) (ap_db ap)))
       (\<lambda>c. (c_id c, [], ClientCreated c)) ap"

definition client_not_found :: models_failure where
  "client_not_found = refusal_of 404 ''invalid_request_error'' ''client_not_found''"

text \<open>The key is created and then attached, in two transactions.\<close>

definition create_key_for_client :: "operator_env \<Rightarrow> string \<Rightarrow> string option \<Rightarrow> models_app \<Rightarrow> operator_result" where
  "create_key_for_client v cid label ap =
     (if get_client cid (ap_db ap) = None then (Inl client_not_found, ap)
      else recorded_write v ''key.create''
        (or_crash (bind_action
           (key_create (me_hash (oe_base v)) (oe_urlsafe v) (me_new_id (oe_base v)) label (me_now (oe_base v)))
           (\<lambda>(rec, token). bind_action (attach_key (k_id rec) cid) (\<lambda>_ s. (Inr (rec, token), s))) (ap_db ap)))
        (\<lambda>(rec, token). (k_id rec, [(''label'', label_detail label), (''client_id'', DText (text_of cid))], NewKey rec token (Some cid))) ap)"

definition reconcile_client :: "operator_env \<Rightarrow> string \<Rightarrow> models_app \<Rightarrow> operator_result" where
  "reconcile_client v cid ap =
     (if get_client cid (ap_db ap) = None then (Inl client_not_found, ap)
      else (Inr (UsageReconciled cid (client_usage_cu cid (rolling_5h_start (oe_time v)) (ap_db ap))
              (client_usage_cu cid (week_start (oe_time v)) (ap_db ap))), ap))"

text \<open>Outbound webhooks. The destination must be an http(s) URL with an ASCII host on the egress allowlist.\<close>

definition endpoint_host :: "operator_env \<Rightarrow> string \<Rightarrow> (models_failure, string) result" where
  "endpoint_host v url =
     (case oe_urlparse v url of
        None \<Rightarrow> Inl Crashed
      | Some (scheme, hn) \<Rightarrow>
          (case hn of
             None \<Rightarrow> Inl (refusal_of 400 ''invalid_request_error'' ''invalid_endpoint_url'')
           | Some h \<Rightarrow>
               if scheme \<notin> {''http'', ''https''} \<or> h = [] then Inl (refusal_of 400 ''invalid_request_error'' ''invalid_endpoint_url'')
               else if \<not> isascii h then Inl (refusal_of 400 ''invalid_request_error'' ''endpoint_host_not_ascii'')
               else if \<not> host_allowed h (oe_allowlist v) then Inl (refusal_of 400 ''invalid_request_error'' ''egress_not_allowed'')
               else Inr h))"

definition create_endpoint_ep ::
  "operator_env \<Rightarrow> string \<Rightarrow> string \<Rightarrow> string option \<Rightarrow> string list option \<Rightarrow> models_app \<Rightarrow> operator_result" where
  "create_endpoint_ep v cid url description event_types ap =
     (if get_client cid (ap_db ap) = None then (Inl client_not_found, ap)
      else case endpoint_host v url of
          Inl f \<Rightarrow> (Inl f, ap)
        | Inr h \<Rightarrow>
            recorded_write v ''webhook.endpoint.create''
              (or_crash (create_endpoint (me_new_id (oe_base v)) (oe_secret_id v) (oe_secret v) cid url description event_types
                 (me_now (oe_base v)) (ap_db ap)))
              (\<lambda>(ep, secret). (ep_id ep, [(''client_id'', DText (text_of cid)), (''host'', DText (text_of h))], EndpointCreated ep secret)) ap)"

definition endpoint_not_found :: models_failure where
  "endpoint_not_found = refusal_of 404 ''invalid_request_error'' ''endpoint_not_found''"

definition disable_action :: "bool \<Rightarrow> string" where
  "disable_action disabled = (if disabled then ''webhook.endpoint.disable'' else ''webhook.endpoint.enable'')"

definition disable_endpoint :: "operator_env \<Rightarrow> string \<Rightarrow> bool \<Rightarrow> models_app \<Rightarrow> operator_result" where
  "disable_endpoint v eid disabled ap =
     recorded_write v (disable_action disabled) (or_refuse endpoint_not_found (set_disabled eid disabled (ap_db ap)))
       (\<lambda>_. (eid, [], EndpointDisabled eid disabled)) ap"

definition delete_endpoint_ep :: "operator_env \<Rightarrow> string \<Rightarrow> models_app \<Rightarrow> operator_result" where
  "delete_endpoint_ep v eid ap =
     recorded_write v ''webhook.endpoint.delete'' (or_refuse endpoint_not_found (delete_endpoint eid (ap_db ap)))
       (\<lambda>_. (eid, [], EndpointDeleted eid)) ap"

definition rotate_secret_ep :: "operator_env \<Rightarrow> string \<Rightarrow> models_app \<Rightarrow> operator_result" where
  "rotate_secret_ep v eid ap =
     (if get_endpoint eid (ap_db ap) = None then (Inl endpoint_not_found, ap)
      else recorded_write v ''webhook.endpoint.rotate_secret''
        (or_crash (rotate_secret (oe_secret_id v) (oe_secret v) eid (oe_grace_s v) (oe_time v) (me_now (oe_base v)) (ap_db ap)))
        (\<lambda>secret. (eid, [(''grace_s'', DNum (oe_grace_s v))], SecretRotated eid secret (oe_time v + oe_grace_s v))) ap)"

definition replay_delivery :: "operator_env \<Rightarrow> string \<Rightarrow> models_app \<Rightarrow> operator_result" where
  "replay_delivery v did ap =
     recorded_write v ''webhook.delivery.replay''
       (or_refuse (refusal_of 404 ''invalid_request_error'' ''delivery_not_found'') (replay did (oe_time v) (ap_db ap)))
       (\<lambda>_. (did, [], DeliveryReplayed did)) ap"

datatype operator_call =
    List_Keys | Create_Key "string option" | Delete_Key string bool
  | Model_Load | Model_Unload
  | Upsert_Plan plan | Create_Client "string option" "string option" | Key_For_Client string "string option" | Reconcile_Client string
  | Create_Endpoint string string "string option" "string list option" | Disable_Endpoint string bool | Delete_Endpoint string
  | Rotate_Secret string | Replay_Delivery string

fun operator_body :: "operator_env \<Rightarrow> operator_call \<Rightarrow> models_app \<Rightarrow> operator_result" where
  "operator_body v List_Keys = list_keys_ep"
| "operator_body v (Create_Key l) = create_key_ep v l"
| "operator_body v (Delete_Key i purge) = (if purge then purge_key v i else revoke_key_ep v i)"
| "operator_body v Model_Load = model_load_ep v"
| "operator_body v Model_Unload = model_unload_ep"
| "operator_body v (Upsert_Plan pl) = upsert_plan_ep v pl"
| "operator_body v (Create_Client r e) = create_client_ep v r e"
| "operator_body v (Key_For_Client c l) = create_key_for_client v c l"
| "operator_body v (Reconcile_Client c) = reconcile_client v c"
| "operator_body v (Create_Endpoint c u d ts) = create_endpoint_ep v c u d ts"
| "operator_body v (Disable_Endpoint i b) = disable_endpoint v i b"
| "operator_body v (Delete_Endpoint i) = delete_endpoint_ep v i"
| "operator_body v (Rotate_Secret i) = rotate_secret_ep v i"
| "operator_body v (Replay_Delivery i) = replay_delivery v i"

definition operator_endpoint :: "operator_env \<Rightarrow> operator_call \<Rightarrow> models_app \<Rightarrow> operator_result" where
  "operator_endpoint v c = gated (oe_base v) [] (operator_body v c)"

section \<open>Every write is recorded\<close>

fun operator_action :: "operator_call \<Rightarrow> string option" where
  "operator_action (Create_Key _) = Some ''key.create''"
| "operator_action (Delete_Key _ purge) = Some (if purge then ''key.delete'' else ''key.revoke'')"
| "operator_action (Upsert_Plan _) = Some ''billing.plan.upsert''"
| "operator_action (Create_Client _ _) = Some ''billing.client.create''"
| "operator_action (Key_For_Client _ _) = Some ''key.create''"
| "operator_action (Create_Endpoint _ _ _ _) = Some ''webhook.endpoint.create''"
| "operator_action (Disable_Endpoint _ b) = Some (if b then ''webhook.endpoint.disable'' else ''webhook.endpoint.enable'')"
| "operator_action (Delete_Endpoint _) = Some ''webhook.endpoint.delete''"
| "operator_action (Rotate_Secret _) = Some ''webhook.endpoint.rotate_secret''"
| "operator_action (Replay_Delivery _) = Some ''webhook.delivery.replay''"
| "operator_action _ = None"

text \<open>
  The key of the caller outlives every write but its own revocation: its row keeps its id and stays
  unrevoked. (Statements about keys address them by id; a new key comes last in the table.)
\<close>

definition caller_kept :: "operator_call \<Rightarrow> db \<Rightarrow> db \<Rightarrow> bool" where
  "caller_kept c s s' \<longleftrightarrow> (\<forall>h row. fetchone (\<lambda>r. k_hash r = h) (api_keys s) = Some row \<and> k_revoked_at row = None \<and>
     c \<noteq> Delete_Key (k_id row) False \<longrightarrow>
     (\<exists>row'. fetchone (\<lambda>r. k_hash r = h) (api_keys s') = Some row' \<and> k_id row' = k_id row \<and> k_revoked_at row' = None))"

lemma caller_kept_refl: "api_keys s' = api_keys s \<Longrightarrow> caller_kept c s s'"
  by (auto simp: caller_kept_def)

lemma caller_kept_upd:
  assumes "\<And>r. k_hash (f r) = k_hash r" "\<And>r. k_id (f r) = k_id r"
    and "\<And>r. q r \<Longrightarrow> k_revoked_at r = None \<Longrightarrow> c \<noteq> Delete_Key (k_id r) False \<Longrightarrow> k_revoked_at (f r) = None"
    and "api_keys s' = upd_where q f (api_keys s)"
  shows "caller_kept c s s'"
proof -
  have "fetchone (\<lambda>r. k_hash r = h) (upd_where q f ks) = map_option (\<lambda>r. if q r then f r else r) (fetchone (\<lambda>r. k_hash r = h) ks)"
    for h and ks :: "api_key_row list" using assms(1) by (induction ks) auto
  then show ?thesis using assms(2,3) unfolding caller_kept_def assms(4) by auto
qed

lemma caller_kept_append: "api_keys s' = api_keys s @ ks \<Longrightarrow> caller_kept c s s'"
  by (auto simp: caller_kept_def fetchone_append)

lemma caller_kept_delete:
  assumes wf: "keys_wf (api_keys s)" and row: "key_get i s = Some rec" "k_revoked_at rec \<noteq> None"
  shows "caller_kept c s (snd (key_delete i s))"
proof -
  obtain row where r: "row \<in> set (api_keys s)" "k_id row = i" "k_revoked_at row \<noteq> None"
    using row by (auto simp: key_get_def key_row_def key_record.defs dest!: fetchone_Some)
  have "fetchone (\<lambda>r. k_hash r = h) (del_where (\<lambda>r. k_id r = i) ks) = fetchone (\<lambda>r. k_hash r = h) ks"
    if "fetchone (\<lambda>r. k_hash r = h) ks = Some x" "k_id x \<noteq> i" for h x and ks :: "api_key_row list"
    using that by (induction ks) (auto simp: del_where_def split: if_splits)
  moreover have "k_id x \<noteq> i" if "x \<in> set (api_keys s)" "k_revoked_at x = None" for x
    using wf r that by (auto simp: keys_wf_def dest: unique_on_eq)
  ultimately have "fetchone (\<lambda>r. k_hash r = h) (del_where (\<lambda>r. k_id r = i) (api_keys s)) = Some x"
    if "fetchone (\<lambda>r. k_hash r = h) (api_keys s) = Some x" "k_revoked_at x = None" for h x
    using that fetchone_Some[OF that(1)] by simp
  then show ?thesis by (simp add: caller_kept_def key_delete_def Let_def)
qed

text \<open>What a body leaves: a write with its record, or no record at all.\<close>

definition recorded_as :: "operator_env \<Rightarrow> operator_call \<Rightarrow> models_app \<Rightarrow> operator_result \<Rightarrow> bool" where
  "recorded_as v c ap res \<longleftrightarrow>
     (case (fst res, operator_action c) of
        (Inr _, Some act) \<Rightarrow> \<exists>s target d. snd res = audit_call (oe_base v) act target d (with_db s ap) \<and> caller_kept c (ap_db ap) s
      | _ \<Rightarrow> mp_audit (snd res) = mp_audit ap)"

lemma with_db_audit [simp]: "mp_audit (with_db s ap) = mp_audit ap"
  by (simp add: with_db_def)

lemma recorded_refusal [simp]: "mp_audit ap' = mp_audit ap \<Longrightarrow> recorded_as v c ap (Inl f, ap')"
  by (simp add: recorded_as_def)

lemma recorded_write_as:
  assumes "operator_action c = Some act" and "\<And>x. fst res = Inr x \<Longrightarrow> caller_kept c (ap_db ap) (snd res)"
  shows "recorded_as v c ap (recorded_write v act res k ap)"
  using assms by (cases res; cases "fst res") (auto simp: recorded_write_def recorded_as_def split: prod.split)

lemma create_key_kept: "key_create hash u i l now s = (Inr x, s') \<Longrightarrow> caller_kept c s s'"
  by (rule caller_kept_append[where ks = "[new_key_row hash i (KEY_PREFIX @ u) l now]"])
    (auto simp: key_create_def insert_api_key_def Let_def split: if_splits)

lemma key_for_client_kept:
  assumes "bind_action (key_create hash u i l now) (\<lambda>(rec, token). bind_action (attach_key (k_id rec) cid) (\<lambda>_ s. (Inr (rec, token), s))) s = (Inr x, s')"
  shows "caller_kept c s s'"
proof -
  obtain y s1 where k: "key_create hash u i l now s = (Inr y, s1)" and a: "api_keys s' = upd_where (\<lambda>r. k_id r = k_id (fst y)) (\<lambda>r. r\<lparr>k_client_id := Some cid\<rparr>) (api_keys s1)"
    using assms by (auto simp: bind_action_def attach_key_def Let_def split: prod.splits sum.splits if_splits)
  have 1: "caller_kept c s s1" by (rule create_key_kept[OF k])
  have 2: "caller_kept c s1 s'" by (rule caller_kept_upd[OF _ _ _ a]) simp_all
  show ?thesis using 1 2 unfolding caller_kept_def by metis
qed

lemma revoke_kept: "caller_kept (Delete_Key i False) s (snd (key_revoke i now s))"
  by (rule caller_kept_upd[where q = "\<lambda>r. k_id r = i \<and> k_revoked_at r = None" and f = "\<lambda>r. r\<lparr>k_revoked_at := Some now\<rparr>"])
    (auto simp: key_revoke_def Let_def)

lemma other_tables_kept:
  "caller_kept c s (snd (upsert_plan pl now s))" "caller_kept c s (snd (create_client i r e now s))"
  "caller_kept c s (snd (create_endpoint i si sec cid u d ts now s))" "caller_kept c s (snd (set_disabled i b s))"
  "caller_kept c s (snd (delete_endpoint i s))" "caller_kept c s (snd (rotate_secret si sec i gr t now s))" "caller_kept c s (snd (replay i t s))"
  by (auto intro!: caller_kept_refl simp: upsert_plan_def create_client_def create_endpoint_def set_disabled_def delete_endpoint_def
      rotate_secret_def replay_def Let_def split: sum.split)

lemma or_crash_Inr: "fst (or_crash res) = Inr x \<Longrightarrow> res = (Inr x, snd (or_crash res))"
  by (cases res; cases "fst res") (auto simp: or_crash_def)

lemma or_results [simp]: "snd (or_crash res) = snd res" "snd (or_refuse f res') = snd res'"
  by (simp_all add: or_crash_def or_refuse_def)

lemma operator_body_recorded:
  assumes "keys_wf (api_keys (ap_db ap))"
  shows "recorded_as v c ap (operator_body v c ap)"
proof (cases c)
  case (Create_Key l)
  show ?thesis unfolding Create_Key operator_body.simps create_key_ep_def
    by (rule recorded_write_as) (auto dest!: or_crash_Inr intro: create_key_kept)
next
  case (Delete_Key i purge)
  have "recorded_as v (Delete_Key i True) ap (purge_key v i ap)"
    using caller_kept_delete[OF assms] unfolding purge_key_def by (auto intro!: recorded_write_as split: option.split)
  moreover have "recorded_as v (Delete_Key i False) ap (revoke_key_ep v i ap)"
    unfolding revoke_key_ep_def by (rule recorded_write_as) (simp_all add: revoke_kept)
  ultimately show ?thesis unfolding Delete_Key by (cases purge) simp_all
next
  case (Upsert_Plan pl)
  show ?thesis unfolding Upsert_Plan operator_body.simps upsert_plan_ep_def
    using other_tables_kept(1) by (auto intro!: recorded_write_as split: prod.split) (metis snd_conv)
next
  case (Key_For_Client cid l)
  show ?thesis unfolding Key_For_Client operator_body.simps create_key_for_client_def
    by (auto intro!: recorded_write_as dest!: or_crash_Inr intro: key_for_client_kept)
next
  case (Create_Endpoint cid u d ts)
  show ?thesis unfolding Create_Endpoint operator_body.simps create_endpoint_ep_def
    by (auto intro!: recorded_write_as simp: other_tables_kept split: sum.split)
qed (auto simp: recorded_as_def[of _ List_Keys] recorded_as_def[of _ Model_Load] recorded_as_def[of _ Model_Unload] recorded_as_def[of _ "Reconcile_Client _"]
    list_keys_ep_def model_load_ep_def model_unload_ep_def reconcile_client_def create_client_ep_def disable_endpoint_def disable_action_def
    delete_endpoint_ep_def rotate_secret_ep_def replay_delivery_def other_tables_kept Let_def
    intro!: recorded_write_as split: option.split prod.split)

text \<open>The key a caller presents, if it is valid.\<close>

definition caller_key :: "models_env \<Rightarrow> db \<Rightarrow> string option" where
  "caller_key v s =
     (case me_token v of
        None \<Rightarrow> None
      | Some t \<Rightarrow> if t = [] then None else map_option k_id (fst (key_verify (me_hash v) t (me_now v) s)))"

lemma caller_key_row:
  "caller_key v s = Some i \<longleftrightarrow> (\<exists>t row. me_token v = Some t \<and> t \<noteq> [] \<and> fetchone (\<lambda>r. k_hash r = me_hash v t) (api_keys s) = Some row \<and>
     k_revoked_at row = None \<and> k_id row = i)"
  by (auto simp: caller_key_def key_verify_def key_record.defs split: option.splits if_splits)

lemma identity_of_caller: "caller_key v (gw_db g) = Some i \<Longrightarrow> fst (operator_identity v g) = i"
  by (auto simp: caller_key_def operator_identity_def verify_token_def split: option.splits prod.splits if_splits)

lemma caller_key_kept: "caller_kept c s s' \<Longrightarrow> c \<noteq> Delete_Key i False \<Longrightarrow> caller_key v s = Some i \<Longrightarrow> caller_key v s' = Some i"
  unfolding caller_key_row caller_kept_def by metis

definition only_touched :: "db \<Rightarrow> db \<Rightarrow> bool" where
  "only_touched s s' \<longleftrightarrow> (\<exists>q f. api_keys s' = upd_where q f (api_keys s) \<and>
     (\<forall>r. k_id (f r) = k_id r \<and> k_hash (f r) = k_hash r \<and> k_revoked_at (f r) = k_revoked_at r))"

lemma only_touched_refl: "only_touched s s"
  unfolding only_touched_def by (intro exI[of _ "\<lambda>_. False"] exI[of _ id]) (simp add: upd_where_def)

lemma verify_touches: "only_touched s (snd (key_verify h t now s))"
proof (cases "fetchone (\<lambda>r. k_hash r = h t) (api_keys s)")
  case (Some row)
  have "only_touched s (s\<lparr>api_keys := upd_where (\<lambda>r. k_id r = k_id row) (\<lambda>r. r\<lparr>k_last_used_at := Some now\<rparr>) (api_keys s)\<rparr>)"
    unfolding only_touched_def by (intro exI[of _ "\<lambda>r. k_id r = k_id row"] exI[of _ "\<lambda>r. r\<lparr>k_last_used_at := Some now\<rparr>"]) simp
  then show ?thesis using Some only_touched_refl by (simp add: key_verify_def)
qed (simp add: key_verify_def only_touched_refl)

lemma gate_touches: "only_touched (gw_db g) (gw_db (snd (require_operator v g)))"
proof -
  have "gw_db (snd (require_operator v g)) = gw_db g \<or>
      (\<exists>t. gw_db (snd (require_operator v g)) = snd (key_verify (me_hash v) t (me_now v) (gw_db g)))"
    by (auto simp: require_operator_def operator_gate_def verify_token_def split: option.splits prod.splits operator_access.splits if_splits)
      (metis snd_conv)+
  then show ?thesis using only_touched_refl verify_touches by metis
qed

lemma gate_db:
  assumes "keys_wf (api_keys (gw_db g))"
  shows "keys_wf (api_keys (gw_db (snd (require_operator v g))))"
    and "caller_key v (gw_db g) = Some i \<Longrightarrow> caller_key v (gw_db (snd (require_operator v g))) = Some i"
proof -
  from gate_touches[of g v, unfolded only_touched_def] obtain q f where f: "api_keys (gw_db (snd (require_operator v g))) = upd_where q f (api_keys (gw_db g))"
    "\<And>r. k_id (f r) = k_id r" "\<And>r. k_hash (f r) = k_hash r" "\<And>r. k_revoked_at (f r) = k_revoked_at r" by blast
  show "keys_wf (api_keys (gw_db (snd (require_operator v g))))" unfolding f(1) by (rule keys_wf_upd[OF assms]) (simp_all add: f)
  show "caller_key v (gw_db (snd (require_operator v g))) = Some i" if "caller_key v (gw_db g) = Some i"
    using caller_key_kept[OF caller_kept_upd[where c = List_Keys, OF f(3) f(2) _ f(1)] _ that] f(4) by simp
qed

text \<open>
  C36. Every operator write is recorded. A caller the operator gate denies gets the gate's refusal, and
  nothing changes beyond what the gate's own check of the key stamps on it. A key, plan, client or webhook change that succeeds appends exactly
  one audit row with its action, and the row names the key of the caller, unless the call revoked
  that very key; a call that fails or only reads appends none. A webhook endpoint is only created
  for an http(s) destination with an ASCII host on the egress allowlist.
\<close>

theorem operator_api_recorded:
  assumes "keys_wf (api_keys (ap_db ap))" and "operator_endpoint v c ap = (r, ap')"
  shows "(\<forall>f. fst (require_operator (oe_base v) (mp_gw ap)) = Some f \<longrightarrow> r = Inl f \<and> ap' = ap\<lparr>mp_gw := snd (require_operator (oe_base v) (mp_gw ap))\<rparr>) \<and>
    (case (r, operator_action c) of
       (Inr _, Some act) \<Rightarrow> \<exists>row. mp_audit ap' = mp_audit ap @ [row] \<and> au_action row = act \<and>
         (\<forall>i. caller_key (oe_base v) (ap_db ap) = Some i \<and> c \<noteq> Delete_Key i False \<longrightarrow> au_actor row = i)
     | _ \<Rightarrow> mp_audit ap' = mp_audit ap) \<and>
    (\<forall>cid u d ts ep secret. c = Create_Endpoint cid u d ts \<and> r = Inr (EndpointCreated ep secret) \<longrightarrow>
       (\<exists>scheme h. oe_urlparse v u = Some (scheme, Some h) \<and> scheme \<in> {''http'', ''https''} \<and> isascii h \<and> host_allowed h (oe_allowlist v)))"
  using assms(2) unfolding operator_endpoint_def
proof (cases rule: gated_cases)
  case (1 f)
  have "mp_audit ap' = mp_audit ap" using 1(3) by (metis models_app.select_convs(4) models_app.surjective models_app.update_convs(1))
  moreover have "ap' = ap\<lparr>mp_gw := snd (require_operator (oe_base v) (mp_gw ap))\<rparr>"
    using assms(2) 1(1) by (auto simp: operator_endpoint_def gated_def split: prod.splits)
  ultimately show ?thesis using 1 by auto
next
  case 3
  let ?g = "snd (require_operator (oe_base v) (mp_gw ap))"
  have rec: "recorded_as v c (ap\<lparr>mp_gw := ?g\<rparr>) (r, ap')"
    using operator_body_recorded[of "ap\<lparr>mp_gw := ?g\<rparr>" v c] gate_db(1)[OF assms(1)] 3(3) by simp
  have egress: "\<exists>scheme h. oe_urlparse v u = Some (scheme, Some h) \<and> scheme \<in> {''http'', ''https''} \<and> isascii h \<and> host_allowed h (oe_allowlist v)"
    if "c = Create_Endpoint cid u d ts" "r = Inr (EndpointCreated ep secret)" for cid u d ts ep secret
    using 3(3) that by (auto simp: create_endpoint_ep_def endpoint_host_def split: option.splits if_splits sum.splits prod.splits)
  have audit: "case (r, operator_action c) of
       (Inr _, Some act) \<Rightarrow> \<exists>row. mp_audit ap' = mp_audit ap @ [row] \<and> au_action row = act \<and>
         (\<forall>i. caller_key (oe_base v) (ap_db ap) = Some i \<and> c \<noteq> Delete_Key i False \<longrightarrow> au_actor row = i)
     | _ \<Rightarrow> mp_audit ap' = mp_audit ap"
  proof (cases "\<exists>x act. r = Inr x \<and> operator_action c = Some act")
    case True
    then obtain x act where x: "r = Inr x" "operator_action c = Some act" by blast
    then obtain s target d where s: "ap' = audit_call (oe_base v) act target d (with_db s (ap\<lparr>mp_gw := ?g\<rparr>))" "caller_kept c (gw_db ?g) s"
      using rec by (auto simp: recorded_as_def)
    have "fst (operator_identity (oe_base v) (mp_gw (with_db s (ap\<lparr>mp_gw := ?g\<rparr>)))) = i"
      if "caller_key (oe_base v) (ap_db ap) = Some i" "c \<noteq> Delete_Key i False" for i
      using caller_key_kept[OF s(2) that(2) gate_db(2)[OF assms(1) that(1)]] by (intro identity_of_caller) (simp add: with_db_def)
    then show ?thesis using x s(1) audit_call_row[of "oe_base v" act target d "with_db s (ap\<lparr>mp_gw := ?g\<rparr>)"] by auto
  next
    case False
    then show ?thesis using rec by (cases r; cases "operator_action c") (auto simp: recorded_as_def)
  qed
  have deny: "\<forall>f. fst (require_operator (oe_base v) (mp_gw ap)) = Some f \<longrightarrow> r = Inl f \<and> ap' = ap\<lparr>mp_gw := snd (require_operator (oe_base v) (mp_gw ap))\<rparr>" using 3(1) by simp
  show ?thesis by (rule conjI[OF deny conjI[OF audit]]) (intro allI impI, elim conjE, rule egress)
qed simp

definition sample_operator_env :: operator_env where
  "sample_operator_env = \<lparr>oe_base = sample_models_env\<lparr>me_cfg := sample_settings, me_token := Some ''tok'', me_allow_management := False\<rparr>,
     oe_urlsafe = ''u'', oe_secret_id = ''si'', oe_secret = ''sec'', oe_time = 0, oe_grace_s = 60, oe_allowlist = [''example.com''],
     oe_urlparse = (\<lambda>_. Some (''https'', Some ''example.com'')), oe_model_path = None, oe_configured = sample_backend,
     oe_load = (\<lambda>b. (True, b))\<rparr>"

lemmas sample_operator_defs = operator_endpoint_def gated_def require_operator_def operator_gate_def verify_token_def key_verify_def
  sample_operator_env_def sample_models_env_def sample_models_app_def sample_gw_def empty_db_def role_def ROLE_OPERATOR_def key_record.defs

theorem operator_api_recorded_witness:
  "\<exists>x ap' row. operator_endpoint sample_operator_env (Create_Key None) sample_models_app = (Inr x, ap') \<and> mp_audit ap' = [row] \<and>
     au_action row = ''key.create'' \<and> au_actor row = ''k1''"
proof -
  obtain r ap' where e: "operator_endpoint sample_operator_env (Create_Key None) sample_models_app = (r, ap')" by fastforce
  have wf: "keys_wf (api_keys (ap_db sample_models_app))" by (simp add: sample_models_app_def sample_gw_def keys_wf_def unique_on_def)
  have "\<exists>x. r = Inr x" using e
    by (auto simp: sample_operator_defs create_key_ep_def recorded_write_def or_crash_def key_create_def insert_api_key_def new_key_row_def KEY_PREFIX_def Let_def)
  moreover have "caller_key (oe_base sample_operator_env) (ap_db sample_models_app) = Some ''k1''"
    by (simp add: caller_key_def sample_operator_defs)
  ultimately show ?thesis using e operator_api_recorded[OF wf e] by (auto simp: sample_models_app_def)
qed

section \<open>What the record does not cover\<close>

text \<open>
  An operator that revokes the key it is using is recorded as \<open>local\<close>: the identity is looked up
  after the revocation, when the key no longer verifies.
\<close>

lemma self_revocation_recorded_as_local:
  "\<exists>x ap' row. operator_endpoint sample_operator_env (Delete_Key ''k1'' False) sample_models_app = (Inr x, ap') \<and> mp_audit ap' = [row] \<and>
     au_action row = ''key.revoke'' \<and> au_target row = Some ''k1'' \<and> au_actor row = LOCAL_KEY_ID"
  by (simp add: sample_operator_defs revoke_key_ep_def recorded_write_def or_refuse_def key_revoke_def with_db_def audit_call_def
      operator_identity_def record_event_def insert_event_def rowcount_def Let_def)

text \<open>
  The endpoints for the configured model are behind the operator gate only: with model management
  switched off they still load and unload it, and leave no record.
\<close>

lemma configured_model_unswitched:
  assumes "fst (require_operator (oe_base v) (mp_gw ap)) = None" and "mp_backend ap = Some b" and "ba_state b \<in> set READYISH"
  shows "\<exists>ap'. operator_endpoint v Model_Unload ap = (Inr (ModelPanel ''unloaded''), ap') \<and> mp_backend ap' = Some (b\<lparr>ba_state := UNLOADED\<rparr>) \<and>
    mp_audit ap' = mp_audit ap"
  using assms by (cases "require_operator (oe_base v) (mp_gw ap)") (simp add: operator_endpoint_def gated_def model_unload_ep_def)

end
