(* ===== verification/Lifespan.thy ===== *)
theory Lifespan
  imports Model_Service Webhooks
begin

text \<open>
  The lifespan of the engine (\<open>lifespan\<close>, \<open>_serve\<close>, \<open>_live_writers\<close> of \<open>engine/main.py\<close>) together
  with the writers of the store it starts and stops: the download tasks of the model service, the
  webhook delivery loop with its batch thread (\<open>run_loop\<close>, \<open>_finish\<close> of
  \<open>billing/webhooks/delivery.py\<close>) and the handlers of the gRPC edge (\<open>_Handlers\<close>, \<open>GrpcEdge.stop\<close> of
  \<open>engine/grpc/server.py\<close>).

  All of them interleave at their \<open>await\<close>s, so the lifespan is a step relation: one step runs one
  task (or lets one thread finish) from one suspension point to the next. Every step of the
  shutdown sequence may fail, and the sequence may be cut short at any point; both are steps of
  their own, with no assumption on when they happen.
\<close>

section \<open>State\<close>

datatype grpc_state = Grpc_disabled | Grpc_owned | Grpc_stopping | Grpc_terminated

datatype cleanup_state = Cleanup_running | Cleanup_ended | Cleanup_cancelled

text \<open>
  Where the delivery loop is suspended: about to test the stop event, awaiting its batch thread,
  awaiting it after a cancellation, asleep, or ended.
\<close>

datatype loop_pc = Loop_top | Loop_batch | Loop_finish | Loop_sleep | Loop_ended

text \<open>
  A \<open>Generate\<close> handler: not yet called, inside \<open>start_generation_core\<close>, streaming, left suspended at
  a \<open>yield\<close> by a call that was cancelled during a write, or finalized (its usage is recorded, or
  there is nothing to record).
\<close>

datatype handler_pc = H_none | H_starting | H_streaming | H_abandoned | H_finalized

datatype teardown_step = T_grpc | T_drain | T_health_task | T_webhook_task | T_remote_workers | T_telemetry | T_model_service | T_backend

datatype life_phase = Ph_new | Ph_starting | Ph_running | Ph_cleanup "teardown_step list" | Ph_draining | Ph_ended

record lifecycle =
  lc_webhook_task :: "loop_pc option"
  lc_inflight :: "bool option"
  lc_grpc :: grpc_state
  lc_cleanup :: "cleanup_state option"
  lc_cleanup_completed :: bool

record engine_life =
  el_phase :: life_phase
  el_owned :: bool
  el_persist :: bool
  el_state :: lifecycle
  el_service :: service
  el_stop :: bool
  el_accepting :: bool
  el_open :: "nat list"
  el_handlers :: "nat \<Rightarrow> handler_pc"

definition lifecycle_init :: lifecycle where
  "lifecycle_init = \<lparr>lc_webhook_task = None, lc_inflight = None, lc_grpc = Grpc_disabled, lc_cleanup = None, lc_cleanup_completed = False\<rparr>"

definition life_init :: "service \<Rightarrow> engine_life" where
  "life_init sv = \<lparr>el_phase = Ph_new, el_owned = False, el_persist = False, el_state = lifecycle_init, el_service = sv,
     el_stop = False, el_accepting = False, el_open = [], el_handlers = (\<lambda>_. H_none)\<rparr>"

section \<open>Operations\<close>

definition worker_idle :: "lifecycle \<Rightarrow> bool" where
  "worker_idle st \<longleftrightarrow> lc_inflight st \<noteq> Some True"

definition live_writers :: "service \<Rightarrow> lifecycle \<Rightarrow> string list" where
  "live_writers sv st =
     (if owns_work sv then [''downloads''] else []) @
     (if lc_webhook_task st \<noteq> None \<and> lc_webhook_task st \<noteq> Some Loop_ended then [''webhook_task''] else []) @
     (if lc_webhook_task st \<noteq> None \<and> \<not> worker_idle st then [''webhook_thread''] else []) @
     (if lc_grpc st \<noteq> Grpc_disabled \<and> lc_grpc st \<noteq> Grpc_terminated then [''grpc''] else []) @
     (if lc_cleanup st \<noteq> None \<and> \<not> lc_cleanup_completed st then [''cleanup''] else [])"

definition teardown :: "teardown_step list" where
  "teardown = [T_grpc, T_drain, T_health_task, T_webhook_task, T_remote_workers, T_telemetry, T_model_service, T_backend]"

text \<open>The end of the lifespan: the locks are released only when no writer is left, and kept otherwise.\<close>

definition end_lifespan :: "engine_life \<Rightarrow> engine_life" where
  "end_lifespan e =
     (if live_writers (el_service e) (el_state e) \<noteq> [] then e\<lparr>el_phase := Ph_ended\<rparr>
      else e\<lparr>el_phase := Ph_ended, el_persist := False, el_owned := False\<rparr>)"

text \<open>
  The delivery loop. \<open>delivery_step\<close> goes from one suspension point to the next when the thing awaited
  has happened, \<open>delivery_cancel\<close> delivers a cancellation there; both give the position, the stop event
  and the state of the batch thread.
\<close>

definition delivery_step :: "bool \<Rightarrow> bool option \<Rightarrow> loop_pc \<Rightarrow> (loop_pc \<times> bool option) option" where
  "delivery_step stop inflight pc =
     (case pc of
        Loop_top \<Rightarrow> if stop then Some (Loop_ended, inflight) else Some (Loop_batch, Some True)
      | Loop_batch \<Rightarrow> if inflight = Some True then None else Some (Loop_sleep, inflight)
      | Loop_finish \<Rightarrow> if inflight = Some True then None else Some (Loop_ended, inflight)
      | Loop_sleep \<Rightarrow> Some (Loop_top, inflight)
      | Loop_ended \<Rightarrow> None)"

definition delivery_cancel :: "bool \<Rightarrow> bool option \<Rightarrow> loop_pc \<Rightarrow> loop_pc \<times> bool" where
  "delivery_cancel stop inflight pc =
     (case pc of
        Loop_batch \<Rightarrow> (if inflight = Some True then Loop_finish else Loop_ended, True)
      | Loop_finish \<Rightarrow> (if inflight = Some True then Loop_finish else Loop_ended, stop)
      | _ \<Rightarrow> (Loop_ended, stop))"

text \<open>
  A handler is tracked from its first statement until its stream has been closed; closing the
  stream finalizes the request if it has not been finalized yet.
\<close>

definition handlers_open :: "nat \<Rightarrow> engine_life \<Rightarrow> engine_life" where
  "handlers_open h e = e\<lparr>el_open := h # el_open e, el_handlers := (el_handlers e)(h := H_starting)\<rparr>"

definition handlers_close :: "nat \<Rightarrow> engine_life \<Rightarrow> engine_life" where
  "handlers_close h e = e\<lparr>el_open := removeAll h (el_open e), el_handlers := (el_handlers e)(h := H_finalized)\<rparr>"

definition task_done :: "handler_pc \<Rightarrow> bool" where
  "task_done pc \<longleftrightarrow> pc = H_abandoned \<or> pc = H_finalized"

text \<open>
  \<open>_complete\<close> and \<open>_drain_owned_work\<close> await a shielded task through cancellations of the caller. What
  the \<open>await\<close>s deliver, in order, is the argument; \<open>None\<close> means that the caller is still waiting.
\<close>

datatype await_event = Caller_cancelled | Task_returned | Task_raised | Task_cancelled

fun complete :: "bool \<Rightarrow> await_event list \<Rightarrow> bool option" where
  "complete cancelled [] = None"
| "complete cancelled (Caller_cancelled # evs) = complete True evs"
| "complete cancelled (_ # evs) = Some cancelled"

datatype exit_outcome = Exit_ok | Exit_cancelled | Exit_failed

fun drain_owned_work :: "bool \<Rightarrow> await_event list \<Rightarrow> exit_outcome option" where
  "drain_owned_work intr [] = None"
| "drain_owned_work intr (Caller_cancelled # evs) = drain_owned_work True evs"
| "drain_owned_work intr (Task_cancelled # evs) = Some Exit_cancelled"
| "drain_owned_work intr (Task_raised # evs) = Some Exit_failed"
| "drain_owned_work intr (Task_returned # evs) = Some (if intr then Exit_cancelled else Exit_ok)"

datatype shutdown_error = Shutdown_cancelled | ShutdownIncompleteError | Shutdown_failure

text \<open>What \<open>_serve\<close> raises after the cleanup: the caller's cancellation, then a cut-short cleanup, then its failure.\<close>

definition shutdown_raises :: "bool \<Rightarrow> await_event \<Rightarrow> shutdown_error option" where
  "shutdown_raises caller_cancelled outcome =
     (if caller_cancelled then Some Shutdown_cancelled
      else if outcome = Task_cancelled then Some ShutdownIncompleteError
      else if outcome = Task_raised then Some Shutdown_failure else None)"

section \<open>Steps\<close>

text \<open>The steps of the writers, which interleave with the lifespan.\<close>

inductive writer_step ::
  "(string \<Rightarrow> string) \<Rightarrow> (string \<Rightarrow> byte list \<Rightarrow> gguf_info) \<Rightarrow> string \<Rightarrow> engine_life \<Rightarrow> engine_life \<Rightarrow> bool"
  for key probe_file models_dir where
  service: "service_step key probe_file models_dir (el_service e) sv \<Longrightarrow>
    el_phase e \<notin> {Ph_new, Ph_ended} \<or> set (sv_tasks sv) \<subseteq> set (sv_tasks (el_service e)) \<Longrightarrow>
    writer_step key probe_file models_dir e (e\<lparr>el_service := sv\<rparr>)"
| loop: "lc_webhook_task (el_state e) = Some pc \<Longrightarrow> delivery_step (el_stop e) (lc_inflight (el_state e)) pc = Some (pc', inflight) \<Longrightarrow>
    writer_step key probe_file models_dir e (e\<lparr>el_state := (el_state e)\<lparr>lc_webhook_task := Some pc', lc_inflight := inflight\<rparr>\<rparr>)"
| cancel: "lc_webhook_task (el_state e) = Some pc \<Longrightarrow> pc \<noteq> Loop_ended \<Longrightarrow>
    delivery_cancel (el_stop e) (lc_inflight (el_state e)) pc = (pc', stop) \<Longrightarrow>
    writer_step key probe_file models_dir e (e\<lparr>el_state := (el_state e)\<lparr>lc_webhook_task := Some pc'\<rparr>, el_stop := stop\<rparr>)"
| thread: "lc_inflight (el_state e) = Some True \<Longrightarrow>
    writer_step key probe_file models_dir e (e\<lparr>el_state := (el_state e)\<lparr>lc_inflight := Some False\<rparr>\<rparr>)"
| call: "el_accepting e \<Longrightarrow> el_handlers e h = H_none \<Longrightarrow> writer_step key probe_file models_dir e (handlers_open h e)"
| started: "el_handlers e h = H_starting \<Longrightarrow>
    writer_step key probe_file models_dir e (e\<lparr>el_handlers := (el_handlers e)(h := H_streaming)\<rparr>)"
| finalized: "el_handlers e h \<in> {H_starting, H_streaming} \<Longrightarrow>
    writer_step key probe_file models_dir e (e\<lparr>el_handlers := (el_handlers e)(h := H_finalized)\<rparr>)"
| abandoned: "el_handlers e h = H_streaming \<Longrightarrow>
    writer_step key probe_file models_dir e (e\<lparr>el_handlers := (el_handlers e)(h := H_abandoned)\<rparr>)"
| closed: "el_handlers e h = H_finalized \<Longrightarrow> writer_step key probe_file models_dir e (handlers_close h e)"

text \<open>The steps of the startup and of the shutdown sequence.\<close>

inductive life_step :: "bool \<Rightarrow> bool \<Rightarrow> engine_life \<Rightarrow> engine_life \<Rightarrow> bool"
  for webhooks_enabled grpc_enabled where
  acquire: "el_phase e = Ph_new \<Longrightarrow>
    life_step webhooks_enabled grpc_enabled e (e\<lparr>el_phase := Ph_starting, el_owned := True, el_persist := True\<rparr>)"
| startup_fails: "el_phase e = Ph_starting \<Longrightarrow> life_step webhooks_enabled grpc_enabled e (e\<lparr>el_phase := Ph_draining\<rparr>)"
| started_up: "el_phase e = Ph_starting \<Longrightarrow> life_step webhooks_enabled grpc_enabled e (e\<lparr>el_phase := Ph_running\<rparr>)"
| start_webhooks: "el_phase e = Ph_running \<Longrightarrow> webhooks_enabled \<Longrightarrow> lc_webhook_task (el_state e) = None \<Longrightarrow>
    life_step webhooks_enabled grpc_enabled e (e\<lparr>el_state := (el_state e)\<lparr>lc_webhook_task := Some Loop_top\<rparr>\<rparr>)"
| start_grpc: "el_phase e = Ph_running \<Longrightarrow> grpc_enabled \<Longrightarrow> lc_grpc (el_state e) = Grpc_disabled \<Longrightarrow>
    life_step webhooks_enabled grpc_enabled e (e\<lparr>el_state := (el_state e)\<lparr>lc_grpc := Grpc_owned\<rparr>, el_accepting := True\<rparr>)"
| shutdown: "el_phase e = Ph_running \<Longrightarrow>
    life_step webhooks_enabled grpc_enabled e (e\<lparr>el_phase := Ph_cleanup teardown, el_state := (el_state e)\<lparr>lc_cleanup := Some Cleanup_running\<rparr>\<rparr>)"
| no_grpc: "el_phase e = Ph_cleanup (T_grpc # ts) \<Longrightarrow> lc_grpc (el_state e) = Grpc_disabled \<Longrightarrow>
    life_step webhooks_enabled grpc_enabled e (e\<lparr>el_phase := Ph_cleanup ts\<rparr>)"
| stop_grpc: "el_phase e = Ph_cleanup (T_grpc # ts) \<Longrightarrow> lc_grpc (el_state e) = Grpc_owned \<Longrightarrow>
    life_step webhooks_enabled grpc_enabled e (e\<lparr>el_state := (el_state e)\<lparr>lc_grpc := Grpc_stopping\<rparr>\<rparr>)"
| server_stopped: "el_phase e = Ph_cleanup (T_grpc # ts) \<Longrightarrow> lc_grpc (el_state e) = Grpc_stopping \<Longrightarrow>
    life_step webhooks_enabled grpc_enabled e (e\<lparr>el_accepting := False\<rparr>)"
| close_handler: "el_phase e = Ph_cleanup (T_grpc # ts) \<Longrightarrow> lc_grpc (el_state e) = Grpc_stopping \<Longrightarrow> \<not> el_accepting e \<Longrightarrow>
    h \<in> set (el_open e) \<Longrightarrow> task_done (el_handlers e h) \<Longrightarrow> life_step webhooks_enabled grpc_enabled e (handlers_close h e)"
| grpc_stopped: "el_phase e = Ph_cleanup (T_grpc # ts) \<Longrightarrow> lc_grpc (el_state e) = Grpc_stopping \<Longrightarrow> \<not> el_accepting e \<Longrightarrow>
    el_open e = [] \<Longrightarrow> life_step webhooks_enabled grpc_enabled e
      (e\<lparr>el_phase := Ph_cleanup ts, el_state := (el_state e)\<lparr>lc_grpc := Grpc_terminated\<rparr>\<rparr>)"
| request_stop: "el_phase e = Ph_cleanup (T_webhook_task # ts) \<Longrightarrow> lc_webhook_task (el_state e) \<noteq> None \<Longrightarrow>
    life_step webhooks_enabled grpc_enabled e (e\<lparr>el_stop := True\<rparr>)"
| webhooks_stopped: "el_phase e = Ph_cleanup (T_webhook_task # ts) \<Longrightarrow>
    lc_webhook_task (el_state e) = None \<or> lc_webhook_task (el_state e) = Some Loop_ended \<Longrightarrow>
    life_step webhooks_enabled grpc_enabled e (e\<lparr>el_phase := Ph_cleanup ts\<rparr>)"
| models_stopped: "el_phase e = Ph_cleanup (T_model_service # ts) \<Longrightarrow> \<not> owns_work (el_service e) \<Longrightarrow>
    life_step webhooks_enabled grpc_enabled e (e\<lparr>el_phase := Ph_cleanup ts\<rparr>)"
| other_step: "el_phase e = Ph_cleanup (t # ts) \<Longrightarrow> t \<notin> {T_grpc, T_webhook_task, T_model_service} \<Longrightarrow>
    life_step webhooks_enabled grpc_enabled e (e\<lparr>el_phase := Ph_cleanup ts\<rparr>)"
| step_failed: "el_phase e = Ph_cleanup (t # ts) \<Longrightarrow> t = T_grpc \<longrightarrow> lc_grpc (el_state e) = Grpc_stopping \<Longrightarrow>
    life_step webhooks_enabled grpc_enabled e (e\<lparr>el_phase := Ph_cleanup ts\<rparr>)"
| cleanup_completed: "el_phase e = Ph_cleanup [] \<Longrightarrow> life_step webhooks_enabled grpc_enabled e
    (e\<lparr>el_phase := Ph_draining, el_state := (el_state e)\<lparr>lc_cleanup := Some Cleanup_ended, lc_cleanup_completed := True\<rparr>\<rparr>)"
| cleanup_cut_short: "el_phase e = Ph_cleanup ts \<Longrightarrow> life_step webhooks_enabled grpc_enabled e
    (e\<lparr>el_phase := Ph_draining, el_state := (el_state e)\<lparr>lc_cleanup := Some Cleanup_cancelled\<rparr>\<rparr>)"
| ended: "el_phase e = Ph_draining \<Longrightarrow> life_step webhooks_enabled grpc_enabled e (end_lifespan e)"

inductive engine_step ::
  "bool \<Rightarrow> bool \<Rightarrow> (string \<Rightarrow> string) \<Rightarrow> (string \<Rightarrow> byte list \<Rightarrow> gguf_info) \<Rightarrow> string \<Rightarrow> engine_life \<Rightarrow> engine_life \<Rightarrow> bool"
  for we ge key probe_file models_dir where
  writer: "writer_step key probe_file models_dir e e' \<Longrightarrow> engine_step we ge key probe_file models_dir e e'"
| life: "life_step we ge e e' \<Longrightarrow> engine_step we ge key probe_file models_dir e e'"

section \<open>Invariant\<close>

definition handler_writing :: "handler_pc \<Rightarrow> bool" where
  "handler_writing pc \<longleftrightarrow> pc \<in> {H_starting, H_streaming, H_abandoned}"

text \<open>Something that writes the store is running, or can still be started by a call.\<close>

definition store_in_use :: "engine_life \<Rightarrow> bool" where
  "store_in_use e \<longleftrightarrow> owns_work (el_service e) \<or> lc_inflight (el_state e) = Some True \<or> el_accepting e \<or>
     (\<exists>h. handler_writing (el_handlers e h))"

text \<open>
  What the lifecycle record says is true of the writers: a batch thread runs only while the loop
  awaits it, an edge that is disabled or terminated accepts no call and tracks no handler, and a
  handler with a write outstanding is tracked.
\<close>

definition writers_tracked :: "engine_life \<Rightarrow> bool" where
  "writers_tracked e \<longleftrightarrow>
     (lc_inflight (el_state e) = Some True \<longrightarrow> lc_webhook_task (el_state e) \<in> {Some Loop_batch, Some Loop_finish}) \<and>
     (lc_grpc (el_state e) \<in> {Grpc_disabled, Grpc_terminated} \<longrightarrow> \<not> el_accepting e \<and> el_open e = []) \<and>
     (\<forall>h. handler_writing (el_handlers e h) \<longrightarrow> h \<in> set (el_open e))"

definition ownership_inv :: "engine_life \<Rightarrow> bool" where
  "ownership_inv e \<longleftrightarrow> el_persist e = el_owned e \<and> (el_phase e \<notin> {Ph_new, Ph_ended} \<longrightarrow> el_owned e) \<and>
     (\<not> el_owned e \<longrightarrow> live_writers (el_service e) (el_state e) = [])"

lemma live_writers_Nil:
  "live_writers sv st = [] \<longleftrightarrow> \<not> owns_work sv \<and> (lc_webhook_task st = None \<or> lc_webhook_task st = Some Loop_ended \<and> worker_idle st) \<and>
     lc_grpc st \<in> {Grpc_disabled, Grpc_terminated} \<and> (lc_cleanup st = None \<or> lc_cleanup_completed st)"
  by (auto simp: live_writers_def)

lemma quiet_store: "writers_tracked e \<Longrightarrow> live_writers (el_service e) (el_state e) = [] \<Longrightarrow> \<not> store_in_use e"
  by (auto simp: writers_tracked_def live_writers_Nil store_in_use_def worker_idle_def)

lemma writer_tracked: "writer_step key probe_file md e e' \<Longrightarrow> writers_tracked e \<Longrightarrow> writers_tracked e'"
  by (induction rule: writer_step.induct)
    (auto simp: writers_tracked_def handlers_open_def handlers_close_def handler_writing_def delivery_step_def delivery_cancel_def
      split: loop_pc.splits if_splits)

lemma life_tracked: "life_step we ge e e' \<Longrightarrow> writers_tracked e \<Longrightarrow> writers_tracked e'"
  by (induction rule: life_step.induct)
    (auto simp: writers_tracked_def handlers_close_def handler_writing_def end_lifespan_def split: if_splits)

lemma writer_ownership: "writer_step key probe_file md e e' \<Longrightarrow> writers_tracked e \<Longrightarrow> ownership_inv e \<Longrightarrow> ownership_inv e'"
  by (induction rule: writer_step.induct)
    (auto simp: ownership_inv_def live_writers_Nil owns_work_def writers_tracked_def handlers_open_def handlers_close_def handler_writing_def
      worker_idle_def delivery_step_def split: loop_pc.splits if_splits)

lemma life_ownership: "life_step we ge e e' \<Longrightarrow> ownership_inv e \<Longrightarrow> ownership_inv e'"
  by (induction rule: life_step.induct)
    (auto simp: ownership_inv_def live_writers_Nil handlers_close_def end_lifespan_def worker_idle_def)

lemma engine_inv_reach:
  assumes "(engine_step we ge key probe_file md)\<^sup>*\<^sup>* (life_init sv) e" and "sv_tasks sv = []"
  shows "writers_tracked e \<and> ownership_inv e"
  using assms(1)
proof (induction rule: rtranclp_induct)
  case base
  show ?case using assms(2)
    by (auto simp: life_init_def lifecycle_init_def writers_tracked_def ownership_inv_def live_writers_Nil owns_work_def handler_writing_def)
next
  case (step e e')
  from step.hyps(2) step.IH show ?case
    by (cases rule: engine_step.cases) (blast intro: writer_tracked life_tracked writer_ownership life_ownership)+
qed

text \<open>
  C10. The store is released only when nothing writes it. In every state the engine can reach, from
  startup through every interleaving of the download tasks, the delivery loop and its thread and the
  gRPC handlers with a shutdown of which any step may fail and which may be cut short anywhere:
  while anything writes the store, or a call that would write it can still arrive, both locks are
  held and the log mirror is persisted. Once the locks are given up the lifespan is over, nothing is
  persisted any more, no writer is left and the delivery loop has ended.
\<close>

theorem store_released_only_when_quiet:
  assumes "(engine_step we ge key probe_file models_dir)\<^sup>*\<^sup>* (life_init sv) e" and "sv_tasks sv = []"
  shows "(store_in_use e \<longrightarrow> el_owned e \<and> el_persist e) \<and>
    (\<not> el_owned e \<longrightarrow> el_phase e \<in> {Ph_new, Ph_ended} \<and> \<not> el_persist e \<and> live_writers (el_service e) (el_state e) = [] \<and>
       lc_webhook_task (el_state e) \<in> {None, Some Loop_ended})"
  using engine_inv_reach[OF assms] quiet_store[of e] by (auto simp: ownership_inv_def live_writers_Nil)

section \<open>Shutdown completes\<close>

text \<open>Until the shutdown begins the edge has not been stopped, and a tracked handler has been called.\<close>

definition edge_inv :: "engine_life \<Rightarrow> bool" where
  "edge_inv e \<longleftrightarrow> (el_phase e \<in> {Ph_new, Ph_starting, Ph_running} \<longrightarrow> lc_grpc (el_state e) \<in> {Grpc_disabled, Grpc_owned}) \<and>
     (\<forall>h\<in>set (el_open e). el_handlers e h \<noteq> H_none)"

lemma writer_edge: "writer_step key probe_file md e e' \<Longrightarrow> edge_inv e \<Longrightarrow> edge_inv e'"
  by (induction rule: writer_step.induct) (auto simp: edge_inv_def handlers_open_def handlers_close_def)

lemma life_edge: "life_step we ge e e' \<Longrightarrow> edge_inv e \<Longrightarrow> edge_inv e'"
  by (induction rule: life_step.induct) (auto simp: edge_inv_def handlers_close_def end_lifespan_def)

lemma edge_reach:
  assumes "(engine_step we ge key probe_file md)\<^sup>*\<^sup>* (life_init sv) e"
  shows "edge_inv e"
  using assms
proof (induction rule: rtranclp_induct)
  case base
  show ?case by (simp add: life_init_def lifecycle_init_def edge_inv_def)
next
  case (step e e')
  from step.hyps(2) step.IH show ?case by (cases rule: engine_step.cases) (blast intro: writer_edge life_edge)+
qed

lemma reap_all: "sv_tasks (shutdown_reap (\<lambda>_. True) sv) = []"
proof -
  have "set (sv_tasks (fold release_download xs s)) = set (sv_tasks s) - set xs" for xs s
    by (induction xs arbitrary: s) (auto simp: release_download_def)
  from this[of "sv_tasks sv" sv] show ?thesis by (simp add: shutdown_reap_def)
qed

text \<open>
  Each part of the shutdown can be carried through: from the state before it there are steps to a
  state after it in which its writer has stopped, and which leave the other writers as they are.
\<close>

lemma close_handlers:
  assumes "el_phase e = Ph_cleanup (T_grpc # ts)" and "lc_grpc (el_state e) = Grpc_stopping" and "\<not> el_accepting e" and "edge_inv e"
  shows "\<exists>e'. (engine_step we ge key probe_file md)\<^sup>*\<^sup>* e e' \<and> el_phase e' = Ph_cleanup (T_grpc # ts) \<and> el_state e' = el_state e \<and>
    \<not> el_accepting e' \<and> el_open e' = []"
  using assms
proof (induction "length (el_open e)" arbitrary: e rule: less_induct)
  case less
  show ?case
  proof (cases "el_open e")
    case Nil
    then show ?thesis using less.prems by blast
  next
    case (Cons h hs)
    let ?R = "engine_step we ge key probe_file md"
    have "?R\<^sup>*\<^sup>* e (handlers_close h e)"
    proof (cases "task_done (el_handlers e h)")
      case True
      then have "life_step we ge e (handlers_close h e)" using less.prems Cons by (intro life_step.close_handler) auto
      then show ?thesis by (blast intro: engine_step.life)
    next
      case False
      let ?e = "e\<lparr>el_handlers := (el_handlers e)(h := H_finalized)\<rparr>"
      have "el_handlers e h \<in> {H_starting, H_streaming}"
        using False less.prems(4) Cons by (cases "el_handlers e h") (auto simp: edge_inv_def task_done_def)
      then have "?R e ?e" by (intro engine_step.writer writer_step.finalized)
      moreover have "?R ?e (handlers_close h ?e)" by (intro engine_step.writer writer_step.closed) simp
      moreover have "handlers_close h ?e = handlers_close h e" by (simp add: handlers_close_def)
      ultimately show ?thesis by (metis converse_rtranclp_into_rtranclp r_into_rtranclp)
    qed
    moreover have "edge_inv (handlers_close h e)" using less.prems(4) by (auto simp: edge_inv_def handlers_close_def)
    moreover have "length (el_open (handlers_close h e)) < length (el_open e)"
      by (simp add: Cons handlers_close_def le_imp_less_Suc length_removeAll_less_eq)
    ultimately obtain e' where "?R\<^sup>*\<^sup>* e e'" "el_phase e' = Ph_cleanup (T_grpc # ts)" "el_state e' = el_state e" "\<not> el_accepting e'" "el_open e' = []"
      using less.hyps[of "handlers_close h e"] less.prems by (auto simp: handlers_close_def) (meson rtranclp_trans)
    then show ?thesis by blast
  qed
qed

lemma stop_edge:
  assumes "el_phase e = Ph_cleanup (T_grpc # ts)" and "lc_grpc (el_state e) \<in> {Grpc_disabled, Grpc_owned}" and "edge_inv e"
  shows "\<exists>e'. (engine_step we ge key probe_file md)\<^sup>*\<^sup>* e e' \<and> el_phase e' = Ph_cleanup ts \<and> lc_grpc (el_state e') \<in> {Grpc_disabled, Grpc_terminated}"
proof (cases "lc_grpc (el_state e) = Grpc_disabled")
  case True
  then have "life_step we ge e (e\<lparr>el_phase := Ph_cleanup ts\<rparr>)" using assms by (intro life_step.no_grpc)
  then show ?thesis using True by (intro exI[of _ "e\<lparr>el_phase := Ph_cleanup ts\<rparr>"]) (auto intro: engine_step.life)
next
  case False
  let ?R = "engine_step we ge key probe_file md"
  let ?a = "e\<lparr>el_state := (el_state e)\<lparr>lc_grpc := Grpc_stopping\<rparr>\<rparr>"
  let ?b = "?a\<lparr>el_accepting := False\<rparr>"
  have "?R e ?a" using assms False by (intro engine_step.life life_step.stop_grpc) auto
  moreover have "?R ?a ?b" using assms by (intro engine_step.life life_step.server_stopped) simp_all
  moreover obtain c where c: "?R\<^sup>*\<^sup>* ?b c" "el_phase c = Ph_cleanup (T_grpc # ts)" "el_state c = el_state ?b" "\<not> el_accepting c" "el_open c = []"
    using close_handlers[of ?b ts we ge key probe_file md] assms by (auto simp: edge_inv_def)
  moreover have "?R c (c\<lparr>el_phase := Ph_cleanup ts, el_state := (el_state c)\<lparr>lc_grpc := Grpc_terminated\<rparr>\<rparr>)"
    using c by (intro engine_step.life life_step.grpc_stopped) simp_all
  ultimately have "?R\<^sup>*\<^sup>* e (c\<lparr>el_phase := Ph_cleanup ts, el_state := (el_state c)\<lparr>lc_grpc := Grpc_terminated\<rparr>\<rparr>)"
    by (meson converse_rtranclp_into_rtranclp rtranclp.rtrancl_into_rtrancl)
  then show ?thesis
    by (intro exI[of _ "c\<lparr>el_phase := Ph_cleanup ts, el_state := (el_state c)\<lparr>lc_grpc := Grpc_terminated\<rparr>\<rparr>"] conjI) simp_all
qed

lemma stop_loop:
  assumes "lc_webhook_task (el_state e) = Some pc"
  shows "\<exists>e'. (engine_step we ge key probe_file md)\<^sup>*\<^sup>* e e' \<and> el_phase e' = el_phase e \<and> lc_webhook_task (el_state e') = Some Loop_ended \<and>
    lc_grpc (el_state e') = lc_grpc (el_state e)"
proof (cases "pc = Loop_ended")
  case False
  let ?R = "engine_step we ge key probe_file md"
  obtain pc' stop where c: "delivery_cancel (el_stop e) (lc_inflight (el_state e)) pc = (pc', stop)" by fastforce
  let ?a = "e\<lparr>el_state := (el_state e)\<lparr>lc_webhook_task := Some pc'\<rparr>, el_stop := stop\<rparr>"
  have a: "?R e ?a" using assms False c by (intro engine_step.writer writer_step.cancel) auto
  have "pc' = Loop_ended \<or> pc' = Loop_finish \<and> lc_inflight (el_state e) = Some True"
    using c by (auto simp: delivery_cancel_def split: loop_pc.splits if_splits)
  then show ?thesis
  proof
    assume "pc' = Loop_ended"
    then show ?thesis using a by (intro exI[of _ ?a]) auto
  next
    assume f: "pc' = Loop_finish \<and> lc_inflight (el_state e) = Some True"
    let ?b = "?a\<lparr>el_state := (el_state ?a)\<lparr>lc_inflight := Some False\<rparr>\<rparr>"
    let ?c = "?b\<lparr>el_state := (el_state ?b)\<lparr>lc_webhook_task := Some Loop_ended, lc_inflight := Some False\<rparr>\<rparr>"
    have "?R ?a ?b" using f by (intro engine_step.writer writer_step.thread) simp
    moreover have "?R ?b ?c" using f by (intro engine_step.writer writer_step.loop[where pc = Loop_finish]) (simp_all add: delivery_step_def)
    ultimately have "?R\<^sup>*\<^sup>* e ?c" using a by (meson converse_rtranclp_into_rtranclp r_into_rtranclp)
    then show ?thesis by (intro exI[of _ ?c]) simp
  qed
qed (use assms in auto)

lemma stop_delivery:
  assumes "el_phase e = Ph_cleanup (T_webhook_task # ts)"
  shows "\<exists>e'. (engine_step we ge key probe_file md)\<^sup>*\<^sup>* e e' \<and> el_phase e' = Ph_cleanup ts \<and>
    lc_webhook_task (el_state e') \<in> {None, Some Loop_ended} \<and> lc_grpc (el_state e') = lc_grpc (el_state e)"
proof -
  let ?R = "engine_step we ge key probe_file md"
  obtain a where a: "?R\<^sup>*\<^sup>* e a" "el_phase a = el_phase e" "lc_webhook_task (el_state a) \<in> {None, Some Loop_ended}"
    "lc_grpc (el_state a) = lc_grpc (el_state e)"
    using stop_loop[of e _ we ge key probe_file md] by (cases "lc_webhook_task (el_state e)") auto
  have "?R a (a\<lparr>el_phase := Ph_cleanup ts\<rparr>)" using a assms by (intro engine_step.life life_step.webhooks_stopped) auto
  with a show ?thesis by (intro exI[of _ "a\<lparr>el_phase := Ph_cleanup ts\<rparr>"]) auto
qed

lemma stop_models:
  assumes "el_phase e = Ph_cleanup (T_model_service # ts)"
  shows "\<exists>e'. (engine_step we ge key probe_file md)\<^sup>*\<^sup>* e e' \<and> el_phase e' = Ph_cleanup ts \<and> \<not> owns_work (el_service e') \<and> el_state e' = el_state e"
proof -
  let ?R = "engine_step we ge key probe_file md"
  let ?a = "e\<lparr>el_service := shutdown_reap (\<lambda>_. True) (el_service e)\<rparr>"
  have o: "\<not> owns_work (el_service ?a)" by (simp add: owns_work_def reap_all)
  have "?R e ?a" using assms by (intro engine_step.writer writer_step.service service_step.step_reap) simp
  moreover have "?R ?a (?a\<lparr>el_phase := Ph_cleanup ts\<rparr>)" using assms o by (intro engine_step.life life_step.models_stopped) simp_all
  ultimately have "?R\<^sup>*\<^sup>* e (?a\<lparr>el_phase := Ph_cleanup ts\<rparr>)" by (meson converse_rtranclp_into_rtranclp r_into_rtranclp)
  then show ?thesis using o by (intro exI[of _ "?a\<lparr>el_phase := Ph_cleanup ts\<rparr>"]) simp
qed

lemma pass_step:
  assumes "el_phase e = Ph_cleanup (t # ts)" and "t \<notin> {T_grpc, T_webhook_task, T_model_service}"
  shows "engine_step we ge key probe_file md e (e\<lparr>el_phase := Ph_cleanup ts\<rparr>)"
  using assms by (intro engine_step.life life_step.other_step)


section \<open>Waiting through cancellation\<close>

text \<open>
  However often the caller is cancelled, the wait lasts until the task itself has ended, and the
  cancellation is reported exactly when there was one.
\<close>

lemma complete_waits:
  "complete c (replicate n Caller_cancelled) = None"
  "ev \<noteq> Caller_cancelled \<Longrightarrow> complete c (replicate n Caller_cancelled @ ev # evs) = Some (c \<or> 0 < n)"
proof -
  show "complete c (replicate n Caller_cancelled) = None" by (induction n arbitrary: c) simp_all
  show "complete c (replicate n Caller_cancelled @ ev # evs) = Some (c \<or> 0 < n)" if "ev \<noteq> Caller_cancelled"
    using that by (induction n arbitrary: c; cases ev) simp_all
qed

section \<open>An engine at work\<close>

text \<open>A delivery batch runs in its thread and one gRPC call is streaming.\<close>

definition sample_life :: engine_life where
  "sample_life = (life_init empty_service)\<lparr>el_phase := Ph_running, el_owned := True, el_persist := True,
     el_state := lifecycle_init\<lparr>lc_webhook_task := Some Loop_batch, lc_inflight := Some True, lc_grpc := Grpc_owned\<rparr>,
     el_accepting := True, el_open := [0], el_handlers := (\<lambda>_. H_none)(0 := H_streaming)\<rparr>"

lemma sample_life_reached:
  "(engine_step True True (\<lambda>p. p) (\<lambda>p b. invalid_info) ''/models'')\<^sup>*\<^sup>* (life_init empty_service) sample_life"
proof -
  let ?R = "engine_step True True (\<lambda>p. p) (\<lambda>p b. invalid_info) ''/models''"
  let ?e0 = "life_init empty_service"
  let ?e1 = "?e0\<lparr>el_phase := Ph_starting, el_owned := True, el_persist := True\<rparr>"
  let ?e2 = "?e1\<lparr>el_phase := Ph_running\<rparr>"
  let ?e3 = "?e2\<lparr>el_state := (el_state ?e2)\<lparr>lc_webhook_task := Some Loop_top\<rparr>\<rparr>"
  let ?e4 = "?e3\<lparr>el_state := (el_state ?e3)\<lparr>lc_webhook_task := Some Loop_batch, lc_inflight := Some True\<rparr>\<rparr>"
  let ?e5 = "?e4\<lparr>el_state := (el_state ?e4)\<lparr>lc_grpc := Grpc_owned\<rparr>, el_accepting := True\<rparr>"
  let ?e6 = "handlers_open 0 ?e5"
  let ?e7 = "?e6\<lparr>el_handlers := (el_handlers ?e6)(0 := H_streaming)\<rparr>"
  have "?R ?e0 ?e1" by (intro engine_step.life life_step.acquire) (simp add: life_init_def)
  moreover have "?R ?e1 ?e2" by (intro engine_step.life life_step.started_up) simp
  moreover have "?R ?e2 ?e3" by (intro engine_step.life life_step.start_webhooks) (simp_all add: life_init_def lifecycle_init_def)
  moreover have "?R ?e3 ?e4"
    by (intro engine_step.writer writer_step.loop[where pc = Loop_top]) (simp_all add: life_init_def lifecycle_init_def delivery_step_def)
  moreover have "?R ?e4 ?e5" by (intro engine_step.life life_step.start_grpc) (simp_all add: life_init_def lifecycle_init_def)
  moreover have "?R ?e5 ?e6" by (intro engine_step.writer writer_step.call) (simp_all add: life_init_def)
  moreover have "?R ?e6 ?e7" by (intro engine_step.writer writer_step.started) (simp add: handlers_open_def)
  ultimately have "?R\<^sup>*\<^sup>* ?e0 ?e7" by (meson converse_rtranclp_into_rtranclp rtranclp.rtrancl_refl)
  moreover have "?e7 = sample_life" by (simp add: sample_life_def handlers_open_def life_init_def lifecycle_init_def)
  ultimately show ?thesis by simp
qed

theorem store_released_only_when_quiet_witness: "store_in_use sample_life \<and> el_owned sample_life \<and> el_persist sample_life"
  using store_released_only_when_quiet[OF sample_life_reached] by (simp add: empty_service_def sample_life_def store_in_use_def)


end
