(* ===== verification/Edge.thy ===== *)
theory Edge
  imports Dialects Route_Metrics Token_Stream
begin

text \<open>
  The response side of the API edge: the error envelopes and exception handlers
  (\<open>engine/api/errors.py\<close>), the streamed responses of the two dialects (\<open>_sse\<close> of
  \<open>engine/api/openai_router.py\<close> and \<open>engine/api/anthropic_router.py\<close>), readiness
  (\<open>engine/api/health.py\<close>) and the translation at the gRPC edge (\<open>engine/grpc/server.py\<close>).

  Payloads are the values that are then printed as JSON; the printing itself and the progress
  events of the live feed are not modelled.
\<close>

section \<open>Error envelopes\<close>

datatype error_body =
    OpenAI_body string string "string option" "string option"
  | Anthropic_body string string

record edge_response =
  eg_status :: int
  eg_body :: error_body
  eg_headers :: "headers option"

definition openai_error_response :: "string \<Rightarrow> int \<Rightarrow> string \<Rightarrow> string option \<Rightarrow> string option \<Rightarrow> headers option \<Rightarrow> edge_response" where
  "openai_error_response msg st ty param co hs = \<lparr>eg_status = st, eg_body = OpenAI_body msg ty param co, eg_headers = hs\<rparr>"

definition anthropic_error_response :: "string \<Rightarrow> int \<Rightarrow> string \<Rightarrow> headers option \<Rightarrow> edge_response" where
  "anthropic_error_response msg st ty hs = \<lparr>eg_status = st, eg_body = Anthropic_body ty msg, eg_headers = hs\<rparr>"

text \<open>\<open>dict(headers or {})\<close> and \<open>setdefault\<close>; without a correlation id the headers are passed on.\<close>

definition with_request_id :: "string option \<Rightarrow> headers option \<Rightarrow> headers option" where
  "with_request_id request_id hs =
     (case request_id of
        None \<Rightarrow> hs
      | Some rid \<Rightarrow>
          let merged = (case hs of None \<Rightarrow> [] | Some h \<Rightarrow> h)
          in Some (if map_of merged ''x-request-id'' = None then merged @ [(''x-request-id'', rid)] else merged))"

text \<open>The exceptions that reach a handler; a validation error is the location and message of its first entry.\<close>

datatype edge_exc =
    AnthropicExc string int string "headers option"
  | OpenAIExc string int string "string option" "string option" "headers option"
  | ValidationExc "(string list \<times> string) list"
  | NotReady string
  | FeatureUnsupported "string list"
  | BackendBusy string
  | GenFailed string

definition or_text :: "string \<Rightarrow> string \<Rightarrow> string" where
  "or_text s d = (if s = [] then d else s)"

text \<open>\<open>'.'.join(str(p) for p in loc[1:]) or None\<close>, of the first error's location.\<close>

definition validation_param :: "(string list \<times> string) list \<Rightarrow> string option" where
  "validation_param errors =
     (let loc = (case errors of [] \<Rightarrow> [] | (l, _) # _ \<Rightarrow> l); s = join ''.'' (drop 1 loc) in if s = [] then None else Some s)"

definition validation_detail :: "(string list \<times> string) list \<Rightarrow> string" where
  "validation_detail errors =
     (let msg = (case errors of [] \<Rightarrow> ''invalid request'' | (_, m) # _ \<Rightarrow> m)
      in case validation_param errors of None \<Rightarrow> msg | Some p \<Rightarrow> p @ '': '' @ msg)"

definition feature_detail :: "string list \<Rightarrow> string" where
  "feature_detail features =
     (if ''structured_output'' \<in> set features
      then ''structured output (response_format json) is not supported by any engine serving this model''
      else ''required feature(s) '' @ join '', '' (sort features) @ '' not supported by any engine serving this model'')"

definition messages_path :: "string \<Rightarrow> bool" where
  "messages_path p = startswith p ''/v1/messages''"

text \<open>What every handler answers: \<open>ant\<close> in the Anthropic dialect, \<open>oai\<close> otherwise.\<close>

definition in_dialect :: "string \<Rightarrow> edge_response \<Rightarrow> edge_response \<Rightarrow> edge_response" where
  "in_dialect path ant oai = (if messages_path path then ant else oai)"

fun handle_exception :: "string \<Rightarrow> string option \<Rightarrow> edge_exc \<Rightarrow> edge_response" where
  "handle_exception path rid (AnthropicExc msg st ty hs) = anthropic_error_response msg st ty (with_request_id rid hs)"
| "handle_exception path rid (OpenAIExc msg st ty param co hs) = openai_error_response msg st ty param co (with_request_id rid hs)"
| "handle_exception path rid (ValidationExc errors) =
     in_dialect path (anthropic_error_response (validation_detail errors) 400 ''invalid_request_error'' (with_request_id rid None))
       (openai_error_response (validation_detail errors) 400 ''invalid_request_error'' (validation_param errors) None (with_request_id rid None))"
| "handle_exception path rid (NotReady msg) =
     in_dialect path (anthropic_error_response (or_text msg ''no model is loaded'') 503 ''api_error'' (with_request_id rid None))
       (openai_error_response (or_text msg ''no model is loaded'') 503 ''service_unavailable'' None (Some ''model_not_loaded'') (with_request_id rid None))"
| "handle_exception path rid (FeatureUnsupported features) =
     in_dialect path (anthropic_error_response (feature_detail features) 400 ''invalid_request_error'' (with_request_id rid None))
       (openai_error_response (feature_detail features) 400 ''invalid_request_error''
          (if ''structured_output'' \<in> set features then Some ''response_format'' else None)
          (Some (if ''structured_output'' \<in> set features then ''structured_output_unsupported'' else ''feature_unsupported''))
          (with_request_id rid None))"
| "handle_exception path rid (BackendBusy msg) =
     in_dialect path (anthropic_error_response (or_text msg ''the model is busy'') 503 ''api_error'' (with_request_id rid None))
       (openai_error_response (or_text msg ''the model is busy'') 503 ''service_unavailable'' None (Some ''model_busy'') (with_request_id rid None))"
| "handle_exception path rid (GenFailed msg) =
     in_dialect path (anthropic_error_response (or_text msg ''generation failed'') 500 ''api_error'' (with_request_id rid None))
       (openai_error_response (or_text msg ''generation failed'') 500 ''server_error'' None None (with_request_id rid None))"

text \<open>The log record of an error: category, stage, status, and whether it is an error or a warning.\<close>

record error_log =
  eo_category :: error_category
  eo_stage :: string
  eo_status :: int
  eo_is_error :: bool

definition log_request_error :: "error_category \<Rightarrow> string \<Rightarrow> int \<Rightarrow> error_log" where
  "log_request_error cat stage st = \<lparr>eo_category = cat, eo_stage = stage, eo_status = st, eo_is_error = (500 \<le> st)\<rparr>"

fun log_of_exception :: "edge_exc \<Rightarrow> error_log" where
  "log_of_exception (AnthropicExc msg st ty hs) = log_request_error (classify (Some OtherExc) (Some st) None) ''edge'' st"
| "log_of_exception (OpenAIExc msg st ty param co hs) = log_request_error (classify (Some OtherExc) (Some st) co) ''edge'' st"
| "log_of_exception (ValidationExc errors) = log_request_error VALIDATION ''validation'' 400"
| "log_of_exception (NotReady msg) = log_request_error MODEL ''backend'' 503"
| "log_of_exception (FeatureUnsupported features) = log_request_error VALIDATION ''backend'' 400"
| "log_of_exception (BackendBusy msg) = log_request_error BACKEND ''backend'' 503"
| "log_of_exception (GenFailed msg) = log_request_error BACKEND ''generation'' 500"

section \<open>Streamed responses\<close>

text \<open>
  An asynchronous generator with one \<open>finally\<close> clause: at each \<open>yield\<close> the consumer may stop it
  (the client disconnected), and either way the clause runs once. The values at the yields and
  at the return are the \<open>error\<close> the clause passes to \<open>finish_generation\<close>.
\<close>

datatype 'f frame_gen = Emit 'f bool "'f frame_gen" | Return bool

text \<open>
  \<open>run n g\<close>: what a consumer that stops after \<open>n\<close> frames received, and the error the request was
  finished with. A generator that is closed before its first frame was asked for has not entered
  its body, so that its \<open>finally\<close> clause does not run (\<open>None\<close>).
\<close>

fun run_on :: "nat \<Rightarrow> 'f frame_gen \<Rightarrow> 'f list \<times> bool" where
  "run_on n (Return e) = ([], e)"
| "run_on n (Emit f e g) = (if n \<le> 1 then ([f], e) else case run_on (n - 1) g of (fs, e') \<Rightarrow> (f # fs, e'))"

definition run :: "nat \<Rightarrow> 'f frame_gen \<Rightarrow> 'f list \<times> bool option" where
  "run n g = (if n = 0 then ([], None) else case run_on n g of (fs, e) \<Rightarrow> (fs, Some e))"

fun frames :: "'f frame_gen \<Rightarrow> 'f list" where
  "frames (Return e) = []"
| "frames (Emit f e g) = f # frames g"

fun gen_error :: "'f frame_gen \<Rightarrow> bool" where
  "gen_error (Return e) = e"
| "gen_error (Emit f e g) = gen_error g"

text \<open>How the token stream ends: with its result, if it has one, or with an exception.\<close>

datatype stream_ending = Ended "gen_result option" | Raised

fun openai_finish :: "finish_reason \<Rightarrow> string" where
  "openai_finish LENGTH = ''length''"
| "openai_finish _ = ''stop''"

fun anthropic_stop :: "finish_reason \<Rightarrow> string" where
  "anthropic_stop LENGTH = ''max_tokens''"
| "anthropic_stop _ = ''end_turn''"

datatype openai_frame = Role_chunk | Content_chunk string | Finish_chunk string | Error_chunk | Done_marker

fun openai_tokens :: "string list \<Rightarrow> stream_ending \<Rightarrow> openai_frame frame_gen" where
  "openai_tokens (t # ts) en = Emit (Content_chunk t) False (openai_tokens ts en)"
| "openai_tokens [] (Ended res) =
     Emit (Finish_chunk (case res of None \<Rightarrow> ''stop'' | Some r \<Rightarrow> openai_finish (gr_finish r))) False (Emit Done_marker False (Return False))"
| "openai_tokens [] Raised = Emit Error_chunk True (Emit Done_marker True (Return True))"

definition openai_sse :: "string list \<Rightarrow> stream_ending \<Rightarrow> openai_frame frame_gen" where
  "openai_sse ts en = Emit Role_chunk False (openai_tokens ts en)"

datatype anthropic_frame =
    Message_start nat | Block_start | Ping | Block_delta string | Block_stop | Message_delta string nat | Message_stop | Error_event

fun anthropic_tokens :: "nat \<Rightarrow> string list \<Rightarrow> stream_ending \<Rightarrow> anthropic_frame frame_gen" where
  "anthropic_tokens emitted (t # ts) en = Emit (Block_delta t) False (anthropic_tokens (Suc emitted) ts en)"
| "anthropic_tokens emitted [] (Ended res) =
     Emit Block_stop False (Emit (Message_delta (case res of None \<Rightarrow> ''end_turn'' | Some r \<Rightarrow> anthropic_stop (gr_finish r))
       (case res of None \<Rightarrow> emitted | Some r \<Rightarrow> gr_completion_tokens r)) False (Emit Message_stop False (Return False)))"
| "anthropic_tokens emitted [] Raised = Emit Error_event True (Return True)"

definition anthropic_sse :: "nat \<Rightarrow> string list \<Rightarrow> stream_ending \<Rightarrow> anthropic_frame frame_gen" where
  "anthropic_sse input_tokens ts en =
     Emit (Message_start input_tokens) False (Emit Block_start False (Emit Ping False (anthropic_tokens 0 ts en)))"

text \<open>What a client reads from the frames.\<close>

fun openai_text :: "openai_frame \<Rightarrow> string" where
  "openai_text (Content_chunk t) = t"
| "openai_text _ = []"

fun anthropic_text :: "anthropic_frame \<Rightarrow> string" where
  "anthropic_text (Block_delta t) = t"
| "anthropic_text _ = []"

section \<open>Readiness\<close>

record readiness =
  rd_ready :: bool
  rd_checks :: "(string \<times> string) list"
  rd_available :: bool
  rd_model_id :: "string option"

text \<open>\<open>db\<close> is \<open>None\<close> when the probe succeeds and the name of the exception's class otherwise.\<close>

definition readiness_state :: "string option \<Rightarrow> bool \<Rightarrow> registry option \<Rightarrow> backend option \<Rightarrow> bool \<Rightarrow> bool \<Rightarrow> readiness" where
  "readiness_state db migrations_ready reg primary require_model_ready draining =
     (let rep = Option.bind reg representative;
          model_loaded = (rep \<noteq> None \<or> (case primary of None \<Rightarrow> False | Some b \<Rightarrow> ba_state b \<in> set READYISH));
          ready_backend = (if rep \<noteq> None then rep else primary)
      in \<lparr>rd_ready = (db = None \<and> migrations_ready \<and> \<not> (require_model_ready \<and> \<not> model_loaded) \<and> \<not> draining),
          rd_checks = [(''database'', case db of None \<Rightarrow> ''ok'' | Some e \<Rightarrow> ''error: '' @ e)] @
            [(''migrations'', if migrations_ready then ''applied'' else ''pending'')] @
            (if require_model_ready \<and> \<not> model_loaded then [(''inference'', ''model not ready'')] else []) @
            (if draining then [(''intake'', ''draining'')] else []),
          rd_available = model_loaded,
          rd_model_id = (if model_loaded then map_option (\<lambda>b. cap_model_id (ba_capabilities b)) ready_backend else None)\<rparr>)"

definition readyz_status :: "readiness \<Rightarrow> nat" where
  "readyz_status r = (if rd_ready r then 200 else 503)"

section \<open>The gRPC edge\<close>

definition grpc_code :: "int \<Rightarrow> string" where
  "grpc_code st =
     (case map_of [(400, ''INVALID_ARGUMENT''), (401, ''UNAUTHENTICATED''), (403, ''PERMISSION_DENIED''), (404, ''NOT_FOUND''),
        (413, ''RESOURCE_EXHAUSTED''), (429, ''RESOURCE_EXHAUSTED''), (503, ''UNAVAILABLE'')] st of
        Some c \<Rightarrow> c | None \<Rightarrow> ''INTERNAL'')"

definition token_from_metadata :: "(string \<rightharpoonup> string) \<Rightarrow> string option" where
  "token_from_metadata md =
     (let x = (case md ''x-api-key'' of None \<Rightarrow> None | Some k \<Rightarrow> if k = [] then None else Some (strip k))
      in case md ''authorization'' of
           None \<Rightarrow> x
         | Some auth \<Rightarrow> if auth \<noteq> [] \<and> startswith (lower auth) ''bearer '' then Some (strip (drop (length ''bearer '') auth)) else x)"

record proto_request =
  pr_model :: string
  pr_prompt :: string
  pr_messages :: "message list"
  pr_max_tokens :: int
  pr_temperature :: real
  pr_top_p :: real
  pr_top_k :: int
  pr_stop :: "string list"

definition grpc_build_request :: "string \<Rightarrow> proto_request \<Rightarrow> gen_request \<times> string" where
  "grpc_build_request request_id q =
     (let common = default_request\<lparr>gq_request_id := request_id,
            gq_max_tokens := (if pr_max_tokens q > 0 then Some (pr_max_tokens q) else None),
            gq_temperature := (if pr_temperature q > 0 then pr_temperature q else 4 / 5),
            gq_top_p := (if pr_top_p q > 0 then pr_top_p q else 19 / 20),
            gq_top_k := (if pr_top_k q > 0 then pr_top_k q else 40), gq_stop := pr_stop q\<rparr>
      in if pr_messages q \<noteq> [] then (common\<lparr>gq_messages := Some (pr_messages q)\<rparr>, join newline (map ms_content (pr_messages q)))
         else (common\<lparr>gq_prompt := Some (pr_prompt q)\<rparr>, pr_prompt q))"

text \<open>
  \<open>_drain_and_finish\<close>: what closing the stream and \<open>finish_generation\<close> bring about. The list is the
  calls of \<open>finish_generation\<close> that were made.
\<close>

datatype close_outcome = Close_ok | Close_failed | Close_interrupted

datatype drain_outcome = Drained | Finish_raised | Interrupted

definition drain_and_finish :: "close_outcome \<Rightarrow> bool \<Rightarrow> bool \<Rightarrow> drain_outcome \<times> bool list" where
  "drain_and_finish closing finish_fails err =
     (case closing of
        Close_interrupted \<Rightarrow> (Interrupted, [err])
      | _ \<Rightarrow> (if finish_fails then Finish_raised else Drained, [err]))"

datatype grpc_frame = Text_chunk string | Final_chunk string nat nat

datatype grpc_end = Grpc_returned | Grpc_aborted string

fun grpc_stream :: "string list \<Rightarrow> stream_ending \<Rightarrow> grpc_frame frame_gen \<times> grpc_end" where
  "grpc_stream (t # ts) en = (case grpc_stream ts en of (g, e) \<Rightarrow> (Emit (Text_chunk t) False g, e))"
| "grpc_stream [] Raised = (Return True, Grpc_aborted ''INTERNAL'')"
| "grpc_stream [] (Ended res) =
     (Emit (Final_chunk (case res of None \<Rightarrow> ''stop'' | Some r \<Rightarrow> (case gr_finish r of STOP \<Rightarrow> ''stop'' | LENGTH \<Rightarrow> ''length''
          | CANCELLED_REASON \<Rightarrow> ''cancelled'' | ERROR_REASON \<Rightarrow> ''error''))
        (case res of None \<Rightarrow> 0 | Some r \<Rightarrow> gr_prompt_tokens r) (case res of None \<Rightarrow> 0 | Some r \<Rightarrow> gr_completion_tokens r)) False (Return False), Grpc_returned)"

section \<open>What a client receives\<close>

lemma run_on_frames: "0 < n \<Longrightarrow> fst (run_on n g) = take n (frames g)"
proof (induction n g rule: run_on.induct)
  case (2 n f e g)
  then show ?case by (cases n) (auto split: prod.splits)
qed simp

lemma run_frames: "0 < n \<Longrightarrow> run n g = (take n (frames g), Some (snd (run_on n g)))"
  using run_on_frames[of n g] by (cases "run_on n g") (simp add: run_def)

lemma openai_frames:
  "frames (openai_tokens ts en) = map Content_chunk ts @
     (case en of Raised \<Rightarrow> [Error_chunk, Done_marker]
      | Ended res \<Rightarrow> [Finish_chunk (case res of None \<Rightarrow> ''stop'' | Some r \<Rightarrow> openai_finish (gr_finish r)), Done_marker])"
  by (induction ts en rule: openai_tokens.induct) simp_all

lemma anthropic_frames:
  "frames (anthropic_tokens k ts en) = map Block_delta ts @
     (case en of Raised \<Rightarrow> [Error_event]
      | Ended res \<Rightarrow> [Block_stop, Message_delta (case res of None \<Rightarrow> ''end_turn'' | Some r \<Rightarrow> anthropic_stop (gr_finish r))
          (case res of None \<Rightarrow> k + length ts | Some r \<Rightarrow> gr_completion_tokens r), Message_stop])"
  by (induction k ts en rule: anthropic_tokens.induct) (simp_all split: stream_ending.split option.split)

lemma openai_text_content: "map openai_text (map Content_chunk ts) = ts" "map anthropic_text (map Block_delta ts) = ts"
  by (induction ts) simp_all

text \<open>The error a request is finished with is the one the client was told of.\<close>

lemma openai_error_sent: "0 < n \<Longrightarrow> snd (run_on n (openai_tokens ts en)) \<longleftrightarrow> Error_chunk \<in> set (take n (frames (openai_tokens ts en)))"
proof (induction ts en arbitrary: n rule: openai_tokens.induct)
  case (1 t ts en)
  show ?case using 1(1)[of "n - 1"] 1(2) by (cases n) (auto split: prod.splits)
next
  case (2 res)
  then show ?case by (cases n; cases "n - 1") (auto split: prod.splits)
next
  case 3
  then show ?case by (cases n; cases "n - 1") (auto split: prod.splits)
qed

lemma anthropic_error_sent:
  "0 < n \<Longrightarrow> snd (run_on n (anthropic_tokens k ts en)) \<longleftrightarrow> Error_event \<in> set (take n (frames (anthropic_tokens k ts en)))"
proof (induction k ts en arbitrary: n rule: anthropic_tokens.induct)
  case (1 k t ts en)
  show ?case using 1(1)[of "n - 1"] 1(2) by (cases n) (auto split: prod.splits)
next
  case (2 k res)
  then show ?case by (cases n; cases "n - 1"; cases "n - 2") (auto split: prod.splits)
next
  case (3 k)
  then show ?case by (cases n) auto
qed

lemma sse_error_sent:
  assumes "0 < n"
  shows "snd (run_on n (openai_sse ts en)) \<longleftrightarrow> Error_chunk \<in> set (take n (frames (openai_sse ts en)))"
    and "snd (run_on n (anthropic_sse k ts en)) \<longleftrightarrow> Error_event \<in> set (take n (frames (anthropic_sse k ts en)))"
proof -
  obtain m where n: "n = Suc m" using assms by (cases n) auto
  show "snd (run_on n (openai_sse ts en)) \<longleftrightarrow> Error_chunk \<in> set (take n (frames (openai_sse ts en)))"
    using openai_error_sent[of m ts en] by (auto simp: n openai_sse_def split: prod.splits)
  show "snd (run_on n (anthropic_sse k ts en)) \<longleftrightarrow> Error_event \<in> set (take n (frames (anthropic_sse k ts en)))"
    using anthropic_error_sent[of "m - 2" 0 ts en] unfolding n anthropic_sse_def
    by (cases m; cases "m - 1"; cases "m - 2") (auto split: prod.splits)
qed



text \<open>
  A response that is dropped before its first frame is asked for (the client is gone when the
  headers are sent) does not enter the generator: nothing finishes the request, and what it holds
  stays held.
\<close>

lemma unstarted_stream_never_finishes: "run 0 (openai_sse ts en) = ([], None)" "run 0 (anthropic_sse k ts en) = ([], None)"
  by (simp_all add: run_def)

section \<open>Errors reach the caller\<close>

lemma with_request_id_present:
  "\<exists>h. with_request_id (Some rid) hs = Some h \<and>
     map_of h ''x-request-id'' = Some (case Option.bind hs (\<lambda>h. map_of h ''x-request-id'') of None \<Rightarrow> rid | Some x \<Rightarrow> x)"
  by (cases hs) (auto simp: with_request_id_def Let_def map_add_def split: option.splits)

text \<open>
  Every error answer carries the correlation id, keeps the status of the exception it stands for,
  and is in the dialect of the route, unless the exception itself fixes another one: an error of
  the gateway (authentication, quotas) is in the OpenAI envelope on every route.
\<close>

fun fixed_status :: "edge_exc \<Rightarrow> int" where
  "fixed_status (AnthropicExc msg st ty hs) = st"
| "fixed_status (OpenAIExc msg st ty param co hs) = st"
| "fixed_status (ValidationExc errors) = 400"
| "fixed_status (NotReady msg) = 503"
| "fixed_status (FeatureUnsupported features) = 400"
| "fixed_status (BackendBusy msg) = 503"
| "fixed_status (GenFailed msg) = 500"

lemma error_answers:
  "eg_status (handle_exception path rid x) = fixed_status x" "eo_status (log_of_exception x) = fixed_status x"
  "\<exists>h. eg_headers (handle_exception path (Some i) x) = Some h \<and> map_of h ''x-request-id'' \<noteq> None"
proof -
  show "eg_status (handle_exception path rid x) = fixed_status x"
    by (cases x) (simp_all add: in_dialect_def openai_error_response_def anthropic_error_response_def)
  show "eo_status (log_of_exception x) = fixed_status x" by (cases x) (simp_all add: log_request_error_def)
  show "\<exists>h. eg_headers (handle_exception path (Some i) x) = Some h \<and> map_of h ''x-request-id'' \<noteq> None"
    using with_request_id_present[of i]
    by (cases x) (simp_all add: in_dialect_def openai_error_response_def anthropic_error_response_def, (metis option.distinct(1))+)
qed

lemma error_dialect:
  "(\<exists>ty msg. eg_body (handle_exception path rid x) = Anthropic_body ty msg) \<longleftrightarrow>
     (case x of AnthropicExc _ _ _ _ \<Rightarrow> True | OpenAIExc _ _ _ _ _ _ \<Rightarrow> False | _ \<Rightarrow> messages_path path)"
  by (cases x) (simp_all add: in_dialect_def openai_error_response_def anthropic_error_response_def)

text \<open>The answer to a request without a key on the Anthropic route is in the OpenAI envelope.\<close>

lemma messages_auth_errors_openai_shaped:
  "\<exists>msg ty param co. eg_body (handle_exception ''/v1/messages'' rid (OpenAIExc ''m'' 401 ''invalid_request_error'' None (Some ''missing_api_key'') hs))
     = OpenAI_body msg ty param co"
  by (simp add: openai_error_response_def)

section \<open>Readiness and gRPC\<close>

text \<open>The service is ready exactly when its database answers, its migrations are applied, intake is open, and a model is loaded if one is required.\<close>

lemma readiness_exact:
  "rd_ready (readiness_state db mig reg prim req dr) \<longleftrightarrow> db = None \<and> mig \<and> \<not> dr \<and> (req \<longrightarrow> rd_available (readiness_state db mig reg prim req dr))"
  "rd_available (readiness_state db mig reg prim req dr) \<longleftrightarrow>
     Option.bind reg representative \<noteq> None \<or> (\<exists>b. prim = Some b \<and> ba_state b \<in> set READYISH)"
  unfolding readiness_state_def Let_def by auto (cases prim; simp)

text \<open>A caller is identified on the gRPC edge exactly as on the HTTP edges.\<close>

lemma grpc_token_agrees: "token_from_metadata md = extract_token md"
  by (simp add: numeral_eq_Suc token_from_metadata_def extract_token_def Let_def split: option.split)

text \<open>A request is finished exactly once, also when closing its stream is interrupted.\<close>

lemma drain_finishes_once: "snd (drain_and_finish closing fails err) = [err]"
  by (cases closing) (simp_all add: drain_and_finish_def)

lemma grpc_stream_text:
  "\<exists>fs. frames (fst (grpc_stream ts en)) = map Text_chunk ts @ fs \<and> (fs = [] \<longleftrightarrow> en = Raised) \<and> gen_error (fst (grpc_stream ts en)) = (en = Raised)"
  by (induction ts en rule: grpc_stream.induct) (auto split: prod.splits)

end
