(* ===== verification/Client_Api.thy ===== *)
theory Client_Api
  imports Gateway Router
begin

text \<open>
  The client-scoped account surface (\<open>engine/api/client_router.py\<close>): the resolution of the caller
  from its key and the read-only views of its account, plan, usage, services and events. The event
  stream itself is the subject of \<open>Client_Events\<close>.
\<close>

section \<open>The isolation boundary\<close>

record client_ctx =
  cx_client_id :: string
  cx_key_id :: string

definition stream_token :: "(string \<rightharpoonup> string) \<Rightarrow> (string \<rightharpoonup> string) \<Rightarrow> string option" where
  "stream_token query_params request_headers =
     (case (case query_params ''api_key'' of Some (c # cs) \<Rightarrow> Some (c # cs) | _ \<Rightarrow> query_params ''token'') of
        Some (c # cs) \<Rightarrow> Some (strip (c # cs))
      | _ \<Rightarrow> extract_token request_headers)"

definition resolve_client ::
  "string option \<Rightarrow> (string \<Rightarrow> string) \<Rightarrow> iso_time \<Rightarrow> string option \<Rightarrow> db \<Rightarrow> (openai_error, client_ctx) result \<times> db" where
  "resolve_client default_plan hash now token s =
     (case token of
        None \<Rightarrow> (Inl (api_error 401 ''invalid_request_error'' ''missing_api_key'' []), s)
      | Some t \<Rightarrow>
          if t = [] then (Inl (api_error 401 ''invalid_request_error'' ''missing_api_key'' []), s)
          else case key_verify hash t now s of
              (None, s') \<Rightarrow> (Inl (api_error 401 ''invalid_request_error'' ''invalid_api_key'' []), s')
            | (Some rec, s') \<Rightarrow>
                let access = key_access default_plan (k_id rec) s'
                in if ka_status access = STATUS_REVOKED then (Inl (api_error 403 ''invalid_request_error'' ''key_revoked'' []), s')
                   else if ka_status access \<noteq> STATUS_ACTIVE then (Inl (api_error 403 ''invalid_request_error'' ''key_suspended'' []), s')
                   else (case client_id_for_key (k_id rec) s' of
                       None \<Rightarrow> (Inl (api_error 403 ''invalid_request_error'' ''not_a_client_key'' []), s')
                     | Some cid \<Rightarrow> (Inr \<lparr>cx_client_id = cid, cx_key_id = k_id rec\<rparr>, s')))"

section \<open>Views\<close>

record window_info =
  wi_used_cu :: real
  wi_limit_cu :: real
  wi_remaining_cu :: "pyfloat option"
  wi_reset_at :: time

definition window_info_of :: "window_usage \<Rightarrow> window_info" where
  "window_info_of w = \<lparr>wi_used_cu = w_used w, wi_limit_cu = w_limit w, wi_remaining_cu = (if w_limit w \<le> 0 then None else Some (remaining w)),
     wi_reset_at = w_reset_at w\<rparr>"

definition plan_summary :: "string option \<Rightarrow> db \<Rightarrow> plan option" where
  "plan_summary plan_id s = Option.bind plan_id (\<lambda>p. get_plan p s)"

datatype client_answer =
    Me string "string option" string "plan option"
  | PlanInfo "plan option" bool
  | UsageInfo string window_info window_info real
  | ServicesInfo "string list" bool
  | EventsPage "client_event_row list" nat
  | StreamFrom string nat

record client_env =
  cn_default_plan :: "string option"
  cn_hash :: "string \<Rightarrow> string"
  cn_now_iso :: iso_time
  cn_now :: time
  cn_headers :: "string \<rightharpoonup> string"
  cn_query :: "string \<rightharpoonup> string"
  cn_quota_5h :: real
  cn_quota_weekly :: real
  cn_models :: "string list"
  cn_structured :: bool
  cn_events_enabled :: bool

definition caller_plan :: "client_env \<Rightarrow> client_ctx \<Rightarrow> db \<Rightarrow> plan option" where
  "caller_plan v x s = plan_summary (map_option e_plan_id (ka_entitlement (key_access (cn_default_plan v) (cx_key_id x) s))) s"

definition get_me :: "client_env \<Rightarrow> client_ctx \<Rightarrow> db \<Rightarrow> (openai_error, client_answer) result" where
  "get_me v x s =
     (case get_client (cx_client_id x) s of
        None \<Rightarrow> Inl (api_error 404 ''invalid_request_error'' ''client_not_found'' [])
      | Some c \<Rightarrow> Inr (Me (c_id c) (c_email c) (c_status c) (caller_plan v x s)))"

definition get_plan_info :: "client_env \<Rightarrow> client_ctx \<Rightarrow> db \<Rightarrow> (openai_error, client_answer) result" where
  "get_plan_info v x s = Inr (PlanInfo (caller_plan v x s) (ka_entitlement (key_access (cn_default_plan v) (cx_key_id x) s) \<noteq> None))"

definition get_usage :: "client_env \<Rightarrow> client_ctx \<Rightarrow> db \<Rightarrow> (openai_error, client_answer) result" where
  "get_usage v x s =
     (let ent = ka_entitlement (key_access (cn_default_plan v) (cx_key_id x) s);
          limit_5h = (case ent of Some e \<Rightarrow> e_quota_5h_cu e | None \<Rightarrow> cn_quota_5h v);
          limit_week = (case ent of Some e \<Rightarrow> e_quota_weekly_cu e | None \<Rightarrow> cn_quota_weekly v)
      in Inr (UsageInfo (cx_key_id x) (window_info_of (usage_5h (cx_key_id x) limit_5h (cn_now v) (usage_events s)))
           (window_info_of (usage_weekly (cx_key_id x) limit_week (cn_now v) (usage_events s)))
           (client_usage_cu (cx_client_id x) (week_start (cn_now v)) s)))"

definition get_services :: "client_env \<Rightarrow> client_ctx \<Rightarrow> db \<Rightarrow> (openai_error, client_answer) result" where
  "get_services v x s =
     Inr (ServicesInfo
       (case Option.bind (ka_entitlement (key_access (cn_default_plan v) (cx_key_id x) s)) e_allowed_models of
          None \<Rightarrow> cn_models v
        | Some allowed \<Rightarrow> filter (\<lambda>n. n \<in> set allowed) (cn_models v)) (cn_structured v))"

definition require_client_events :: "client_env \<Rightarrow> openai_error option" where
  "require_client_events v =
     (if cn_events_enabled v then None else Some (api_error 404 ''invalid_request_error'' ''client_events_disabled'' []))"

definition get_events_page :: "client_env \<Rightarrow> int \<Rightarrow> int \<Rightarrow> client_ctx \<Rightarrow> db \<Rightarrow> (openai_error, client_answer) result" where
  "get_events_page v since lim_rows x s =
     (case require_client_events v of
        Some e \<Rightarrow> Inl e
      | None \<Rightarrow> (case get_events (cx_client_id x) since lim_rows s of (evs, last_id) \<Rightarrow> Inr (EventsPage evs last_id)))"

definition stream_events :: "client_env \<Rightarrow> client_ctx \<Rightarrow> db \<Rightarrow> (openai_error, client_answer) result" where
  "stream_events v x s =
     (case require_client_events v of
        Some e \<Rightarrow> Inl e
      | None \<Rightarrow> Inr (StreamFrom (cx_client_id x) (cursor_of (cn_headers v ''last-event-id'') (cn_query v ''since''))))"

datatype client_call = Get_Me | Get_Plan | Get_Usage | Get_Services | Get_Events int int | Stream_Events

definition caller_token :: "client_env \<Rightarrow> client_call \<Rightarrow> string option" where
  "caller_token v c = (if c = Stream_Events then stream_token (cn_query v) (cn_headers v) else extract_token (cn_headers v))"

fun client_view_of :: "client_env \<Rightarrow> client_call \<Rightarrow> client_ctx \<Rightarrow> db \<Rightarrow> (openai_error, client_answer) result" where
  "client_view_of v Get_Me x s = get_me v x s"
| "client_view_of v Get_Plan x s = get_plan_info v x s"
| "client_view_of v Get_Usage x s = get_usage v x s"
| "client_view_of v Get_Services x s = get_services v x s"
| "client_view_of v (Get_Events since n) x s = get_events_page v since n x s"
| "client_view_of v Stream_Events x s = stream_events v x s"

definition client_endpoint :: "client_env \<Rightarrow> client_call \<Rightarrow> db \<Rightarrow> (openai_error, client_answer) result \<times> db" where
  "client_endpoint v c s =
     (case resolve_client (cn_default_plan v) (cn_hash v) (cn_now_iso v) (caller_token v c) s of
        (Inl e, s') \<Rightarrow> (Inl e, s')
      | (Inr x, s') \<Rightarrow> (client_view_of v c x s', s'))"

section \<open>Isolation\<close>

text \<open>The database as it would be with one client only: the rows of its own, and the plans.\<close>

definition own_key :: "string \<Rightarrow> api_key_row \<Rightarrow> bool" where
  "own_key cid k \<longleftrightarrow> k_client_id k = Some cid"

definition own_usage :: "string \<Rightarrow> db \<Rightarrow> usage_event \<Rightarrow> bool" where
  "own_usage cid s u \<longleftrightarrow> list_ex (\<lambda>k. own_key cid k \<and> u_key_id u = Some (k_id k)) (api_keys s)"

definition only_client :: "string \<Rightarrow> db \<Rightarrow> db" where
  "only_client cid s = s\<lparr>api_keys := filter (own_key cid) (api_keys s), usage_events := filter (own_usage cid s) (usage_events s),
     clients := filter (\<lambda>c. c_id c = cid) (clients s), subscriptions := filter (\<lambda>r. s_client_id r = cid) (subscriptions s),
     webhook_events := [], webhook_endpoints := [], webhook_secrets := [], webhook_deliveries := [],
     client_events := filter (\<lambda>r. ce_client_id r = cid) (client_events s)\<rparr>"

lemma fetchone_filter: "(\<And>r. r \<in> set t \<Longrightarrow> p r \<Longrightarrow> q r) \<Longrightarrow> fetchone p (filter q t) = fetchone p t"
  by (induction t) auto

lemma filter_product_own:
  assumes "\<And>u k. u \<in> set us \<Longrightarrow> k \<in> set ks \<Longrightarrow> P (u, k) \<Longrightarrow> A u \<and> B k"
  shows "filter P (List.product (filter A us) (filter B ks)) = filter P (List.product us ks)"
  using assms
proof (induction us)
  case (Cons u us)
  have row: "filter P (map (Pair u) (filter B ks)) = filter P (map (Pair u) ks)" using Cons.prems[of u] by (induction ks) auto
  have none: "filter P (map (Pair u) ks) = []" if "\<not> A u" using Cons.prems[of u] that by (auto simp: filter_empty_conv)
  show ?case using Cons row none by auto
qed simp

lemma upd_where_filter:
  assumes "\<And>r. q (f r) = q r" shows "upd_where p f (filter q t) = filter q (upd_where p f t)"
  using assms by (induction t) auto

lemma list_ex_upd_where: "(\<And>r. q (f r) = q r) \<Longrightarrow> list_ex q (upd_where p f t) = list_ex q t"
  by (induction t) auto

lemma only_client_touch:
  assumes f: "\<And>r. k_client_id (f r) = k_client_id r" "\<And>r. k_id (f r) = k_id r"
  shows "only_client cid (s\<lparr>api_keys := upd_where p f (api_keys s)\<rparr>) = (only_client cid s)\<lparr>api_keys := upd_where p f (api_keys (only_client cid s))\<rparr>"
proof -
  have u: "own_usage cid (s\<lparr>api_keys := upd_where p f (api_keys s)\<rparr>) = own_usage cid s"
    unfolding fun_eq_iff own_usage_def using f by (simp add: list_ex_upd_where own_key_def)
  have k: "upd_where p f (filter (own_key cid) (api_keys s)) = filter (own_key cid) (upd_where p f (api_keys s))"
    using f by (intro upd_where_filter) (simp add: own_key_def)
  show ?thesis using u k by (simp add: only_client_def)
qed

text \<open>Reads for a key of the client see the same with and without the other clients.\<close>

lemma own_reads:
  assumes wf: "keys_wf (api_keys s)" and k: "row \<in> set (api_keys s)" "own_key cid row"
  shows "key_row (k_id row) (api_keys (only_client cid s)) = key_row (k_id row) (api_keys s)"
    and "key_access dp (k_id row) (only_client cid s) = key_access dp (k_id row) s"
    and "client_id_for_key (k_id row) (only_client cid s) = client_id_for_key (k_id row) s"
    and "sum_cu (k_id row) since (usage_events (only_client cid s)) = sum_cu (k_id row) since (usage_events s)"
proof -
  have own: "own_key cid r" if "r \<in> set (api_keys s)" "k_id r = k_id row" for r
    using wf k that by (auto simp: keys_wf_def unique_on_def distinct_map inj_on_def)
  show kr: "key_row (k_id row) (api_keys (only_client cid s)) = key_row (k_id row) (api_keys s)"
    unfolding key_row_def only_client_def using own by (auto intro!: fetchone_filter)
  have "key_row (k_id row) (api_keys s) = Some row" by (rule key_row_member[OF wf k(1)])
  then have cl: "key_row (k_id row) (api_keys s) = Some row" "k_client_id row = Some cid" using k(2) by (simp_all add: own_key_def)
  have c: "client_row_of cid (clients (only_client cid s)) = client_row_of cid (clients s)"
    unfolding client_row_of_def only_client_def by (auto intro!: fetchone_filter)
  have subs: "filter (\<lambda>r. s_client_id r = cid \<and> s_status r = ''active'') (subscriptions (only_client cid s)) =
      filter (\<lambda>r. s_client_id r = cid \<and> s_status r = ''active'') (subscriptions s)" and plans: "plans (only_client cid s) = plans s"
    by (auto simp: only_client_def intro: filter_cong)
  have e: "entitlement_for_client dp cid (only_client cid s) = entitlement_for_client dp cid s"
    unfolding entitlement_for_client_def subs plans ..
  show "key_access dp (k_id row) (only_client cid s) = key_access dp (k_id row) s"
    unfolding key_access_def kr cl option.simps c e ..
  show "client_id_for_key (k_id row) (only_client cid s) = client_id_for_key (k_id row) s" unfolding client_id_for_key_def kr by simp
  have "filter (\<lambda>u. u_key_id u = Some (k_id row) \<and> u_ts u \<ge> since) (filter (own_usage cid s) (usage_events s)) =
      filter (\<lambda>u. u_key_id u = Some (k_id row) \<and> u_ts u \<ge> since) (usage_events s)"
    unfolding filter_filter by (rule filter_cong) (use k in \<open>auto simp: own_usage_def list_ex_iff\<close>)
  then show "sum_cu (k_id row) since (usage_events (only_client cid s)) = sum_cu (k_id row) since (usage_events s)"
    by (simp add: sum_cu_def only_client_def)
qed

lemma own_client_reads:
  "get_client cid (only_client cid s) = get_client cid s" "get_plan p (only_client cid s) = get_plan p s"
  "list_since cid n lim_rows (only_client cid s) = list_since cid n lim_rows s"
  "client_usage_cu cid since (only_client cid s) = client_usage_cu cid since s"
proof -
  show "get_client cid (only_client cid s) = get_client cid s"
    unfolding get_client_def client_row_of_def only_client_def by (simp add: fetchone_filter)
  show "get_plan p (only_client cid s) = get_plan p s" by (simp add: get_plan_def only_client_def)
  have "filter (\<lambda>r. ce_client_id r = cid \<and> ce_id r > n) (client_events (only_client cid s)) =
      filter (\<lambda>r. ce_client_id r = cid \<and> ce_id r > n) (client_events s)" by (auto simp: only_client_def intro: filter_cong)
  then show "list_since cid n lim_rows (only_client cid s) = list_since cid n lim_rows s" by (simp add: list_since_def)
  show "client_usage_cu cid since (only_client cid s) = client_usage_cu cid since s"
    unfolding client_usage_cu_def only_client_def
    by (simp, subst filter_product_own) (auto simp: own_usage_def own_key_def list_ex_iff)
qed

lemma resolve_client_Inr:
  assumes "resolve_client dp hash now token s = (Inr x, s')"
  obtains t row where "token = Some t" "t \<noteq> []" "row \<in> set (api_keys s)" "fetchone (\<lambda>r. k_hash r = hash t) (api_keys s) = Some row"
    "k_hash row = hash t" "k_revoked_at row = None" "cx_key_id x = k_id row" "client_id_for_key (k_id row) s' = Some (cx_client_id x)"
    "s' = s\<lparr>api_keys := upd_where (\<lambda>r. k_id r = k_id row) (\<lambda>r. r\<lparr>k_last_used_at := Some now\<rparr>) (api_keys s)\<rparr>"
    "ka_status (key_access dp (k_id row) s') = STATUS_ACTIVE"
proof -
  obtain t where t: "token = Some t" "t \<noteq> []" using assms by (auto simp: resolve_client_def split: option.splits if_splits)
  obtain row where row: "fetchone (\<lambda>r. k_hash r = hash t) (api_keys s) = Some row" "k_revoked_at row = None"
    using assms t by (auto simp: resolve_client_def key_verify_def Let_def split: option.splits if_splits)
  have "row \<in> set (api_keys s)" "k_hash row = hash t" using fetchone_Some[OF row(1)] by simp_all
  then show ?thesis using that[OF t _ row(1) _ row(2)] assms t row
    by (auto simp: resolve_client_def key_verify_def Let_def key_record.defs split: option.splits if_splits)
qed

lemma own_after_touch:
  assumes "keys_wf (api_keys s)" and "row \<in> set (api_keys s)"
    and "client_id_for_key (k_id row) (s\<lparr>api_keys := upd_where (\<lambda>r. k_id r = k_id row) (\<lambda>r. r\<lparr>k_last_used_at := z\<rparr>) (api_keys s)\<rparr>) = Some cid"
  shows "own_key cid row"
proof -
  let ?f = "\<lambda>r. r\<lparr>k_last_used_at := z\<rparr>"
  have "key_row (k_id row) (upd_where (\<lambda>r. k_id r = k_id row) ?f t) = map_option ?f (key_row (k_id row) t)" for t :: "api_key_row list"
    unfolding key_row_def by (induction t) auto
  moreover have "key_row (k_id row) (api_keys s) = Some row" by (rule key_row_member[OF assms(1,2)])
  ultimately show ?thesis using assms(3) by (auto simp: client_id_for_key_def own_key_def)
qed

text \<open>A view of the account reads rows of the caller's client only.\<close>

lemma client_view_own:
  assumes "keys_wf (api_keys s)" and "row \<in> set (api_keys s)" and "own_key (cx_client_id x) row" and "cx_key_id x = k_id row"
  shows "client_view_of v c x (only_client (cx_client_id x) s) = client_view_of v c x s"
proof -
  note r = own_reads[OF assms(1-3)]
  have p: "caller_plan v x (only_client (cx_client_id x) s) = caller_plan v x s"
    using own_client_reads(2) by (simp add: caller_plan_def plan_summary_def assms(4) r)
  have g: "get_events (cx_client_id x) since n (only_client (cx_client_id x) s) = get_events (cx_client_id x) since n s" for since n
    unfolding get_events_def own_client_reads ..
  show ?thesis
    by (cases c) (simp_all add: get_me_def get_plan_info_def get_usage_def get_services_def get_events_page_def stream_events_def
        p g assms(4) r own_client_reads usage_5h_def usage_weekly_def Let_def split: option.split)
qed

lemma resolve_own:
  assumes wf: "keys_wf (api_keys s)" and r: "resolve_client dp hash now token s = (Inr x, s')"
  shows "resolve_client dp hash now token (only_client (cx_client_id x) s) = (Inr x, only_client (cx_client_id x) s')"
  using r
proof (cases rule: resolve_client_Inr)
  case (1 t row)
  let ?f = "\<lambda>r. r\<lparr>k_last_used_at := Some now\<rparr>"
  have own: "own_key (cx_client_id x) row" using own_after_touch[OF wf 1(3)] 1(8,9) by simp
  have wf': "keys_wf (api_keys s')" unfolding 1(9) using keys_wf_upd[OF wf] by simp
  have row': "?f row \<in> set (api_keys s')" "own_key (cx_client_id x) (?f row)" using 1(3) own by (auto simp: 1(9) set_upd_where own_key_def)
  note reads = own_reads[OF wf' row', simplified]
  have "fetchone (\<lambda>r. k_hash r = hash t) (api_keys (only_client (cx_client_id x) s)) = Some row"
    unfolding only_client_def using 1(3,4,5) own wf
    by (simp add: fetchone_filter keys_wf_def, subst fetchone_filter) (auto simp: unique_on_def distinct_map inj_on_def)
  moreover have "only_client (cx_client_id x) s' = (only_client (cx_client_id x) s)\<lparr>api_keys := upd_where (\<lambda>r. k_id r = k_id row) ?f (api_keys (only_client (cx_client_id x) s))\<rparr>"
    unfolding 1(9) by (rule only_client_touch) simp_all
  moreover have "ka_status (key_access dp (k_id row) (only_client (cx_client_id x) s')) = STATUS_ACTIVE"
    "client_id_for_key (k_id row) (only_client (cx_client_id x) s') = Some (cx_client_id x)"
    using reads 1(8,10) by simp_all
  moreover have "STATUS_ACTIVE \<noteq> STATUS_REVOKED" by (simp add: STATUS_ACTIVE_def STATUS_REVOKED_def)
  ultimately show ?thesis using 1(1,2,6,7) by (simp add: resolve_client_def key_verify_def key_record.defs)
qed

text \<open>
  C5. Clients are isolated. A caller is resolved to a client only through a key of that client: one
  that is presented by its secret, is not revoked, is active and belongs to it. What the endpoint
  then answers is what it would answer if the rows of no other client existed: accounts,
  subscriptions, keys, usage and events of other clients have no influence on it. A request
  changes nothing but the last-used stamp of the key, and a caller that is not resolved gets
  401 or 403 and no view.
\<close>

theorem client_isolation:
  assumes "keys_wf (api_keys s)"
  shows "case resolve_client (cn_default_plan v) (cn_hash v) (cn_now_iso v) (caller_token v c) s of
      (Inl e, s') \<Rightarrow> client_endpoint v c s = (Inl e, s') \<and> er_status e \<in> {401, 403}
    | (Inr x, s') \<Rightarrow>
        fst (client_endpoint v c (only_client (cx_client_id x) s)) = fst (client_endpoint v c s) \<and>
        (\<exists>t row. caller_token v c = Some t \<and> row \<in> set (api_keys s) \<and> k_hash row = cn_hash v t \<and> k_revoked_at row = None \<and>
           k_id row = cx_key_id x \<and> k_client_id row = Some (cx_client_id x) \<and>
           ka_status (key_access (cn_default_plan v) (k_id row) s') = STATUS_ACTIVE \<and>
           snd (client_endpoint v c s) =
             s\<lparr>api_keys := upd_where (\<lambda>r. k_id r = k_id row) (\<lambda>r. r\<lparr>k_last_used_at := Some (cn_now_iso v)\<rparr>) (api_keys s)\<rparr>)"
proof (cases "resolve_client (cn_default_plan v) (cn_hash v) (cn_now_iso v) (caller_token v c) s")
  case (Pair r s')
  show ?thesis
  proof (cases r)
    case (Inl e)
    then have "er_status e \<in> {401, 403}"
      using Pair by (auto simp: resolve_client_def api_error_def Let_def split: option.splits if_splits prod.splits)
    then show ?thesis using Pair Inl by (simp add: client_endpoint_def)
  next
    case (Inr x)
    have r: "resolve_client (cn_default_plan v) (cn_hash v) (cn_now_iso v) (caller_token v c) s = (Inr x, s')" using Pair Inr by simp
    from r show ?thesis
    proof (cases rule: resolve_client_Inr)
      case (1 t row)
      let ?f = "\<lambda>r. r\<lparr>k_last_used_at := Some (cn_now_iso v)\<rparr>"
      have own: "own_key (cx_client_id x) row" using own_after_touch[OF assms 1(3)] 1(8,9) by simp
      have wf': "keys_wf (api_keys s')" unfolding 1(9) using keys_wf_upd[OF assms] by simp
      have row': "?f row \<in> set (api_keys s')" "own_key (cx_client_id x) (?f row)" using 1(3) own by (auto simp: 1(9) set_upd_where own_key_def)
      have "client_view_of v c x (only_client (cx_client_id x) s') = client_view_of v c x s'"
        using client_view_own[OF wf' row'] 1(7) by simp
      then have "fst (client_endpoint v c (only_client (cx_client_id x) s)) = fst (client_endpoint v c s)"
        using r resolve_own[OF assms r] by (simp add: client_endpoint_def)
      moreover have "snd (client_endpoint v c s) = s'" using r by (simp add: client_endpoint_def)
      ultimately show ?thesis using r 1 own by (auto simp: own_key_def)
    qed
  qed
qed

definition sample_client_db :: db where
  "sample_client_db = empty_db\<lparr>
     api_keys := [\<lparr>k_id = ''k1'', k_prefix = ''p'', k_label = None, k_created_at = ''t'', k_last_used_at = None, k_revoked_at = None,
         k_client_id = Some ''c1'', k_hash = ''s1'', k_status = ''active''\<rparr>,
       \<lparr>k_id = ''k2'', k_prefix = ''p'', k_label = None, k_created_at = ''t'', k_last_used_at = None, k_revoked_at = None,
         k_client_id = Some ''c2'', k_hash = ''s2'', k_status = ''active''\<rparr>],
     clients := [\<lparr>c_id = ''c1'', c_external_ref = None, c_email = None, c_status = ''active'', c_created_at = ''t''\<rparr>,
       \<lparr>c_id = ''c2'', c_external_ref = None, c_email = None, c_status = ''active'', c_created_at = ''t''\<rparr>]\<rparr>"

definition sample_client_env :: client_env where
  "sample_client_env = \<lparr>cn_default_plan = None, cn_hash = (\<lambda>t. t), cn_now_iso = ''now'', cn_now = 0, cn_headers = [''x-api-key'' \<mapsto> ''s1''],
     cn_query = Map.empty, cn_quota_5h = 0, cn_quota_weekly = 0, cn_models = [''m''], cn_structured = True, cn_events_enabled = True\<rparr>"

theorem client_isolation_witness:
  "length (clients sample_client_db) = 2 \<and> length (clients (only_client ''c1'' sample_client_db)) = 1 \<and>
   fst (client_endpoint sample_client_env Get_Me (only_client ''c1'' sample_client_db)) = fst (client_endpoint sample_client_env Get_Me sample_client_db)"
proof -
  have wf: "keys_wf (api_keys sample_client_db)" by (simp add: sample_client_db_def keys_wf_def unique_on_def)
  have st: "strip ''s1'' = ''s1''" by code_simp
  have t: "caller_token sample_client_env Get_Me = Some ''s1''"
    using st by (simp add: caller_token_def sample_client_env_def extract_token_def Let_def)
  obtain s' where "resolve_client None (\<lambda>t. t) ''now'' (Some ''s1'') sample_client_db = (Inr \<lparr>cx_client_id = ''c1'', cx_key_id = ''k1''\<rparr>, s')"
    by (simp add: resolve_client_def key_verify_def key_access_def client_id_for_key_def key_row_def client_row_of_def sample_client_db_def
        key_record.defs STATUS_ACTIVE_def STATUS_REVOKED_def STATUS_SUSPENDED_def STATUS_CANCELED_def Let_def)
  then show ?thesis using client_isolation[OF wf, of sample_client_env Get_Me] t
    by (simp add: sample_client_env_def sample_client_db_def only_client_def)
qed

end
