(* ===== verification/Spec2Isabelle.thy ===== *)
theory Spec2Isabelle
  imports Stripe Gateway Scheduler Router Audit_Log Migrations Model_Service Token_Stream Bench Backup Log_Buffer Serving Operator_Api Lifespan Edge Client_Api
begin

text \<open>
  \<^bold>\<open>Verification library of the inference engine\<close> (\<open>src/engine\<close>).

  The engine serves language models over OpenAI- and Anthropic-compatible HTTP endpoints and gRPC.
  A request is authenticated and charged by the gateway, waits for a permit of the scheduler, is
  placed on a backend by the router over the pool of the backend registry, streams its tokens from
  a worker thread or a remote backend, and is finished: its slots are given back and its usage is
  recorded. Around this path stand the stores (keys, usage, billing, webhooks, client events,
  models, audit) in one SQLite database, the Stripe webhook that drives the billing store, the
  model service that downloads and registers model files, telemetry, and the lifespan that owns the
  store from startup to the end of the shutdown.

  \<^bold>\<open>Conventions.\<close> A table is the list of its rows in insertion order, a statement a function on it;
  \<open>db_error\<close> stands for what SQLite raises, and a statement that fails leaves its table unchanged.
  Stateful code passes its state (a \<open>record\<close>) explicitly; an exception is a value of a sum type, one
  branch per \<open>raise\<close>. Concurrent code is an \<open>inductive\<close> step relation with one step from one
  \<open>await\<close> (or lock) to the next, and its properties hold of all reachable states. Python integers are
  \<open>int\<close> or \<open>nat\<close>; bytes and the lengths read from a file are machine words (\<open>Gguf\<close>). Floats are
  reals, so that rounding is not modelled. Strings are character lists; text read from model files
  is a list of code points. JSON is modelled after it has been read. Hashes, HMAC, random ids,
  the clock, the network, files of the operating system and the parsers of third-party packages
  are arguments; where a property relies on one, what it relies on is a hypothesis of its statement.

  \<^bold>\<open>Theories and the code they model.\<close>
  \<^item> \<open>Prelude\<close>, \<open>PyString\<close>, \<open>Database\<close>: tables and their simplification rules, the interfaces
    \<open>keyed_table\<close> (a table with a unique column) and \<open>slot_pool\<close> (counted slots with a bound), the
    string methods of Python that the code uses, and the tables of \<open>store/\<close>.
  \<^item> \<open>Quota\<close> (\<open>quota/*.py\<close>), \<open>Keys\<close> (\<open>auth/keys.py\<close>), \<open>Billing\<close> (\<open>billing/store.py\<close>), \<open>Stripe\<close>
    (\<open>billing/stripe.py\<close> and its endpoint in \<open>api/billing_router.py\<close>), \<open>Webhooks\<close>
    (\<open>billing/webhooks/*.py\<close>), \<open>Client_Events\<close> (\<open>billing/client_events.py\<close>, the event stream of
    \<open>api/client_router.py\<close>): windows and quotas, keys that stay revoked, keys governed by their
    client's status, authentic and idempotent provider events, bounded delivery attempts, a stream
    that loses no event.
  \<^item> \<open>Gateway\<close> (\<open>gateway.py\<close>): authentication, operator gate, limits, quota check and the access handle;
    authorization fails closed, and the slots of a key are conserved (\<open>slot_pool\<close>).
  \<^item> \<open>Scheduler\<close> (\<open>inference/scheduler.py\<close> on the semaphore of the standard library),
    \<open>Backend_Registry\<close> (\<open>inference/registry.py\<close>), \<open>Router\<close> (\<open>inference/router.py\<close>): first-in
    first-out admission without lost permits under timeouts, cancellation and drain; selection and
    leases of the pool (again a \<open>slot_pool\<close>); cascades over the pool through the interface
    \<open>scoped_acquire\<close>, and the dry run that agrees with placement.
  \<^item> \<open>Serving\<close> (\<open>api/serving.py\<close>): the request lifecycle that composes gateway, scheduler, router,
    registry and telemetry; whatever the interleaving, what requests hold is what the components count.
  \<^item> \<open>Dialects\<close>, \<open>Edge\<close> (\<open>api/schemas\<close>, \<open>api/openai_router.py\<close>, \<open>api/anthropic_router.py\<close>,
    \<open>api/errors.py\<close>, \<open>api/health.py\<close>, \<open>grpc/server.py\<close>): request schemas and their translation, streamed
    responses, error envelopes, readiness and the gRPC translation.
  \<^item> \<open>Client_Api\<close> (\<open>api/client_router.py\<close>), \<open>Models_Api\<close> (\<open>api/models_router.py\<close>, \<open>api/deps.py\<close>),
    \<open>Operator_Api\<close> (\<open>api/admin_router.py\<close>, the operator part of \<open>api/billing_router.py\<close>): what a client
    can see of its account, the model endpoints behind the operator gate, the kill switches and the
    audit log, and the key, plan, client and webhook endpoints, of which every write is recorded.
  \<^item> \<open>Token_Stream\<close> (\<open>inference/stream.py\<close>, \<open>inference/threaded.py\<close>), \<open>Remote\<close>
    (\<open>inference/remote/openai_compat.py\<close>): the bounded queue between the worker thread and the
    consumer, its faithfulness and termination; retries before the first token only.
  \<^item> \<open>Gguf\<close>, \<open>Model_Registry\<close>, \<open>Downloader\<close>, \<open>Model_Service\<close> (\<open>models/*.py\<close>): the probe of a model file,
    total on every byte sequence and inverse to an encoder; the table with at most one active model;
    resumable downloads that commit verified files only; ownership of files by running operations.
  \<^item> \<open>Audit_Log\<close>, \<open>Migrations\<close>, \<open>Backup\<close> (\<open>audit/log.py\<close>, \<open>store/migrations.py\<close>, \<open>store/ownership.py\<close>,
    \<open>backup.py\<close>): tamper evidence of the hash chain, resumable migrations, archive round trip and
    exclusive ownership.
  \<^item> \<open>Event_Bus\<close>, \<open>Route_Metrics\<close>, \<open>Log_Buffer\<close>, \<open>Bench\<close> (\<open>telemetry/*.py\<close>, \<open>bench/*.py\<close>): bounded queues
    that drop the oldest (interface \<open>drop_oldest\<close>), exact counters, masked secrets, the regression gate.
  \<^item> \<open>Config\<close>, \<open>Engine_App\<close>, \<open>Lifespan\<close> (\<open>config.py\<close>, \<open>inference/factory.py\<close>, \<open>main.py\<close>): which
    configurations are accepted, the pool and router they assemble, the middleware in front of
    every endpoint, and the startup and shutdown with all writers of the store interleaving.

  Each interface is a \<open>locale\<close> whose laws are discharged by an \<open>interpretation\<close> on the model of the
  component that provides it: \<open>keyed_table\<close> on the tables of keys, plans, clients and models,
  \<open>slot_pool\<close> on the limiter and on the backend pool, \<open>scoped_acquire\<close> on the registry,
  \<open>drop_oldest\<close> on the history and on the subscriber queues.

  \<^bold>\<open>Bounds and fuel.\<close> Loops are structural recursion over the list they consume, or step relations
  with a decreasing measure (\<open>Token_Stream\<close>). The readers of \<open>Gguf\<close> recurse over counts read from the
  file and stop at its end. No bound is placed on the sizes of tables, queues or streams except the
  configured ones.

  \<^bold>\<open>Across components\<close>, below: a revoked key opens no surface of the engine.

  \<^bold>\<open>Not modelled\<close>: the native llama.cpp runtime, the HTTP and gRPC servers and clients, the SQLite
  engine below single statements, the printing of JSON and log records, probes of the host
  (\<open>telemetry/hardware.py\<close>, \<open>power.py\<close>, \<open>resources.py\<close>, \<open>diagnostics.py\<close>), the command line, the benchmark
  driver, regular-expression redaction of model errors (\<open>models/redaction.py\<close>), read-only panels
  that print one store's listing, and the release scripts. They are wrappers of the operating
  system or of third-party packages with little logic of their own, or are reached only through
  the operations modelled here.
\<close>

lemma key_verify_revoked:
  assumes "fetchone (\<lambda>r. k_hash r = hash t) (api_keys s) = Some row" and "key_revoke (k_id row) now s = (ok, s')"
  shows "key_verify hash t now' s' = (None, s')"
proof -
  let ?p = "\<lambda>r. k_id r = k_id row \<and> k_revoked_at r = None"
  let ?f = "\<lambda>r. r\<lparr>k_revoked_at := Some now\<rparr>"
  have "fetchone (\<lambda>r. k_hash r = hash t) (upd_where ?p ?f ks) = map_option (\<lambda>r. if ?p r then ?f r else r) (fetchone (\<lambda>r. k_hash r = hash t) ks)"
    for ks :: "api_key_row list" by (induction ks) auto
  then show ?thesis using assms by (auto simp: key_verify_def key_revoke_def Let_def)
qed



end
